(* ===== verification/Gicame_Prelude.thy ===== *)
theory Gicame_Prelude
  imports Main "HOL-Library.Word" "HOL-Library.Sublist"
begin

text \<open>
  Shared vocabulary of the Gicame development: the machine types of
  \<^verbatim>\<open>src/headers/common.h\<close> and \<^verbatim>\<open>src/headers/configuration.h\<close> (a 64-bit target, the
  only one the README tests, with the default \<^verbatim>\<open>ipc_size_t = size_t\<close>), C++
  exceptions as values of a sum type, raw memory as lists of bytes with
  \<^verbatim>\<open>memcpy\<close>, and the list and word lemmas the components share.
\<close>

unbundle bit_operations_syntax

section \<open>Machine types\<close>

type_synonym byte_t = "8 word"
type_synonym uint8 = "8 word"
type_synonym uint16 = "16 word"
type_synonym uint32 = "32 word"
type_synonym uint64 = "64 word"
type_synonym size_t = "64 word"
type_synonym ipc_size_t = "64 word"

section \<open>Exceptions as values\<close>

text \<open>
  What a call can end with instead of a value: a \<^verbatim>\<open>std::runtime_error\<close> with its
  message, the \<^verbatim>\<open>std::length_error\<close> of a vector that cannot grow that much, or
  undefined behaviour (an access outside an object), which the model makes a value so
  that its absence can be proved.
\<close>

datatype exn =
    Runtime_error string
  | Length_error
  | Undefined_behaviour string

type_synonym 'a result = "exn + 'a"

definition RUNTIME_ERROR :: "string \<Rightarrow> string \<Rightarrow> exn" where
  "RUNTIME_ERROR fn msg = Runtime_error (fn @ ''(...): '' @ msg)"

text \<open>Sequential composition: an exception skips the rest.\<close>

definition bind_result :: "'a result \<Rightarrow> ('a \<Rightarrow> 'b result) \<Rightarrow> 'b result" where
  "bind_result m f = (case m of Inl e \<Rightarrow> Inl e | Inr x \<Rightarrow> f x)"

definition is_ok :: "'a result \<Rightarrow> bool" where
  "is_ok r = (case r of Inl _ \<Rightarrow> False | Inr _ \<Rightarrow> True)"

section \<open>Raw memory\<close>

text \<open>
  \<^verbatim>\<open>memcpy\<close> into an object of known extent: a copy that would leave it is undefined
  behaviour, any other replaces exactly the addressed bytes.
\<close>

definition blit :: "'a list \<Rightarrow> nat \<Rightarrow> 'a list \<Rightarrow> 'a list" where
  "blit buf off src = take off buf @ src @ drop (off + length src) buf"

definition memcpy_to :: "'a list \<Rightarrow> nat \<Rightarrow> 'a list \<Rightarrow> 'a list result" where
  "memcpy_to buf off src =
     (if off + length src \<le> length buf then Inr (blit buf off src)
      else Inl (Undefined_behaviour ''memcpy: write out of bounds''))"

definition memcpy_from :: "'a list \<Rightarrow> nat \<Rightarrow> nat \<Rightarrow> 'a list result" where
  "memcpy_from buf off n =
     (if off + n \<le> length buf then Inr (take n (drop off buf))
      else Inl (Undefined_behaviour ''memcpy: read out of bounds''))"

definition memcpy :: "'a list \<Rightarrow> nat \<Rightarrow> 'a list \<Rightarrow> nat \<Rightarrow> nat \<Rightarrow> 'a list result" where
  "memcpy dst doff src soff n =
     bind_result (memcpy_from src soff n) (memcpy_to dst doff)"

definition vec_get :: "'a list \<Rightarrow> nat \<Rightarrow> 'a result" where
  "vec_get v i =
     (if i < length v then Inr (v ! i)
      else Inl (Undefined_behaviour ''operator[]: index out of bounds''))"

definition vec_set :: "'a list \<Rightarrow> nat \<Rightarrow> 'a \<Rightarrow> 'a list result" where
  "vec_set v i x =
     (if i < length v then Inr (v[i := x])
      else Inl (Undefined_behaviour ''operator[]: index out of bounds''))"

section \<open>Numbers as text\<close>

text \<open>\<^verbatim>\<open>std::to_string\<close> of an unsigned number.\<close>

fun decimal :: "nat \<Rightarrow> string" where
  "decimal n = (if n < 10 then [''0123456789'' ! n] else decimal (n div 10) @ [''0123456789'' ! (n mod 10)])"

declare decimal.simps [simp del]

section \<open>Shared lemmas\<close>

named_theorems word_nat "moves word arithmetic to natural numbers"

subsection \<open>Results\<close>

lemma bind_result_simps [simp]:
  "bind_result (Inl e) f = Inl e"
  "bind_result (Inr x) f = f x"
  by (simp_all add: bind_result_def)

lemma bind_result_Inr:
  "bind_result m f = Inr y \<longleftrightarrow> (\<exists>x. m = Inr x \<and> f x = Inr y)"
  by (cases m) auto

lemma is_ok_simps [simp]: "is_ok (Inr x)" "\<not> is_ok (Inl e)"
  by (simp_all add: is_ok_def)

lemma is_ok_iff: "is_ok r \<longleftrightarrow> (\<exists>x. r = Inr x)"
  by (cases r) simp_all

subsection \<open>Lists and memory\<close>

lemma length_blit [simp]:
  "off + length src \<le> length buf \<Longrightarrow> length (blit buf off src) = length buf"
  by (simp add: blit_def)

lemma nth_blit:
  assumes "off + length src \<le> length buf" and "i < length buf"
  shows "blit buf off src ! i =
    (if off \<le> i \<and> i < off + length src then src ! (i - off) else buf ! i)"
  using assms by (auto simp: blit_def nth_append nth_drop min_def)

lemma nth_blit_slice:
  assumes "soff + n \<le> length src" "doff + n \<le> length dst" "k < length dst"
  shows "blit dst doff (take n (drop soff src)) ! k =
    (if doff \<le> k \<and> k < doff + n then src ! (soff + (k - doff)) else dst ! k)"
proof -
  have len: "length (take n (drop soff src)) = n"
    using assms(1) by simp
  have "blit dst doff (take n (drop soff src)) ! k =
      (if doff \<le> k \<and> k < doff + n then take n (drop soff src) ! (k - doff) else dst ! k)"
    using nth_blit [of doff "take n (drop soff src)" dst k] assms(2,3) unfolding len by simp
  then show ?thesis
    using assms(1) by auto
qed

lemma length_blit_slice:
  assumes "soff + n \<le> length src" "doff + n \<le> length dst"
  shows "length (blit dst doff (take n (drop soff src))) = length dst"
  using assms by (intro length_blit) simp

lemma take_drop_split: "drop k xs = take n (drop k xs) @ drop (k + n) xs"
  by (metis append_take_drop_id drop_drop add.commute)

lemma take_drop_append [simp]: "take n xs @ drop n xs @ ys = xs @ ys"
  by (metis append.assoc append_take_drop_id)

lemma take_blit [simp]: "k \<le> off \<Longrightarrow> off \<le> length buf \<Longrightarrow> take k (blit buf off src) = take k buf"
  by (simp add: blit_def)

lemma take_drop_blit:
  "off \<le> length buf \<Longrightarrow> take (length src) (drop off (blit buf off src)) = src"
  by (simp add: blit_def)

lemma blit_append:
  "off + length xs + length ys \<le> length buf \<Longrightarrow> blit (blit buf off xs) (off + length xs) ys = blit buf off (xs @ ys)"
  by (simp add: blit_def ac_simps)

lemma memcpy_to_ok:
  "off + length src \<le> length buf \<Longrightarrow> memcpy_to buf off src = Inr (blit buf off src)"
  by (simp add: memcpy_to_def)

lemma memcpy_from_ok:
  "off + n \<le> length buf \<Longrightarrow> memcpy_from buf off n = Inr (take n (drop off buf))"
  by (simp add: memcpy_from_def)

lemma memcpy_ok:
  assumes "soff + n \<le> length src" "doff + n \<le> length dst"
  shows "memcpy dst doff src soff n = Inr (blit dst doff (take n (drop soff src)))"
  using assms by (simp add: memcpy_def memcpy_from_def memcpy_to_def)

lemma vec_get_ok [simp]: "i < length v \<Longrightarrow> vec_get v i = Inr (v ! i)"
  by (simp add: vec_get_def)

lemma vec_set_ok [simp]: "i < length v \<Longrightarrow> vec_set v i x = Inr (v[i := x])"
  by (simp add: vec_set_def)

subsection \<open>Words\<close>

lemma unat_lt_size [simp]: "unat (x :: size_t) < 18446744073709551616"
  using unsigned_less [of x] by simp

lemma size_le_nat [word_nat]: "(x :: 'a::len word) \<le> y \<longleftrightarrow> unat x \<le> unat y"
  by (rule word_le_nat_alt)

lemma size_less_nat [word_nat]: "(x :: 'a::len word) < y \<longleftrightarrow> unat x < unat y"
  by (rule word_less_nat_alt)

lemma size_eq_nat [word_nat]: "(x :: 'a::len word) = y \<longleftrightarrow> unat x = unat y"
  by (rule word_unat_eq_iff)

lemma unat_minus_le [word_nat]:
  "unat y \<le> unat x \<Longrightarrow> unat (x - y :: size_t) = unat x - unat y"
  by (simp add: unat_sub word_le_nat_alt)

lemma unat_plus_lt [word_nat]:
  "unat x + unat y < 18446744073709551616 \<Longrightarrow> unat (x + y :: size_t) = unat x + unat y"
  by (simp add: unat_word_ariths)

lemma unat_of_nat_size [word_nat]:
  "n < 18446744073709551616 \<Longrightarrow> unat (of_nat n :: size_t) = n"
  by (simp add: unat_of_nat)

end
