(* ===== verification/CircularBuffer.thy ===== *)
theory CircularBuffer
  imports Gicame_Prelude
begin

text \<open>
  The index arithmetic of a single producer single consumer ring:
  \<^verbatim>\<open>src/headers/concurrency/implementation_details/CircularBuffer.h\<close>. The two functions
  are kept on 64-bit words, as the source computes them. They are related to a ring
  distance on natural numbers and to the list of bytes the ring holds
  (\<open>ring_contents\<close>), which is what the queues built on it promise.
\<close>

section \<open>The source's definitions\<close>

record CircularBufferDescriptor =
  head :: ipc_size_t
  tail :: ipc_size_t

definition CACHE_LINE_SIZE :: size_t where
  "CACHE_LINE_SIZE = 64"

definition circularBufferSize :: "size_t \<Rightarrow> ipc_size_t \<Rightarrow> ipc_size_t \<Rightarrow> size_t" where
  "circularBufferSize cap h t = (if h \<ge> t then h - t else cap - (t - h))"

definition circularBufferFreeSpace :: "size_t \<Rightarrow> ipc_size_t \<Rightarrow> ipc_size_t \<Rightarrow> size_t" where
  "circularBufferFreeSpace cap h t =
     (let size = (if h \<ge> t then h - t else cap - (t - h)) in cap - size - 1)"

section \<open>The ring on natural numbers\<close>

definition ring_dist :: "nat \<Rightarrow> nat \<Rightarrow> nat \<Rightarrow> nat" where
  "ring_dist c h t = (if t \<le> h then h - t else c - (t - h))"

definition ring_contents :: "nat \<Rightarrow> nat \<Rightarrow> nat \<Rightarrow> 'a list \<Rightarrow> 'a list" where
  "ring_contents c h t buf = map (\<lambda>i. buf ! ((t + i) mod c)) [0..<ring_dist c h t]"

lemma ring_dist_lt: "h < c \<Longrightarrow> t < c \<Longrightarrow> ring_dist c h t < c"
  by (auto simp: ring_dist_def)

lemma ring_dist_mod: "h < c \<Longrightarrow> t < c \<Longrightarrow> (t + ring_dist c h t) mod c = h"
  by (auto simp: ring_dist_def)

lemma ring_dist_self [simp]: "ring_dist c h h = 0"
  by (simp add: ring_dist_def)

lemma add_mod_lt: "(i::nat) < c \<Longrightarrow> n < c \<Longrightarrow> (i + n) mod c = (if i + n < c then i + n else i + n - c)"
  by (simp add: mod_if)

lemma ring_dist_push:
  assumes "h < c" "t < c" "n + ring_dist c h t < c"
  shows "ring_dist c ((h + n) mod c) t = ring_dist c h t + n"
  using assms by (auto simp: ring_dist_def add_mod_lt split: if_splits)

lemma ring_dist_pop:
  assumes "h < c" "t < c" "n \<le> ring_dist c h t"
  shows "ring_dist c h ((t + n) mod c) = ring_dist c h t - n"
  using assms ring_dist_lt [of h c t]
  by (auto simp: ring_dist_def add_mod_lt split: if_splits)

lemma length_ring_contents [simp]: "length (ring_contents c h t buf) = ring_dist c h t"
  by (simp add: ring_contents_def)

lemma ring_contents_nth:
  "i < ring_dist c h t \<Longrightarrow> ring_contents c h t buf ! i = buf ! ((t + i) mod c)"
  by (simp add: ring_contents_def)

text \<open>Removing from the tail side.\<close>

lemma ring_contents_pop:
  assumes "h < c" "t < c" "n \<le> ring_dist c h t"
  shows "ring_contents c h ((t + n) mod c) buf = drop n (ring_contents c h t buf)"
proof (rule nth_equalityI)
  show "length (ring_contents c h ((t + n) mod c) buf) = length (drop n (ring_contents c h t buf))"
    using assms by (simp add: ring_dist_pop)
next
  fix i
  assume i: "i < length (ring_contents c h ((t + n) mod c) buf)"
  then have "i < ring_dist c h t - n"
    using assms by (simp add: ring_dist_pop)
  then show "ring_contents c h ((t + n) mod c) buf ! i = drop n (ring_contents c h t buf) ! i"
    using assms by (simp add: ring_contents_nth ring_dist_pop mod_simps add.assoc)
qed

text \<open>The slots of the free part are not among the slots of the contents.\<close>

lemma ring_slots_disjoint:
  assumes "h < c" "t < c" "n + ring_dist c h t < c" "i < ring_dist c h t" "j < n"
  shows "(t + i) mod c \<noteq> (h + j) mod c"
  using assms ring_dist_lt [of h c t]
  by (auto simp: ring_dist_def add_mod_lt split: if_splits)

text \<open>Writing data into the free slots leaves the contents as they are.\<close>

lemma ring_contents_cong:
  assumes "\<And>i. i < ring_dist c h t \<Longrightarrow> buf' ! ((t + i) mod c) = buf ! ((t + i) mod c)"
  shows "ring_contents c h t buf' = ring_contents c h t buf"
  using assms by (simp add: ring_contents_def)

text \<open>Publishing data that was written right after the head appends it.\<close>

lemma ring_contents_push:
  assumes bnd: "h < c" "t < c" "length data + ring_dist c h t < c"
    and new: "\<And>i. i < length data \<Longrightarrow> buf ! ((h + i) mod c) = data ! i"
  shows "ring_contents c ((h + length data) mod c) t buf = ring_contents c h t buf @ data"
proof (rule nth_equalityI)
  show "length (ring_contents c ((h + length data) mod c) t buf)
      = length (ring_contents c h t buf @ data)"
    using bnd by (simp add: ring_dist_push)
next
  fix i
  assume i: "i < length (ring_contents c ((h + length data) mod c) t buf)"
  then have i': "i < ring_dist c h t + length data"
    using bnd by (simp add: ring_dist_push)
  show "ring_contents c ((h + length data) mod c) t buf ! i
      = (ring_contents c h t buf @ data) ! i"
  proof (cases "i < ring_dist c h t")
    case True
    then show ?thesis
      using i bnd by (simp add: ring_contents_nth ring_dist_push nth_append)
  next
    case False
    define j where "j = i - ring_dist c h t"
    have "i = ring_dist c h t + j" "j < length data"
      using False i' by (auto simp: j_def)
    moreover have "(t + (ring_dist c h t + j)) mod c = (h + j) mod c"
      using ring_dist_mod [OF bnd(1,2)] by (metis add.assoc mod_add_left_eq)
    ultimately show ?thesis
      using i bnd new by (simp add: ring_contents_nth ring_dist_push nth_append)
  qed
qed

text \<open>
  The copy in at most two parts: up to the end of the ring, then from its start. The
  first lemma is the part before the wrap, the second the part after it.
\<close>

lemma ring_write_first:
  fixes buf data :: "'a list" and c h n off :: nat
  assumes "h < c" "n < c" "length buf = c" "off + n \<le> length data"
  defines "f \<equiv> min n (c - h)"
  defines "b \<equiv> blit buf h (take f (drop off data))"
  shows "length b = c"
    and "\<And>i. i < f \<Longrightarrow> b ! ((h + i) mod c) = data ! (off + i)"
    and "\<And>k. k < c \<Longrightarrow> \<forall>j<n. k \<noteq> (h + j) mod c \<Longrightarrow> b ! k = buf ! k"
proof -
  have f: "f \<le> n" "h + f \<le> c" "off + f \<le> length data"
    using assms(1,4) by (auto simp: f_def)
  show "length b = c"
    unfolding b_def using f assms(3) by (simp add: length_blit_slice)
  have nth: "b ! k = (if h \<le> k \<and> k < h + f then data ! (off + (k - h)) else buf ! k)" if "k < c" for k
    unfolding b_def using f assms(3) that by (simp add: nth_blit_slice)
  show "b ! ((h + i) mod c) = data ! (off + i)" if "i < f" for i
    using that f nth [of "h + i"] by simp
  show "b ! k = buf ! k" if k: "k < c" "\<forall>j<n. k \<noteq> (h + j) mod c" for k
  proof -
    have "k < h" if "k < h + f"
      using that k f(1,2) by (metis le_add_diff_inverse less_le_trans linorder_not_le mod_less nat_add_left_cancel_less)
    then show ?thesis
      using nth [OF k(1)] by (auto simp: not_less)
  qed
qed

lemma ring_write_rest:
  fixes buf data :: "'a list" and c h n off :: nat
  defines "f \<equiv> min n (c - h)"
  defines "b \<equiv> (if f = n then buf else blit buf 0 (take (n - f) (drop (off + f) data)))"
  assumes "h < c" "n < c" "length buf = c" "off + n \<le> length data"
    and old: "\<And>i. i < f \<Longrightarrow> buf ! ((h + i) mod c) = data ! (off + i)"
  shows "length b = c"
    and "\<And>i. i < n \<Longrightarrow> b ! ((h + i) mod c) = data ! (off + i)"
    and "\<And>k. k < c \<Longrightarrow> \<forall>j<n. k \<noteq> (h + j) mod c \<Longrightarrow> b ! k = buf ! k"
proof -
  have f: "f \<noteq> n \<Longrightarrow> f = c - h \<and> f < n \<and> n - f < h"
    using assms(4) by (auto simp: f_def)
  show "length b = c"
    unfolding b_def using f assms(3-6) by (auto simp: length_blit_slice)
  have nth: "b ! k = (if f \<noteq> n \<and> k < n - f then data ! (off + f + k) else buf ! k)" if "k < c" for k
    unfolding b_def using f assms(3-6) that by (auto simp: nth_blit_slice)
  show "b ! ((h + i) mod c) = data ! (off + i)" if i: "i < n" for i
  proof (cases "i < f")
    case True
    then have lt: "h + i < c"
      by (auto simp: f_def)
    moreover have "\<not> (f \<noteq> n \<and> h + i < n - f)"
      using f by auto
    ultimately have "b ! (h + i) = buf ! (h + i)"
      using nth [of "h + i"] by (simp only: if_False)
    then show ?thesis
      using old [OF True] lt by (simp only: mod_less)
  next
    case False
    then have "f \<noteq> n" "(h + i) mod c = i - f"
      using i f assms(3,4) by (auto simp: add_mod_lt)
    then show ?thesis
      using nth [of "i - f"] i False assms(4) by auto
  qed
  show "b ! k = buf ! k" if k: "k < c" "\<forall>j<n. k \<noteq> (h + j) mod c" for k
  proof -
    have "\<not> (f \<noteq> n \<and> k < n - f)"
    proof
      assume lt: "f \<noteq> n \<and> k < n - f"
      then have "(h + (f + k)) mod c = k"
        using f assms(3,4) by (auto simp: add_mod_lt)
      with k(2) lt show False
        by (metis less_diff_conv add.commute)
    qed
    then show ?thesis
      using nth [OF k(1)] by (simp only: if_False)
  qed
qed

text \<open>The same two parts when reading the first bytes of the contents.\<close>

lemma take_ring_contents:
  assumes "t < c" "n \<le> ring_dist c h t" "length buf = c" "n < c"
  shows "n \<le> c - t \<Longrightarrow> take n (ring_contents c h t buf) = take n (drop t buf)"
    and "\<not> n \<le> c - t \<Longrightarrow>
      take n (ring_contents c h t buf) = take (c - t) (drop t buf) @ take (n - (c - t)) buf"
proof -
  show "take n (ring_contents c h t buf) = take n (drop t buf)" if "n \<le> c - t"
    using that assms by (auto intro!: nth_equalityI simp: ring_contents_nth)
  show "take n (ring_contents c h t buf) = take (c - t) (drop t buf) @ take (n - (c - t)) buf"
    if big: "\<not> n \<le> c - t"
  proof (rule nth_equalityI)
    fix i
    assume "i < length (take n (ring_contents c h t buf))"
    then have i: "i < n" using assms by simp
    then show "take n (ring_contents c h t buf) ! i
        = (take (c - t) (drop t buf) @ take (n - (c - t)) buf) ! i"
      using assms big by (cases "i < c - t") (auto simp: ring_contents_nth nth_append add_mod_lt add.commute)
  qed (use assms big in auto)
qed

section \<open>The word functions compute the ring distance\<close>

lemma unat_circularBufferSize [word_nat]:
  assumes "h < cap" "t < cap"
  shows "unat (circularBufferSize cap h t) = ring_dist (unat cap) (unat h) (unat t)"
  using assms
  by (auto simp: circularBufferSize_def ring_dist_def word_nat)

lemma unat_circularBufferFreeSpace [word_nat]:
  assumes "h < cap" "t < cap"
  shows "unat (circularBufferFreeSpace cap h t) = unat cap - 1 - ring_dist (unat cap) (unat h) (unat t)"
proof -
  have size: "unat (circularBufferSize cap h t) = ring_dist (unat cap) (unat h) (unat t)"
    using assms by (rule unat_circularBufferSize)
  have lt: "ring_dist (unat cap) (unat h) (unat t) < unat cap"
    using assms by (simp add: ring_dist_lt word_nat)
  have eq: "circularBufferFreeSpace cap h t = cap - circularBufferSize cap h t - 1"
    by (simp add: circularBufferFreeSpace_def circularBufferSize_def)
  have "unat (cap - circularBufferSize cap h t)
      = unat cap - ring_dist (unat cap) (unat h) (unat t)"
    using size lt by (simp add: unat_minus_le)
  with lt show ?thesis
    unfolding eq by (subst unat_minus_le) auto
qed

end
