(* ===== verification/ByteRing.thy ===== *)
theory ByteRing
  imports CircularBuffer
begin

text \<open>
  The byte-wise single producer single consumer ring,
  \<^verbatim>\<open>src/headers/concurrency/ByteRing.h\<close>. The ring lives in memory shared by two
  processes: the descriptor (head and tail) followed by the buffer. Each process has an
  endpoint object with its own snapshot of the other side's index. \<open>push\<close> and
  \<open>pop\<close> are given step by step, one step per access to the shared memory or to the
  wait policy, so that the two sides can be interleaved in every way; a step function
  is deterministic for its side and answers \<open>None\<close> while that side is blocked.
\<close>

section \<open>State\<close>

datatype ConcurrencyRole = MASTER | SLAVE

record ring_mem = CircularBufferDescriptor +
  buffer :: "byte_t list"

record ByteRing =
  capacity :: size_t
  cachedHead :: ipc_size_t
  cachedTail :: ipc_size_t

text \<open>
  The template parameter \<^verbatim>\<open>WaitPolicy\<close>: what the four calls on \<^verbatim>\<open>waiter\<close> do to the
  state \<open>'w\<close> of the policy. A wait is split at the point where it blocks: entering it,
  and returning from it (\<open>None\<close> while it has to sleep).
\<close>

record 'w wait_policy =
  enterDataPresent :: "'w \<Rightarrow> 'w"
  leaveDataPresent :: "'w \<Rightarrow> 'w option"
  enterDataFree :: "'w \<Rightarrow> 'w"
  leaveDataFree :: "'w \<Rightarrow> 'w option"
  signalDataPresent :: "'w \<Rightarrow> 'w"
  signalDataFree :: "'w \<Rightarrow> 'w"

section \<open>Construction and queries\<close>

definition ByteRing_new :: ByteRing where
  "ByteRing_new = \<lparr>capacity = 0, cachedHead = 0, cachedTail = 0\<rparr>"

definition initRing ::
    "ByteRing \<Rightarrow> ring_mem \<Rightarrow> size_t \<Rightarrow> ConcurrencyRole \<Rightarrow> (ByteRing \<times> ring_mem) result" where
  "initRing r mem cap cr =
     (let maxCapacity = NOT (0 :: ipc_size_t) in
      if cap > maxCapacity then Inl (RUNTIME_ERROR ''initRing'' ''Capacity too big'')
      else if cap < 2 then Inl (RUNTIME_ERROR ''initRing'' ''Insufficient capacity'')
      else (case cr of
        MASTER \<Rightarrow> Inr (r\<lparr>capacity := cap, cachedHead := 0, cachedTail := 0\<rparr>,
                       mem\<lparr>head := 0, tail := 0\<rparr>)
      | SLAVE \<Rightarrow> Inr (r\<lparr>capacity := cap, cachedHead := head mem, cachedTail := tail mem\<rparr>,
                      mem)))"

definition ring_size :: "ByteRing \<Rightarrow> ring_mem \<Rightarrow> size_t" where
  "ring_size r mem = circularBufferSize (capacity r) (head mem) (tail mem)"

definition ring_freeSpace :: "ByteRing \<Rightarrow> ring_mem \<Rightarrow> size_t" where
  "ring_freeSpace r mem = circularBufferFreeSpace (capacity r) (head mem) (tail mem)"

section \<open>Pieces of push and pop\<close>

definition chunkSize :: "size_t \<Rightarrow> size_t \<Rightarrow> size_t" where
  "chunkSize cap dataSize = (if dataSize < cap - 1 then dataSize else cap - 1)"

definition firstPart :: "size_t \<Rightarrow> ipc_size_t \<Rightarrow> size_t \<Rightarrow> size_t" where
  "firstPart cap i n = (let avail = cap - i in if n < avail then n else avail)"

definition nextIndex :: "size_t \<Rightarrow> ipc_size_t \<Rightarrow> size_t \<Rightarrow> ipc_size_t" where
  "nextIndex cap i n = (let next = i + n in if next \<ge> cap then next - cap else next)"

definition freeSpaceSeen :: "ByteRing \<Rightarrow> ring_mem \<Rightarrow> size_t" where
  "freeSpaceSeen r mem = circularBufferFreeSpace (capacity r) (head mem) (cachedTail r)"

definition sizeSeen :: "ByteRing \<Rightarrow> ring_mem \<Rightarrow> size_t" where
  "sizeSeen r mem = circularBufferSize (capacity r) (cachedHead r) (tail mem)"

section \<open>The two sides\<close>

datatype side_pc =
    Idle
  | Loop
  | Reload size_t
  | Wait size_t
  | Sleep size_t
  | Copy size_t
  | Copy_rest size_t
  | Publish size_t
  | Notify size_t
  | Fault

record producer =
  p_ring :: ByteRing
  p_pc :: side_pc
  p_data :: "byte_t list"
  p_off :: nat
  p_left :: size_t
  p_todo :: "byte_t list list"

record consumer =
  c_ring :: ByteRing
  c_pc :: side_pc
  c_out :: "byte_t list"
  c_off :: nat
  c_left :: size_t
  c_todo :: "size_t list"
  c_done :: "byte_t list list"

record 'w sys =
  mem :: ring_mem
  prodr :: producer
  consr :: consumer
  wst :: 'w

text \<open>
  \<open>push(data, dataSize)\<close>: \<open>p_data\<close> is the caller's object, \<open>p_off\<close> the offset of
  \<^verbatim>\<open>ptr\<close> in it and \<open>p_left\<close> the variable \<^verbatim>\<open>dataSize\<close>. The pushes still to be made are
  in \<open>p_todo\<close>.
\<close>

definition producer_step :: "'w wait_policy \<Rightarrow> 'w sys \<Rightarrow> 'w sys option" where
  "producer_step pol s =
     (let p = prodr s; m = mem s; r = p_ring p; cap = capacity r in
      case p_pc p of
        Idle \<Rightarrow>
          (case p_todo p of
             [] \<Rightarrow> None
           | d # ds \<Rightarrow> Some (s\<lparr>prodr := p\<lparr>p_pc := Loop, p_data := d, p_off := 0,
                p_left := of_nat (length d), p_todo := ds\<rparr>\<rparr>))
      | Loop \<Rightarrow>
          if p_left p = 0 then Some (s\<lparr>prodr := p\<lparr>p_pc := Idle, p_data := [], p_off := 0\<rparr>\<rparr>)
          else let n = chunkSize cap (p_left p) in
            Some (s\<lparr>prodr := p\<lparr>p_pc := (if freeSpaceSeen r m \<ge> n then Copy n else Reload n)\<rparr>\<rparr>)
      | Reload n \<Rightarrow>
          let r' = r\<lparr>cachedTail := tail m\<rparr> in
            Some (s\<lparr>prodr := p\<lparr>p_ring := r',
              p_pc := (if freeSpaceSeen r' m < n then Wait n else Copy n)\<rparr>\<rparr>)
      | Wait n \<Rightarrow> Some (s\<lparr>prodr := p\<lparr>p_pc := Sleep n\<rparr>, wst := enterDataFree pol (wst s)\<rparr>)
      | Sleep n \<Rightarrow>
          (case leaveDataFree pol (wst s) of
             None \<Rightarrow> None
           | Some w \<Rightarrow> Some (s\<lparr>prodr := p\<lparr>p_pc := Reload n\<rparr>, wst := w\<rparr>))
      | Copy n \<Rightarrow>
          let h = head m; first = firstPart cap h n in
            (case memcpy (buffer m) (unat h) (p_data p) (p_off p) (unat first) of
               Inl _ \<Rightarrow> Some (s\<lparr>prodr := p\<lparr>p_pc := Fault\<rparr>\<rparr>)
             | Inr b \<Rightarrow> Some (s\<lparr>mem := m\<lparr>buffer := b\<rparr>, prodr := p\<lparr>p_pc := Copy_rest n\<rparr>\<rparr>))
      | Copy_rest n \<Rightarrow>
          let h = head m; first = firstPart cap h n in
            if first \<noteq> n then
              (case memcpy (buffer m) 0 (p_data p) (p_off p + unat first) (unat (n - first)) of
                 Inl _ \<Rightarrow> Some (s\<lparr>prodr := p\<lparr>p_pc := Fault\<rparr>\<rparr>)
               | Inr b \<Rightarrow> Some (s\<lparr>mem := m\<lparr>buffer := b\<rparr>, prodr := p\<lparr>p_pc := Publish n\<rparr>\<rparr>))
            else Some (s\<lparr>prodr := p\<lparr>p_pc := Publish n\<rparr>\<rparr>)
      | Publish n \<Rightarrow>
          Some (s\<lparr>mem := m\<lparr>head := nextIndex cap (head m) n\<rparr>, prodr := p\<lparr>p_pc := Notify n\<rparr>\<rparr>)
      | Notify n \<Rightarrow>
          Some (s\<lparr>prodr := p\<lparr>p_pc := Loop, p_left := p_left p - n, p_off := p_off p + unat n\<rparr>,
                 wst := signalDataPresent pol (wst s)\<rparr>)
      | Fault \<Rightarrow> None)"

text \<open>
  \<open>pop(outBuffer, dataSize)\<close>: \<open>c_out\<close> is the caller's buffer (of \<^verbatim>\<open>dataSize\<close> bytes,
  zeroed when the call starts), \<open>c_off\<close> the offset of \<^verbatim>\<open>ptr\<close> in it. Finished buffers
  are collected in \<open>c_done\<close>.
\<close>

definition consumer_step :: "'w wait_policy \<Rightarrow> 'w sys \<Rightarrow> 'w sys option" where
  "consumer_step pol s =
     (let c = consr s; m = mem s; r = c_ring c; cap = capacity r in
      case c_pc c of
        Idle \<Rightarrow>
          (case c_todo c of
             [] \<Rightarrow> None
           | k # ks \<Rightarrow> Some (s\<lparr>consr := c\<lparr>c_pc := Loop, c_out := replicate (unat k) 0, c_off := 0,
                c_left := k, c_todo := ks\<rparr>\<rparr>))
      | Loop \<Rightarrow>
          if c_left c = 0 then
            Some (s\<lparr>consr := c\<lparr>c_pc := Idle, c_done := c_done c @ [c_out c], c_out := [], c_off := 0\<rparr>\<rparr>)
          else let n = chunkSize cap (c_left c) in
            Some (s\<lparr>consr := c\<lparr>c_pc := (if sizeSeen r m \<ge> n then Copy n else Reload n)\<rparr>\<rparr>)
      | Reload n \<Rightarrow>
          let r' = r\<lparr>cachedHead := head m\<rparr> in
            Some (s\<lparr>consr := c\<lparr>c_ring := r',
              c_pc := (if sizeSeen r' m < n then Wait n else Copy n)\<rparr>\<rparr>)
      | Wait n \<Rightarrow> Some (s\<lparr>consr := c\<lparr>c_pc := Sleep n\<rparr>, wst := enterDataPresent pol (wst s)\<rparr>)
      | Sleep n \<Rightarrow>
          (case leaveDataPresent pol (wst s) of
             None \<Rightarrow> None
           | Some w \<Rightarrow> Some (s\<lparr>consr := c\<lparr>c_pc := Reload n\<rparr>, wst := w\<rparr>))
      | Copy n \<Rightarrow>
          let t = tail m; first = firstPart cap t n in
            (case memcpy (c_out c) (c_off c) (buffer m) (unat t) (unat first) of
               Inl _ \<Rightarrow> Some (s\<lparr>consr := c\<lparr>c_pc := Fault\<rparr>\<rparr>)
             | Inr b \<Rightarrow> Some (s\<lparr>consr := c\<lparr>c_out := b, c_pc := Copy_rest n\<rparr>\<rparr>))
      | Copy_rest n \<Rightarrow>
          let t = tail m; first = firstPart cap t n in
            if first \<noteq> n then
              (case memcpy (c_out c) (c_off c + unat first) (buffer m) 0 (unat (n - first)) of
                 Inl _ \<Rightarrow> Some (s\<lparr>consr := c\<lparr>c_pc := Fault\<rparr>\<rparr>)
               | Inr b \<Rightarrow> Some (s\<lparr>consr := c\<lparr>c_out := b, c_pc := Publish n\<rparr>\<rparr>))
            else Some (s\<lparr>consr := c\<lparr>c_pc := Publish n\<rparr>\<rparr>)
      | Publish n \<Rightarrow>
          Some (s\<lparr>mem := m\<lparr>tail := nextIndex cap (tail m) n\<rparr>, consr := c\<lparr>c_pc := Notify n\<rparr>\<rparr>)
      | Notify n \<Rightarrow>
          Some (s\<lparr>consr := c\<lparr>c_pc := Loop, c_left := c_left c - n, c_off := c_off c + unat n\<rparr>,
                 wst := signalDataFree pol (wst s)\<rparr>)
      | Fault \<Rightarrow> None)"

section \<open>Interleaving\<close>

datatype side = Producer | Consumer

definition side_step :: "'w wait_policy \<Rightarrow> side \<Rightarrow> 'w sys \<Rightarrow> 'w sys option" where
  "side_step pol i s = (case i of Producer \<Rightarrow> producer_step pol s | Consumer \<Rightarrow> consumer_step pol s)"

fun run :: "'w wait_policy \<Rightarrow> side list \<Rightarrow> 'w sys \<Rightarrow> 'w sys option" where
  "run pol [] s = Some s"
| "run pol (i # is) s = (case side_step pol i s of None \<Rightarrow> None | Some s' \<Rightarrow> run pol is s')"

inductive reach :: "'w wait_policy \<Rightarrow> 'w sys \<Rightarrow> 'w sys \<Rightarrow> bool" for pol s0 where
  start: "reach pol s0 s0"
| step: "reach pol s0 s \<Longrightarrow> side_step pol i s = Some s' \<Longrightarrow> reach pol s0 s'"

text \<open>
  The system after both ends were set up with \<open>initRing\<close>: the master resets the
  indices, the slave takes its snapshots from them, and both then make the given calls.
\<close>

definition start_sys :: "size_t \<Rightarrow> byte_t list list \<Rightarrow> size_t list \<Rightarrow> 'w \<Rightarrow> 'w sys" where
  "start_sys cap msgs wants w =
     (let r = ByteRing_new\<lparr>capacity := cap\<rparr> in
      \<lparr>mem = \<lparr>head = 0, tail = 0, buffer = replicate (unat cap) 0\<rparr>,
       prodr = \<lparr>p_ring = r, p_pc = Idle, p_data = [], p_off = 0, p_left = 0, p_todo = msgs\<rparr>,
       consr = \<lparr>c_ring = r, c_pc = Idle, c_out = [], c_off = 0, c_left = 0, c_todo = wants, c_done = []\<rparr>,
       wst = w\<rparr>)"

end
