(* ===== verification/ByteRing_Fifo.thy ===== *)
theory ByteRing_Fifo
  imports ByteRing
begin

text \<open>
  Safety of \<^verbatim>\<open>ByteRing\<close> under every interleaving of one producer and one consumer and
  every wait policy: the invariant that ties the indices, the stale snapshots, the
  bytes in the ring and the bytes on both sides together, and its preservation by each
  step of \<open>push\<close> and of \<open>pop\<close>.
\<close>

section \<open>The pieces on natural numbers\<close>

lemma unat_chunkSize [word_nat]:
  assumes "2 \<le> unat cap"
  shows "unat (chunkSize cap n) = min (unat n) (unat cap - 1)"
proof -
  have "unat (cap - 1) = unat cap - 1"
    using assms by (simp add: unat_minus_le)
  then show ?thesis
    by (auto simp: chunkSize_def word_less_nat_alt)
qed

lemma unat_firstPart [word_nat]:
  assumes "i < cap"
  shows "unat (firstPart cap i n) = min (unat n) (unat cap - unat i)"
proof -
  have "unat (cap - i) = unat cap - unat i"
    using assms by (simp add: unat_minus_le word_less_nat_alt)
  then show ?thesis
    by (auto simp: firstPart_def word_less_nat_alt)
qed

lemma unat_nextIndex [word_nat]:
  assumes "i < cap" "n < cap" "unat cap \<le> 2 ^ 63"
  shows "unat (nextIndex cap i n) = (unat i + unat n) mod unat cap"
proof -
  have lt: "unat i < unat cap" "unat n < unat cap"
    using assms by (simp_all add: word_less_nat_alt)
  then have sum: "unat (i + n) = unat i + unat n"
    using assms(3) by (simp add: unat_plus_lt)
  show ?thesis
  proof (cases "unat i + unat n < unat cap")
    case True
    with sum show ?thesis
      by (simp add: nextIndex_def word_le_nat_alt)
  next
    case False
    then have "unat (i + n - cap) = unat i + unat n - unat cap"
      using sum by (simp add: unat_minus_le)
    with False sum lt show ?thesis
      by (simp add: nextIndex_def word_le_nat_alt add_mod_lt)
  qed
qed

section \<open>The invariant\<close>

definition cap_of :: "'w sys \<Rightarrow> nat" where
  "cap_of s = unat (capacity (p_ring (prodr s)))"

definition head_of :: "'w sys \<Rightarrow> nat" where
  "head_of s = unat (head (mem s))"

definition tail_of :: "'w sys \<Rightarrow> nat" where
  "tail_of s = unat (tail (mem s))"

definition contents :: "'w sys \<Rightarrow> byte_t list" where
  "contents s = ring_contents (cap_of s) (head_of s) (tail_of s) (buffer (mem s))"

text \<open>Both indices and both snapshots are slots; a snapshot never promises too much.\<close>

definition mem_ok :: "'w sys \<Rightarrow> bool" where
  "mem_ok s \<longleftrightarrow>
     2 \<le> cap_of s \<and> cap_of s \<le> 2 ^ 63 \<and>
     capacity (c_ring (consr s)) = capacity (p_ring (prodr s)) \<and>
     head_of s < cap_of s \<and> tail_of s < cap_of s \<and> length (buffer (mem s)) = cap_of s \<and>
     unat (cachedTail (p_ring (prodr s))) < cap_of s \<and>
     unat (cachedHead (c_ring (consr s))) < cap_of s \<and>
     ring_dist (cap_of s) (head_of s) (tail_of s)
       \<le> ring_dist (cap_of s) (head_of s) (unat (cachedTail (p_ring (prodr s)))) \<and>
     ring_dist (cap_of s) (unat (cachedHead (c_ring (consr s)))) (tail_of s)
       \<le> ring_dist (cap_of s) (head_of s) (tail_of s)"

text \<open>The producer: how far the current \<open>push\<close> is, and what it has already written.\<close>

definition chunk_ok :: "size_t \<Rightarrow> size_t \<Rightarrow> size_t \<Rightarrow> bool" where
  "chunk_ok cap left n \<longleftrightarrow> left \<noteq> 0 \<and> n = chunkSize cap left"

definition fits :: "'w sys \<Rightarrow> size_t \<Rightarrow> bool" where
  "fits s n \<longleftrightarrow>
     unat n + ring_dist (cap_of s) (head_of s) (unat (cachedTail (p_ring (prodr s)))) < cap_of s"

definition written :: "'w sys \<Rightarrow> nat \<Rightarrow> bool" where
  "written s k \<longleftrightarrow>
     (\<forall>i < k. buffer (mem s) ! ((head_of s + i) mod cap_of s)
        = p_data (prodr s) ! (p_off (prodr s) + i))"

definition prod_ok :: "'w sys \<Rightarrow> bool" where
  "prod_ok s \<longleftrightarrow>
     (let p = prodr s; cap = capacity (p_ring p); chk = chunk_ok cap (p_left p) in
      length (p_data p) < 2 ^ 64 \<and> (\<forall>d \<in> set (p_todo p). length d < 2 ^ 64) \<and>
      p_off p + unat (p_left p) = length (p_data p) \<and>
      (case p_pc p of
         Idle \<Rightarrow> p_data p = []
       | Loop \<Rightarrow> True
       | Reload n \<Rightarrow> chk n
       | Wait n \<Rightarrow> chk n
       | Sleep n \<Rightarrow> chk n
       | Copy n \<Rightarrow> chk n \<and> fits s n
       | Copy_rest n \<Rightarrow> chk n \<and> fits s n \<and> written s (unat (firstPart cap (head (mem s)) n))
       | Publish n \<Rightarrow> chk n \<and> fits s n \<and> written s (unat n)
       | Notify n \<Rightarrow> chk n
       | Fault \<Rightarrow> False))"

text \<open>The consumer: what it has copied is what the ring held at its front.\<close>

definition holds :: "'w sys \<Rightarrow> size_t \<Rightarrow> bool" where
  "holds s n \<longleftrightarrow>
     unat n \<le> ring_dist (cap_of s) (unat (cachedHead (c_ring (consr s)))) (tail_of s)"

definition copied :: "'w sys \<Rightarrow> nat \<Rightarrow> bool" where
  "copied s k \<longleftrightarrow> take k (drop (c_off (consr s)) (c_out (consr s))) = take k (contents s)"

definition cons_ok :: "'w sys \<Rightarrow> bool" where
  "cons_ok s \<longleftrightarrow>
     (let c = consr s; cap = capacity (c_ring c); chk = chunk_ok cap (c_left c) in
      c_off c + unat (c_left c) = length (c_out c) \<and>
      (case c_pc c of
         Idle \<Rightarrow> c_out c = []
       | Loop \<Rightarrow> True
       | Reload n \<Rightarrow> chk n
       | Wait n \<Rightarrow> chk n
       | Sleep n \<Rightarrow> chk n
       | Copy n \<Rightarrow> chk n \<and> holds s n
       | Copy_rest n \<Rightarrow> chk n \<and> holds s n \<and> copied s (unat (firstPart cap (tail (mem s)) n))
       | Publish n \<Rightarrow> chk n \<and> holds s n \<and> copied s (unat n)
       | Notify n \<Rightarrow> chk n
       | Fault \<Rightarrow> False))"

text \<open>
  The bytes of the run in order: delivered, in the consumer's buffer, in the ring, not
  yet published.
\<close>

definition in_flight :: "side_pc \<Rightarrow> nat" where
  "in_flight pc = (case pc of Notify n \<Rightarrow> unat n | _ \<Rightarrow> 0)"

definition received :: "'w sys \<Rightarrow> byte_t list" where
  "received s =
     concat (c_done (consr s)) @ take (c_off (consr s) + in_flight (c_pc (consr s))) (c_out (consr s))"

definition unsent :: "'w sys \<Rightarrow> byte_t list" where
  "unsent s =
     drop (p_off (prodr s) + in_flight (p_pc (prodr s))) (p_data (prodr s)) @ concat (p_todo (prodr s))"

definition stream :: "'w sys \<Rightarrow> byte_t list" where
  "stream s = received s @ contents s @ unsent s"

definition ring_inv :: "byte_t list \<Rightarrow> 'w sys \<Rightarrow> bool" where
  "ring_inv bs s \<longleftrightarrow> mem_ok s \<and> prod_ok s \<and> cons_ok s \<and> stream s = bs"

lemmas state_defs = cap_of_def head_of_def tail_of_def

lemmas side_defs = prod_ok_def cons_ok_def received_def unsent_def in_flight_def


section \<open>Consequences of the invariant\<close>

lemma chunk_ok_bounds:
  assumes "chunk_ok cap left n" "2 \<le> unat cap"
  shows "0 < unat n" "unat n < unat cap" "unat n \<le> unat left"
proof -
  have eq: "unat n = min (unat left) (unat cap - 1)"
    using assms by (simp add: chunk_ok_def unat_chunkSize)
  have "0 < unat left"
    using assms by (simp add: chunk_ok_def unat_gt_0)
  with eq assms(2) show "0 < unat n" "unat n < unat cap" "unat n \<le> unat left"
    by auto
qed

text \<open>A stale snapshot only under-reports: what it allows is really there.\<close>

lemma fits_actual:
  "mem_ok s \<Longrightarrow> fits s n \<Longrightarrow> unat n + ring_dist (cap_of s) (head_of s) (tail_of s) < cap_of s"
  by (auto simp: mem_ok_def fits_def)

lemma holds_actual: "mem_ok s \<Longrightarrow> holds s n \<Longrightarrow> unat n \<le> length (contents s)"
  by (auto simp: mem_ok_def holds_def contents_def)

lemma freeSpaceSeen_fits:
  assumes "mem_ok s" "0 < unat n"
  shows "freeSpaceSeen (p_ring (prodr s)) (mem s) \<ge> n \<longleftrightarrow> fits s n"
proof -
  have "unat (freeSpaceSeen (p_ring (prodr s)) (mem s))
      = cap_of s - 1 - ring_dist (cap_of s) (head_of s) (unat (cachedTail (p_ring (prodr s))))"
    using assms(1)
    by (simp add: freeSpaceSeen_def unat_circularBufferFreeSpace mem_ok_def state_defs word_less_nat_alt)
  moreover have "ring_dist (cap_of s) (head_of s) (unat (cachedTail (p_ring (prodr s)))) < cap_of s"
    using assms(1) by (simp add: mem_ok_def ring_dist_lt)
  ultimately show ?thesis
    using assms(2) by (auto simp: fits_def word_le_nat_alt)
qed

lemma sizeSeen_holds:
  assumes "mem_ok s"
  shows "sizeSeen (c_ring (consr s)) (mem s) \<ge> n \<longleftrightarrow> holds s n"
proof -
  have "unat (sizeSeen (c_ring (consr s)) (mem s))
      = ring_dist (cap_of s) (unat (cachedHead (c_ring (consr s)))) (tail_of s)"
    using assms
    by (simp add: sizeSeen_def unat_circularBufferSize mem_ok_def state_defs word_less_nat_alt)
  then show ?thesis
    by (simp add: holds_def word_le_nat_alt)
qed

text \<open>Writing only slots of the free part keeps the contents.\<close>

lemma contents_write:
  assumes ok: "mem_ok s" "fits s n"
    and frame: "\<And>k. k < cap_of s \<Longrightarrow> (\<forall>j < unat n. k \<noteq> (head_of s + j) mod cap_of s) \<Longrightarrow> b ! k = buffer (mem s) ! k"
    and s': "head (mem s') = head (mem s)" "tail (mem s') = tail (mem s)" "buffer (mem s') = b"
      "capacity (p_ring (prodr s')) = capacity (p_ring (prodr s))"
  shows "contents s' = contents s"
proof -
  let ?c = "cap_of s" and ?h = "head_of s" and ?t = "tail_of s"
  have bnd: "?h < ?c" "?t < ?c" "unat n + ring_dist ?c ?h ?t < ?c"
    using ok fits_actual by (auto simp: mem_ok_def)
  have "b ! ((?t + i) mod ?c) = buffer (mem s) ! ((?t + i) mod ?c)" if "i < ring_dist ?c ?h ?t" for i
    using that bnd by (intro frame) (auto dest: ring_slots_disjoint)
  then have "ring_contents ?c ?h ?t b = ring_contents ?c ?h ?t (buffer (mem s))"
    by (rule ring_contents_cong)
  then show ?thesis
    using s' by (simp add: contents_def state_defs)
qed

text \<open>The consumer's part of the invariant survives as long as the ring only grows.\<close>

lemma cons_ok_mono:
  assumes "cons_ok s" "mem_ok s" "consr s' = consr s" "tail (mem s') = tail (mem s)"
    "capacity (p_ring (prodr s')) = capacity (p_ring (prodr s))"
    "contents s' = contents s @ xs"
  shows "cons_ok s'"
proof -
  have len: "holds s n \<Longrightarrow> unat n \<le> length (contents s)" for n
    using assms(2) by (rule holds_actual)
  have first: "unat (firstPart (capacity (c_ring (consr s))) (tail (mem s)) n) \<le> unat n" for n
    using assms(2) by (simp add: unat_firstPart mem_ok_def state_defs word_less_nat_alt)
  have h: "holds s' n = holds s n" for n
    using assms by (simp add: holds_def state_defs)
  have c: "k \<le> length (contents s) \<Longrightarrow> copied s' k = copied s k" for k
    using assms by (simp add: copied_def)
  show ?thesis
  proof (cases "c_pc (consr s)")
    case (Copy_rest n)
    then have "holds s n"
      using assms(1) by (simp add: cons_ok_def Let_def)
    then have "unat (firstPart (capacity (c_ring (consr s))) (tail (mem s)) n) \<le> length (contents s)"
      using len first order_trans by blast
    with Copy_rest show ?thesis
      using assms(1,3,4) h c by (simp add: cons_ok_def Let_def)
  next
    case (Publish n)
    then have "unat n \<le> length (contents s)"
      using assms(1) len by (simp add: cons_ok_def Let_def)
    with Publish show ?thesis
      using assms(1,3,4) h c by (simp add: cons_ok_def Let_def)
  qed (use assms(1,3,4) h in \<open>simp_all add: cons_ok_def Let_def\<close>)
qed

text \<open>The producer's part does not look at the tail.\<close>

lemma prod_ok_frame:
  assumes "prod_ok s" "prodr s' = prodr s" "head (mem s') = head (mem s)"
    "buffer (mem s') = buffer (mem s)"
  shows "prod_ok s'"
proof -
  have "fits s' n = fits s n" "written s' k = written s k" for n k
    using assms by (simp_all add: fits_def written_def state_defs)
  then show ?thesis
    using assms by (simp add: prod_ok_def Let_def cong: side_pc.case_cong)
qed


section \<open>Steps of the producer\<close>

lemma ring_invD:
  assumes "ring_inv bs s"
  shows "mem_ok s" "prod_ok s" "cons_ok s" "stream s = bs"
  using assms by (simp_all add: ring_inv_def)

text \<open>A step that touches only the producer's own variables.\<close>

lemma prod_local:
  assumes inv: "ring_inv bs s"
    and s': "mem s' = mem s" "consr s' = consr s"
      "capacity (p_ring (prodr s')) = capacity (p_ring (prodr s))"
      "cachedTail (p_ring (prodr s')) \<in> {cachedTail (p_ring (prodr s)), tail (mem s)}"
      "unsent s' = unsent s"
    and ok: "prod_ok s'"
  shows "ring_inv bs s'"
proof -
  note [simp] = s'(1,2,3,5)
  have c: "contents s' = contents s @ []"
    by (simp add: contents_def state_defs)
  have "mem_ok s'"
    using ring_invD(1) [OF inv] s'(4) by (auto simp: mem_ok_def state_defs)
  moreover have "cons_ok s'"
    by (rule cons_ok_mono [OF ring_invD(3,1) [OF inv] _ _ _ c]) simp_all
  moreover have "stream s' = bs"
    using ring_invD(4) [OF inv] c by (simp add: stream_def received_def)
  ultimately show ?thesis
    using ok by (simp add: ring_inv_def)
qed

lemma producer_idle:
  assumes inv: "ring_inv bs s" and pc: "p_pc (prodr s) = Idle"
    and step: "producer_step pol s = Some s'"
  shows "ring_inv bs s'"
proof -
  obtain d ds where todo: "p_todo (prodr s) = d # ds"
    and s': "s' = s\<lparr>prodr := (prodr s)\<lparr>p_pc := Loop, p_data := d, p_off := 0,
        p_left := of_nat (length d), p_todo := ds\<rparr>\<rparr>"
    using step pc by (auto simp: producer_step_def Let_def split: list.splits)
  have ok: "p_data (prodr s) = []" "length d < 2 ^ 64" "\<forall>e \<in> set ds. length e < 2 ^ 64"
    using ring_invD(2) [OF inv] pc todo by (auto simp: prod_ok_def Let_def)
  have "unat (of_nat (length d) :: size_t) = length d"
    using ok(2) by (simp add: unat_of_nat_size)
  then have "prod_ok s'"
    using ok s' by (simp add: prod_ok_def)
  then show ?thesis
    using pc todo ok(1) s'
    by (intro prod_local [OF inv]) (simp_all add: unsent_def in_flight_def)
qed

lemma producer_loop:
  assumes inv: "ring_inv bs s" and pc: "p_pc (prodr s) = Loop"
    and step: "producer_step pol s = Some s'"
  shows "ring_inv bs s'"
proof (cases "p_left (prodr s) = 0")
  case True
  then have s': "s' = s\<lparr>prodr := (prodr s)\<lparr>p_pc := Idle, p_data := [], p_off := 0\<rparr>\<rparr>"
    using step pc by (simp add: producer_step_def Let_def)
  have "p_off (prodr s) = length (p_data (prodr s))"
    using ring_invD(2) [OF inv] True by (simp add: prod_ok_def Let_def)
  moreover have "prod_ok s'"
    using ring_invD(2) [OF inv] pc True s' by (simp add: prod_ok_def Let_def)
  ultimately show ?thesis
    using pc s' by (intro prod_local [OF inv]) (simp_all add: unsent_def in_flight_def)
next
  case False
  define n where "n = chunkSize (capacity (p_ring (prodr s))) (p_left (prodr s))"
  have s': "s' = s\<lparr>prodr := (prodr s)\<lparr>p_pc :=
      (if freeSpaceSeen (p_ring (prodr s)) (mem s) \<ge> n then Copy n else Reload n)\<rparr>\<rparr>"
    using step pc False by (auto simp: producer_step_def Let_def n_def)
  have chk: "chunk_ok (capacity (p_ring (prodr s))) (p_left (prodr s)) n"
    using False by (simp add: chunk_ok_def n_def)
  have "0 < unat n"
    using chunk_ok_bounds(1) [OF chk] ring_invD(1) [OF inv] by (simp add: mem_ok_def state_defs)
  then have iff: "freeSpaceSeen (p_ring (prodr s)) (mem s) \<ge> n \<longleftrightarrow> fits s n"
    by (rule freeSpaceSeen_fits [OF ring_invD(1) [OF inv]])
  have "prod_ok s'"
    using ring_invD(2) [OF inv] pc chk iff s' by (auto simp: prod_ok_def Let_def fits_def state_defs)
  then show ?thesis
    using pc s' by (intro prod_local [OF inv]) (simp_all add: unsent_def in_flight_def)
qed

lemma producer_reload:
  assumes inv: "ring_inv bs s" and pc: "p_pc (prodr s) = Reload n"
    and step: "producer_step pol s = Some s'"
  shows "ring_inv bs s'"
proof -
  define r where "r = (p_ring (prodr s))\<lparr>cachedTail := tail (mem s)\<rparr>"
  obtain pc' where s': "s' = s\<lparr>prodr := (prodr s)\<lparr>p_ring := r, p_pc := pc'\<rparr>\<rparr>"
    and pc': "pc' = (if freeSpaceSeen r (mem s) < n then Wait n else Copy n)"
    using step pc by (auto simp: producer_step_def Let_def r_def)
  have chk: "chunk_ok (capacity (p_ring (prodr s))) (p_left (prodr s)) n"
    using ring_invD(2) [OF inv] pc by (simp add: prod_ok_def Let_def)
  have mem: "mem_ok s'"
    using ring_invD(1) [OF inv] s' by (simp add: mem_ok_def state_defs r_def)
  have "0 < unat n"
    using chunk_ok_bounds(1) [OF chk] ring_invD(1) [OF inv] by (simp add: mem_ok_def state_defs)
  then have "freeSpaceSeen r (mem s) \<ge> n \<longleftrightarrow> fits s' n"
    using freeSpaceSeen_fits [OF mem, of n] s' by simp
  then have "prod_ok s'"
    using ring_invD(2) [OF inv] pc pc' s' by (auto simp: prod_ok_def Let_def r_def not_less)
  then show ?thesis
    using pc pc' s' by (intro prod_local [OF inv]) (auto simp: unsent_def in_flight_def r_def Let_def)
qed

lemma producer_wait:
  assumes inv: "ring_inv bs s" and pc: "p_pc (prodr s) = Wait n \<or> p_pc (prodr s) = Sleep n"
    and step: "producer_step pol s = Some s'"
  shows "ring_inv bs s'"
proof -
  obtain w pc' where s': "s' = s\<lparr>prodr := (prodr s)\<lparr>p_pc := pc'\<rparr>, wst := w\<rparr>"
    and pc': "pc' = Sleep n \<or> pc' = Reload n"
    using step pc by (auto simp: producer_step_def Let_def split: option.splits)
  have "prod_ok s'"
    using ring_invD(2) [OF inv] pc pc' s' by (auto simp: prod_ok_def Let_def)
  then show ?thesis
    using pc pc' s' by (intro prod_local [OF inv]) (auto simp: unsent_def in_flight_def Let_def)
qed


text \<open>A step that writes slots of the free part of the ring.\<close>

lemma prod_write:
  assumes inv: "ring_inv bs s" and fit: "fits s n"
    and s': "s' = s\<lparr>mem := (mem s)\<lparr>buffer := b\<rparr>, prodr := (prodr s)\<lparr>p_pc := pc'\<rparr>\<rparr>"
    and b: "length b = cap_of s"
      "\<And>k. k < cap_of s \<Longrightarrow> \<forall>j<unat n. k \<noteq> (head_of s + j) mod cap_of s \<Longrightarrow> b ! k = buffer (mem s) ! k"
    and pc: "in_flight (p_pc (prodr s)) = 0" "in_flight pc' = 0"
    and ok: "prod_ok s'"
  shows "ring_inv bs s'"
proof -
  have cts: "contents s' = contents s"
    using b(2) s' by (intro contents_write [OF ring_invD(1) [OF inv] fit]) auto
  have "mem_ok s'"
    using ring_invD(1) [OF inv] b(1) s' by (simp add: mem_ok_def state_defs)
  moreover have "cons_ok s'"
    using cts s' by (intro cons_ok_mono [OF ring_invD(3,1) [OF inv], where xs = "[]"]) simp_all
  moreover have "stream s' = bs"
    using ring_invD(4) [OF inv] cts s' pc
    by (simp add: stream_def received_def unsent_def)
  ultimately show ?thesis
    using ok by (simp add: ring_inv_def)
qed

lemma producer_copying_facts:
  assumes inv: "ring_inv bs s" and pc: "p_pc (prodr s) \<in> {Copy n, Copy_rest n}"
  shows "fits s n" "head_of s < cap_of s" "unat n < cap_of s" "length (buffer (mem s)) = cap_of s"
    and "p_off (prodr s) + unat n \<le> length (p_data (prodr s))"
    and "unat (firstPart (capacity (p_ring (prodr s))) (head (mem s)) n) = min (unat n) (cap_of s - head_of s)"
proof -
  have m: "2 \<le> cap_of s" and hc: "head_of s < cap_of s" "length (buffer (mem s)) = cap_of s"
    using ring_invD(1) [OF inv] by (simp_all add: mem_ok_def)
  have chk: "chunk_ok (capacity (p_ring (prodr s))) (p_left (prodr s)) n" and "fits s n"
    and size: "p_off (prodr s) + unat (p_left (prodr s)) = length (p_data (prodr s))"
    using ring_invD(2) [OF inv] pc by (auto simp: prod_ok_def Let_def)
  then show "fits s n" "p_off (prodr s) + unat n \<le> length (p_data (prodr s))" "unat n < cap_of s"
    using chunk_ok_bounds [OF chk] m by (simp_all add: state_defs)
  show "head_of s < cap_of s" "length (buffer (mem s)) = cap_of s"
    by (fact hc)+
  show "unat (firstPart (capacity (p_ring (prodr s))) (head (mem s)) n) = min (unat n) (cap_of s - head_of s)"
    using hc by (simp add: unat_firstPart state_defs word_less_nat_alt)
qed

lemma producer_copy:
  assumes inv: "ring_inv bs s" and pc: "p_pc (prodr s) = Copy n"
    and step: "producer_step pol s = Some s'"
  shows "ring_inv bs s'"
proof -
  let ?p = "prodr s"
  define f where "f = min (unat n) (cap_of s - head_of s)"
  define b where "b = blit (buffer (mem s)) (head_of s) (take f (drop (p_off ?p) (p_data ?p)))"
  note facts = producer_copying_facts [OF inv, of n, unfolded pc, simplified]
  note w = ring_write_first [OF facts(2-5), folded f_def, folded b_def]
  have "memcpy (buffer (mem s)) (head_of s) (p_data ?p) (p_off ?p) f = Inr b"
    unfolding b_def using facts by (intro memcpy_ok) (auto simp: f_def)
  then have s': "s' = s\<lparr>mem := (mem s)\<lparr>buffer := b\<rparr>, prodr := ?p\<lparr>p_pc := Copy_rest n\<rparr>\<rparr>"
    using step pc facts(6) by (simp add: producer_step_def Let_def f_def head_of_def)
  have "written s' f"
    using w(2) by (simp add: written_def s' state_defs)
  then have "prod_ok s'"
    using ring_invD(2) [OF inv] pc facts(1,6) s'
    by (auto simp: prod_ok_def Let_def fits_def state_defs f_def)
  then show ?thesis
    using w(1,3) pc by (intro prod_write [OF inv facts(1) s']) (auto simp: in_flight_def)
qed

lemma producer_copy_rest:
  assumes inv: "ring_inv bs s" and pc: "p_pc (prodr s) = Copy_rest n"
    and step: "producer_step pol s = Some s'"
  shows "ring_inv bs s'"
proof -
  let ?p = "prodr s" and ?fw = "firstPart (capacity (p_ring (prodr s))) (head (mem s)) n"
  define f where "f = min (unat n) (cap_of s - head_of s)"
  define b where "b = (if f = unat n then buffer (mem s)
     else blit (buffer (mem s)) 0 (take (unat n - f) (drop (p_off ?p + f) (p_data ?p))))"
  note facts = producer_copying_facts [OF inv, of n, unfolded pc, simplified]
  have fw: "unat ?fw = f" "unat (n - ?fw) = unat n - f" "?fw = n \<longleftrightarrow> f = unat n"
    using facts(6) by (simp_all add: f_def unat_minus_le word_unat_eq_iff)
  have "written s f"
    using ring_invD(2) [OF inv] pc fw by (simp add: prod_ok_def Let_def)
  then have "\<And>i. i < f \<Longrightarrow> buffer (mem s) ! ((head_of s + i) mod cap_of s) = p_data ?p ! (p_off ?p + i)"
    by (simp add: written_def)
  note w = ring_write_rest [OF facts(2-5), folded f_def, folded b_def, OF this]
  have "f \<noteq> unat n \<Longrightarrow>
      memcpy (buffer (mem s)) 0 (p_data ?p) (p_off ?p + f) (unat n - f) = Inr b"
    using facts by (auto simp: b_def f_def intro!: memcpy_ok)
  then have s': "s' = s\<lparr>mem := (mem s)\<lparr>buffer := b\<rparr>, prodr := ?p\<lparr>p_pc := Publish n\<rparr>\<rparr>"
    using step pc fw by (auto simp: producer_step_def Let_def b_def split: if_splits)
  have "written s' (unat n)"
    using w(2) by (simp add: written_def s' state_defs)
  then have "prod_ok s'"
    using ring_invD(2) [OF inv] pc facts(1) s'
    by (auto simp: prod_ok_def Let_def fits_def state_defs)
  then show ?thesis
    using w(1,3) pc by (intro prod_write [OF inv facts(1) s']) (auto simp: in_flight_def)
qed

lemma producer_publish:
  assumes inv: "ring_inv bs s" and pc: "p_pc (prodr s) = Publish n"
    and step: "producer_step pol s = Some s'"
  shows "ring_inv bs s'"
proof -
  let ?p = "prodr s" and ?c = "cap_of s"
  define d where "d = take (unat n) (drop (p_off ?p) (p_data ?p))"
  have chk: "chunk_ok (capacity (p_ring ?p)) (p_left ?p) n" and fit: "fits s n" and wr: "written s (unat n)"
    and size: "p_off ?p + unat (p_left ?p) = length (p_data ?p)"
    using ring_invD(2) [OF inv] pc by (simp_all add: prod_ok_def Let_def)
  have m: "2 \<le> ?c" "?c \<le> 2 ^ 63" "head_of s < ?c" "tail_of s < ?c" "unat (cachedTail (p_ring ?p)) < ?c"
    using ring_invD(1) [OF inv] by (simp_all add: mem_ok_def)
  have n: "unat n < ?c" "unat n \<le> unat (p_left ?p)"
    using chunk_ok_bounds [OF chk] m by (simp_all add: state_defs)
  have d: "length d = unat n" "\<And>i. i < unat n \<Longrightarrow> d ! i = p_data ?p ! (p_off ?p + i)"
    using n size by (auto simp: d_def)
  have s': "s' = s\<lparr>mem := (mem s)\<lparr>head := nextIndex (capacity (p_ring ?p)) (head (mem s)) n\<rparr>,
      prodr := ?p\<lparr>p_pc := Notify n\<rparr>\<rparr>"
    using step pc by (simp add: producer_step_def Let_def)
  have h: "head_of s' = (head_of s + unat n) mod ?c" and c: "cap_of s' = ?c" and t: "tail_of s' = tail_of s"
    using m n s' by (simp_all add: state_defs unat_nextIndex word_less_nat_alt)
  note push = fit [unfolded fits_def] fits_actual [OF ring_invD(1) [OF inv] fit]
  have cts: "contents s' = contents s @ d"
    unfolding contents_def c h t
    using ring_contents_push [of "head_of s" ?c "tail_of s" d "buffer (mem s)"] m push wr d s'
    by (simp add: written_def)
  have "mem_ok s'"
    using ring_invD(1) [OF inv] c h t push m s'
    by (simp add: mem_ok_def ring_dist_push)
  moreover have "cons_ok s'"
    using cts s' by (intro cons_ok_mono [OF ring_invD(3,1) [OF inv]]) simp_all
  moreover have "prod_ok s'"
    using ring_invD(2) [OF inv] pc s' by (auto simp: prod_ok_def Let_def)
  moreover have "unsent s = d @ unsent s'"
    using s' pc take_drop_split [of "p_off ?p" "p_data ?p" "unat n"]
    by (simp add: unsent_def in_flight_def d_def)
  then have "stream s' = bs"
    using ring_invD(4) [OF inv] cts s' by (simp add: stream_def received_def)
  ultimately show ?thesis
    by (simp add: ring_inv_def)
qed

lemma producer_notify:
  assumes inv: "ring_inv bs s" and pc: "p_pc (prodr s) = Notify n"
    and step: "producer_step pol s = Some s'"
  shows "ring_inv bs s'"
proof -
  let ?p = "prodr s"
  have s': "s' = s\<lparr>prodr := ?p\<lparr>p_pc := Loop, p_left := p_left ?p - n, p_off := p_off ?p + unat n\<rparr>,
      wst := signalDataPresent pol (wst s)\<rparr>"
    using step pc by (simp add: producer_step_def Let_def)
  have chk: "chunk_ok (capacity (p_ring ?p)) (p_left ?p) n"
    using ring_invD(2) [OF inv] pc by (simp_all add: prod_ok_def Let_def)
  have "unat n \<le> unat (p_left ?p)"
    using chunk_ok_bounds(3) [OF chk] ring_invD(1) [OF inv] by (simp add: mem_ok_def state_defs)
  then have "unat (p_left ?p - n) = unat (p_left ?p) - unat n" "unat n \<le> unat (p_left ?p)"
    by (simp_all add: unat_minus_le)
  then have "prod_ok s'"
    using ring_invD(2) [OF inv] pc s' by (auto simp: prod_ok_def Let_def)
  then show ?thesis
    using pc s' by (intro prod_local [OF inv]) (simp_all add: unsent_def in_flight_def)
qed

lemma producer_step_inv:
  assumes "ring_inv bs s" "producer_step pol s = Some s'"
  shows "ring_inv bs s'"
proof (cases "p_pc (prodr s)")
  case Fault
  then show ?thesis
    using ring_invD(2) [OF assms(1)] by (simp add: prod_ok_def Let_def)
next
  case (Wait n)
  then show ?thesis
    using producer_wait [OF assms(1) _ assms(2)] by blast
next
  case (Sleep n)
  then show ?thesis
    using producer_wait [OF assms(1) _ assms(2)] by blast
qed (rule producer_idle [OF assms(1) _ assms(2)] producer_loop [OF assms(1) _ assms(2)]
      producer_reload [OF assms(1) _ assms(2)] producer_copy [OF assms(1) _ assms(2)]
      producer_copy_rest [OF assms(1) _ assms(2)] producer_publish [OF assms(1) _ assms(2)]
      producer_notify [OF assms(1) _ assms(2)], assumption)+

section \<open>Steps of the consumer\<close>

text \<open>A step that touches only the consumer's own variables.\<close>

lemma cons_local:
  assumes inv: "ring_inv bs s"
    and s': "mem s' = mem s" "prodr s' = prodr s"
      "capacity (c_ring (consr s')) = capacity (c_ring (consr s))"
      "cachedHead (c_ring (consr s')) \<in> {cachedHead (c_ring (consr s)), head (mem s)}"
      "received s' = received s"
    and ok: "cons_ok s'"
  shows "ring_inv bs s'"
proof -
  note [simp] = s'(1,2,3,5)
  have "mem_ok s'"
    using ring_invD(1) [OF inv] s'(4) by (auto simp: mem_ok_def state_defs)
  moreover have "prod_ok s'"
    by (rule prod_ok_frame [OF ring_invD(2) [OF inv]]) simp_all
  moreover have "stream s' = bs"
    using ring_invD(4) [OF inv] by (simp add: stream_def unsent_def contents_def state_defs)
  ultimately show ?thesis
    using ok by (simp add: ring_inv_def)
qed

lemma consumer_idle:
  assumes inv: "ring_inv bs s" and pc: "c_pc (consr s) = Idle"
    and step: "consumer_step pol s = Some s'"
  shows "ring_inv bs s'"
proof -
  obtain k ks where s': "s' = s\<lparr>consr := (consr s)\<lparr>c_pc := Loop,
      c_out := replicate (unat k) 0, c_off := 0, c_left := k, c_todo := ks\<rparr>\<rparr>"
    using step pc by (auto simp: consumer_step_def Let_def split: list.splits)
  have "c_out (consr s) = []"
    using ring_invD(3) [OF inv] pc by (simp add: cons_ok_def Let_def)
  moreover have "cons_ok s'"
    using s' by (simp add: cons_ok_def)
  ultimately show ?thesis
    using pc s' by (intro cons_local [OF inv]) (simp_all add: received_def in_flight_def)
qed

lemma consumer_loop:
  assumes inv: "ring_inv bs s" and pc: "c_pc (consr s) = Loop"
    and step: "consumer_step pol s = Some s'"
  shows "ring_inv bs s'"
proof (cases "c_left (consr s) = 0")
  case True
  then have s': "s' = s\<lparr>consr := (consr s)\<lparr>c_pc := Idle,
      c_done := c_done (consr s) @ [c_out (consr s)], c_out := [], c_off := 0\<rparr>\<rparr>"
    using step pc by (simp add: consumer_step_def Let_def)
  have "c_off (consr s) = length (c_out (consr s))"
    using ring_invD(3) [OF inv] True by (simp add: cons_ok_def Let_def)
  moreover have "cons_ok s'"
    using True s' by (simp add: cons_ok_def)
  ultimately show ?thesis
    using pc s' by (intro cons_local [OF inv]) (simp_all add: received_def in_flight_def)
next
  case False
  define n where "n = chunkSize (capacity (c_ring (consr s))) (c_left (consr s))"
  obtain pc' where s': "s' = s\<lparr>consr := (consr s)\<lparr>c_pc := pc'\<rparr>\<rparr>"
    and pc': "pc' = (if sizeSeen (c_ring (consr s)) (mem s) \<ge> n then Copy n else Reload n)"
    using step pc False by (auto simp: consumer_step_def Let_def n_def)
  have "chunk_ok (capacity (c_ring (consr s))) (c_left (consr s)) n"
    using False by (simp add: chunk_ok_def n_def)
  then have "cons_ok s'"
    using ring_invD(3) [OF inv] pc pc' s' sizeSeen_holds [OF ring_invD(1) [OF inv], of n]
    by (auto simp: cons_ok_def Let_def holds_def state_defs)
  then show ?thesis
    using pc pc' s' by (intro cons_local [OF inv]) (auto simp: received_def in_flight_def)
qed

lemma consumer_reload:
  assumes inv: "ring_inv bs s" and pc: "c_pc (consr s) = Reload n"
    and step: "consumer_step pol s = Some s'"
  shows "ring_inv bs s'"
proof -
  define r where "r = (c_ring (consr s))\<lparr>cachedHead := head (mem s)\<rparr>"
  obtain pc' where s': "s' = s\<lparr>consr := (consr s)\<lparr>c_ring := r, c_pc := pc'\<rparr>\<rparr>"
    and pc': "pc' = (if sizeSeen r (mem s) < n then Wait n else Copy n)"
    using step pc by (auto simp: consumer_step_def Let_def r_def)
  have mem: "mem_ok s'"
    using ring_invD(1) [OF inv] s' by (simp add: mem_ok_def state_defs r_def)
  have "sizeSeen r (mem s) \<ge> n \<longleftrightarrow> holds s' n"
    using sizeSeen_holds [OF mem, of n] s' by simp
  then have "cons_ok s'"
    using ring_invD(3) [OF inv] pc pc' s' by (auto simp: cons_ok_def Let_def r_def not_less)
  then show ?thesis
    using pc pc' s' by (intro cons_local [OF inv]) (auto simp: received_def in_flight_def r_def)
qed

lemma consumer_wait:
  assumes inv: "ring_inv bs s" and pc: "c_pc (consr s) = Wait n \<or> c_pc (consr s) = Sleep n"
    and step: "consumer_step pol s = Some s'"
  shows "ring_inv bs s'"
proof -
  obtain w pc' where s': "s' = s\<lparr>consr := (consr s)\<lparr>c_pc := pc'\<rparr>, wst := w\<rparr>"
    and pc': "pc' = Sleep n \<or> pc' = Reload n"
    using step pc by (auto simp: consumer_step_def Let_def split: option.splits)
  have "cons_ok s'"
    using ring_invD(3) [OF inv] pc pc' s' by (auto simp: cons_ok_def Let_def)
  then show ?thesis
    using pc pc' s' by (intro cons_local [OF inv]) (auto simp: received_def in_flight_def)
qed

text \<open>A copy into the caller's buffer at or after the current offset.\<close>

lemma cons_fill:
  assumes inv: "ring_inv bs s"
    and s': "s' = s\<lparr>consr := (consr s)\<lparr>c_out := b, c_pc := pc'\<rparr>\<rparr>"
    and b: "take (c_off (consr s)) b = take (c_off (consr s)) (c_out (consr s))"
    and pc: "in_flight (c_pc (consr s)) = 0" "in_flight pc' = 0"
    and ok: "cons_ok s'"
  shows "ring_inv bs s'"
  using assms by (intro cons_local [OF inv]) (simp_all add: received_def)

lemma consumer_copying_facts:
  assumes inv: "ring_inv bs s" and pc: "c_pc (consr s) \<in> {Copy n, Copy_rest n}"
  shows "holds s n" "tail_of s < cap_of s" "unat n < cap_of s" "length (buffer (mem s)) = cap_of s"
    and "c_off (consr s) + unat n \<le> length (c_out (consr s))"
    and "unat (firstPart (capacity (c_ring (consr s))) (tail (mem s)) n) = min (unat n) (cap_of s - tail_of s)"
    and "unat n \<le> ring_dist (cap_of s) (head_of s) (tail_of s)"
proof -
  have m: "2 \<le> cap_of s" and tc: "tail_of s < cap_of s" "length (buffer (mem s)) = cap_of s"
    and same: "capacity (c_ring (consr s)) = capacity (p_ring (prodr s))"
    using ring_invD(1) [OF inv] by (simp_all add: mem_ok_def)
  have chk: "chunk_ok (capacity (c_ring (consr s))) (c_left (consr s)) n" and h: "holds s n"
    and size: "c_off (consr s) + unat (c_left (consr s)) = length (c_out (consr s))"
    using ring_invD(3) [OF inv] pc by (auto simp: cons_ok_def Let_def)
  show "holds s n" "tail_of s < cap_of s" "length (buffer (mem s)) = cap_of s"
    by (fact h tc)+
  show "c_off (consr s) + unat n \<le> length (c_out (consr s))" "unat n < cap_of s"
    using chunk_ok_bounds [OF chk] m same size by (simp_all add: state_defs)
  show "unat (firstPart (capacity (c_ring (consr s))) (tail (mem s)) n) = min (unat n) (cap_of s - tail_of s)"
    using tc same by (simp add: unat_firstPart state_defs word_less_nat_alt)
  show "unat n \<le> ring_dist (cap_of s) (head_of s) (tail_of s)"
    using holds_actual [OF ring_invD(1) [OF inv] h] by (simp add: contents_def)
qed

lemma consumer_copy:
  assumes inv: "ring_inv bs s" and pc: "c_pc (consr s) = Copy n"
    and step: "consumer_step pol s = Some s'"
  shows "ring_inv bs s'"
proof -
  let ?k = "consr s"
  define f where "f = min (unat n) (cap_of s - tail_of s)"
  define d where "d = take f (drop (tail_of s) (buffer (mem s)))"
  define b where "b = blit (c_out ?k) (c_off ?k) d"
  note facts = consumer_copying_facts [OF inv, of n, unfolded pc, simplified]
  have f: "f \<le> cap_of s - tail_of s" "f \<le> unat n" "f \<le> ring_dist (cap_of s) (head_of s) (tail_of s)" "f < cap_of s"
    using facts by (auto simp: f_def)
  have d: "length d = f" "d = take f (contents s)"
    using facts f take_ring_contents(1) [of "tail_of s" "cap_of s" f "head_of s" "buffer (mem s)"]
    by (simp_all add: d_def contents_def)
  have off: "c_off ?k \<le> length (c_out ?k)" "length b = length (c_out ?k)"
    using facts(5) f(2) d(1) by (simp_all add: b_def)
  have "memcpy (c_out ?k) (c_off ?k) (buffer (mem s)) (tail_of s) f = Inr b"
    unfolding b_def d_def using facts f by (intro memcpy_ok) auto
  then have s': "s' = s\<lparr>consr := ?k\<lparr>c_out := b, c_pc := Copy_rest n\<rparr>\<rparr>"
    using step pc facts(6) by (simp add: consumer_step_def Let_def f_def tail_of_def)
  have "take f (drop (c_off ?k) b) = take f (contents s)"
    using take_drop_blit [OF off(1), of d] d by (simp add: b_def)
  then have "cons_ok s'"
    using ring_invD(3) [OF inv] pc facts(1,6) off(2) s'
    by (simp add: cons_ok_def Let_def copied_def holds_def contents_def state_defs f_def)
  then show ?thesis
    using pc off(1) by (intro cons_fill [OF inv s']) (auto simp: b_def in_flight_def)
qed

text \<open>Filling the second part of a block whose first part is in place.\<close>

lemma take_second_part:
  assumes "off + f + length d \<le> length out"
  shows "take (f + length d) (drop off (blit out (off + f) d)) = take f (drop off out) @ d"
proof -
  have "take (length d) (drop (off + f) (blit out (off + f) d)) = d"
    using assms by (intro take_drop_blit) simp
  moreover have "take f (drop off (blit out (off + f) d)) = take f (drop off out)"
    using assms by (simp add: take_drop)
  ultimately show ?thesis
    using take_add [of f "length d" "drop off (blit out (off + f) d)"] by (simp add: add.commute)
qed

lemma consumer_copy_rest:
  assumes inv: "ring_inv bs s" and pc: "c_pc (consr s) = Copy_rest n"
    and step: "consumer_step pol s = Some s'"
  shows "ring_inv bs s'"
proof -
  let ?k = "consr s" and ?fw = "firstPart (capacity (c_ring (consr s))) (tail (mem s)) n"
  define f where "f = min (unat n) (cap_of s - tail_of s)"
  define d where "d = take (unat n - f) (buffer (mem s))"
  define b where "b = (if f = unat n then c_out ?k else blit (c_out ?k) (c_off ?k + f) d)"
  note facts = consumer_copying_facts [OF inv, of n, unfolded pc, simplified]
  have fw: "unat ?fw = f" "unat (n - ?fw) = unat n - f" "?fw = n \<longleftrightarrow> f = unat n"
    using facts(6) by (simp_all add: f_def unat_minus_le word_unat_eq_iff)
  have old: "take f (drop (c_off ?k) (c_out ?k)) = take f (contents s)"
    using ring_invD(3) [OF inv] pc fw by (simp add: cons_ok_def Let_def copied_def)
  have f: "f \<le> unat n" "f \<le> cap_of s - tail_of s" "f < cap_of s"
    using facts(3) by (auto simp: f_def)
  have d: "length d = unat n - f" and off: "c_off ?k + f + length d \<le> length (c_out ?k)"
    using facts(3,4,5) by (auto simp: d_def f_def)
  have "f \<noteq> unat n \<Longrightarrow>
      memcpy (c_out ?k) (c_off ?k + f) (buffer (mem s)) 0 (unat n - f) = Inr b"
    using facts off d by (auto simp: b_def d_def intro!: memcpy_ok [where soff = 0, simplified])
  then have s': "s' = s\<lparr>consr := ?k\<lparr>c_out := b, c_pc := Publish n\<rparr>\<rparr>"
    using step pc fw by (auto simp: consumer_step_def Let_def b_def split: if_splits)
  have "take (unat n) (drop (c_off ?k) b) = take (unat n) (contents s)"
  proof (cases "f = unat n")
    case True
    then show ?thesis using old by (simp add: b_def)
  next
    case False
    then have big: "\<not> unat n \<le> cap_of s - tail_of s" "f = cap_of s - tail_of s" "f \<le> unat n"
      by (auto simp: f_def)
    have "take (unat n) (drop (c_off ?k) b) = take f (contents s) @ d"
      using take_second_part [OF off] old d f(1) False by (simp add: b_def)
    also have "take f (contents s) = take f (drop (tail_of s) (buffer (mem s)))"
      unfolding contents_def using facts(2,4,7) f by (intro take_ring_contents(1)) auto
    also have "\<dots> @ d = take (unat n) (contents s)"
      unfolding contents_def d_def big(2)
      by (rule take_ring_contents(2) [OF facts(2,7,4,3) big(1), symmetric])
    finally show ?thesis .
  qed
  moreover have "length b = length (c_out ?k)"
    using off by (simp add: b_def)
  ultimately have "cons_ok s'"
    using ring_invD(3) [OF inv] pc facts(1) s'
    by (simp add: cons_ok_def Let_def copied_def holds_def contents_def state_defs)
  then show ?thesis
    using pc off by (intro cons_fill [OF inv s']) (auto simp: b_def in_flight_def)
qed

lemma consumer_publish:
  assumes inv: "ring_inv bs s" and pc: "c_pc (consr s) = Publish n"
    and step: "consumer_step pol s = Some s'"
  shows "ring_inv bs s'"
proof -
  let ?k = "consr s" and ?c = "cap_of s"
  have chk: "chunk_ok (capacity (c_ring ?k)) (c_left ?k) n" and h: "holds s n" and cp: "copied s (unat n)"
    using ring_invD(3) [OF inv] pc by (simp_all add: cons_ok_def Let_def)
  have m: "2 \<le> ?c" "?c \<le> 2 ^ 63" "head_of s < ?c" "tail_of s < ?c" "unat (cachedHead (c_ring ?k)) < ?c"
    and same: "capacity (c_ring ?k) = capacity (p_ring (prodr s))"
    using ring_invD(1) [OF inv] by (simp_all add: mem_ok_def)
  have n: "unat n < ?c" "unat n \<le> ring_dist ?c (head_of s) (tail_of s)"
    using chunk_ok_bounds [OF chk] m same holds_actual [OF ring_invD(1) [OF inv] h]
    by (simp_all add: contents_def) (simp add: state_defs)
  have s': "s' = s\<lparr>mem := (mem s)\<lparr>tail := nextIndex (capacity (c_ring ?k)) (tail (mem s)) n\<rparr>,
      consr := ?k\<lparr>c_pc := Notify n\<rparr>\<rparr>"
    using step pc by (simp add: consumer_step_def Let_def)
  have t: "tail_of s' = (tail_of s + unat n) mod ?c" and c: "cap_of s' = ?c" and hd: "head_of s' = head_of s"
    using m n same s' by (simp_all add: state_defs unat_nextIndex word_less_nat_alt)
  have cts: "contents s' = drop (unat n) (contents s)"
    unfolding contents_def c hd t using ring_contents_pop m n s' by simp
  have "mem_ok s'"
    using ring_invD(1) [OF inv] c hd t h [unfolded holds_def] n m s'
    by (auto simp: mem_ok_def ring_dist_pop)
  moreover have "prod_ok s'"
    using s' by (intro prod_ok_frame [OF ring_invD(2) [OF inv]]) simp_all
  moreover have "cons_ok s'"
    using ring_invD(3) [OF inv] pc s' by (simp add: cons_ok_def Let_def)
  moreover have "received s' = received s @ take (unat n) (contents s)"
    using s' pc cp by (simp add: received_def in_flight_def copied_def take_add)
  then have "stream s' = bs"
    using ring_invD(4) [OF inv] cts s' by (simp add: stream_def unsent_def)
  ultimately show ?thesis
    by (simp add: ring_inv_def)
qed

lemma consumer_notify:
  assumes inv: "ring_inv bs s" and pc: "c_pc (consr s) = Notify n"
    and step: "consumer_step pol s = Some s'"
  shows "ring_inv bs s'"
proof -
  let ?k = "consr s"
  have s': "s' = s\<lparr>consr := ?k\<lparr>c_pc := Loop, c_left := c_left ?k - n, c_off := c_off ?k + unat n\<rparr>,
      wst := signalDataFree pol (wst s)\<rparr>"
    using step pc by (simp add: consumer_step_def Let_def)
  have chk: "chunk_ok (capacity (c_ring ?k)) (c_left ?k) n"
    using ring_invD(3) [OF inv] pc by (simp_all add: cons_ok_def Let_def)
  have "unat n \<le> unat (c_left ?k)"
    using chunk_ok_bounds(3) [OF chk] ring_invD(1) [OF inv] by (simp add: mem_ok_def state_defs)
  then have "unat (c_left ?k - n) = unat (c_left ?k) - unat n" "unat n \<le> unat (c_left ?k)"
    by (simp_all add: unat_minus_le)
  then have "cons_ok s'"
    using ring_invD(3) [OF inv] pc s' by (auto simp: cons_ok_def Let_def)
  then show ?thesis
    using pc s' by (intro cons_local [OF inv]) (simp_all add: received_def in_flight_def)
qed

lemma consumer_step_inv:
  assumes "ring_inv bs s" "consumer_step pol s = Some s'"
  shows "ring_inv bs s'"
proof (cases "c_pc (consr s)")
  case Fault
  then show ?thesis
    using ring_invD(3) [OF assms(1)] by (simp add: cons_ok_def Let_def)
next
  case (Wait n)
  then show ?thesis
    using consumer_wait [OF assms(1) _ assms(2)] by blast
next
  case (Sleep n)
  then show ?thesis
    using consumer_wait [OF assms(1) _ assms(2)] by blast
qed (rule consumer_idle [OF assms(1) _ assms(2)] consumer_loop [OF assms(1) _ assms(2)]
      consumer_reload [OF assms(1) _ assms(2)] consumer_copy [OF assms(1) _ assms(2)]
      consumer_copy_rest [OF assms(1) _ assms(2)] consumer_publish [OF assms(1) _ assms(2)]
      consumer_notify [OF assms(1) _ assms(2)], assumption)+

section \<open>Every reachable state\<close>

lemma side_step_inv:
  "ring_inv bs s \<Longrightarrow> side_step pol i s = Some s' \<Longrightarrow> ring_inv bs s'"
  by (cases i) (auto simp: side_step_def intro: producer_step_inv consumer_step_inv)

lemma start_inv:
  assumes "2 \<le> cap" "unat cap \<le> 2 ^ 63" "\<forall>d \<in> set msgs. length d < 2 ^ 64"
  shows "ring_inv (concat msgs) (start_sys cap msgs wants w)"
proof -
  have "2 \<le> unat cap"
    using assms(1) by (simp add: word_le_nat_alt)
  then show ?thesis
    using assms(2,3)
    by (simp add: ring_inv_def start_sys_def ByteRing_new_def mem_ok_def prod_ok_def cons_ok_def
        stream_def received_def unsent_def contents_def in_flight_def state_defs ring_contents_def Let_def)
qed

lemma reach_inv:
  assumes "reach pol s0 s" "ring_inv bs s0"
  shows "ring_inv bs s"
  using assms by (induction rule: reach.induct) (auto intro: side_step_inv)

lemma run_reach: "run pol is s = Some s' \<Longrightarrow> reach pol s0 s \<Longrightarrow> reach pol s0 s'"
  by (induction "is" arbitrary: s) (auto split: option.splits intro: reach.step)

lemma reach_trans: "reach pol s s' \<Longrightarrow> reach pol s0 s \<Longrightarrow> reach pol s0 s'"
  by (induction rule: reach.induct) (auto intro: reach.step)

end
