(* ===== verification/ByteRing_Progress.thy ===== *)
theory ByteRing_Progress
  imports ByteRing_Fifo
begin

text \<open>
  Progress of \<^verbatim>\<open>ByteRing\<close>. Both sides move whole chunks and wait until a whole chunk
  fits or is there. When the sizes popped are the sizes pushed, the two sides cut the
  stream into the same chunks and one of them can always move, provided the wait policy
  keeps a signal until it is consumed. The policy's contract is the locale
  \<open>sticky_policy\<close>; the progress proofs are made once inside it.
\<close>

section \<open>The chunks of a message\<close>

function chunks :: "nat \<Rightarrow> nat \<Rightarrow> nat list" where
  "chunks c n = (if n = 0 \<or> c \<le> 1 then [] else min n (c - 1) # chunks c (n - min n (c - 1)))"
  by pat_completeness auto
termination
  by (relation "measure snd") auto

declare chunks.simps [simp del]

lemma chunks_0 [simp]: "chunks c 0 = []"
  by (simp add: chunks.simps)

lemma chunks_step: "0 < n \<Longrightarrow> 1 < c \<Longrightarrow> chunks c n = min n (c - 1) # chunks c (n - min n (c - 1))"
  by (subst chunks.simps) simp

definition chunks_all :: "nat \<Rightarrow> nat list \<Rightarrow> nat list" where
  "chunks_all c ns = concat (map (chunks c) ns)"

lemma chunks_all_simps [simp]:
  "chunks_all c [] = []"
  "chunks_all c (n # ns) = chunks c n @ chunks_all c ns"
  by (simp_all add: chunks_all_def)

definition prod_chunks :: "'w sys \<Rightarrow> nat list" where
  "prod_chunks s =
     chunks (cap_of s) (unat (p_left (prodr s)) - in_flight (p_pc (prodr s)))
       @ chunks_all (cap_of s) (map length (p_todo (prodr s)))"

definition cons_chunks :: "'w sys \<Rightarrow> nat list" where
  "cons_chunks s =
     chunks (cap_of s) (unat (c_left (consr s)) - in_flight (c_pc (consr s)))
       @ chunks_all (cap_of s) (map unat (c_todo (consr s)))"

text \<open>The chunks in the ring are the ones the consumer is behind by.\<close>

definition framed :: "'w sys \<Rightarrow> bool" where
  "framed s \<longleftrightarrow>
     (\<exists>ks. cons_chunks s = ks @ prod_chunks s \<and> sum_list ks = length (contents s))"

text \<open>A side that waits, and the chunk it waits for.\<close>

definition waits_for :: "side_pc \<Rightarrow> size_t option" where
  "waits_for pc = (case pc of Reload n \<Rightarrow> Some n | Wait n \<Rightarrow> Some n | Sleep n \<Rightarrow> Some n | _ \<Rightarrow> None)"

definition room :: "'w sys \<Rightarrow> size_t \<Rightarrow> bool" where
  "room s n \<longleftrightarrow> unat n + length (contents s) < cap_of s"

definition there :: "'w sys \<Rightarrow> size_t \<Rightarrow> bool" where
  "there s n \<longleftrightarrow> unat n \<le> length (contents s)"

definition finished :: "'w sys \<Rightarrow> bool" where
  "finished s \<longleftrightarrow> p_pc (prodr s) = Idle \<and> p_todo (prodr s) = [] \<and>
     c_pc (consr s) = Idle \<and> c_todo (consr s) = []"

text \<open>A side is useful when it does not wait, or waits for something that is there.\<close>

definition useful :: "side \<Rightarrow> 'w sys \<Rightarrow> bool" where
  "useful i s = (case i of
     Producer \<Rightarrow> (case waits_for (p_pc (prodr s)) of None \<Rightarrow> True | Some n \<Rightarrow> room s n)
   | Consumer \<Rightarrow> (case waits_for (c_pc (consr s)) of None \<Rightarrow> True | Some n \<Rightarrow> there s n))"

section \<open>What a step leaves alone\<close>

text \<open>
  A step of a side changes the index of that side when it publishes, and nothing of the
  ring's indices otherwise.
\<close>

lemma producer_step_shape:
  assumes "producer_step pol s = Some s'"
  shows "consr s' = consr s" "tail (mem s') = tail (mem s)" "cap_of s' = cap_of s"
    and "(\<exists>n. p_pc (prodr s) = Publish n) \<or> head (mem s') = head (mem s)"
  using assms
  by (auto simp: producer_step_def Let_def cap_of_def
      split: side_pc.splits list.splits option.splits sum.splits if_splits)

lemma consumer_step_shape:
  assumes "consumer_step pol s = Some s'"
  shows "prodr s' = prodr s" "head (mem s') = head (mem s)" "cap_of s' = cap_of s"
    and "(\<exists>n. c_pc (consr s) = Publish n) \<or> tail (mem s') = tail (mem s)"
  using assms
  by (auto simp: consumer_step_def Let_def cap_of_def
      split: side_pc.splits list.splits option.splits sum.splits if_splits)

section \<open>Both sides cut the stream into the same chunks\<close>

lemma chunk_ok_nat:
  assumes "chunk_ok cap left n" "2 \<le> unat cap"
  shows "unat n = min (unat left) (unat cap - 1)" "unat left \<noteq> 0"
  using assms by (auto simp: chunk_ok_def unat_chunkSize unat_eq_0)

lemma chunks_head:
  assumes "chunk_ok cap left n" "2 \<le> unat cap"
  shows "chunks (unat cap) (unat left) = unat n # chunks (unat cap) (unat left - unat n)"
  using chunk_ok_nat [OF assms] assms(2) by (simp add: chunks_step)

lemma length_contents: "length (contents s) = ring_dist (cap_of s) (head_of s) (tail_of s)"
  by (simp add: contents_def)

lemma producer_step_chunks:
  assumes inv: "ring_inv bs s" and step: "producer_step pol s = Some s'"
    and pc: "\<And>n. p_pc (prodr s) \<noteq> Publish n"
  shows "prod_chunks s' = prod_chunks s" "length (contents s') = length (contents s)"
proof -
  note shape = producer_step_shape [OF step]
  show "length (contents s') = length (contents s)"
    using shape pc by (simp add: length_contents head_of_def tail_of_def)
  have left: "unat (p_left (prodr s) - n) = unat (p_left (prodr s)) - unat n" if "p_pc (prodr s) = Notify n" for n
    using ring_invD(1,2) [OF inv] that chunk_ok_bounds(3) [of _ "p_left (prodr s)" n]
    by (intro unat_minus_le) (auto simp: prod_ok_def Let_def mem_ok_def cap_of_def)
  have idle: "p_left (prodr s) = 0" if "p_pc (prodr s) = Idle"
    using ring_invD(2) [OF inv] that by (auto simp: prod_ok_def Let_def unat_eq_0)
  have todo: "\<forall>d \<in> set (p_todo (prodr s)). length d < 2 ^ 64"
    using ring_invD(2) [OF inv] by (simp add: prod_ok_def Let_def)
  show "prod_chunks s' = prod_chunks s"
    using step pc left idle todo
    by (auto simp: producer_step_def Let_def prod_chunks_def cap_of_def in_flight_def unat_of_nat_size
        split: side_pc.splits list.splits option.splits sum.splits if_splits)
qed

lemma producer_publish_chunks:
  assumes inv: "ring_inv bs s" and step: "producer_step pol s = Some s'"
    and pc: "p_pc (prodr s) = Publish n"
  shows "prod_chunks s = unat n # prod_chunks s'" "length (contents s') = length (contents s) + unat n"
proof -
  have s': "s' = s\<lparr>mem := (mem s)\<lparr>head := nextIndex (capacity (p_ring (prodr s))) (head (mem s)) n\<rparr>,
      prodr := (prodr s)\<lparr>p_pc := Notify n\<rparr>\<rparr>"
    using step pc by (simp add: producer_step_def Let_def)
  have chk: "chunk_ok (capacity (p_ring (prodr s))) (p_left (prodr s)) n"
    and size: "p_off (prodr s) + unat (p_left (prodr s)) = length (p_data (prodr s))"
    using ring_invD(2) [OF inv] pc by (simp_all add: prod_ok_def Let_def)
  have cap: "2 \<le> unat (capacity (p_ring (prodr s)))"
    using ring_invD(1) [OF inv] by (simp add: mem_ok_def cap_of_def)
  show "prod_chunks s = unat n # prod_chunks s'"
    using chunks_head [OF chk cap] pc s' by (simp add: prod_chunks_def cap_of_def in_flight_def)
  have "length (unsent s) = length (unsent s') + unat n" "received s' = received s"
    using chunk_ok_bounds [OF chk cap] size pc s' by (simp_all add: unsent_def received_def in_flight_def)
  moreover have "stream s' = stream s"
    using ring_invD(4) [OF inv] ring_invD(4) [OF producer_step_inv [OF inv step]] by simp
  then have "length (stream s') = length (stream s)" by simp
  ultimately show "length (contents s') = length (contents s) + unat n"
    by (simp add: stream_def)
qed

lemma consumer_step_chunks:
  assumes inv: "ring_inv bs s" and step: "consumer_step pol s = Some s'"
    and pc: "\<And>n. c_pc (consr s) \<noteq> Publish n"
  shows "cons_chunks s' = cons_chunks s" "length (contents s') = length (contents s)"
proof -
  note shape = consumer_step_shape [OF step]
  show "length (contents s') = length (contents s)"
    using shape pc by (simp add: length_contents head_of_def tail_of_def)
  have left: "unat (c_left (consr s) - n) = unat (c_left (consr s)) - unat n" if "c_pc (consr s) = Notify n" for n
    using ring_invD(1,3) [OF inv] that chunk_ok_bounds(3) [of _ "c_left (consr s)" n]
    by (intro unat_minus_le) (auto simp: cons_ok_def Let_def mem_ok_def cap_of_def)
  have idle: "c_left (consr s) = 0" if "c_pc (consr s) = Idle"
    using ring_invD(3) [OF inv] that by (auto simp: cons_ok_def Let_def unat_eq_0)
  show "cons_chunks s' = cons_chunks s"
    using step pc left idle
    by (auto simp: consumer_step_def Let_def cons_chunks_def cap_of_def in_flight_def
        split: side_pc.splits list.splits option.splits sum.splits if_splits)
qed

lemma consumer_publish_chunks:
  assumes inv: "ring_inv bs s" and step: "consumer_step pol s = Some s'"
    and pc: "c_pc (consr s) = Publish n"
  shows "cons_chunks s = unat n # cons_chunks s'" "length (contents s) = length (contents s') + unat n"
    and "0 < unat n"
proof -
  have s': "s' = s\<lparr>mem := (mem s)\<lparr>tail := nextIndex (capacity (c_ring (consr s))) (tail (mem s)) n\<rparr>,
      consr := (consr s)\<lparr>c_pc := Notify n\<rparr>\<rparr>"
    using step pc by (simp add: consumer_step_def Let_def)
  have chk: "chunk_ok (capacity (p_ring (prodr s))) (c_left (consr s)) n"
    and size: "c_off (consr s) + unat (c_left (consr s)) = length (c_out (consr s))"
    using ring_invD(1,3) [OF inv] pc by (simp_all add: cons_ok_def mem_ok_def Let_def)
  have cap: "2 \<le> unat (capacity (p_ring (prodr s)))"
    using ring_invD(1) [OF inv] by (simp add: mem_ok_def cap_of_def)
  show "cons_chunks s = unat n # cons_chunks s'" "0 < unat n"
    using chunks_head [OF chk cap] chunk_ok_bounds [OF chk cap] pc s'
    by (simp_all add: cons_chunks_def cap_of_def in_flight_def)
  have "length (received s') = length (received s) + unat n" "unsent s' = unsent s"
    using chunk_ok_bounds [OF chk cap] size pc s' by (simp_all add: unsent_def received_def in_flight_def)
  moreover have "stream s' = stream s"
    using ring_invD(4) [OF inv] ring_invD(4) [OF consumer_step_inv [OF inv step]] by simp
  then have "length (stream s') = length (stream s)" by simp
  ultimately show "length (contents s) = length (contents s') + unat n"
    by (simp add: stream_def)
qed

lemma producer_step_framed:
  assumes inv: "ring_inv bs s" and step: "producer_step pol s = Some s'" and fr: "framed s"
  shows "framed s'"
proof -
  have same: "cons_chunks s' = cons_chunks s"
    using producer_step_shape [OF step] by (simp add: cons_chunks_def)
  obtain ks where ks: "cons_chunks s = ks @ prod_chunks s" "sum_list ks = length (contents s)"
    using fr by (auto simp: framed_def)
  show ?thesis
  proof (cases "\<exists>n. p_pc (prodr s) = Publish n")
    case True
    then obtain n where n: "p_pc (prodr s) = Publish n" by auto
    have "cons_chunks s' = (ks @ [unat n]) @ prod_chunks s'" "sum_list (ks @ [unat n]) = length (contents s')"
      using producer_publish_chunks [OF inv step n] ks same by simp_all
    then show ?thesis
      unfolding framed_def by blast
  next
    case False
    then show ?thesis
      using producer_step_chunks [OF inv step] ks same by (auto simp: framed_def)
  qed
qed

lemma consumer_step_framed:
  assumes inv: "ring_inv bs s" and step: "consumer_step pol s = Some s'" and fr: "framed s"
  shows "framed s'"
proof -
  have same: "prod_chunks s' = prod_chunks s"
    using consumer_step_shape [OF step] by (simp add: prod_chunks_def)
  obtain ks where ks: "cons_chunks s = ks @ prod_chunks s" "sum_list ks = length (contents s)"
    using fr by (auto simp: framed_def)
  show ?thesis
  proof (cases "\<exists>n. c_pc (consr s) = Publish n")
    case True
    then obtain n where n: "c_pc (consr s) = Publish n" by auto
    note pub = consumer_publish_chunks [OF inv step n]
    then obtain ks' where "ks = unat n # ks'"
      using ks by (cases ks) auto
    then have "cons_chunks s' = ks' @ prod_chunks s'" "sum_list ks' = length (contents s')"
      using pub ks same by simp_all
    then show ?thesis
      unfolding framed_def by blast
  next
    case False
    then show ?thesis
      using consumer_step_chunks [OF inv step] ks same by (auto simp: framed_def)
  qed
qed

lemma start_framed:
  assumes "map unat wants = map length msgs"
  shows "framed (start_sys cap msgs wants w)"
  using assms
  by (simp add: framed_def prod_chunks_def cons_chunks_def start_sys_def in_flight_def cap_of_def
      contents_def ring_contents_def head_of_def tail_of_def Let_def)

lemma reach_framed:
  assumes "reach pol s0 s" "ring_inv bs s0" "framed s0"
  shows "framed s"
  using assms
proof (induction rule: reach.induct)
  case (step s i s')
  then have "ring_inv bs s"
    using reach_inv by blast
  with step show ?case
    by (cases i) (auto simp: side_step_def intro: producer_step_framed consumer_step_framed)
qed auto

text \<open>Hence two sides never wait for each other.\<close>

lemma framed_no_circular_wait:
  assumes inv: "ring_inv bs s" and fr: "framed s"
    and p: "waits_for (p_pc (prodr s)) = Some n" and c: "waits_for (c_pc (consr s)) = Some m"
  shows "room s n \<or> there s m"
proof -
  have cap: "2 \<le> unat (capacity (p_ring (prodr s)))"
    and same: "capacity (c_ring (consr s)) = capacity (p_ring (prodr s))"
    using ring_invD(1) [OF inv] by (simp_all add: mem_ok_def cap_of_def)
  have np: "chunk_ok (capacity (p_ring (prodr s))) (p_left (prodr s)) n"
    using ring_invD(2) [OF inv] p by (auto simp: prod_ok_def Let_def waits_for_def split: side_pc.splits)
  have nc: "chunk_ok (capacity (p_ring (prodr s))) (c_left (consr s)) m" "in_flight (c_pc (consr s)) = 0"
    using ring_invD(3) [OF inv] c same
    by (auto simp: cons_ok_def Let_def waits_for_def in_flight_def split: side_pc.splits)
  obtain ks where ks: "cons_chunks s = ks @ prod_chunks s" "sum_list ks = length (contents s)"
    using fr by (auto simp: framed_def)
  show ?thesis
  proof (cases ks)
    case Nil
    then show ?thesis
      using ks chunk_ok_bounds(2) [OF np cap] by (simp add: room_def cap_of_def)
  next
    case (Cons k ks')
    then have "k = unat m"
      using ks chunks_head [OF nc(1) cap] nc(2) by (simp add: cons_chunks_def cap_of_def)
    then show ?thesis
      using ks Cons by (auto simp: there_def)
  qed
qed

text \<open>A side that is done pushing or popping does not hold the other one up either.\<close>

lemma waiting_producer_room:
  assumes inv: "ring_inv bs s" and fr: "framed s"
    and p: "waits_for (p_pc (prodr s)) = Some n"
    and c: "c_pc (consr s) = Idle" "c_todo (consr s) = []"
  shows "room s n"
proof -
  have cap: "2 \<le> unat (capacity (p_ring (prodr s)))" and left: "c_left (consr s) = 0"
    using ring_invD(1,3) [OF inv] c by (auto simp: mem_ok_def cap_of_def cons_ok_def Let_def unat_eq_0)
  have np: "chunk_ok (capacity (p_ring (prodr s))) (p_left (prodr s)) n"
    using ring_invD(2) [OF inv] p by (auto simp: prod_ok_def Let_def waits_for_def split: side_pc.splits)
  have "contents s = []"
    using fr c left by (auto simp: framed_def cons_chunks_def in_flight_def)
  then show ?thesis
    using chunk_ok_bounds(2) [OF np cap] by (simp add: room_def cap_of_def)
qed

lemma waiting_consumer_there:
  assumes inv: "ring_inv bs s" and fr: "framed s"
    and c: "waits_for (c_pc (consr s)) = Some m"
    and p: "p_pc (prodr s) = Idle" "p_todo (prodr s) = []"
  shows "there s m"
proof -
  have cap: "2 \<le> unat (capacity (p_ring (prodr s)))" and left: "p_left (prodr s) = 0"
    and same: "capacity (c_ring (consr s)) = capacity (p_ring (prodr s))"
    using ring_invD(1,2) [OF inv] p by (auto simp: mem_ok_def cap_of_def prod_ok_def Let_def unat_eq_0)
  have nc: "chunk_ok (capacity (p_ring (prodr s))) (c_left (consr s)) m" "in_flight (c_pc (consr s)) = 0"
    using ring_invD(3) [OF inv] c same
    by (auto simp: cons_ok_def Let_def waits_for_def in_flight_def split: side_pc.splits)
  have "sum_list (cons_chunks s) = length (contents s)"
    using fr p left by (auto simp: framed_def prod_chunks_def in_flight_def)
  then show ?thesis
    using chunks_head [OF nc(1) cap] nc(2) by (simp add: cons_chunks_def cap_of_def there_def)
qed

section \<open>The calls that were asked for are the calls that are made\<close>

definition wanted :: "'w sys \<Rightarrow> nat list" where
  "wanted s = map length (c_done (consr s)) @
     (if c_pc (consr s) = Idle then [] else [length (c_out (consr s))]) @ map unat (c_todo (consr s))"

lemma consumer_step_wanted:
  assumes inv: "ring_inv bs s" and step: "consumer_step pol s = Some s'"
  shows "wanted s' = wanted s"
proof -
  have pc: "c_pc (consr s') \<noteq> Fault"
    using ring_invD(3) [OF consumer_step_inv [OF inv step]] by (auto simp: cons_ok_def Let_def)
  have len: "length (c_out (consr s')) = length (c_out (consr s))"
    if "c_pc (consr s) \<noteq> Idle" "c_pc (consr s) \<noteq> Loop"
    using step that pc
    by (auto simp: consumer_step_def Let_def memcpy_def memcpy_from_def memcpy_to_def
        split: side_pc.splits option.splits sum.splits if_splits)
  show ?thesis
    using step pc len
    by (auto simp: consumer_step_def Let_def wanted_def
        split: side_pc.splits list.splits option.splits sum.splits if_splits)
qed

lemma reach_wanted:
  assumes "reach pol s0 s" "ring_inv bs s0"
  shows "wanted s = wanted s0"
  using assms
proof (induction rule: reach.induct)
  case (step s i s')
  then have "ring_inv bs s"
    using reach_inv by blast
  with step show ?case
    using producer_step_shape(1) [of pol s s']
    by (cases i) (auto simp: side_step_def wanted_def dest: consumer_step_wanted)
qed auto

lemma concat_same_lengths:
  "map length xs = map length ys \<Longrightarrow> concat xs = concat ys \<Longrightarrow> xs = ys"
  by (induction xs ys rule: list_induct2') auto

text \<open>At any time the buffers popped so far are the first of the messages pushed.\<close>

lemma popped_are_pushed:
  assumes inv: "ring_inv (concat msgs) s" and want: "wanted s = map length msgs"
  shows "c_done (consr s) = take (length (c_done (consr s))) msgs"
proof -
  let ?d = "c_done (consr s)"
  let ?m = "take (length ?d) msgs"
  have "take (length ?d) (map length msgs) = map length ?d"
    unfolding want [symmetric] wanted_def by simp
  then have len: "map length ?d = map length ?m"
    by (simp add: take_map)
  have "concat ?d @ take (c_off (consr s) + in_flight (c_pc (consr s))) (c_out (consr s)) @ contents s @ unsent s =
      concat (?m @ drop (length ?d) msgs)"
    using ring_invD(4) [OF inv] by (simp add: stream_def received_def)
  moreover have "length (concat ?d) = length (concat ?m)"
    using len by (simp add: length_concat)
  ultimately have "concat ?d = concat ?m"
    unfolding concat_append by (meson append_eq_append_conv)
  with len show ?thesis
    by (rule concat_same_lengths)
qed

lemma finished_delivers:
  assumes inv: "ring_inv (concat msgs) s" and fin: "finished s"
    and want: "wanted s = map length msgs"
  shows "c_done (consr s) = msgs"
proof -
  have "map length (c_done (consr s)) = map length msgs"
    using want fin by (simp add: wanted_def finished_def)
  then have "length (c_done (consr s)) = length msgs"
    by (metis length_map)
  then show ?thesis
    using popped_are_pushed [OF inv want] by simp
qed

section \<open>Every useful step is progress\<close>

definition pc_rank :: "side_pc \<Rightarrow> nat" where
  "pc_rank pc = (case pc of Idle \<Rightarrow> 0 | Loop \<Rightarrow> 10 | Wait _ \<Rightarrow> 9 | Sleep _ \<Rightarrow> 8 | Reload _ \<Rightarrow> 7
     | Copy _ \<Rightarrow> 6 | Copy_rest _ \<Rightarrow> 5 | Publish _ \<Rightarrow> 4 | Notify _ \<Rightarrow> 11 | Fault \<Rightarrow> 0)"

definition work_left :: "'w sys \<Rightarrow> nat" where
  "work_left s =
     20 * (length (prod_chunks s) + length (p_todo (prodr s))
         + length (cons_chunks s) + length (c_todo (consr s)))
       + pc_rank (p_pc (prodr s)) + pc_rank (c_pc (consr s))"

lemma producer_rank_decreases:
  assumes inv: "ring_inv bs s" and step: "producer_step pol s = Some s'" and use: "useful Producer s" and np: "\<nexists>n. p_pc (prodr s) = Publish n"
  shows "20 * length (p_todo (prodr s')) + pc_rank (p_pc (prodr s'))
      < 20 * length (p_todo (prodr s)) + pc_rank (p_pc (prodr s))"
proof (cases "\<exists>n. p_pc (prodr s) = Reload n")
  case True
  then obtain n where n: "p_pc (prodr s) = Reload n" by auto
  have chk: "chunk_ok (capacity (p_ring (prodr s))) (p_left (prodr s)) n"
    using ring_invD(2) [OF inv] n by (simp add: prod_ok_def Let_def)
  have pos: "0 < unat n"
    using chunk_ok_bounds(1) [OF chk] ring_invD(1) [OF inv] by (simp add: mem_ok_def state_defs)
  have shp: "cachedTail (p_ring (prodr s')) = tail (mem s')" "mem s' = mem s"
    "p_todo (prodr s') = p_todo (prodr s)" "capacity (p_ring (prodr s')) = capacity (p_ring (prodr s))"
    and pc': "p_pc (prodr s') = (if freeSpaceSeen (p_ring (prodr s')) (mem s') < n then Wait n else Copy n)"
    using step n by (auto simp: producer_step_def Let_def)
  have "fits s' n"
    using use n shp by (simp add: useful_def waits_for_def room_def fits_def length_contents state_defs)
  then have "\<not> freeSpaceSeen (p_ring (prodr s')) (mem s') < n"
    using freeSpaceSeen_fits [OF ring_invD(1) [OF producer_step_inv [OF inv step]] pos] by simp
  then show ?thesis
    using pc' n shp by (simp add: pc_rank_def)
next
  case no: False
  have "p_pc (prodr s') \<noteq> Fault"
    using ring_invD(2) [OF producer_step_inv [OF inv step]] by (auto simp: prod_ok_def Let_def)
  then show ?thesis
    using step no np
    by (auto simp: producer_step_def Let_def pc_rank_def
        split: side_pc.splits list.splits option.splits sum.splits if_splits)
qed

lemma producer_useful_decreases:
  assumes inv: "ring_inv bs s" and step: "producer_step pol s = Some s'" and use: "useful Producer s"
  shows "work_left s' < work_left s"
proof (cases "\<exists>n. p_pc (prodr s) = Publish n")
  case True
  then obtain n where n: "p_pc (prodr s) = Publish n" by auto
  then have "p_pc (prodr s') = Notify n" "p_todo (prodr s') = p_todo (prodr s)"
    using step by (auto simp: producer_step_def Let_def)
  then show ?thesis
    using producer_publish_chunks(1) [OF inv step n] producer_step_shape(1,3) [OF step] n
    by (simp add: work_left_def cons_chunks_def pc_rank_def)
next
  case False
  have ch: "prod_chunks s' = prod_chunks s"
    using producer_step_chunks(1) [OF inv step] False by blast
  have cc: "cons_chunks s' = cons_chunks s" "consr s' = consr s"
    using producer_step_shape(1,3) [OF step] by (simp_all add: cons_chunks_def)
  have "20 * length (p_todo (prodr s')) + pc_rank (p_pc (prodr s')) < 20 * length (p_todo (prodr s)) + pc_rank (p_pc (prodr s))"
    by (rule producer_rank_decreases [OF inv step use False])
  then show ?thesis
    using ch cc by (simp add: work_left_def)
qed

lemma consumer_rank_decreases:
  assumes inv: "ring_inv bs s" and step: "consumer_step pol s = Some s'" and use: "useful Consumer s" and np: "\<nexists>n. c_pc (consr s) = Publish n"
  shows "20 * length (c_todo (consr s')) + pc_rank (c_pc (consr s'))
      < 20 * length (c_todo (consr s)) + pc_rank (c_pc (consr s))"
proof (cases "\<exists>n. c_pc (consr s) = Reload n")
  case True
  then obtain n where n: "c_pc (consr s) = Reload n" by auto
  have shp: "cachedHead (c_ring (consr s')) = head (mem s')" "mem s' = mem s"
    "c_todo (consr s') = c_todo (consr s)" "prodr s' = prodr s"
    and pc': "c_pc (consr s') = (if sizeSeen (c_ring (consr s')) (mem s') < n then Wait n else Copy n)"
    using step n by (auto simp: consumer_step_def Let_def)
  have "holds s' n"
    using use n shp by (simp add: useful_def waits_for_def there_def holds_def length_contents state_defs)
  then have "\<not> sizeSeen (c_ring (consr s')) (mem s') < n"
    using sizeSeen_holds [OF ring_invD(1) [OF consumer_step_inv [OF inv step]]] by (simp add: not_less)
  then show ?thesis
    using pc' n shp by (simp add: pc_rank_def)
next
  case no: False
  have "c_pc (consr s') \<noteq> Fault"
    using ring_invD(3) [OF consumer_step_inv [OF inv step]] by (auto simp: cons_ok_def Let_def)
  then show ?thesis
    using step no np
    by (auto simp: consumer_step_def Let_def pc_rank_def
        split: side_pc.splits list.splits option.splits sum.splits if_splits)
qed

lemma consumer_useful_decreases:
  assumes inv: "ring_inv bs s" and step: "consumer_step pol s = Some s'" and use: "useful Consumer s"
  shows "work_left s' < work_left s"
proof (cases "\<exists>n. c_pc (consr s) = Publish n")
  case True
  then obtain n where n: "c_pc (consr s) = Publish n" by auto
  then have "c_pc (consr s') = Notify n" "c_todo (consr s') = c_todo (consr s)"
    using step by (auto simp: consumer_step_def Let_def)
  then show ?thesis
    using consumer_publish_chunks(1) [OF inv step n] consumer_step_shape(1,3) [OF step] n
    by (simp add: work_left_def prod_chunks_def pc_rank_def)
next
  case False
  have ch: "cons_chunks s' = cons_chunks s"
    using consumer_step_chunks(1) [OF inv step] False by blast
  have cc: "prod_chunks s' = prod_chunks s" "prodr s' = prodr s"
    using consumer_step_shape(1,3) [OF step] by (simp_all add: prod_chunks_def)
  have "20 * length (c_todo (consr s')) + pc_rank (c_pc (consr s')) < 20 * length (c_todo (consr s)) + pc_rank (c_pc (consr s))"
    by (rule consumer_rank_decreases [OF inv step use False])
  then show ?thesis
    using ch cc by (simp add: work_left_def)
qed

section \<open>The contract of a wait policy\<close>

text \<open>
  What \<^verbatim>\<open>push\<close> and \<^verbatim>\<open>pop\<close> need of \<^verbatim>\<open>WaitPolicy\<close> so that nobody sleeps for ever: a
  signal is kept (\<open>present\<close>, \<open>free\<close>) until the side it is meant for has consumed it.
\<close>

locale sticky_policy =
  fixes pol :: "'w wait_policy"
    and present :: "'w \<Rightarrow> bool"
    and free :: "'w \<Rightarrow> bool"
  assumes wake_present: "present w \<Longrightarrow> \<exists>w'. leaveDataPresent pol w = Some w'"
    and wake_free: "free w \<Longrightarrow> \<exists>w'. leaveDataFree pol w = Some w'"
    and enter_present: "present w \<Longrightarrow> present (enterDataPresent pol w)"
      "free w \<Longrightarrow> free (enterDataPresent pol w)"
    and enter_free: "free w \<Longrightarrow> free (enterDataFree pol w)"
      "present w \<Longrightarrow> present (enterDataFree pol w)"
    and leave_present: "leaveDataPresent pol w = Some w' \<Longrightarrow> free w \<Longrightarrow> free w'"
    and leave_free: "leaveDataFree pol w = Some w' \<Longrightarrow> present w \<Longrightarrow> present w'"
    and signal_present: "present (signalDataPresent pol w)"
      "free w \<Longrightarrow> free (signalDataPresent pol w)"
    and signal_free: "free (signalDataFree pol w)"
      "present w \<Longrightarrow> present (signalDataFree pol w)"
begin

text \<open>
  A side that is about to sleep although it need not has its wake-up pending, or the
  other side is on its way to signal it.
\<close>

definition producer_awake :: "'w sys \<Rightarrow> bool" where
  "producer_awake s \<longleftrightarrow>
     (\<forall>n. p_pc (prodr s) \<in> {Wait n, Sleep n} \<and> room s n \<longrightarrow>
        free (wst s) \<or> (\<exists>k. c_pc (consr s) = Notify k))"

definition consumer_awake :: "'w sys \<Rightarrow> bool" where
  "consumer_awake s \<longleftrightarrow>
     (\<forall>n. c_pc (consr s) \<in> {Wait n, Sleep n} \<and> there s n \<longrightarrow>
        present (wst s) \<or> (\<exists>k. p_pc (prodr s) = Notify k))"

lemma producer_stays_awake:
  assumes inv: "ring_inv bs s" and step: "producer_step pol s = Some s'"
    and aw: "producer_awake s" "consumer_awake s"
  shows "producer_awake s'"
proof -
  note shape = producer_step_shape [OF step]
  note inv' = producer_step_inv [OF inv step]
  show ?thesis
  proof (cases "\<exists>n. p_pc (prodr s) = Wait n")
    case True
    then obtain n where n: "p_pc (prodr s) = Wait n" by auto
    then have "p_pc (prodr s') = Sleep n" "wst s' = enterDataFree pol (wst s)"
      using step by (auto simp: producer_step_def Let_def)
    moreover have "room s' n = room s n"
      using producer_step_chunks(2) [OF inv step] n shape by (simp add: room_def)
    ultimately show ?thesis
      using aw(1) n shape enter_free(1) by (auto simp: producer_awake_def)
  next
    case False
    have "\<not> room s' n" if n: "p_pc (prodr s') \<in> {Wait n, Sleep n}" for n
    proof -
      have re: "p_pc (prodr s) = Reload n" "cachedTail (p_ring (prodr s')) = tail (mem s')"
        "freeSpaceSeen (p_ring (prodr s')) (mem s') < n"
        using step n False
        by (auto simp: producer_step_def Let_def
            split: side_pc.splits list.splits option.splits sum.splits if_splits)
      have "chunk_ok (capacity (p_ring (prodr s))) (p_left (prodr s)) n"
        using ring_invD(2) [OF inv] re by (simp add: prod_ok_def Let_def)
      then have "0 < unat n"
        using chunk_ok_bounds(1) ring_invD(1) [OF inv] by (auto simp: mem_ok_def state_defs)
      then have "\<not> fits s' n"
        using freeSpaceSeen_fits [OF ring_invD(1) [OF inv'], of n] re(3) leD by blast
      then show ?thesis
        using re(2) by (simp add: fits_def room_def length_contents state_defs)
    qed
    then show ?thesis
      unfolding producer_awake_def by blast
  qed
qed

lemma producer_wakes_consumer:
  assumes inv: "ring_inv bs s" and step: "producer_step pol s = Some s'"
    and aw: "producer_awake s" "consumer_awake s"
  shows "consumer_awake s'"
proof -
  note shape = producer_step_shape [OF step]
  show ?thesis
  proof (cases "\<exists>n. p_pc (prodr s) = Publish n")
    case True
    then have "\<exists>n. p_pc (prodr s') = Notify n"
      using step by (auto simp: producer_step_def Let_def)
    then show ?thesis
      by (auto simp: consumer_awake_def)
  next
    case False
    then have "there s' n = there s n" for n
      using producer_step_chunks(2) [OF inv step] by (simp add: there_def)
    moreover have "present (wst s')" if "present (wst s) \<or> (\<exists>k. p_pc (prodr s) = Notify k)"
      using step that
      by (auto simp: producer_step_def Let_def signal_present enter_free leave_free
          split: side_pc.splits list.splits option.splits sum.splits if_splits)
    ultimately show ?thesis
      using aw(2) shape by (auto simp: consumer_awake_def)
  qed
qed

lemma consumer_stays_awake:
  assumes inv: "ring_inv bs s" and step: "consumer_step pol s = Some s'"
    and aw: "producer_awake s" "consumer_awake s"
  shows "consumer_awake s'"
proof -
  note shape = consumer_step_shape [OF step]
  note inv' = consumer_step_inv [OF inv step]
  show ?thesis
  proof (cases "\<exists>n. c_pc (consr s) = Wait n")
    case True
    then obtain n where n: "c_pc (consr s) = Wait n" by auto
    then have "c_pc (consr s') = Sleep n" "wst s' = enterDataPresent pol (wst s)"
      using step by (auto simp: consumer_step_def Let_def)
    moreover have "there s' n = there s n"
      using consumer_step_chunks(2) [OF inv step] n by (simp add: there_def)
    ultimately show ?thesis
      using aw(2) n shape enter_present(1) by (auto simp: consumer_awake_def)
  next
    case False
    have "\<not> there s' n" if n: "c_pc (consr s') \<in> {Wait n, Sleep n}" for n
    proof -
      have re: "cachedHead (c_ring (consr s')) = head (mem s')"
        "sizeSeen (c_ring (consr s')) (mem s') < n"
        using step n False
        by (auto simp: consumer_step_def Let_def
            split: side_pc.splits list.splits option.splits sum.splits if_splits)
      then have "\<not> holds s' n"
        using sizeSeen_holds [OF ring_invD(1) [OF inv'], of n] leD by blast
      then show ?thesis
        using re(1) by (simp add: holds_def there_def length_contents state_defs)
    qed
    then show ?thesis
      unfolding consumer_awake_def by blast
  qed
qed

lemma consumer_wakes_producer:
  assumes inv: "ring_inv bs s" and step: "consumer_step pol s = Some s'"
    and aw: "producer_awake s" "consumer_awake s"
  shows "producer_awake s'"
proof -
  note shape = consumer_step_shape [OF step]
  show ?thesis
  proof (cases "\<exists>n. c_pc (consr s) = Publish n")
    case True
    then have "\<exists>n. c_pc (consr s') = Notify n"
      using step by (auto simp: consumer_step_def Let_def)
    then show ?thesis
      by (auto simp: producer_awake_def)
  next
    case False
    then have "room s' n = room s n" for n
      using consumer_step_chunks(2) [OF inv step] shape by (simp add: room_def)
    moreover have "free (wst s')" if "free (wst s) \<or> (\<exists>k. c_pc (consr s) = Notify k)"
      using step that
      by (auto simp: consumer_step_def Let_def signal_free enter_present leave_present
          split: side_pc.splits list.splits option.splits sum.splits if_splits)
    ultimately show ?thesis
      using aw(1) shape by (auto simp: producer_awake_def)
  qed
qed

definition live :: "byte_t list \<Rightarrow> 'w sys \<Rightarrow> bool" where
  "live bs s \<longleftrightarrow> ring_inv bs s \<and> framed s \<and> producer_awake s \<and> consumer_awake s"

lemma step_live: "side_step pol i s = Some s' \<Longrightarrow> live bs s \<Longrightarrow> live bs s'"
  by (cases i)
    (auto simp: live_def side_step_def
      intro: producer_step_inv consumer_step_inv producer_step_framed consumer_step_framed
      producer_stays_awake producer_wakes_consumer consumer_stays_awake consumer_wakes_producer)

lemma start_live:
  assumes "2 \<le> cap" "unat cap \<le> 2 ^ 63" "\<forall>d \<in> set msgs. length d < 2 ^ 64"
    "map unat wants = map length msgs"
  shows "live (concat msgs) (start_sys cap msgs wants w)"
proof -
  have "producer_awake (start_sys cap msgs wants w)" "consumer_awake (start_sys cap msgs wants w)"
    by (simp_all add: producer_awake_def consumer_awake_def start_sys_def Let_def)
  then show ?thesis
    unfolding live_def by (intro conjI start_inv start_framed assms)
qed

lemma reach_live: "reach pol s0 s \<Longrightarrow> live bs s0 \<Longrightarrow> live bs s"
  by (induction rule: reach.induct) (auto intro: step_live)

text \<open>A useful side is not asleep for good.\<close>

lemma producer_can_step:
  assumes live: "live bs s" and use: "useful Producer s"
    and no: "\<nexists>k. c_pc (consr s) = Notify k" and pc: "p_pc (prodr s) \<noteq> Idle \<or> p_todo (prodr s) \<noteq> []"
  shows "\<exists>s'. producer_step pol s = Some s'"
proof -
  have nf: "p_pc (prodr s) \<noteq> Fault"
    using live ring_invD(2) [of bs s] by (auto simp: live_def prod_ok_def Let_def)
  have "\<exists>w'. leaveDataFree pol (wst s) = Some w'" if "p_pc (prodr s) = Sleep n" for n
    using that live no use
    by (intro wake_free) (auto simp: live_def producer_awake_def useful_def waits_for_def)
  with nf pc show ?thesis
    by (auto simp: producer_step_def Let_def split: side_pc.splits list.splits option.splits sum.splits)
qed

lemma consumer_can_step:
  assumes live: "live bs s" and use: "useful Consumer s"
    and no: "\<nexists>k. p_pc (prodr s) = Notify k" and pc: "c_pc (consr s) \<noteq> Idle \<or> c_todo (consr s) \<noteq> []"
  shows "\<exists>s'. consumer_step pol s = Some s'"
proof -
  have nf: "c_pc (consr s) \<noteq> Fault"
    using live ring_invD(3) [of bs s] by (auto simp: live_def cons_ok_def Let_def)
  have "\<exists>w'. leaveDataPresent pol (wst s) = Some w'" if "c_pc (consr s) = Sleep n" for n
    using that live no use
    by (intro wake_present) (auto simp: live_def consumer_awake_def useful_def waits_for_def)
  with nf pc show ?thesis
    by (auto simp: consumer_step_def Let_def split: side_pc.splits list.splits option.splits sum.splits)
qed

lemma one_side_useful:
  assumes "live bs s" "\<not> finished s"
  shows "useful Producer s \<and> (p_pc (prodr s) \<noteq> Idle \<or> p_todo (prodr s) \<noteq> []) \<or>
    useful Consumer s \<and> (c_pc (consr s) \<noteq> Idle \<or> c_todo (consr s) \<noteq> [])"
proof -
  have inv: "ring_inv bs s" and fr: "framed s"
    using assms(1) by (simp_all add: live_def)
  have idle: "p_pc (prodr s) \<noteq> Idle" if "waits_for (p_pc (prodr s)) = Some n" for n
    using that by (auto simp: waits_for_def)
  have idle': "c_pc (consr s) \<noteq> Idle" if "waits_for (c_pc (consr s)) = Some n" for n
    using that by (auto simp: waits_for_def)
  show ?thesis
  proof (cases "waits_for (p_pc (prodr s))"; cases "waits_for (c_pc (consr s))")
    fix n m
    assume "waits_for (p_pc (prodr s)) = Some n" "waits_for (c_pc (consr s)) = Some m"
    then show ?thesis
      using framed_no_circular_wait [OF inv fr] idle idle' by (fastforce simp: useful_def)
  next
    fix n
    assume n: "waits_for (p_pc (prodr s)) = Some n" and c: "waits_for (c_pc (consr s)) = None"
    then show ?thesis
      using waiting_producer_room [OF inv fr n] idle [OF n] by (auto simp: useful_def)
  next
    fix m
    assume m: "waits_for (c_pc (consr s)) = Some m" and p: "waits_for (p_pc (prodr s)) = None"
    then show ?thesis
      using waiting_consumer_there [OF inv fr m] idle' [OF m] by (auto simp: useful_def)
  next
    assume "waits_for (p_pc (prodr s)) = None" "waits_for (c_pc (consr s)) = None"
    then show ?thesis
      using assms(2) by (auto simp: useful_def finished_def)
  qed
qed

lemma no_deadlock:
  assumes live: "live bs s" and nf: "\<not> finished s"
  shows "\<exists>i s'. useful i s \<and> side_step pol i s = Some s'"
proof -
  have n1: "useful Producer s \<and> (\<exists>s'. producer_step pol s = Some s')" if "p_pc (prodr s) = Notify k" for k
    using that by (simp add: useful_def waits_for_def producer_step_def Let_def)
  have n2: "useful Consumer s \<and> (\<exists>s'. consumer_step pol s = Some s')" if "c_pc (consr s) = Notify k" for k
    using that by (simp add: useful_def waits_for_def consumer_step_def Let_def)
  have "(useful Producer s \<and> (\<exists>s'. producer_step pol s = Some s')) \<or>
      (useful Consumer s \<and> (\<exists>s'. consumer_step pol s = Some s'))"
    using one_side_useful [OF live nf] n1 n2 producer_can_step [OF live] consumer_can_step [OF live]
    by metis
  then show ?thesis
    by (metis (no_types, lifting) side.simps(3,4) side_step_def)
qed

lemma useful_decreases:
  assumes "live bs s" "side_step pol i s = Some s'" "useful i s"
  shows "work_left s' < work_left s"
  using assms producer_useful_decreases consumer_useful_decreases
  by (cases i) (auto simp: side_step_def live_def)

lemma can_finish: "live bs s \<Longrightarrow> \<exists>sched s'. run pol sched s = Some s' \<and> finished s'"
proof (induction "work_left s" arbitrary: s rule: less_induct)
  case less
  show ?case
  proof (cases "finished s")
    case True
    then show ?thesis
      using run.simps(1) by blast
  next
    case False
    then obtain i s1 where s1: "useful i s" "side_step pol i s = Some s1"
      using no_deadlock less.prems by blast
    then obtain sched s' where "run pol sched s1 = Some s'" "finished s'"
      using less.hyps [OF useful_decreases] step_live less.prems by blast
    then have "run pol (i # sched) s = Some s'" "finished s'"
      using s1 by simp_all
    then show ?thesis
      by blast
  qed
qed

lemma matched_calls_complete:
  assumes start: "2 \<le> cap" "unat cap \<le> 2 ^ 63" "\<forall>d \<in> set msgs. length d < 2 ^ 64"
      "map unat wants = map length msgs"
    and reach: "reach pol (start_sys cap msgs wants w) s"
  shows "\<exists>sched s'. run pol sched s = Some s' \<and> finished s' \<and> c_done (consr s') = msgs"
proof -
  let ?s0 = "start_sys cap msgs wants w"
  have l0: "live (concat msgs) ?s0"
    by (rule start_live [OF start])
  have inv0: "ring_inv (concat msgs) ?s0"
    using l0 by (simp add: live_def)
  obtain sched s' where s': "run pol sched s = Some s'" "finished s'"
    using can_finish [OF reach_live [OF reach l0]] by blast
  have r': "reach pol ?s0 s'"
    using run_reach [OF s'(1) reach] .
  have "wanted s' = map length msgs"
    using reach_wanted [OF r' inv0] start(4) by (simp add: wanted_def start_sys_def Let_def)
  then have "c_done (consr s') = msgs"
    using finished_delivers [OF reach_inv [OF r' inv0] s'(2)] by simp
  then show ?thesis
    using s' by blast
qed

end

end
