(* ===== verification/Numbers.thy ===== *)
theory Numbers
  imports Gicame_Prelude
begin

text \<open>
  \<^verbatim>\<open>src/headers/utils/Numbers.h\<close>: the checked conversion between integer types. A C++
  integer type is its signedness and its width in bits; values are integers in the range
  of their type, and a cast wraps. The branches of \<^verbatim>\<open>if constexpr\<close> are kept in order.
\<close>

record int_type =
  is_signed :: bool
  width :: nat

definition INT8 :: int_type where "INT8 = \<lparr>is_signed = True, width = 8\<rparr>"
definition INT32 :: int_type where "INT32 = \<lparr>is_signed = True, width = 32\<rparr>"
definition INT64 :: int_type where "INT64 = \<lparr>is_signed = True, width = 64\<rparr>"
definition UINT8 :: int_type where "UINT8 = \<lparr>is_signed = False, width = 8\<rparr>"
definition UINT64 :: int_type where "UINT64 = \<lparr>is_signed = False, width = 64\<rparr>"
definition DWORD :: int_type where "DWORD = \<lparr>is_signed = False, width = 32\<rparr>"
definition SIZE_T :: int_type where "SIZE_T = UINT64"

definition max_of :: "int_type \<Rightarrow> int" where
  "max_of t = (if is_signed t then 2 ^ (width t - 1) - 1 else 2 ^ width t - 1)"

definition min_of :: "int_type \<Rightarrow> int" where
  "min_of t = (if is_signed t then - (2 ^ (width t - 1)) else 0)"

definition static_cast :: "int_type \<Rightarrow> int \<Rightarrow> int" where
  "static_cast t v =
     (if is_signed t then (v + 2 ^ (width t - 1)) mod 2 ^ width t - 2 ^ (width t - 1)
      else v mod 2 ^ width t)"

definition maxOf :: "int_type \<Rightarrow> int_type \<Rightarrow> int" where
  "maxOf Type OutType = static_cast OutType (max_of Type)"

definition minOf :: "int_type \<Rightarrow> int_type \<Rightarrow> int" where
  "minOf Type OutType = static_cast OutType (min_of Type)"

definition cast_error :: "string \<Rightarrow> exn" where
  "cast_error msg = RUNTIME_ERROR ''safeNumericCast'' msg"

definition safeNumericCast :: "int_type \<Rightarrow> int_type \<Rightarrow> int \<Rightarrow> int result" where
  "safeNumericCast Target Original v =
     (if Target = Original then Inr v
      else if is_signed Target = is_signed Original \<and> width Target \<ge> width Original
        then Inr (static_cast Target v)
      else if \<not> is_signed Target \<and> \<not> is_signed Original \<and> v > max_of Target
        then Inl (cast_error ''original too big'')
      else if is_signed Target \<and> is_signed Original \<and> static_cast INT64 v > maxOf Target INT64
        then Inl (cast_error ''original too positive'')
      else if is_signed Target \<and> is_signed Original \<and> static_cast INT64 v < minOf Target INT64
        then Inl (cast_error ''original too negative'')
      else if \<not> is_signed Target \<and> is_signed Original \<and> v < 0
        then Inl (cast_error ''original is negative and Target is unsigned'')
      else if \<not> is_signed Target \<and> is_signed Original \<and> static_cast UINT64 v > maxOf Target UINT64
        then Inl (cast_error ''original too big'')
      else if is_signed Target \<and> \<not> is_signed Original \<and> static_cast UINT64 v > maxOf Target UINT64
        then Inl (cast_error ''original too big'')
      else Inr (static_cast Target v))"

section \<open>Correctness\<close>

definition in_range :: "int_type \<Rightarrow> int \<Rightarrow> bool" where
  "in_range t v \<longleftrightarrow> min_of t \<le> v \<and> v \<le> max_of t"

definition valid_type :: "int_type \<Rightarrow> bool" where
  "valid_type t \<longleftrightarrow> 0 < width t \<and> width t \<le> 64"

lemma pow_split: "0 < w \<Longrightarrow> (2::int) ^ w = 2 * 2 ^ (w - 1)"
  by (cases w) simp_all

lemma static_cast_id: "valid_type t \<Longrightarrow> in_range t v \<Longrightarrow> static_cast t v = v"
  using pow_split [of "width t"]
  by (auto simp: valid_type_def in_range_def static_cast_def min_of_def max_of_def split: if_splits)

lemma max_of_bounds:
  assumes "valid_type t"
  shows "0 \<le> max_of t" "max_of t < 2 ^ 64" "min_of t \<le> 0" "- (2 ^ 63) \<le> min_of t"
    "is_signed t \<Longrightarrow> max_of t < 2 ^ 63"
proof -
  have "width t - 1 \<le> 63" "width t \<le> 64"
    using assms by (auto simp: valid_type_def)
  then have "(2::int) ^ (width t - 1) \<le> 2 ^ 63" "(2::int) ^ width t \<le> 2 ^ 64"
    by (simp_all only: power_increasing)
  moreover have "(1::int) \<le> 2 ^ (width t - 1)" "(1::int) \<le> 2 ^ width t"
    by simp_all
  ultimately show "0 \<le> max_of t" "max_of t < 2 ^ 64" "min_of t \<le> 0" "- (2 ^ 63) \<le> min_of t"
    "is_signed t \<Longrightarrow> max_of t < 2 ^ 63"
    by (auto simp: max_of_def min_of_def)
qed

lemma in_range_mono:
  assumes "is_signed t = is_signed o'" "width o' \<le> width t" "valid_type o'" "in_range o' v"
  shows "in_range t v"
proof -
  have "(2::int) ^ (width o' - 1) \<le> 2 ^ (width t - 1)" "(2::int) ^ width o' \<le> 2 ^ width t"
    using assms(2) by (intro power_increasing; simp)+
  then show ?thesis
    using assms(1,4) unfolding in_range_def max_of_def min_of_def
    by (smt (verit))
qed

lemma cast_64:
  assumes "valid_type t" "in_range t v"
  shows "is_signed t \<Longrightarrow> static_cast INT64 v = v" "0 \<le> v \<Longrightarrow> static_cast UINT64 v = v"
  using assms max_of_bounds [OF assms(1)]
  by (auto intro!: static_cast_id simp: in_range_def INT64_def UINT64_def valid_type_def max_of_def min_of_def)

lemma limits_64:
  assumes "valid_type t"
  shows "is_signed t \<Longrightarrow> maxOf t INT64 = max_of t" "is_signed t \<Longrightarrow> minOf t INT64 = min_of t"
    "maxOf t UINT64 = max_of t"
proof -
  note b = max_of_bounds [OF assms]
  have "in_range INT64 (max_of t)" "in_range INT64 (min_of t)" if "is_signed t"
    using b that by (simp_all add: in_range_def INT64_def max_of_def [of "\<lparr>is_signed = _, width = _\<rparr>"]
        min_of_def [of "\<lparr>is_signed = _, width = _\<rparr>"])
  moreover have "in_range UINT64 (max_of t)"
    using b by (simp add: in_range_def UINT64_def max_of_def [of "\<lparr>is_signed = _, width = _\<rparr>"]
        min_of_def [of "\<lparr>is_signed = _, width = _\<rparr>"])
  moreover have "valid_type INT64" "valid_type UINT64"
    by (simp_all add: valid_type_def INT64_def UINT64_def)
  ultimately show "is_signed t \<Longrightarrow> maxOf t INT64 = max_of t" "is_signed t \<Longrightarrow> minOf t INT64 = min_of t"
    "maxOf t UINT64 = max_of t"
    by (simp_all add: maxOf_def minOf_def static_cast_id)
qed

text \<open>C8: for every pair of integer types of at most 64 bits, \<open>safeNumericCast\<close> returns
  the value unchanged exactly when the target type can represent it, and throws
  otherwise.\<close>

theorem safeNumericCast_correct:
  assumes "valid_type Target" "valid_type Original" "in_range Original v"
  shows "if in_range Target v then safeNumericCast Target Original v = Inr v
    else \<exists>msg. safeNumericCast Target Original v = Inl (cast_error msg)"
proof (cases "Target = Original \<or> (is_signed Target = is_signed Original \<and> width Original \<le> width Target)")
  case True
  then have "in_range Target v"
    using assms in_range_mono by auto
  then show ?thesis
    using True static_cast_id [OF assms(1)] by (auto simp: safeNumericCast_def)
next
  case False
  have v: "is_signed Original \<Longrightarrow> static_cast INT64 v = v" "0 \<le> v \<Longrightarrow> static_cast UINT64 v = v"
    using cast_64 [OF assms(2,3)] by auto
  have nn: "\<not> is_signed Original \<Longrightarrow> 0 \<le> v"
    using assms(3) by (simp add: in_range_def min_of_def)
  have lo: "min_of Target \<le> 0" "\<not> is_signed Target \<Longrightarrow> min_of Target = 0"
    using max_of_bounds [OF assms(1)] by (simp_all add: min_of_def)
  have id: "in_range Target v \<Longrightarrow> static_cast Target v = v"
    using static_cast_id assms(1) by blast
  show ?thesis
    using False v nn lo id limits_64 [OF assms(1)]
    by (cases "is_signed Target"; cases "is_signed Original")
      (auto simp: safeNumericCast_def in_range_def not_le not_less)
qed

theorem safeNumericCast_correct_witness:
  "safeNumericCast INT8 UINT64 127 = Inr 127 \<and>
   (\<exists>msg. safeNumericCast INT8 INT64 (- 129) = Inl (cast_error msg))"
  using safeNumericCast_correct [of INT8 UINT64 127] safeNumericCast_correct [of INT8 INT64 "- 129"]
  by (simp add: INT8_def UINT64_def INT64_def valid_type_def in_range_def min_of_def max_of_def)

end
