(* ===== verification/SharedMemory.thy ===== *)
theory SharedMemory
  imports Numbers
begin

text \<open>
  \<^verbatim>\<open>src/headers/utils/Memory.h\<close> (alignment and erasure) and the shared memory object of
  \<^verbatim>\<open>src/headers/sm/SharedMemory.h\<close> and \<^verbatim>\<open>src/src/sm/SharedMemory.cpp\<close>, in its POSIX and
  its Windows version. The system calls are parameters over a state \<open>'o\<close> of the
  operating system; pointers are 64-bit addresses, 0 being NULL.
\<close>

type_synonym addr = "64 word"

section \<open>Memory utilities\<close>

text \<open>The loop of \<open>eraseMemory\<close>: one zero byte at a time until \<^verbatim>\<open>size\<close> is 0.\<close>

fun eraseMemory :: "byte_t list \<Rightarrow> nat \<Rightarrow> nat \<Rightarrow> byte_t list result" where
  "eraseMemory m p 0 = Inr m"
| "eraseMemory m p (Suc n) = bind_result (vec_set m p 0) (\<lambda>m'. eraseMemory m' (Suc p) n)"

text \<open>\<^verbatim>\<open>std::align\<close> as the standard specifies it, on a power of two \<^verbatim>\<open>alignment\<close>.\<close>

definition align_up :: "addr \<Rightarrow> addr \<Rightarrow> addr" where
  "align_up a p = (p + (a - 1)) AND (- a)"

definition std_align :: "addr \<Rightarrow> size_t \<Rightarrow> addr \<Rightarrow> size_t \<Rightarrow> addr \<times> size_t" where
  "std_align alignment sz ptr space =
     (let diff = align_up alignment ptr - ptr in
      if space < sz \<or> diff > space - sz then (0, space) else (ptr + diff, space - diff))"

definition align :: "addr \<Rightarrow> size_t \<Rightarrow> addr \<Rightarrow> size_t \<Rightarrow> addr \<times> size_t" where
  "align alignof_T sizeof_T ptr sz =
     (case std_align alignof_T sizeof_T ptr sz of
        (p, sz') \<Rightarrow> (p, if p \<noteq> 0 then sz' else 0))"

definition advance :: "addr \<Rightarrow> size_t \<Rightarrow> addr" where
  "advance ptr displacement = ptr + displacement"

definition deleteAndNullify :: "'a option \<Rightarrow> 'a list \<Rightarrow> 'a option \<times> 'a list" where
  "deleteAndNullify ptr deleted = (case ptr of None \<Rightarrow> (None, deleted) | Some x \<Rightarrow> (None, deleted @ [x]))"

section \<open>Shared memory: POSIX\<close>

record SharedMemory =
  sm_name :: string
  sm_size :: size_t
  sm_ptr :: addr
  sm_fd :: int
  unlinkOnDestruction :: bool

record 'o shm_api =
  shm_open :: "string \<Rightarrow> bool \<Rightarrow> 'o \<Rightarrow> int \<times> 'o"
  ftruncate :: "int \<Rightarrow> size_t \<Rightarrow> 'o \<Rightarrow> int \<times> 'o"
  mmap :: "size_t \<Rightarrow> int \<Rightarrow> 'o \<Rightarrow> addr \<times> 'o"
  munmap :: "addr \<Rightarrow> size_t \<Rightarrow> 'o \<Rightarrow> 'o"
  shm_unlink :: "string \<Rightarrow> 'o \<Rightarrow> 'o"

definition MAP_FAILED :: addr where
  "MAP_FAILED = - 1"

definition SharedMemory_new :: "string \<Rightarrow> size_t \<Rightarrow> SharedMemory" where
  "SharedMemory_new name sz =
     \<lparr>sm_name = ''/'' @ name, sm_size = sz, sm_ptr = 0, sm_fd = - 1, unlinkOnDestruction = True\<rparr>"

text \<open>The move constructor: the new object and what is left of the source.\<close>

definition SharedMemory_move :: "SharedMemory \<Rightarrow> SharedMemory \<times> SharedMemory" where
  "SharedMemory_move other =
     (other, other\<lparr>sm_ptr := 0, sm_fd := - 1, unlinkOnDestruction := False\<rparr>)"

definition sm_close :: "'o shm_api \<Rightarrow> SharedMemory \<Rightarrow> 'o \<Rightarrow> (SharedMemory \<times> 'o) result" where
  "sm_close api sm os =
     (if sm_ptr sm = 0 then Inl (RUNTIME_ERROR ''close'' ''SharedMemory not created or opened'')
      else Inr (sm\<lparr>sm_ptr := 0\<rparr>, munmap api (sm_ptr sm) (sm_size sm) os))"

definition sm_unlink :: "'o shm_api \<Rightarrow> SharedMemory \<Rightarrow> 'o \<Rightarrow> (SharedMemory \<times> 'o) result" where
  "sm_unlink api sm os =
     bind_result (if sm_ptr sm \<noteq> 0 then sm_close api sm os else Inr (sm, os))
       (\<lambda>(sm', os'). Inr (sm', shm_unlink api (sm_name sm') os'))"

definition SharedMemory_destroy :: "'o shm_api \<Rightarrow> SharedMemory \<Rightarrow> 'o \<Rightarrow> 'o result" where
  "SharedMemory_destroy api sm os =
     (if sm_ptr sm \<noteq> 0 then
        bind_result (sm_close api sm os) (\<lambda>(sm1, os1).
          if unlinkOnDestruction sm1 then map_sum id snd (sm_unlink api sm1 os1) else Inr os1)
      else Inr os)"

definition sm_open ::
    "'o shm_api \<Rightarrow> bool \<Rightarrow> SharedMemory \<Rightarrow> 'o \<Rightarrow> (bool \<times> SharedMemory \<times> 'o) result" where
  "sm_open api createIfNotExisting sm os =
     (if sm_ptr sm \<noteq> 0 then Inl (RUNTIME_ERROR ''open'' ''SharedMemory already open'')
      else case shm_open api (sm_name sm) createIfNotExisting os of (fd, os1) \<Rightarrow>
        let sm1 = sm\<lparr>sm_fd := fd\<rparr> in
        if fd < 0 then Inr (False, sm1, os1)
        else case ftruncate api fd (sm_size sm) os1 of (r, os2) \<Rightarrow>
          if r < 0 then Inr (False, sm1, shm_unlink api (sm_name sm) os2)
          else case mmap api (sm_size sm) fd os2 of (p, os3) \<Rightarrow>
            let sm2 = sm1\<lparr>sm_ptr := p\<rparr> in
            if p = 0 then Inr (False, sm2, shm_unlink api (sm_name sm) os3)
            else Inr (True, sm2, os3))"

definition setUnlinkOnDestruction :: "bool \<Rightarrow> SharedMemory \<Rightarrow> SharedMemory" where
  "setUnlinkOnDestruction uod sm = sm\<lparr>unlinkOnDestruction := uod\<rparr>"

definition getAs :: "addr \<Rightarrow> size_t \<Rightarrow> SharedMemory \<Rightarrow> addr option" where
  "getAs alignof_T sizeof_T sm =
     (case align alignof_T sizeof_T (sm_ptr sm) (sm_size sm) of
        (objPtr, _) \<Rightarrow> if objPtr = 0 then None else Some objPtr)"

section \<open>Shared memory: Windows\<close>

text \<open>The object of the Windows version has a handle in place of the descriptor, 0 for NULL.\<close>

record win_SharedMemory =
  wm_name :: string
  wm_size :: size_t
  wm_ptr :: addr
  fileHandle :: addr
  wm_unlinkOnDestruction :: bool

record 'o mapping_api =
  CreateFileMappingA :: "uint32 \<Rightarrow> string \<Rightarrow> 'o \<Rightarrow> addr \<times> 'o"
  OpenFileMappingA :: "string \<Rightarrow> 'o \<Rightarrow> addr \<times> 'o"
  MapViewOfFile :: "addr \<Rightarrow> size_t \<Rightarrow> 'o \<Rightarrow> addr \<times> 'o"
  UnmapViewOfFile :: "addr \<Rightarrow> 'o \<Rightarrow> 'o"
  CloseFileHandle :: "addr \<Rightarrow> 'o \<Rightarrow> 'o"

definition win_SharedMemory_new :: "string \<Rightarrow> size_t \<Rightarrow> win_SharedMemory" where
  "win_SharedMemory_new name sz =
     \<lparr>wm_name = ''Local'' @ [CHR 0x5C] @ name, wm_size = sz, wm_ptr = 0, fileHandle = 0,
      wm_unlinkOnDestruction = True\<rparr>"

definition win_close :: "'o mapping_api \<Rightarrow> win_SharedMemory \<Rightarrow> 'o \<Rightarrow> (win_SharedMemory \<times> 'o) result" where
  "win_close api sm os =
     (if wm_ptr sm = 0 then Inl (RUNTIME_ERROR ''close'' ''SharedMemory not created or opened'')
      else Inr (sm\<lparr>wm_ptr := 0\<rparr>, UnmapViewOfFile api (wm_ptr sm) os))"

definition win_unlink :: "'o mapping_api \<Rightarrow> win_SharedMemory \<Rightarrow> 'o \<Rightarrow> (win_SharedMemory \<times> 'o) result" where
  "win_unlink api sm os =
     bind_result (if wm_ptr sm \<noteq> 0 then win_close api sm os else Inr (sm, os))
       (\<lambda>(sm', os'). Inr (sm', CloseFileHandle api (fileHandle sm') os'))"

definition win_destroy_sm :: "'o mapping_api \<Rightarrow> win_SharedMemory \<Rightarrow> 'o \<Rightarrow> 'o result" where
  "win_destroy_sm api sm os =
     (if wm_ptr sm \<noteq> 0 then
        bind_result (win_close api sm os) (\<lambda>(sm1, os1).
          if wm_unlinkOnDestruction sm1 then map_sum id snd (win_unlink api sm1 os1) else Inr os1)
      else Inr os)"

definition win_map :: "'o mapping_api \<Rightarrow> win_SharedMemory \<Rightarrow> 'o \<Rightarrow> bool \<times> win_SharedMemory \<times> 'o" where
  "win_map api sm os =
     (if fileHandle sm = 0 then (False, sm, os)
      else case MapViewOfFile api (fileHandle sm) (wm_size sm) os of (p, os1) \<Rightarrow>
        if p = 0 then (False, sm\<lparr>wm_ptr := p\<rparr>, CloseFileHandle api (fileHandle sm) os1)
        else (True, sm\<lparr>wm_ptr := p\<rparr>, os1))"

definition win_open ::
    "'o mapping_api \<Rightarrow> bool \<Rightarrow> win_SharedMemory \<Rightarrow> 'o \<Rightarrow> (bool \<times> win_SharedMemory \<times> 'o) result" where
  "win_open api createIfNotExisting sm os =
     (if wm_ptr sm \<noteq> 0 then Inl (RUNTIME_ERROR ''open'' ''SharedMemory already open'')
      else if createIfNotExisting then
        bind_result (safeNumericCast DWORD SIZE_T (uint (wm_size sm))) (\<lambda>sizeAsDword.
          case CreateFileMappingA api (word_of_int sizeAsDword) (wm_name sm) os of (h, os1) \<Rightarrow>
            Inr (win_map api (sm\<lparr>fileHandle := h\<rparr>) os1))
      else case OpenFileMappingA api (wm_name sm) os of (h, os1) \<Rightarrow>
        Inr (win_map api (sm\<lparr>fileHandle := h\<rparr>) os1))"

section \<open>Properties\<close>

lemma eraseMemory_blit:
  "p + n \<le> length m \<Longrightarrow> eraseMemory m p n = Inr (blit m p (replicate n 0))"
proof (induction n arbitrary: m p)
  case 0
  then show ?case
    by (simp add: blit_def)
next
  case (Suc n)
  have "blit (m[p := 0]) (Suc p) (replicate n 0) = blit m p (replicate (Suc n) 0)"
    using Suc.prems by (simp add: blit_def take_Suc_conv_app_nth)
  then show ?case
    using Suc by simp
qed

text \<open>\<open>eraseMemory\<close> on memory that is there zeroes exactly the given bytes, and running
  past the end is the only way for it to go wrong.\<close>

theorem eraseMemory_exact:
  "eraseMemory m p n =
     (if n = 0 \<or> p + n \<le> length m then Inr (blit m p (replicate n 0))
      else Inl (Undefined_behaviour ''operator[]: index out of bounds''))"
proof (induction n arbitrary: m p)
  case (Suc n)
  show ?case
  proof (cases "p + Suc n \<le> length m")
    case True
    then show ?thesis
      using eraseMemory_blit [of p "Suc n" m] by simp
  next
    case False
    then show ?thesis
      using Suc [of "m[p := 0]" "Suc p"]
      by (cases "n = 0") (auto simp: vec_set_def)
  qed
qed (simp add: blit_def)

subsection \<open>Alignment\<close>

lemma and_not_mask_push: "(x :: 'a::len word) AND NOT (mask k) = push_bit k (drop_bit k x)"
  by (rule bit_eqI) (auto simp: bit_simps)

lemma unat_and_not_mask: "unat (x AND NOT (mask k) :: addr) = unat x - unat x mod 2 ^ k"
proof -
  have "x AND NOT (mask k) = x - take_bit k x"
    using bits_ident [of k x] by (simp add: and_not_mask_push algebra_simps)
  moreover have "unat (take_bit k x) = unat x mod 2 ^ k"
    by (simp only: unsigned_take_bit_eq) (simp add: take_bit_eq_mod)
  ultimately show ?thesis
    by (simp add: unat_minus_le)
qed

lemma align_up_64:
  assumes "unat p + 63 < 2 ^ 64"
  shows "unat p \<le> unat (align_up 64 p)" "unat (align_up 64 p) \<le> unat p + 63" "64 dvd unat (align_up 64 p)"
proof -
  have neg: "(- 64 :: addr) = NOT (mask 6)"
    by (simp add: mask_eq_exp_minus_1)
  have plus: "unat (p + 63) = unat p + 63"
    using assms by (simp add: unat_plus_lt)
  have "unat (align_up 64 p) = (unat p + 63) - (unat p + 63) mod 64"
    using unat_and_not_mask [of "p + 63" 6] plus by (simp add: align_up_def neg)
  then show "unat p \<le> unat (align_up 64 p)" "unat (align_up 64 p) \<le> unat p + 63" "64 dvd unat (align_up 64 p)"
    using mod_less_divisor [of 64 "unat p + 63"] by (auto intro: dvd_minus_mod)
qed
text \<open>Aligning to a cache line inside a block that is large enough loses at most 63 bytes.\<close>

lemma align_64:
  assumes "p \<noteq> 0" "unat p + 63 < 2 ^ 64" "unat sz + 63 \<le> unat space"
  shows "align 64 sz p space = (align_up 64 p, space - (align_up 64 p - p))"
    and "unat (space - (align_up 64 p - p)) = unat space - (unat (align_up 64 p) - unat p)"
    and "align_up 64 p \<noteq> 0"
proof -
  note up = align_up_64 [OF assms(2)]
  have diff: "unat (align_up 64 p - p) = unat (align_up 64 p) - unat p"
    using up(1) by (rule unat_minus_le)
  then have diff_le: "unat (align_up 64 p - p) \<le> 63"
    using up(2) by simp
  have sp: "unat (space - sz) = unat space - unat sz"
    using assms(3) by (intro unat_minus_le) simp
  show nz: "align_up 64 p \<noteq> 0"
    using assms(1) up(1) by (metis le_zero_eq unat_0 unat_eq_zero)
  have "\<not> space < sz" "\<not> align_up 64 p - p > space - sz"
    using assms(3) diff_le sp by (simp_all add: word_less_nat_alt)
  then show "align 64 sz p space = (align_up 64 p, space - (align_up 64 p - p))"
    using nz by (simp add: align_def std_align_def Let_def)
  show "unat (space - (align_up 64 p - p)) = unat space - (unat (align_up 64 p) - unat p)"
    using diff diff_le assms(3) by (subst unat_minus_le) auto
qed

subsection \<open>The shared memory object\<close>

text \<open>moving a shared memory object moves its ownership. Destroying the source of the
  move touches nothing of the operating system, destroying the target does exactly what
  destroying the original would have done, and the two together release the mapping once.\<close>

theorem SharedMemory_move_ownership:
  "case SharedMemory_move sm of (target, source) \<Rightarrow>
     SharedMemory_destroy api source os = Inr os \<and>
     SharedMemory_destroy api target os = SharedMemory_destroy api sm os \<and>
     bind_result (SharedMemory_destroy api source os) (SharedMemory_destroy api target)
       = bind_result (SharedMemory_destroy api target os) (SharedMemory_destroy api source)"
proof -
  have "bind_result m Inr = m" for m :: "'a result"
    by (cases m) simp_all
  then show ?thesis
    by (simp add: SharedMemory_move_def SharedMemory_destroy_def bind_result_def cong: sum.case_cong)
qed

text \<open>what a successful \<open>open\<close> guarantees: the object is mapped, a second \<open>open\<close>
  throws, \<open>close\<close> unmaps the very mapping and makes the object reusable; but after an
  explicit \<open>close\<close> the destructor does nothing, so the name is not unlinked although
  \<open>unlinkOnDestruction\<close> is set.\<close>

theorem SharedMemory_open_close:
  assumes "sm_open api c sm os = Inr (True, sm1, os1)"
  shows "sm_ptr sm1 \<noteq> 0 \<and>
    sm_open api c' sm1 os1 = Inl (RUNTIME_ERROR ''open'' ''SharedMemory already open'') \<and>
    (\<exists>sm2. sm_close api sm1 os1 = Inr (sm2, munmap api (sm_ptr sm1) (sm_size sm) os1) \<and>
       unlinkOnDestruction sm2 = unlinkOnDestruction sm \<and> sm_ptr sm2 = 0 \<and>
       (\<forall>os2. SharedMemory_destroy api sm2 os2 = Inr os2))"
  using assms
  by (auto simp: sm_open_def sm_close_def SharedMemory_destroy_def Let_def
      split: if_splits prod.splits)

definition plain_shm :: "string list shm_api" where
  "plain_shm = \<lparr>shm_open = (\<lambda>n _ os. (3, n # os)), ftruncate = (\<lambda>_ _ os. (0, os)),
     mmap = (\<lambda>_ _ os. (4096, os)), munmap = (\<lambda>_ _ os. os), shm_unlink = removeAll\<rparr>"

theorem SharedMemory_open_close_witness:
  "\<exists>sm2. sm_close plain_shm ((SharedMemory_new ''a'' 64)\<lparr>sm_fd := 3, sm_ptr := 4096\<rparr>) [''/a''] = Inr (sm2, [''/a'']) \<and>
     unlinkOnDestruction sm2 \<and> SharedMemory_destroy plain_shm sm2 [''/a''] = Inr [''/a'']"
  using SharedMemory_open_close
    [of plain_shm True "SharedMemory_new ''a'' 64" "[]"
      "(SharedMemory_new ''a'' 64)\<lparr>sm_fd := 3, sm_ptr := 4096\<rparr>" "[''/a'']" True]
  by (auto simp: sm_open_def plain_shm_def SharedMemory_new_def Let_def)

text \<open>\<open>open\<close> recognises a failed mapping by a NULL pointer, but \<^verbatim>\<open>mmap\<close> reports
  failure with \<^verbatim>\<open>MAP_FAILED\<close>, all ones: when it does, \<open>open\<close> returns true and the object's
  pointer is that invalid address.\<close>

theorem sm_open_accepts_MAP_FAILED:
  assumes "sm_ptr sm = 0" "shm_open api (sm_name sm) c os = (fd, os1)" "0 \<le> fd"
    and "ftruncate api fd (sm_size sm) os1 = (0, os2)" "mmap api (sm_size sm) fd os2 = (MAP_FAILED, os3)"
  shows "sm_open api c sm os = Inr (True, sm\<lparr>sm_fd := fd, sm_ptr := MAP_FAILED\<rparr>, os3)"
  using assms by (simp add: sm_open_def Let_def MAP_FAILED_def)

theorem sm_open_accepts_MAP_FAILED_witness:
  "sm_open (plain_shm\<lparr>mmap := \<lambda>_ _ os. (MAP_FAILED, os)\<rparr>) True (SharedMemory_new ''a'' 64) []
     = Inr (True, (SharedMemory_new ''a'' 64)\<lparr>sm_fd := 3, sm_ptr := MAP_FAILED\<rparr>, [''/a''])"
  by (rule sm_open_accepts_MAP_FAILED) (simp_all add: plain_shm_def SharedMemory_new_def)

end
