(* ===== verification/InterprocessSignal.thy ===== *)
theory InterprocessSignal
  imports ByteRing_Progress SharedMemory
begin

text \<open>
  \<^verbatim>\<open>src/headers/concurrency/InterprocessSignal.h\<close>, its three implementations in
  \<^verbatim>\<open>src/src/concurrency/InterprocessSignal.cpp\<close> and the futex primitives of
  \<^verbatim>\<open>src/internal_headers/futex/Futex.h\<close>. The operating system's calls are parameters
  (records of functions on the kernel object's state \<open>'k\<close>); a blocking call answers
  \<open>None\<close> while the caller has to sleep. The contract the header promises
  (\<^emph>\<open>signaling is sticky\<close>) is the locale \<open>sticky_signal\<close>.
\<close>

datatype WaitResult = OK | TIMEOUT_ELAPSED | FAILED

text \<open>
  The operations the wait policies use: entering a wait, returning from it, signalling.
\<close>

record 'k ipsignal =
  sig_enter :: "'k \<Rightarrow> 'k"
  sig_leave :: "'k \<Rightarrow> 'k option"
  sig_post :: "'k \<Rightarrow> 'k"

section \<open>Windows: an auto-reset event\<close>

record 'k event_api =
  CreateEventA :: "string \<Rightarrow> 'k option"
  CloseHandle :: "'k \<Rightarrow> 'k"
  WaitForSingleObject :: "'k \<Rightarrow> (uint32 \<times> 'k) option"
  SetEvent :: "'k \<Rightarrow> 'k"

definition WAIT_TIMEOUT :: uint32 where
  "WAIT_TIMEOUT = 258"

definition WAIT_FAILED :: uint32 where
  "WAIT_FAILED = 0xFFFFFFFF"

text \<open>The object holds a handle, or NULL once it was moved from.\<close>

definition win_InterprocessSignal :: "'k event_api \<Rightarrow> string \<Rightarrow> 'k option result" where
  "win_InterprocessSignal api name =
     (case CreateEventA api (''is_'' @ name) of
        None \<Rightarrow> Inl (RUNTIME_ERROR ''InterprocessSignal'' ''CreateEvent failed, check signal name'')
      | Some h \<Rightarrow> Inr (Some h))"

definition win_move :: "'k option \<Rightarrow> 'k option \<times> 'k option" where
  "win_move other = (other, None)"

definition win_destroy :: "'k event_api \<Rightarrow> 'k option \<Rightarrow> 'k list" where
  "win_destroy api h = (case h of None \<Rightarrow> [] | Some k \<Rightarrow> [CloseHandle api k])"

definition win_wait :: "'k event_api \<Rightarrow> 'k \<Rightarrow> (WaitResult \<times> 'k) option" where
  "win_wait api k =
     (case WaitForSingleObject api k of
        None \<Rightarrow> None
      | Some (r, k') \<Rightarrow>
          Some (if r = WAIT_TIMEOUT then TIMEOUT_ELAPSED else if r = WAIT_FAILED then FAILED else OK, k'))"

definition win_signal :: "'k event_api \<Rightarrow> 'k \<Rightarrow> 'k" where
  "win_signal api k = SetEvent api k"

definition win_ipsignal :: "'k event_api \<Rightarrow> 'k ipsignal" where
  "win_ipsignal api =
     \<lparr>sig_enter = (\<lambda>k. k), sig_leave = (\<lambda>k. map_option snd (win_wait api k)), sig_post = win_signal api\<rparr>"

section \<open>POSIX: a process-shared mutex and condition variable\<close>

text \<open>
  \<open>cond_block\<close> and \<open>cond_wake\<close> are the two halves of \<^verbatim>\<open>pthread_cond_wait\<close>: giving up the
  mutex and going to sleep, and returning with the mutex and a result code.
\<close>

record 'k pthread_api =
  pthread_mutex_lock :: "'k \<Rightarrow> int \<times> 'k"
  pthread_mutex_unlock :: "'k \<Rightarrow> int \<times> 'k"
  cond_block :: "'k \<Rightarrow> 'k"
  cond_wake :: "'k \<Rightarrow> (int \<times> 'k) option"
  pthread_cond_signal :: "'k \<Rightarrow> int \<times> 'k"

definition ETIMEDOUT :: int where
  "ETIMEDOUT = 110"

definition posix_wait_enter :: "'k pthread_api \<Rightarrow> 'k \<Rightarrow> 'k result" where
  "posix_wait_enter api k =
     (case pthread_mutex_lock api k of
        (errorCode, k1) \<Rightarrow>
          if errorCode \<noteq> 0 then Inl (RUNTIME_ERROR ''wait'' ''pthread_mutex_lock failed'')
          else Inr (cond_block api k1))"

definition posix_wait_leave :: "'k pthread_api \<Rightarrow> 'k \<Rightarrow> (WaitResult \<times> 'k) result option" where
  "posix_wait_leave api k =
     (case cond_wake api k of
        None \<Rightarrow> None
      | Some (condWaitErrorCode, k1) \<Rightarrow>
          Some (case pthread_mutex_unlock api k1 of
            (errorCode, k2) \<Rightarrow>
              if errorCode \<noteq> 0 then Inl (RUNTIME_ERROR ''wait'' ''pthread_mutex_unlock failed'')
              else Inr (if condWaitErrorCode = ETIMEDOUT then TIMEOUT_ELAPSED
                        else if condWaitErrorCode \<noteq> 0 then FAILED else OK, k2)))"

definition posix_signal :: "'k pthread_api \<Rightarrow> 'k \<Rightarrow> 'k result" where
  "posix_signal api k =
     (case pthread_mutex_lock api k of
        (e1, k1) \<Rightarrow>
          if e1 \<noteq> 0 then Inl (RUNTIME_ERROR ''signal'' ''pthread_mutex_lock failed'')
          else (case pthread_cond_signal api k1 of
            (condSigErrorCode, k2) \<Rightarrow>
              (case pthread_mutex_unlock api k2 of
                (e2, k3) \<Rightarrow>
                  if e2 \<noteq> 0 then Inl (RUNTIME_ERROR ''signal'' ''pthread_mutex_unlock failed'')
                  else if condSigErrorCode \<noteq> 0
                    then Inl (RUNTIME_ERROR ''signal'' ''pthread_cond_signal failed'')
                  else Inr k3)))"

text \<open>
  The constructor of both shared memory versions: \<^verbatim>\<open>sizeof\<close> and \<^verbatim>\<open>alignof\<close> of what is put
  there (\<^verbatim>\<open>PosixMutexCV\<close>, or the atomic futex word) and the initialised object \<open>init\<close> are
  arguments. The object is initialised by the master and by the slave alike: \<open>cr\<close> only
  decides who creates the memory and who unlinks it.
\<close>

definition shm_InterprocessSignal ::
    "'o shm_api \<Rightarrow> size_t \<Rightarrow> size_t \<Rightarrow> 'k \<Rightarrow> string \<Rightarrow> ConcurrencyRole \<Rightarrow> 'o
     \<Rightarrow> (SharedMemory \<times> addr \<times> 'k \<times> 'o) result" where
  "shm_InterprocessSignal api sizeof_obj alignof_obj init name cr os =
     bind_result (sm_open api (cr = MASTER) (SharedMemory_new (''is_shmem_'' @ name) sizeof_obj) os)
       (\<lambda>(success, shmem, os1).
         if \<not> success then Inl (RUNTIME_ERROR ''InterprocessSignal'' ''Cannot create shared memory'')
         else
           let shmem = setUnlinkOnDestruction (cr = MASTER) shmem in
           case align alignof_obj sizeof_obj (sm_ptr shmem) (sm_size shmem) of (memPtr, _) \<Rightarrow>
             if memPtr = 0 then Inl (RUNTIME_ERROR ''InterprocessSignal'' ''Unaligned shared memory error'')
             else Inr (shmem, memPtr, init, os1))"

definition shm_move :: "SharedMemory \<times> addr \<Rightarrow> (SharedMemory \<times> addr) \<times> (SharedMemory \<times> addr)" where
  "shm_move other =
     (case SharedMemory_move (fst other) of (target, source) \<Rightarrow> ((target, snd other), (source, 0)))"

text \<open>As the operations of a signal, for runs in which none of the calls throws.\<close>

definition or_same :: "'k \<Rightarrow> 'k result \<Rightarrow> 'k" where
  "or_same k r = (case r of Inl _ \<Rightarrow> k | Inr k' \<Rightarrow> k')"

definition posix_ipsignal :: "'k pthread_api \<Rightarrow> 'k ipsignal" where
  "posix_ipsignal api =
     \<lparr>sig_enter = (\<lambda>k. or_same k (posix_wait_enter api k)),
      sig_leave = (\<lambda>k. map_option (\<lambda>r. or_same k (map_sum id snd r)) (posix_wait_leave api k)),
      sig_post = (\<lambda>k. or_same k (posix_signal api k))\<rparr>"

section \<open>The stub\<close>

text \<open>A signal that never blocks: \<open>wait\<close> reports at once that its time has elapsed, \<open>signal\<close> does nothing.\<close>

definition Stub_wait :: "unit \<Rightarrow> WaitResult \<times> unit" where
  "Stub_wait k = (TIMEOUT_ELAPSED, k)"

definition Stub_signal :: "unit \<Rightarrow> unit" where
  "Stub_signal k = k"

definition stub_ipsignal :: "unit ipsignal" where
  "stub_ipsignal = \<lparr>sig_enter = (\<lambda>k. k), sig_leave = (\<lambda>k. Some (snd (Stub_wait k))), sig_post = Stub_signal\<rparr>"

section \<open>Linux: the futex pair\<close>

text \<open>
  One process in \<open>fwait\<close> and one in \<open>fpost\<close> on the same word. \<open>one\<close> is the local
  variable of \<open>fwait\<close>, which a failing \<^verbatim>\<open>atomic_compare_exchange_strong\<close> overwrites with
  the value it found. The system call \<^verbatim>\<open>FUTEX_WAIT\<close> with expected value 0 either finds
  another value (\<^verbatim>\<open>EAGAIN\<close>), or blocks; a blocked call returns when it is woken, or
  spuriously, or fails with \<^verbatim>\<open>EINTR\<close>. \<^verbatim>\<open>FUTEX_WAKE\<close> may fail too, and \<open>fpost\<close> then throws.
\<close>

datatype fwait_pc = FIdle | FCas | FSleep | FBlocked | FThrown
datatype fpost_pc = PIdle | PWake | PThrown

record futex_state =
  futexp :: uint32
  one :: uint32
  wpc :: fwait_pc
  ppc :: fpost_pc
  returns :: nat
  posts :: nat

datatype futex_event = Waiter | Poster | Spurious | Interrupted | Wake_fails

definition fwait_step :: "futex_state \<Rightarrow> futex_state option" where
  "fwait_step s = (case wpc s of
     FIdle \<Rightarrow> Some (s\<lparr>one := 1, wpc := FCas\<rparr>)
   | FCas \<Rightarrow>
       if futexp s = one s then Some (s\<lparr>futexp := 0, wpc := FIdle, returns := returns s + 1\<rparr>)
       else Some (s\<lparr>one := futexp s, wpc := FSleep\<rparr>)
   | FSleep \<Rightarrow> Some (s\<lparr>wpc := (if futexp s \<noteq> 0 then FCas else FBlocked)\<rparr>)
   | FBlocked \<Rightarrow> None
   | FThrown \<Rightarrow> None)"

definition fpost_step :: "futex_state \<Rightarrow> futex_state option" where
  "fpost_step s = (case ppc s of
     PIdle \<Rightarrow>
       if futexp s = 0 then Some (s\<lparr>futexp := 1, ppc := PWake, posts := posts s + 1\<rparr>)
       else Some (s\<lparr>posts := posts s + 1\<rparr>)
   | PWake \<Rightarrow> Some (s\<lparr>wpc := (if wpc s = FBlocked then FCas else wpc s), ppc := PIdle\<rparr>)
   | PThrown \<Rightarrow> None)"

definition futex_step :: "futex_event \<Rightarrow> futex_state \<Rightarrow> futex_state option" where
  "futex_step e s = (case e of
     Waiter \<Rightarrow> fwait_step s
   | Poster \<Rightarrow> fpost_step s
   | Spurious \<Rightarrow> if wpc s = FBlocked then Some (s\<lparr>wpc := FCas\<rparr>) else None
   | Interrupted \<Rightarrow> if wpc s = FBlocked then Some (s\<lparr>wpc := FThrown\<rparr>) else None
   | Wake_fails \<Rightarrow> if ppc s = PWake then Some (s\<lparr>ppc := PThrown\<rparr>) else None)"

fun futex_run :: "futex_event list \<Rightarrow> futex_state \<Rightarrow> futex_state option" where
  "futex_run [] s = Some s"
| "futex_run (e # es) s = (case futex_step e s of None \<Rightarrow> None | Some s' \<Rightarrow> futex_run es s')"

definition futex_new :: futex_state where
  "futex_new = \<lparr>futexp = 0, one = 1, wpc = FIdle, ppc = PIdle, returns = 0, posts = 0\<rparr>"

definition futex_inv :: "futex_state \<Rightarrow> bool" where
  "futex_inv s \<longleftrightarrow> futexp s \<in> {0, 1} \<and> one s \<in> {0, 1} \<and>
     (wpc s = FBlocked \<and> futexp s = 1 \<longrightarrow> ppc s \<noteq> PIdle) \<and>
     (wpc s = FSleep \<and> one s = 1 \<longrightarrow> futexp s = 1)"

lemma futex_step_inv: "futex_inv s \<Longrightarrow> futex_step e s = Some s' \<Longrightarrow> futex_inv s'"
  by (auto simp: futex_inv_def futex_step_def fwait_step_def fpost_step_def
      split: futex_event.splits fwait_pc.splits fpost_pc.splits if_splits)

lemma futex_run_inv: "futex_run es s = Some s' \<Longrightarrow> futex_inv s \<Longrightarrow> futex_inv s'"
  by (induction es arbitrary: s) (auto split: option.splits intro: futex_step_inv)

lemma futex_new_inv: "futex_inv futex_new"
  by (simp add: futex_inv_def futex_new_def)

text \<open>C7: a posted futex is never lost. In every state reached from a new signal,
  under any interleaving of waiter, poster and kernel events, a waiter that is inside
  \<open>fwait\<close> while the word is 1 and the poster has left \<open>fpost\<close> returns by its own steps,
  at most four, and takes the signal.\<close>

theorem futex_signal_not_lost:
  assumes "futex_run es futex_new = Some s" "futexp s = 1" "ppc s = PIdle"
    and "wpc s \<noteq> FIdle" "wpc s \<noteq> FThrown"
  shows "\<exists>n s'. n \<le> 4 \<and> futex_run (replicate n Waiter) s = Some s' \<and>
    wpc s' = FIdle \<and> futexp s' = 0 \<and> returns s' = returns s + 1"
proof -
  have inv: "futex_inv s"
    using assms(1) futex_new_inv by (rule futex_run_inv)
  note step = futex_step_def fwait_step_def numeral_eq_Suc
  consider "wpc s = FCas" "one s = 1" | "wpc s = FCas" "one s = 0" | "wpc s = FSleep" "one s = 0"
    | "wpc s = FSleep" "one s = 1"
    using inv assms by (cases "wpc s") (auto simp: futex_inv_def)
  then show ?thesis
  proof cases
    case 1
    then show ?thesis
      using assms(2) by (intro exI [of _ 1]) (simp add: step)
  next
    case 2
    then show ?thesis
      using assms(2) by (intro exI [of _ 3]) (simp add: step)
  next
    case 3
    then show ?thesis
      using assms(2) by (intro exI [of _ 4]) (simp add: step)
  next
    case 4
    then show ?thesis
      using assms(2) by (intro exI [of _ 2]) (simp add: step)
  qed
qed

theorem futex_signal_not_lost_witness:
  "\<exists>n s'. n \<le> 4 \<and>
     futex_run (replicate n Waiter) \<lparr>futexp = 1, one = 0, wpc = FCas, ppc = PIdle, returns = 0, posts = 1\<rparr>
       = Some s' \<and> wpc s' = FIdle \<and> futexp s' = 0 \<and> returns s' = 1"
  using futex_signal_not_lost
    [of "[Waiter, Waiter, Waiter, Poster, Poster]"
      "\<lparr>futexp = 1, one = 0, wpc = FCas, ppc = PIdle, returns = 0, posts = 1\<rparr>"]
  by (simp add: futex_new_def futex_step_def fwait_step_def fpost_step_def)

text \<open>but \<open>fwait\<close> can return without a signal. Its first failing compare-and-exchange
  sets the local \<open>one\<close> to 0, so a wake that arrives after the signal was already consumed
  (the poster sets the word and wakes in two separate actions) makes the next
  compare-and-exchange, 0 against 0, succeed: two returns for one post, with no spurious
  wake-up of the kernel involved.\<close>

theorem fwait_returns_without_signal:
  "\<exists>es s. set es \<subseteq> {Waiter, Poster} \<and> futex_run es futex_new = Some s \<and>
     posts s = 1 \<and> returns s = 2"
proof -
  let ?es = "[Poster, Waiter, Waiter, Waiter, Waiter, Waiter, Poster, Waiter]"
  have "\<exists>s. futex_run ?es futex_new = Some s \<and> posts s = 1 \<and> returns s = 2"
    by (simp add: futex_new_def futex_step_def fwait_step_def fpost_step_def)
  moreover have "set ?es \<subseteq> {Waiter, Poster}" by simp
  ultimately show ?thesis by blast
qed

section \<open>The promise: signaling is sticky\<close>

locale sticky_signal =
  fixes sig :: "'k ipsignal" and pending :: "'k \<Rightarrow> bool"
  assumes post_pending: "pending (sig_post sig k)"
    and enter_pending: "pending k \<Longrightarrow> pending (sig_enter sig k)"
    and leave_pending: "pending k \<Longrightarrow> \<exists>k'. sig_leave sig k = Some k'"
begin

text \<open>A signal sent before the wait starts ends the wait.\<close>

lemma signal_before_wait: "\<exists>k'. sig_leave sig (sig_enter sig (sig_post sig k)) = Some k'"
  by (intro leave_pending enter_pending post_pending)

end

text \<open>Whoever waits on the stub goes on and looks again, so that nothing is ever lost.\<close>

interpretation stub: sticky_signal stub_ipsignal "\<lambda>_. True"
  by unfold_locales (simp_all add: stub_ipsignal_def)

text \<open>The documented behaviour of an auto-reset event object.\<close>

locale auto_reset_event =
  fixes api :: "'k event_api" and signalled :: "'k \<Rightarrow> bool"
  assumes set_signalled: "signalled (SetEvent api k)"
    and wait_signalled: "signalled k \<Longrightarrow> \<exists>k'. WaitForSingleObject api k = Some (0, k') \<and> \<not> signalled k'"
begin

lemma win_wait_OK: "signalled k \<Longrightarrow> \<exists>k'. win_wait api k = Some (OK, k') \<and> \<not> signalled k'"
  using wait_signalled [of k] by (auto simp: win_wait_def WAIT_TIMEOUT_def WAIT_FAILED_def)

end

sublocale auto_reset_event \<subseteq> sticky_signal "win_ipsignal api" signalled
  by unfold_locales (use set_signalled win_wait_OK in \<open>force simp: win_ipsignal_def win_signal_def\<close>)+

text \<open>An event whose state is the flag itself.\<close>

definition flag_event :: "bool event_api" where
  "flag_event = \<lparr>CreateEventA = (\<lambda>_. Some False), CloseHandle = (\<lambda>k. k),
     WaitForSingleObject = (\<lambda>k. if k then Some (0, False) else None), SetEvent = (\<lambda>_. True)\<rparr>"

interpretation flag: auto_reset_event flag_event "\<lambda>k. k"
  by unfold_locales (auto simp: flag_event_def)

text \<open>
  The POSIX implementation keeps no flag: \<^verbatim>\<open>pthread_cond_signal\<close> has no effect when
  nobody waits.
\<close>

lemma posix_signal_lost:
  assumes "\<And>k. pthread_mutex_lock api k = (0, k)" "\<And>k. pthread_mutex_unlock api k = (0, k)"
    and "pthread_cond_signal api k = (0, k)"
  shows "posix_signal api k = Inr k"
  using assms by (simp add: posix_signal_def)

end
