(* ===== verification/InterprocessQueue.thy ===== *)
theory InterprocessQueue
  imports InterprocessSignal
begin

text \<open>
  The interprocess queues, \<^verbatim>\<open>src/headers/concurrency/InterprocessQueue.h\<close> and
  \<^verbatim>\<open>src/src/concurrency/InterprocessQueue.cpp\<close>: their wait policies, the layout of the
  shared memory and the constructors. The wait policies are instances of the contract
  \<open>sticky_policy\<close> whenever the signal they are built on is sticky.
\<close>

section \<open>Wait policies\<close>

text \<open>
  \<open>IntPrQueueLockPolicy\<close>: the state is that of its two signals, \<^verbatim>\<open>dataPresentEvent\<close> and
  \<^verbatim>\<open>dataFreeEvent\<close>.
\<close>

definition IntPrQueueLockPolicy :: "'k ipsignal \<Rightarrow> ('k \<times> 'k) wait_policy" where
  "IntPrQueueLockPolicy sig =
     \<lparr>enterDataPresent = (\<lambda>(p, f). (sig_enter sig p, f)),
      leaveDataPresent = (\<lambda>(p, f). map_option (\<lambda>p'. (p', f)) (sig_leave sig p)),
      enterDataFree = (\<lambda>(p, f). (p, sig_enter sig f)),
      leaveDataFree = (\<lambda>(p, f). map_option (\<lambda>f'. (p, f')) (sig_leave sig f)),
      signalDataPresent = (\<lambda>(p, f). (sig_post sig p, f)),
      signalDataFree = (\<lambda>(p, f). (p, sig_post sig f))\<rparr>"

definition SLIntPrQueueLockPolicy :: "unit wait_policy" where
  "SLIntPrQueueLockPolicy =
     \<lparr>enterDataPresent = (\<lambda>w. w), leaveDataPresent = Some, enterDataFree = (\<lambda>w. w),
      leaveDataFree = Some, signalDataPresent = (\<lambda>w. w), signalDataFree = (\<lambda>w. w)\<rparr>"

sublocale sticky_signal \<subseteq> queue: sticky_policy
    "IntPrQueueLockPolicy sig" "\<lambda>(p, f). pending p" "\<lambda>(p, f). pending f"
  by unfold_locales
    (auto simp: IntPrQueueLockPolicy_def post_pending enter_pending dest: leave_pending)

context sticky_signal
begin

lemma policy_is_sticky:
  "sticky_policy (IntPrQueueLockPolicy sig) (\<lambda>(p, f). pending p) (\<lambda>(p, f). pending f)"
  by unfold_locales

end

context auto_reset_event
begin

lemma event_is_sticky: "sticky_signal (win_ipsignal api) signalled"
  by unfold_locales

end

interpretation sl: sticky_policy SLIntPrQueueLockPolicy "\<lambda>_. True" "\<lambda>_. True"
  by unfold_locales (simp_all add: SLIntPrQueueLockPolicy_def)

section \<open>Construction\<close>

definition sizeof_CircularBufferDescriptor :: size_t where
  "sizeof_CircularBufferDescriptor = 2 * CACHE_LINE_SIZE"

definition alignof_CircularBufferDescriptor :: size_t where
  "alignof_CircularBufferDescriptor = CACHE_LINE_SIZE"

definition enlargeCapacity :: "size_t \<Rightarrow> size_t" where
  "enlargeCapacity capa = capa + sizeof_CircularBufferDescriptor + alignof_CircularBufferDescriptor"

text \<open>
  \<open>initShMem\<close>: the opened memory, the addresses of the descriptor and of the buffer, and
  the capacity; the master's placement new makes the indices 0.
\<close>

definition initShMem ::
    "'o shm_api \<Rightarrow> SharedMemory \<Rightarrow> size_t \<Rightarrow> ConcurrencyRole \<Rightarrow> ring_mem \<Rightarrow> 'o
     \<Rightarrow> (SharedMemory \<times> addr \<times> addr \<times> size_t \<times> ring_mem \<times> 'o) result" where
  "initShMem api shmem cap cr m os =
     (let maxCapacity = NOT (0 :: ipc_size_t) in
      if cap > maxCapacity then Inl (RUNTIME_ERROR ''initShMem'' ''Capacity too big'')
      else bind_result (sm_open api (cr = MASTER) shmem os) (\<lambda>(success, shmem1, os1).
        if \<not> success then Inl (RUNTIME_ERROR ''initShMem'' ''Unable to open shared memory'')
        else case align alignof_CircularBufferDescriptor sizeof_CircularBufferDescriptor
                    (sm_ptr shmem1) (sm_size shmem1) of (memPtr, newSize) \<Rightarrow>
          if memPtr = 0 then Inl (RUNTIME_ERROR ''initShMem'' ''Insufficient capacity'')
          else
            let m1 = (case cr of MASTER \<Rightarrow> m\<lparr>head := 0, tail := 0\<rparr> | SLAVE \<Rightarrow> m);
                newBuffer = advance memPtr sizeof_CircularBufferDescriptor;
                newCapacity = min (newSize - sizeof_CircularBufferDescriptor) cap
            in Inr (shmem1, memPtr, newBuffer, newCapacity, m1, os1)))"

record InterprocessQueue =
  q_ring :: ByteRing
  q_header :: addr
  q_buffer :: addr
  q_shmem :: SharedMemory

definition queue_new ::
    "string \<Rightarrow> 'o shm_api \<Rightarrow> string \<Rightarrow> size_t \<Rightarrow> ConcurrencyRole \<Rightarrow> ring_mem \<Rightarrow> 'o
     \<Rightarrow> (InterprocessQueue \<times> ring_mem \<times> 'o) result" where
  "queue_new pre api name cap cr m os =
     bind_result (initShMem api (SharedMemory_new (pre @ name) (enlargeCapacity cap)) cap cr m os)
       (\<lambda>(shmem, newHeader, newBuffer, newCapacity, m1, os1).
         bind_result (initRing ByteRing_new m1 newCapacity cr) (\<lambda>(r, m2).
           Inr (\<lparr>q_ring = r, q_header = newHeader, q_buffer = newBuffer, q_shmem = shmem\<rparr>, m2, os1)))"

text \<open>
  The constructor of \<open>InterprocessQueue\<close> first makes the policy, two signals with names
  derived from the queue's; \<open>SLInterprocessQueue\<close> has nothing to make.
\<close>

definition InterprocessQueue_new ::
    "(string \<Rightarrow> ConcurrencyRole \<Rightarrow> 'o \<Rightarrow> ('s \<times> 'o) result) \<Rightarrow> 'o shm_api \<Rightarrow> string \<Rightarrow> size_t
     \<Rightarrow> ConcurrencyRole \<Rightarrow> ring_mem \<Rightarrow> 'o \<Rightarrow> ('s \<times> 's \<times> InterprocessQueue \<times> ring_mem \<times> 'o) result" where
  "InterprocessQueue_new newSignal api name cap cr m os =
     bind_result (newSignal (''iq_dataPresentEvent_'' @ name) cr os) (\<lambda>(dataPresentEvent, os1).
     bind_result (newSignal (''iq_dataFreeEvent_'' @ name) cr os1) (\<lambda>(dataFreeEvent, os2).
     bind_result (queue_new ''iq_shmem_'' api name cap cr m os2) (\<lambda>(q, m', os3).
       Inr (dataPresentEvent, dataFreeEvent, q, m', os3))))"

definition SLInterprocessQueue_new ::
    "'o shm_api \<Rightarrow> string \<Rightarrow> size_t \<Rightarrow> ConcurrencyRole \<Rightarrow> ring_mem \<Rightarrow> 'o
     \<Rightarrow> (InterprocessQueue \<times> ring_mem \<times> 'o) result" where
  "SLInterprocessQueue_new api name cap cr m os = queue_new ''sliq_shmem_'' api name cap cr m os"

end
