(* ===== verification/ByteRing_Theorems.thy ===== *)
theory ByteRing_Theorems
  imports InterprocessQueue
begin

text \<open>
  The properties of the interprocess ring and queues: first-in first-out delivery,
  absence of faults, progress under the queues' wait policies, what goes wrong without
  their preconditions, and construction in shared memory.
\<close>

lemma reach_run: "run pol sched s0 = Some s \<Longrightarrow> reach pol s0 s"
  by (rule run_reach) (auto intro: reach.start)

section \<open>Delivery and safety\<close>

text \<open>C1: the ring is a first-in first-out byte stream. Whatever the two processes push
  and pop, in whatever chunks, under whatever wait policy and however their steps
  interleave: the bytes handed to the consumer, followed by the bytes in the ring, followed
  by the bytes not yet published are the pushed messages in order. Nothing is lost,
  duplicated, reordered or read before it was written.\<close>

theorem ByteRing_fifo:
  assumes "2 \<le> cap" "unat cap \<le> 2 ^ 63" "\<forall>d \<in> set msgs. length d < 2 ^ 64"
    and "reach pol (start_sys cap msgs wants w) s"
  shows "received s @ contents s @ unsent s = concat msgs"
  using ring_invD(4) [OF reach_inv [OF assms(4) start_inv [OF assms(1-3)]]]
  by (simp add: stream_def)

theorem ByteRing_fifo_witness:
  "\<exists>s. run SLIntPrQueueLockPolicy (replicate 6 Producer) (start_sys 4 [[1, 2, 3, 4]] [4] ()) = Some s \<and>
     contents s = [1, 2, 3] \<and> received s @ contents s @ unsent s = [1, 2, 3, 4]"
proof -
  have "map_option contents
      (run SLIntPrQueueLockPolicy (replicate 6 Producer) (start_sys 4 [[1, 2, 3, 4]] [4] ())) = Some [1, 2, 3]"
    by code_simp
  then obtain s where s: "contents s = [1, 2, 3]"
    "run SLIntPrQueueLockPolicy (replicate 6 Producer) (start_sys 4 [[1, 2, 3, 4]] [4] ()) = Some s"
    by auto
  then show ?thesis
    using ByteRing_fifo [OF _ _ _ reach_run [OF s(2)]] by simp
qed

text \<open>C2: no push or pop ever leaves its buffers. In every reachable state neither side
  has faulted in a \<^verbatim>\<open>memcpy\<close>, and the indices in shared memory and both cached snapshots
  stay below the capacity.\<close>

theorem ByteRing_memory_safe:
  assumes "2 \<le> cap" "unat cap \<le> 2 ^ 63" "\<forall>d \<in> set msgs. length d < 2 ^ 64"
    and "reach pol (start_sys cap msgs wants w) s"
  shows "p_pc (prodr s) \<noteq> Fault \<and> c_pc (consr s) \<noteq> Fault \<and>
    length (buffer (mem s)) = unat (capacity (p_ring (prodr s))) \<and>
    unat (head (mem s)) < length (buffer (mem s)) \<and> unat (tail (mem s)) < length (buffer (mem s)) \<and>
    unat (cachedTail (p_ring (prodr s))) < length (buffer (mem s)) \<and>
    unat (cachedHead (c_ring (consr s))) < length (buffer (mem s))"
  using ring_invD(1,2,3) [OF reach_inv [OF assms(4) start_inv [OF assms(1-3)]]]
  by (auto simp: mem_ok_def prod_ok_def cons_ok_def Let_def state_defs)

theorem ByteRing_memory_safe_witness:
  "\<exists>s. run SLIntPrQueueLockPolicy [Producer, Producer, Producer] (start_sys 2 [[7]] [1] ()) = Some s \<and>
     p_pc (prodr s) \<noteq> Fault \<and> unat (head (mem s)) < length (buffer (mem s))"
proof -
  have "run SLIntPrQueueLockPolicy [Producer, Producer, Producer] (start_sys 2 [[7]] [1] ()) \<noteq> None"
    by code_simp
  then obtain s where s:
    "run SLIntPrQueueLockPolicy [Producer, Producer, Producer] (start_sys 2 [[7]] [1] ()) = Some s"
    by auto
  then show ?thesis
    using ByteRing_memory_safe [OF _ _ _ reach_run [OF s]] by simp
qed

section \<open>Progress\<close>

text \<open>C3: a queue whose signals are sticky never hangs when the receiver asks for the sizes
  that are sent. From every state the two processes can get into, the spinning queue can
  go on to a state in which all calls have returned and the popped buffers are the pushed
  messages.\<close>

theorem SLInterprocessQueue_completes:
  assumes "2 \<le> cap" "unat cap \<le> 2 ^ 63" "\<forall>d \<in> set msgs. length d < 2 ^ 64"
    and "map unat wants = map length msgs"
    and "reach SLIntPrQueueLockPolicy (start_sys cap msgs wants w) s"
  shows "\<exists>sched s'. run SLIntPrQueueLockPolicy sched s = Some s' \<and> finished s' \<and> c_done (consr s') = msgs"
  using assms by (rule sl.matched_calls_complete)

theorem SLInterprocessQueue_completes_witness:
  "\<exists>sched s'. run SLIntPrQueueLockPolicy sched (start_sys 3 [[1, 2, 3], [4]] [3, 1] ()) = Some s' \<and>
     c_done (consr s') = [[1, 2, 3], [4]]"
  using SLInterprocessQueue_completes [of 3 "[[1, 2, 3], [4]]" "[3, 1]" "()", OF _ _ _ _ reach.start]
  by auto

text \<open>C4: the same for the signalling queue on Windows, whose signals are auto-reset event
  objects, given that such an object stays signalled until a wait consumes it (the
  documented behaviour of \<^verbatim>\<open>SetEvent\<close> and \<^verbatim>\<open>WaitForSingleObject\<close>).\<close>

theorem InterprocessQueue_completes:
  assumes os: "\<And>k. signalled (SetEvent api k)"
      "\<And>k. signalled k \<Longrightarrow> \<exists>k'. WaitForSingleObject api k = Some (0, k') \<and> \<not> signalled k'"
    and "2 \<le> cap" "unat cap \<le> 2 ^ 63" "\<forall>d \<in> set msgs. length d < 2 ^ 64"
    and "map unat wants = map length msgs"
    and "reach (IntPrQueueLockPolicy (win_ipsignal api)) (start_sys cap msgs wants w) s"
  shows "\<exists>sched s'. run (IntPrQueueLockPolicy (win_ipsignal api)) sched s = Some s' \<and>
    finished s' \<and> c_done (consr s') = msgs"
proof -
  have "auto_reset_event api signalled"
    using os by unfold_locales auto
  then have "sticky_policy (IntPrQueueLockPolicy (win_ipsignal api)) (\<lambda>(p, f). signalled p) (\<lambda>(p, f). signalled f)"
    by (intro sticky_signal.policy_is_sticky auto_reset_event.event_is_sticky)
  then show ?thesis
    using assms(3-7) by (rule sticky_policy.matched_calls_complete)
qed

theorem InterprocessQueue_completes_witness:
  "\<exists>sched s'. run (IntPrQueueLockPolicy (win_ipsignal flag_event)) sched
       (start_sys 3 [[1, 2, 3], [4]] [3, 1] (False, False)) = Some s' \<and>
     c_done (consr s') = [[1, 2, 3], [4]]"
  using InterprocessQueue_completes
    [of "\<lambda>k. k" flag_event 3 "[[1, 2, 3], [4]]" "[3, 1]" "(False, False)", OF _ _ _ _ _ _ reach.start]
  by (auto simp: flag_event_def)

section \<open>What the preconditions are for\<close>

text \<open>Two sides that wait for more than there is or fits stay as they are for ever.\<close>

definition jammed :: "'w sys \<Rightarrow> bool" where
  "jammed s \<longleftrightarrow> (\<exists>n m. waits_for (p_pc (prodr s)) = Some n \<and> \<not> room s n \<and>
     waits_for (c_pc (consr s)) = Some m \<and> \<not> there s m)"

lemma jammed_producer_step:
  assumes inv: "ring_inv bs s" and jam: "jammed s" and st: "producer_step pol s = Some s'"
  shows "jammed s'"
proof -
  obtain n m where nm: "waits_for (p_pc (prodr s)) = Some n" "\<not> room s n"
    "waits_for (c_pc (consr s)) = Some m" "\<not> there s m"
    using jam by (auto simp: jammed_def)
  have np: "p_pc (prodr s) \<noteq> Publish k" for k
    using nm(1) by (auto simp: waits_for_def)
  note same = producer_step_chunks(2) [OF inv st np] producer_step_shape(1,3) [OF st]
  have nr: "\<not> room s' n" "\<not> there s' m"
    using nm same by (simp_all add: room_def there_def)
  have "waits_for (p_pc (prodr s')) = Some n"
  proof (cases "p_pc (prodr s') = Copy n")
    case True
    then have "fits s' n"
      using ring_invD(2) [OF producer_step_inv [OF inv st]] by (simp add: prod_ok_def Let_def)
    then have "room s' n"
      using fits_actual [OF ring_invD(1) [OF producer_step_inv [OF inv st]]]
      by (simp add: room_def length_contents)
    with nr show ?thesis by simp
  next
    case False
    then show ?thesis
      using st nm(1)
      by (auto simp: producer_step_def Let_def waits_for_def split: side_pc.splits option.splits if_splits)
  qed
  then show ?thesis
    using nr nm(3) same(2) by (auto simp: jammed_def)
qed

lemma jammed_consumer_step:
  assumes inv: "ring_inv bs s" and jam: "jammed s" and st: "consumer_step pol s = Some s'"
  shows "jammed s'"
proof -
  obtain n m where nm: "waits_for (p_pc (prodr s)) = Some n" "\<not> room s n"
    "waits_for (c_pc (consr s)) = Some m" "\<not> there s m"
    using jam by (auto simp: jammed_def)
  have np: "c_pc (consr s) \<noteq> Publish k" for k
    using nm(3) by (auto simp: waits_for_def)
  note same = consumer_step_chunks(2) [OF inv st np] consumer_step_shape(1,3) [OF st]
  have nr: "\<not> room s' n" "\<not> there s' m"
    using nm same by (simp_all add: room_def there_def)
  have "waits_for (c_pc (consr s')) = Some m"
  proof (cases "c_pc (consr s') = Copy m")
    case True
    then have "holds s' m"
      using ring_invD(3) [OF consumer_step_inv [OF inv st]] by (simp add: cons_ok_def Let_def)
    then have "there s' m"
      using holds_actual [OF ring_invD(1) [OF consumer_step_inv [OF inv st]]] by (simp add: there_def)
    with nr show ?thesis by simp
  next
    case False
    then show ?thesis
      using st nm(3)
      by (auto simp: consumer_step_def Let_def waits_for_def split: side_pc.splits option.splits if_splits)
  qed
  then show ?thesis
    using nr nm(1) same(2) by (auto simp: jammed_def)
qed

lemma jammed_step: "ring_inv bs s \<Longrightarrow> jammed s \<Longrightarrow> side_step pol i s = Some s' \<Longrightarrow> jammed s'"
  using jammed_producer_step jammed_consumer_step by (cases i) (simp_all add: side_step_def, blast+)

lemma jammed_forever:
  assumes "reach pol s s'" "ring_inv bs s" "jammed s"
  shows "jammed s'"
  using assms
proof (induction rule: reach.induct)
  case (step s1 i s2)
  then have "ring_inv bs s1"
    using reach_inv by blast
  with step show ?case
    using jammed_step by blast
qed auto

text \<open>the sizes have to match. The ring moves chunks as large as it can and waits for a
  whole chunk, so it is not a byte stream in the sense that any sizes can be popped: with
  a capacity of 3, pushing 2 and 2 bytes while popping 1, 2 and 1 bytes reaches, under
  every wait policy, a state from which no execution ever finishes.\<close>

theorem ByteRing_mismatched_sizes_hang:
  "\<exists>s. reach pol (start_sys 3 [[1, 2], [3, 4]] [1, 2, 1] w) s \<and>
     (\<nexists>s'. reach pol s s' \<and> finished s')"
proof -
  let ?s0 = "start_sys 3 [[1, 2], [3, 4]] [1, 2, 1] w"
  let ?sched = "replicate 9 Producer @ replicate 10 Consumer"
  have "map_option (\<lambda>s. (p_pc (prodr s), c_pc (consr s), length (contents s), cap_of s)) (run pol ?sched ?s0)
      = Some (Reload 2, Reload 2, 1, 3)"
    by code_simp
  then have "\<exists>s. run pol ?sched ?s0 = Some s \<and> jammed s"
    by (auto simp: jammed_def waits_for_def room_def there_def)
  then obtain s where s: "run pol ?sched ?s0 = Some s" "jammed s" by blast
  have inv: "ring_inv (concat [[1, 2], [3, 4]]) s"
    by (rule reach_inv [OF reach_run [OF s(1)] start_inv]) simp_all
  have "\<not> finished s'" if "reach pol s s'" for s'
    using jammed_forever [OF that inv s(2)] by (auto simp: jammed_def finished_def waits_for_def)
  then show ?thesis
    using reach_run [OF s(1)] by blast
qed

text \<open>C5: on POSIX the signalling queue can hang although the data is there.
  \<^verbatim>\<open>InterprocessSignal\<close> promises sticky signals, but its POSIX version waits on a condition
  variable without a flag: given that \<^verbatim>\<open>pthread_cond_signal\<close> has no effect when nobody
  waits (as POSIX says) and that no spurious wake-up occurs, a signal sent between the
  consumer's check and its wait is lost. One byte is pushed, one is asked for, the byte is
  in the ring, and no process can take another step.\<close>

theorem posix_InterprocessQueue_lost_wakeup:
  assumes lock: "\<And>k. pthread_mutex_lock api k = (0, k)" "\<And>k. pthread_mutex_unlock api k = (0, k)"
    and no_waiter: "pthread_cond_signal api k0 = (0, k0)"
    and asleep: "cond_wake api (cond_block api k0) = None"
  shows "\<exists>s. reach (IntPrQueueLockPolicy (posix_ipsignal api)) (start_sys 2 [[b]] [1] (k0, k0)) s \<and>
    contents s = [b] \<and> \<not> finished s \<and>
    (\<forall>i. side_step (IntPrQueueLockPolicy (posix_ipsignal api)) i s = None)"
proof -
  let ?pol = "IntPrQueueLockPolicy (posix_ipsignal api)"
  let ?sched = "replicate 3 Consumer @ replicate 7 Producer @ [Consumer]"
  have post: "sig_post (posix_ipsignal api) k0 = k0"
    using posix_signal_lost [OF lock no_waiter] by (simp add: posix_ipsignal_def or_same_def)
  have enter: "sig_enter (posix_ipsignal api) k0 = cond_block api k0"
    using lock by (simp add: posix_ipsignal_def posix_wait_enter_def or_same_def)
  have leave: "sig_leave (posix_ipsignal api) (cond_block api k0) = None"
    using asleep by (simp add: posix_ipsignal_def posix_wait_leave_def)
  have "map_option (\<lambda>s. (p_pc (prodr s), p_todo (prodr s), c_pc (consr s), contents s, wst s))
      (run pol ?sched (start_sys 2 [[b]] [1] w))
      = Some (Idle, [], Sleep 1, [b], enterDataPresent pol (signalDataPresent pol w))"
    for pol :: "('k \<times> 'k) wait_policy" and w
    by (simp add: numeral_eq_Suc)
      (simp add: side_step_def producer_step_def consumer_step_def start_sys_def ByteRing_new_def Let_def
        freeSpaceSeen_def sizeSeen_def circularBufferFreeSpace_def circularBufferSize_def chunkSize_def
        firstPart_def nextIndex_def memcpy_def memcpy_from_def memcpy_to_def blit_def contents_def
        state_defs ring_contents_def ring_dist_def word_le_nat_alt)
  from this [of ?pol "(k0, k0)"] obtain s where s: "run ?pol ?sched (start_sys 2 [[b]] [1] (k0, k0)) = Some s"
    "p_pc (prodr s) = Idle" "p_todo (prodr s) = []" "c_pc (consr s) = Sleep 1" "contents s = [b]"
    "wst s = (cond_block api k0, k0)"
    by (auto simp: IntPrQueueLockPolicy_def post enter)
  have "side_step ?pol i s = None" for i
    using s(2-6) leave
    by (cases i) (simp_all add: side_step_def producer_step_def consumer_step_def Let_def IntPrQueueLockPolicy_def)
  moreover have "\<not> finished s"
    using s(4) by (simp add: finished_def)
  ultimately show ?thesis
    using reach_run [OF s(1)] s(5) by blast
qed

text \<open>A condition variable with room for one waiter.\<close>

datatype one_waiter = Nobody | Asleep | Woken

definition one_waiter_cv :: "one_waiter pthread_api" where
  "one_waiter_cv = \<lparr>pthread_mutex_lock = (\<lambda>k. (0, k)), pthread_mutex_unlock = (\<lambda>k. (0, k)),
     cond_block = (\<lambda>_. Asleep), cond_wake = (\<lambda>k. if k = Woken then Some (0, Nobody) else None),
     pthread_cond_signal = (\<lambda>k. (0, if k = Asleep then Woken else k))\<rparr>"

theorem posix_InterprocessQueue_lost_wakeup_witness:
  "\<exists>s. reach (IntPrQueueLockPolicy (posix_ipsignal one_waiter_cv)) (start_sys 2 [[9]] [1] (Nobody, Nobody)) s \<and>
     contents s = [9] \<and> (\<forall>i. side_step (IntPrQueueLockPolicy (posix_ipsignal one_waiter_cv)) i s = None)"
  using posix_InterprocessQueue_lost_wakeup [of one_waiter_cv Nobody 9]
  by (auto simp: one_waiter_cv_def)

section \<open>Construction\<close>

text \<open>C6: the queue's constructor makes room for what it uses. When the shared memory opens
  (and the mapping does not wrap around the address space), the queue gets exactly the
  capacity that was asked for, its descriptor is on a cache line of its own, and descriptor
  and buffer lie inside the mapping.\<close>

theorem InterprocessQueue_layout:
  assumes cap: "2 \<le> cap" "unat cap + 192 < 2 ^ 64"
    and opened: "sm_open api (cr = MASTER) (SharedMemory_new (pre @ name) (enlargeCapacity cap)) os
      = Inr (True, sm1, os1)"
    and addr: "unat (sm_ptr sm1) + unat (enlargeCapacity cap) \<le> 2 ^ 64"
  shows "\<exists>q m'. queue_new pre api name cap cr m os = Inr (q, m', os1) \<and>
    capacity (q_ring q) = cap \<and> 64 dvd unat (q_header q) \<and> 
    unat (sm_ptr sm1) \<le> unat (q_header q) \<and> unat (q_buffer q) = unat (q_header q) + 128 \<and>
    unat (q_buffer q) + unat cap \<le> unat (sm_ptr sm1) + unat (sm_size sm1)"
proof -
  let ?p = "sm_ptr sm1" and ?up = "align_up 64 (sm_ptr sm1)"
  have sz: "sm_size sm1 = enlargeCapacity cap" "?p \<noteq> 0"
    using opened by (auto simp: sm_open_def SharedMemory_new_def Let_def split: if_splits prod.splits)
  have en: "unat (enlargeCapacity cap) = unat cap + 192"
    using cap(2) by (simp add: enlargeCapacity_def sizeof_CircularBufferDescriptor_def
        alignof_CircularBufferDescriptor_def CACHE_LINE_SIZE_def unat_plus_lt add.assoc)
  have fit: "unat ?p + 63 < 2 ^ 64" "unat (128 :: size_t) + 63 \<le> unat (enlargeCapacity cap)"
    using addr en by simp_all
  note al = align_64 [OF sz(2) fit] and up = align_up_64 [OF fit(1)]
  define newSize where "newSize = enlargeCapacity cap - (?up - ?p)"
  have ns: "unat (newSize - 128) = unat cap + 64 - (unat ?up - unat ?p)"
    using al(2) up en by (subst unat_minus_le) (simp_all add: newSize_def)
  then have "cap \<le> newSize - 128"
    using up by (simp add: word_le_nat_alt)
  then have min_cap: "min (newSize - 128) cap = cap"
    by (rule min_absorb2)
  have buf: "unat (?up + 128) = unat ?up + 128"
    using up addr en cap by (intro unat_plus_lt [where y = 128, simplified]) (simp add: word_le_nat_alt)
  have "\<exists>r m'. queue_new pre api name cap cr m os =
      Inr (\<lparr>q_ring = r, q_header = ?up, q_buffer = ?up + 128, q_shmem = sm1\<rparr>, m', os1) \<and> capacity r = cap"
    using opened al(1,3) sz(1) min_cap cap(1)
    by (cases cr)
      (simp_all add: queue_new_def initShMem_def initRing_def Let_def advance_def newSize_def
        sizeof_CircularBufferDescriptor_def alignof_CircularBufferDescriptor_def CACHE_LINE_SIZE_def)
  then show ?thesis
    using buf up sz(1) en by fastforce
qed

theorem InterprocessQueue_layout_witness:
  "\<exists>q m'. queue_new ''sliq_shmem_'' plain_shm ''a'' 100 MASTER \<lparr>head = 1, tail = 2, buffer = []\<rparr> [] = Inr (q, m', [''/sliq_shmem_a'']) \<and>
     capacity (q_ring q) = 100 \<and> 64 dvd unat (q_header q)"
  using InterprocessQueue_layout
    [of 100 plain_shm MASTER "''sliq_shmem_''" "''a''" "[]"
      "(SharedMemory_new ''sliq_shmem_a'' 292)\<lparr>sm_fd := 3, sm_ptr := 4096\<rparr>" "[''/sliq_shmem_a'']" "\<lparr>head = 1, tail = 2, buffer = []\<rparr>"]
  by (force simp: sm_open_def plain_shm_def SharedMemory_new_def Let_def enlargeCapacity_def
      sizeof_CircularBufferDescriptor_def alignof_CircularBufferDescriptor_def CACHE_LINE_SIZE_def)

lemma initRing_capacity: "initRing r0 m c cr = Inr (r, m') \<Longrightarrow> capacity r = c"
  by (auto simp: initRing_def Let_def split: if_splits ConcurrencyRole.splits)

lemma queue_new_ring:
  assumes "queue_new pre api name cap cr m os = Inr (q, m', os')"
  shows "initRing ByteRing_new (case cr of MASTER \<Rightarrow> m\<lparr>head := 0, tail := 0\<rparr> | SLAVE \<Rightarrow> m)
    (capacity (q_ring q)) cr = Inr (q_ring q, m')"
proof -
  obtain m1 c r where "initRing ByteRing_new m1 c cr = Inr (r, m')" "q_ring q = r"
    "m1 = (case cr of MASTER \<Rightarrow> m\<lparr>head := 0, tail := 0\<rparr> | SLAVE \<Rightarrow> m)"
    using assms
    by (auto simp: queue_new_def initShMem_def Let_def bind_result_Inr split: if_splits prod.splits)
  moreover from this have "capacity r = c"
    using initRing_capacity by blast
  ultimately show ?thesis by simp
qed

text \<open>two processes that construct the queue, first the master, then the slave, on
  zeroed shared memory start from exactly the state in which the ring's properties are
  proved: an empty ring, and endpoints with the same capacity and fresh snapshots.\<close>

theorem InterprocessQueue_master_slave:
  assumes "2 \<le> cap"
    and "queue_new pre api name cap MASTER \<lparr>head = h, tail = t, buffer = replicate (unat cap) 0\<rparr> os = Inr (q1, m1, os1)"
    and "queue_new pre api name cap SLAVE m1 os' = Inr (q2, m2, os2)"
    and "capacity (q_ring q1) = cap" "capacity (q_ring q2) = cap"
  shows "m2 = mem (start_sys cap msgs wants w) \<and> q_ring q1 = p_ring (prodr (start_sys cap msgs wants w)) \<and>
    q_ring q2 = c_ring (consr (start_sys cap msgs wants w))"
proof -
  have nlt: "\<not> cap < 2"
    using assms(1) by (simp add: not_less)
  have "initRing ByteRing_new \<lparr>head = 0, tail = 0, buffer = replicate (unat cap) 0\<rparr> cap MASTER = Inr (q_ring q1, m1)"
    using queue_new_ring [OF assms(2)] assms(4) by simp
  then have 1: "q_ring q1 = ByteRing_new\<lparr>capacity := cap\<rparr>"
      "m1 = \<lparr>head = 0, tail = 0, buffer = replicate (unat cap) 0\<rparr>"
    using nlt by (simp_all add: initRing_def ByteRing_new_def Let_def)
  have "initRing ByteRing_new m1 cap SLAVE = Inr (q_ring q2, m2)"
    using queue_new_ring [OF assms(3)] assms(5) by simp
  then have "q_ring q2 = ByteRing_new\<lparr>capacity := cap\<rparr>" "m2 = m1"
    using nlt 1(2) by (simp_all add: initRing_def ByteRing_new_def Let_def)
  then show ?thesis
    using 1 by (simp add: start_sys_def Let_def)
qed

theorem InterprocessQueue_master_slave_witness:
  "\<exists>q1 m1 q2 m2.
     queue_new ''sliq_shmem_'' plain_shm ''a'' 4 MASTER \<lparr>head = 3, tail = 1, buffer = replicate 4 0\<rparr> []
       = Inr (q1, m1, [''/sliq_shmem_a'']) \<and>
     queue_new ''sliq_shmem_'' plain_shm ''a'' 4 SLAVE m1 [] = Inr (q2, m2, [''/sliq_shmem_a'']) \<and>
     m2 = mem (start_sys 4 [] [] ())"
proof -
  define r :: ByteRing where "r = \<lparr>capacity = 4, cachedHead = 0, cachedTail = 0\<rparr>"
  define sm where "sm = (SharedMemory_new ''sliq_shmem_a'' 196)\<lparr>sm_fd := 3, sm_ptr := 4096\<rparr>"
  define q where "q = \<lparr>q_ring = r, q_header = 4096, q_buffer = 4224, q_shmem = sm\<rparr>"
  define m :: ring_mem where "m = \<lparr>head = 0, tail = 0, buffer = replicate 4 0\<rparr>"
  have 1: "queue_new ''sliq_shmem_'' plain_shm ''a'' 4 MASTER \<lparr>head = 3, tail = 1, buffer = replicate 4 0\<rparr> []
      = Inr (q, m, [''/sliq_shmem_a''])"
    unfolding q_def r_def sm_def m_def by code_simp
  have 2: "queue_new ''sliq_shmem_'' plain_shm ''a'' 4 SLAVE m [] = Inr (q, m, [''/sliq_shmem_a''])"
    unfolding q_def r_def sm_def m_def by code_simp
  show ?thesis
    using InterprocessQueue_master_slave
      [of 4 "''sliq_shmem_''" plain_shm "''a''" 3 1 "[]" q m "[''/sliq_shmem_a'']" "[]" q m "[''/sliq_shmem_a'']"
        "[]" "[]" "()"] 1 2
    by (auto simp: q_def r_def)
qed

end
