(* ===== verification/Signal.thy ===== *)
theory Signal
  imports InterprocessSignal
begin

text \<open>
  The inter-thread signals of \<^verbatim>\<open>src/headers/concurrency/Signal.h\<close>: \<^verbatim>\<open>Signal\<close>,
  \<^verbatim>\<open>SignalGroup\<close> and its proxies. A group of \<open>N\<close> signals is a list of \<open>N\<close> atomics, a mutex and
  a condition variable; a \<^verbatim>\<open>Signal\<close> is the case of one atomic. Any number of threads call
  \<open>wait\<close>, \<open>waitOne\<close> and \<open>signal\<close>; one step is one access to an atomic, the mutex or the
  condition variable, so every interleaving of the source's statements is an execution.
\<close>

section \<open>Consuming an event\<close>

definition tryConsume :: "uint32 \<Rightarrow> bool \<times> uint32" where
  "tryConsume e =
     (if e = 0 then (False, e)
      else let expected = 1 in if e = expected then (True, 0) else (False, e))"

definition tryConsume_at :: "uint32 list \<Rightarrow> nat \<Rightarrow> bool \<times> uint32 list" where
  "tryConsume_at events signalIndex =
     (case tryConsume (events ! signalIndex) of (b, e) \<Rightarrow> (b, events[signalIndex := e]))"

fun consume_first :: "uint32 list \<Rightarrow> nat list \<Rightarrow> nat option \<times> uint32 list" where
  "consume_first events [] = (None, events)"
| "consume_first events (i # is) =
     (case tryConsume_at events i of
        (True, events') \<Rightarrow> (Some i, events')
      | (False, events') \<Rightarrow> consume_first events' is)"

definition NO_SIGNALS :: size_t where
  "NO_SIGNALS = NOT 0"

definition tryConsumeOne :: "uint32 list \<Rightarrow> size_t \<times> uint32 list" where
  "tryConsumeOne events =
     (case consume_first events [0..<length events] of
        (Some i, events') \<Rightarrow> (of_nat i, events')
      | (None, events') \<Rightarrow> (NO_SIGNALS, events'))"

section \<open>Calls and threads\<close>

datatype sig_op = Wait nat | Wait_for nat uint32 | WaitOne | WaitOne_for uint32 | Signal nat

datatype outcome = Returned | Answer bool | Index nat | No_signals | Threw exn

datatype tpc =
    Out outcome
  | Fast "nat list" | Fast_cas nat "nat list"
  | Acquire | Scan "nat list" | Scan_cas nat "nat list"
  | Park | Asleep | Relock bool
  | Last "nat list" | Last_cas nat "nat list"
  | Store nat | Sig_acquire | Sig_notify

record group =
  events :: "uint32 list"
  mtx :: "nat option"
  pc :: "nat \<Rightarrow> tpc"
  op :: "nat \<Rightarrow> sig_op"
  posts :: "nat \<Rightarrow> nat"
  takes :: "nat \<Rightarrow> nat"

definition SignalGroup_new :: "nat \<Rightarrow> group" where
  "SignalGroup_new n = \<lparr>events = replicate n 0, mtx = None, pc = (\<lambda>_. Out Returned), op = (\<lambda>_. WaitOne),
     posts = (\<lambda>_. 0), takes = (\<lambda>_. 0)\<rparr>"

text \<open>The indices a call tries to consume, in the order in which it tries them.\<close>

definition targets :: "nat \<Rightarrow> sig_op \<Rightarrow> nat list" where
  "targets n c = (case c of Wait i \<Rightarrow> [i] | Wait_for i _ \<Rightarrow> [i] | WaitOne \<Rightarrow> [0..<n]
     | WaitOne_for _ \<Rightarrow> [0..<n] | Signal _ \<Rightarrow> [])"

definition timeoutMs :: "sig_op \<Rightarrow> uint32 option" where
  "timeoutMs c = (case c of Wait_for _ t \<Rightarrow> Some t | WaitOne_for t \<Rightarrow> Some t | _ \<Rightarrow> None)"

definition consumed :: "sig_op \<Rightarrow> nat \<Rightarrow> outcome" where
  "consumed c i = (case c of Wait _ \<Rightarrow> Returned | Wait_for _ _ \<Rightarrow> Answer True | WaitOne \<Rightarrow> Index i
     | WaitOne_for _ \<Rightarrow> Index i | Signal _ \<Rightarrow> Returned)"

definition timed_out :: "sig_op \<Rightarrow> outcome" where
  "timed_out c = (case c of WaitOne_for _ \<Rightarrow> No_signals | _ \<Rightarrow> Answer False)"

definition out_of_range :: "string \<Rightarrow> outcome" where
  "out_of_range fn = Threw (RUNTIME_ERROR fn ''signalIndex out of range'')"

text \<open>Where a call starts: the range check of the group's functions, then the fast path.\<close>

definition SignalGroup_call :: "nat \<Rightarrow> sig_op \<Rightarrow> tpc" where
  "SignalGroup_call n c = (case c of
     Wait i \<Rightarrow> if i \<ge> n then Out (out_of_range ''wait'') else Fast (targets n c)
   | Wait_for i _ \<Rightarrow> if i \<ge> n then Out (out_of_range ''wait'') else Fast (targets n c)
   | WaitOne \<Rightarrow> Fast (targets n c)
   | WaitOne_for _ \<Rightarrow> Fast (targets n c)
   | Signal i \<Rightarrow> if i \<ge> n then Out (out_of_range ''signal'') else Store i)"

text \<open>The proxy forwards its calls with its own index.\<close>

record SignalOfAGroup =
  signalIndex :: nat

definition getSignal :: "nat \<Rightarrow> nat \<Rightarrow> SignalOfAGroup result" where
  "getSignal n i =
     (if i \<ge> n then Inl (RUNTIME_ERROR ''getSignal'' ''signalIndex out of range'')
      else Inr \<lparr>signalIndex = i\<rparr>)"

definition SignalOfAGroup_wait :: "SignalOfAGroup \<Rightarrow> sig_op" where
  "SignalOfAGroup_wait p = Wait (signalIndex p)"

definition SignalOfAGroup_wait_for :: "SignalOfAGroup \<Rightarrow> uint32 \<Rightarrow> sig_op" where
  "SignalOfAGroup_wait_for p t = Wait_for (signalIndex p) t"

definition SignalOfAGroup_signal :: "SignalOfAGroup \<Rightarrow> sig_op" where
  "SignalOfAGroup_signal p = Signal (signalIndex p)"

text \<open>\<^verbatim>\<open>Signal\<close> has one event and no range check.\<close>

definition Signal_new :: group where
  "Signal_new = SignalGroup_new 1"

definition Signal_wait :: sig_op where
  "Signal_wait = Wait 0"

definition Signal_wait_for :: "uint32 \<Rightarrow> sig_op" where
  "Signal_wait_for t = Wait_for 0 t"

definition Signal_signal :: sig_op where
  "Signal_signal = Signal 0"

section \<open>Steps\<close>

definition goto :: "nat \<Rightarrow> tpc \<Rightarrow> group \<Rightarrow> group" where
  "goto t p g = g\<lparr>pc := (pc g)(t := p)\<rparr>"

definition took :: "nat \<Rightarrow> group \<Rightarrow> group" where
  "took i g = g\<lparr>events := (events g)[i := 0], takes := (takes g)(i := takes g i + 1)\<rparr>"

definition leave :: "nat \<Rightarrow> outcome \<Rightarrow> group \<Rightarrow> group" where
  "leave t r g = g\<lparr>mtx := None, pc := (pc g)(t := Out r)\<rparr>"

definition lock_then :: "nat \<Rightarrow> tpc \<Rightarrow> group \<Rightarrow> group option" where
  "lock_then t p g = (case mtx g of
     None \<Rightarrow> Some (g\<lparr>mtx := Some t, pc := (pc g)(t := p)\<rparr>)
   | Some _ \<Rightarrow> None)"

definition notify_all :: "group \<Rightarrow> group" where
  "notify_all g = g\<lparr>pc := (\<lambda>t. if pc g t = Asleep then Relock False else pc g t)\<rparr>"

definition thread_step :: "nat \<Rightarrow> group \<Rightarrow> group option" where
  "thread_step t g =
     (let c = op g t; n = length (events g); e = (\<lambda>i. events g ! i) in
      case pc g t of
        Out _ \<Rightarrow> None
      | Fast [] \<Rightarrow> Some (goto t (if timeoutMs c = Some 0 then Out (timed_out c) else Acquire) g)
      | Fast (i # is) \<Rightarrow> Some (goto t (if e i = 0 then Fast is else Fast_cas i is) g)
      | Fast_cas i is \<Rightarrow>
          Some (if e i = 1 then goto t (Out (consumed c i)) (took i g) else goto t (Fast is) g)
      | Acquire \<Rightarrow> lock_then t (Scan (targets n c)) g
      | Scan [] \<Rightarrow> Some (goto t Park g)
      | Scan (i # is) \<Rightarrow> Some (goto t (if e i = 0 then Scan is else Scan_cas i is) g)
      | Scan_cas i is \<Rightarrow>
          Some (if e i = 1 then leave t (consumed c i) (took i g) else goto t (Scan is) g)
      | Park \<Rightarrow> Some (g\<lparr>mtx := None, pc := (pc g)(t := Asleep)\<rparr>)
      | Asleep \<Rightarrow> None
      | Relock b \<Rightarrow> lock_then t (if b then Last (targets n c) else Scan (targets n c)) g
      | Last [] \<Rightarrow> Some (leave t (timed_out c) g)
      | Last (i # is) \<Rightarrow> Some (goto t (if e i = 0 then Last is else Last_cas i is) g)
      | Last_cas i is \<Rightarrow>
          Some (if e i = 1 then leave t (consumed c i) (took i g) else goto t (Last is) g)
      | Store i \<Rightarrow>
          Some (goto t Sig_acquire (g\<lparr>events := (events g)[i := 1], posts := (posts g)(i := posts g i + 1)\<rparr>))
      | Sig_acquire \<Rightarrow> lock_then t Sig_notify g
      | Sig_notify \<Rightarrow> Some (leave t Returned (notify_all g)))"

text \<open>
  What can happen next: a thread that is outside starts a call, a thread takes a step, or
  a sleeping one is woken spuriously or by its deadline.
\<close>

datatype group_event = Call nat sig_op | Step nat | Spurious_wake nat | Deadline nat

definition group_step :: "group_event \<Rightarrow> group \<Rightarrow> group option" where
  "group_step ev g = (case ev of
     Call t c \<Rightarrow> (case pc g t of
         Out _ \<Rightarrow> Some (g\<lparr>pc := (pc g)(t := SignalGroup_call (length (events g)) c), op := (op g)(t := c)\<rparr>)
       | _ \<Rightarrow> None)
   | Step t \<Rightarrow> thread_step t g
   | Spurious_wake t \<Rightarrow> if pc g t = Asleep then Some (goto t (Relock False) g) else None
   | Deadline t \<Rightarrow> if pc g t = Asleep \<and> timeoutMs (op g t) \<noteq> None then Some (goto t (Relock True) g) else None)"

fun group_run :: "group_event list \<Rightarrow> group \<Rightarrow> group option" where
  "group_run [] g = Some g"
| "group_run (ev # evs) g = (case group_step ev g of None \<Rightarrow> None | Some g' \<Rightarrow> group_run evs g')"

inductive group_reach :: "nat \<Rightarrow> group \<Rightarrow> bool" for n where
  start: "group_reach n (SignalGroup_new n)"
| step: "group_reach n g \<Longrightarrow> group_step ev g = Some g' \<Longrightarrow> group_reach n g'"

section \<open>The invariant\<close>

text \<open>Who holds the mutex.\<close>

definition critical :: "tpc \<Rightarrow> bool" where
  "critical p = (case p of Scan _ \<Rightarrow> True | Scan_cas _ _ \<Rightarrow> True | Park \<Rightarrow> True | Last _ \<Rightarrow> True
     | Last_cas _ _ \<Rightarrow> True | Sig_notify \<Rightarrow> True | _ \<Rightarrow> False)"

text \<open>The events a thread has already found consumed under the lock, and relies on being told of.\<close>

definition gave_up :: "tpc \<Rightarrow> nat list \<Rightarrow> nat set" where
  "gave_up p ts = (case p of
     Scan is \<Rightarrow> set ts - set is
   | Scan_cas i is \<Rightarrow> set ts - set (i # is)
   | Park \<Rightarrow> set ts
   | Asleep \<Rightarrow> set ts
   | _ \<Rightarrow> {})"

definition in_range_pc :: "nat \<Rightarrow> tpc \<Rightarrow> bool" where
  "in_range_pc n p = (case p of Fast is \<Rightarrow> set is \<subseteq> {..<n} | Fast_cas i is \<Rightarrow> set (i # is) \<subseteq> {..<n}
     | Scan is \<Rightarrow> set is \<subseteq> {..<n} | Scan_cas i is \<Rightarrow> set (i # is) \<subseteq> {..<n}
     | Last is \<Rightarrow> set is \<subseteq> {..<n} | Last_cas i is \<Rightarrow> set (i # is) \<subseteq> {..<n} | Store i \<Rightarrow> i < n | _ \<Rightarrow> True)"

lemma critical_simps [simp]:
  "\<not> critical (Out r)" "\<not> critical (Fast xs)" "\<not> critical (Fast_cas i xs)" "\<not> critical Acquire"
  "critical (Scan xs)" "critical (Scan_cas i xs)" "critical Park" "\<not> critical Asleep"
  "\<not> critical (Relock b)" "critical (Last xs)" "critical (Last_cas i xs)" "\<not> critical (Store i)"
  "\<not> critical Sig_acquire" "critical Sig_notify"
  by (simp_all add: critical_def)

lemma gave_up_simps [simp]:
  "gave_up (Out r) ts = {}" "gave_up (Fast xs) ts = {}" "gave_up (Fast_cas i xs) ts = {}" "gave_up Acquire ts = {}"
  "gave_up (Scan xs) ts = set ts - set xs" "gave_up (Scan_cas i xs) ts = set ts - set (i # xs)"
  "gave_up Park ts = set ts" "gave_up Asleep ts = set ts"
  "gave_up (Relock b) ts = {}" "gave_up (Last xs) ts = {}" "gave_up (Last_cas i xs) ts = {}"
  "gave_up (Store i) ts = {}" "gave_up Sig_acquire ts = {}" "gave_up Sig_notify ts = {}"
  by (simp_all add: gave_up_def)

lemma in_range_pc_simps [simp]:
  "in_range_pc n (Out r)" "in_range_pc n (Fast xs) \<longleftrightarrow> set xs \<subseteq> {..<n}"
  "in_range_pc n (Fast_cas i xs) \<longleftrightarrow> i < n \<and> set xs \<subseteq> {..<n}" "in_range_pc n Acquire"
  "in_range_pc n (Scan xs) \<longleftrightarrow> set xs \<subseteq> {..<n}" "in_range_pc n (Scan_cas i xs) \<longleftrightarrow> i < n \<and> set xs \<subseteq> {..<n}"
  "in_range_pc n Park" "in_range_pc n Asleep" "in_range_pc n (Relock b)"
  "in_range_pc n (Last xs) \<longleftrightarrow> set xs \<subseteq> {..<n}" "in_range_pc n (Last_cas i xs) \<longleftrightarrow> i < n \<and> set xs \<subseteq> {..<n}"
  "in_range_pc n (Store i) \<longleftrightarrow> i < n" "in_range_pc n Sig_acquire" "in_range_pc n Sig_notify"
  by (simp_all add: in_range_pc_def)

definition mutex_ok :: "group \<Rightarrow> bool" where
  "mutex_ok g \<longleftrightarrow> (\<forall>t. critical (pc g t) \<longleftrightarrow> mtx g = Some t)"

definition range_ok :: "nat \<Rightarrow> group \<Rightarrow> bool" where
  "range_ok n g \<longleftrightarrow> length (events g) = n \<and>
     (\<forall>t. in_range_pc n (pc g t) \<and> ((\<exists>r. pc g t = Out r) \<or> set (targets n (op g t)) \<subseteq> {..<n}))"

definition count_ok :: "group \<Rightarrow> bool" where
  "count_ok g \<longleftrightarrow> (\<forall>i < length (events g).
     events g ! i \<in> {0, 1} \<and> takes g i + unat (events g ! i) \<le> posts g i)"

definition wake_ok :: "group \<Rightarrow> bool" where
  "wake_ok g \<longleftrightarrow> (\<forall>t i. i \<in> gave_up (pc g t) (targets (length (events g)) (op g t)) \<and> events g ! i = 1 \<longrightarrow>
     (\<exists>u. pc g u = Sig_acquire \<or> pc g t = Asleep \<and> pc g u = Sig_notify))"

definition group_inv :: "nat \<Rightarrow> group \<Rightarrow> bool" where
  "group_inv n g \<longleftrightarrow> mutex_ok g \<and> range_ok n g \<and> count_ok g \<and> wake_ok g"

lemmas step_defs = thread_step_def Let_def goto_def took_def leave_def lock_then_def notify_all_def

text \<open>The kinds of steps a thread can take.\<close>

definition move_ok :: "group \<Rightarrow> nat \<Rightarrow> tpc \<Rightarrow> bool" where
  "move_ok g t p \<longleftrightarrow>
     critical p = critical (pc g t) \<and> p \<noteq> Asleep \<and> pc g t \<notin> {Asleep, Sig_acquire, Sig_notify} \<and>
     gave_up p (targets (length (events g)) (op g t))
       \<subseteq> gave_up (pc g t) (targets (length (events g)) (op g t)) \<union> {i. events g ! i \<noteq> 1} \<and>
     (in_range_pc (length (events g)) (pc g t) \<longrightarrow> in_range_pc (length (events g)) p)"

datatype step_kind = Move tpc | Take nat outcome | Lock tpc | Sleeps | Expires | Stores nat | Notifies

definition kind_step :: "step_kind \<Rightarrow> nat \<Rightarrow> group \<Rightarrow> group" where
  "kind_step k t g = (case k of
     Move p \<Rightarrow> g\<lparr>pc := (pc g)(t := p)\<rparr>
   | Take i r \<Rightarrow> g\<lparr>events := (events g)[i := 0], takes := (takes g)(i := takes g i + 1),
       mtx := (if critical (pc g t) then None else mtx g), pc := (pc g)(t := Out r)\<rparr>
   | Lock p \<Rightarrow> g\<lparr>mtx := Some t, pc := (pc g)(t := p)\<rparr>
   | Sleeps \<Rightarrow> g\<lparr>mtx := None, pc := (pc g)(t := Asleep)\<rparr>
   | Expires \<Rightarrow> g\<lparr>mtx := None, pc := (pc g)(t := Out (timed_out (op g t)))\<rparr>
   | Stores i \<Rightarrow> g\<lparr>events := (events g)[i := 1], posts := (posts g)(i := posts g i + 1), pc := (pc g)(t := Sig_acquire)\<rparr>
   | Notifies \<Rightarrow> g\<lparr>mtx := None,
       pc := (\<lambda>u. if pc g u = Asleep then Relock False else pc g u)(t := Out Returned)\<rparr>)"

definition kind_ok :: "step_kind \<Rightarrow> nat \<Rightarrow> group \<Rightarrow> bool" where
  "kind_ok k t g = ((\<forall>r. pc g t \<noteq> Out r) \<and> (case k of
     Move p \<Rightarrow> move_ok g t p
   | Take i r \<Rightarrow> events g ! i = 1 \<and> pc g t \<notin> {Asleep, Sig_acquire, Sig_notify} \<and>
       (in_range_pc (length (events g)) (pc g t) \<longrightarrow> i < length (events g))
   | Lock p \<Rightarrow> mtx g = None \<and> \<not> critical (pc g t) \<and> critical p \<and> pc g t \<noteq> Asleep \<and>
       (p = Sig_notify \<longleftrightarrow> pc g t = Sig_acquire) \<and>
       p \<in> {Sig_notify, Scan (targets (length (events g)) (op g t)), Last (targets (length (events g)) (op g t))}
   | Sleeps \<Rightarrow> pc g t = Park
   | Expires \<Rightarrow> pc g t = Last []
   | Stores i \<Rightarrow> pc g t = Store i
   | Notifies \<Rightarrow> pc g t = Sig_notify))"

lemma try_kind:
  assumes "pc g t \<in> {Fast (i # is), Fast_cas i is, Scan (i # is), Scan_cas i is, Last (i # is), Last_cas i is}"
    and "thread_step t g = Some g'"
  shows "\<exists>k. kind_ok k t g \<and> g' = kind_step k t g"
proof (cases "pc g t \<in> {Fast_cas i is, Scan_cas i is, Last_cas i is} \<and> events g ! i = 1")
  case True
  then have "kind_ok (Take i (consumed (op g t) i)) t g \<and> g' = kind_step (Take i (consumed (op g t) i)) t g"
    using assms(2) by (auto simp: step_defs kind_ok_def kind_step_def)
  then show ?thesis by blast
next
  case False
  then have "kind_ok (Move (pc g' t)) t g \<and> g' = kind_step (Move (pc g' t)) t g"
    using assms
    by (auto simp: step_defs kind_ok_def kind_step_def move_ok_def
        split: if_splits)
  then show ?thesis by blast
qed

lemma lock_kind:
  assumes "lock_then t p g = Some g'" "\<not> critical (pc g t)" "critical p" "pc g t \<noteq> Asleep"
    "p = Sig_notify \<longleftrightarrow> pc g t = Sig_acquire"
    "p \<in> {Sig_notify, Scan (targets (length (events g)) (op g t)), Last (targets (length (events g)) (op g t))}"
    "\<nexists>r. pc g t = Out r"
  shows "\<exists>k. kind_ok k t g \<and> g' = kind_step k t g"
  using assms
  by (intro exI [of _ "Lock p"]) (auto simp: kind_ok_def kind_step_def lock_then_def split: option.splits)

lemma acquiring_kind:
  assumes step: "thread_step t g = Some g'" and pc: "pc g t \<in> {Acquire, Sig_acquire} \<union> range Relock"
  shows "\<exists>k. kind_ok k t g \<and> g' = kind_step k t g"
proof -
  have "lock_then t (case pc g t of Sig_acquire \<Rightarrow> Sig_notify | Relock True \<Rightarrow> Last (targets (length (events g)) (op g t))
      | _ \<Rightarrow> Scan (targets (length (events g)) (op g t))) g = Some g'"
    using step pc by (auto simp: thread_step_def Let_def split: bool.split)
  then show ?thesis
    by (rule lock_kind) (use pc in \<open>auto split: bool.splits\<close>)
qed

lemma thread_step_kind:
  assumes step: "thread_step t g = Some g'"
  shows "\<exists>k. kind_ok k t g \<and> g' = kind_step k t g"
proof (cases "pc g t")
  case (Fast xs)
  then show ?thesis
    using step try_kind [of g t "hd xs" "tl xs" g']
    by (cases xs) (auto simp: step_defs kind_ok_def kind_step_def move_ok_def intro!: exI [of _ "Move (pc g' t)"])
next
  case (Scan xs)
  then show ?thesis
    using step try_kind [of g t "hd xs" "tl xs" g']
    by (cases xs) (auto simp: step_defs kind_ok_def kind_step_def move_ok_def intro!: exI [of _ "Move Park"])
next
  case (Last xs)
  then show ?thesis
    using step try_kind [of g t "hd xs" "tl xs" g']
    by (cases xs) (auto simp: step_defs kind_ok_def kind_step_def intro!: exI [of _ Expires])
next
  case (Fast_cas i xs)
  then show ?thesis using step try_kind by blast
next
  case (Scan_cas i xs)
  then show ?thesis using step try_kind by blast
next
  case (Last_cas i xs)
  then show ?thesis using step try_kind by blast
next
  case Acquire
  then show ?thesis using acquiring_kind [OF step] by simp
next
  case (Relock b)
  then show ?thesis using acquiring_kind [OF step] by simp
next
  case Sig_acquire
  then show ?thesis using acquiring_kind [OF step] by simp
next
  case Park
  then show ?thesis
    using step by (intro exI [of _ Sleeps]) (simp add: step_defs kind_ok_def kind_step_def)
next
  case (Store i)
  then show ?thesis
    using step by (intro exI [of _ "Stores i"]) (auto simp: step_defs kind_ok_def kind_step_def)
next
  case Sig_notify
  then show ?thesis
    using step by (intro exI [of _ Notifies]) (auto simp: step_defs kind_ok_def kind_step_def)
qed (use step in \<open>simp_all add: thread_step_def Let_def\<close>)

lemma kind_mutex: "mutex_ok g \<Longrightarrow> kind_ok k t g \<Longrightarrow> mutex_ok (kind_step k t g)"
  by (cases k; auto simp: kind_ok_def kind_step_def mutex_ok_def move_ok_def; metis critical_simps(12))

lemma kind_range:
  assumes "range_ok n g" "kind_ok k t g"
  shows "range_ok n (kind_step k t g)"
proof (cases "k = Notifies")
  case True
  have u: "in_range_pc n (pc g u)" "(\<exists>r. pc g u = Out r) \<or> set (targets n (op g u)) \<subseteq> {..<n}" for u
    using assms(1) by (simp_all add: range_ok_def)
  have "in_range_pc n (pc (kind_step k t g) u) \<and>
      ((\<exists>r. pc (kind_step k t g) u = Out r) \<or> set (targets n (op g u)) \<subseteq> {..<n})" for u
    using u [of u] True by (auto simp: kind_step_def)
  then show ?thesis
    using assms(1) True by (simp add: range_ok_def kind_step_def)
next
  case False
  then show ?thesis
    using assms by (cases k) (auto simp: kind_ok_def kind_step_def range_ok_def move_ok_def)
qed

lemma kind_count:
  assumes "count_ok g" "range_ok n g" "kind_ok k t g"
  shows "count_ok (kind_step k t g)"
  using assms
  by (cases k) (auto simp: kind_ok_def kind_step_def count_ok_def range_ok_def nth_list_update)

text \<open>
  No wake-up is lost: a sleeping or parking thread that could consume an event is about to
  be notified, because the thread that stored the event has to take the mutex first.
\<close>

lemma wake_okD:
  assumes "wake_ok g" "i \<in> gave_up (pc g t) (targets (length (events g)) (op g t))" "events g ! i = 1"
  shows "\<exists>u. pc g u = Sig_acquire \<or> pc g t = Asleep \<and> pc g u = Sig_notify"
  using assms unfolding wake_ok_def by blast

text \<open>A step that leaves the threads about to notify, and a sleeping waiter, where they are
  keeps a wake-up that was on its way.\<close>

lemma wake_kept:
  assumes "wake_ok g" "i \<in> gave_up (pc g u) (targets (length (events g)) (op g u))" "events g ! i = 1"
    and "\<And>v. pc g v = Sig_acquire \<or> pc g v = Sig_notify \<Longrightarrow> pc g' v = pc g v" "pc g u = Asleep \<Longrightarrow> pc g' u = Asleep"
  shows "\<exists>v. pc g' v = Sig_acquire \<or> pc g' u = Asleep \<and> pc g' v = Sig_notify"
  using wake_okD [OF assms(1)] assms(2-5) by metis

text \<open>The event of a waiter that had given up before the step.\<close>

lemma kind_wake_before:
  assumes wake: "wake_ok g" and rng: "range_ok n g" and ok: "kind_ok k t g"
    and k: "(\<exists>p. k = Move p) \<or> (\<exists>j r. k = Take j r) \<or> k = Sleeps \<or> k = Expires"
    and iu: "i \<in> gave_up (pc (kind_step k t g) u) (targets (length (events g)) (op g u))" "events (kind_step k t g) ! i = 1"
  shows "\<exists>v. pc (kind_step k t g) v = Sig_acquire \<or> pc (kind_step k t g) u = Asleep \<and> pc (kind_step k t g) v = Sig_notify"
proof -
  have "i \<in> gave_up (pc g u) (targets (length (events g)) (op g u)) \<and> events g ! i = 1 \<and>
      (pc g u = Asleep \<longrightarrow> pc (kind_step k t g) u = Asleep)"
  proof (cases k)
    case (Take j r)
    then have "u \<noteq> t" "j < length (events g)"
      using iu ok rng by (auto simp: kind_step_def kind_ok_def range_ok_def)
    then show ?thesis
      using iu Take by (cases "i = j") (auto simp: kind_step_def)
  qed (use k iu ok in \<open>auto simp: kind_step_def kind_ok_def move_ok_def split: if_splits\<close>)
  then show ?thesis
    using k ok by (intro wake_kept [OF wake]) (auto simp: kind_step_def kind_ok_def move_ok_def)
qed

lemma kind_wake_lock:
  assumes wake: "wake_ok g" and mut: "mutex_ok g" and ok: "kind_ok (Lock p) t g"
    and iu: "i \<in> gave_up (pc (kind_step (Lock p) t g) u) (targets (length (events g)) (op g u))" "events (kind_step (Lock p) t g) ! i = 1"
  shows "\<exists>v. pc (kind_step (Lock p) t g) v = Sig_acquire \<or>
    pc (kind_step (Lock p) t g) u = Asleep \<and> pc (kind_step (Lock p) t g) v = Sig_notify"
proof -
  have nt: "u \<noteq> t"
    using iu ok by (auto simp: kind_step_def kind_ok_def)
  then have gu: "i \<in> gave_up (pc g u) (targets (length (events g)) (op g u))" "events g ! i = 1"
    using iu by (simp_all add: kind_step_def)
  then obtain v where v: "pc g v = Sig_acquire \<or> pc g u = Asleep \<and> pc g v = Sig_notify"
    using wake wake_okD by blast
  have "pc g u = Asleep"
    using ok mut nt gu(1)
    by (cases "pc g u") (auto simp: kind_ok_def mutex_ok_def dest: spec [of _ u])
  then show ?thesis
    using v ok nt by (cases "v = t") (auto simp: kind_step_def kind_ok_def)
qed

lemma kind_wake:
  assumes wake: "wake_ok g" and mut: "mutex_ok g" and rng: "range_ok n g" and ok: "kind_ok k t g"
  shows "wake_ok (kind_step k t g)"
  unfolding wake_ok_def
proof (intro allI impI)
  let ?g = "kind_step k t g"
  fix u i
  assume "i \<in> gave_up (pc ?g u) (targets (length (events ?g)) (op ?g u)) \<and> events ?g ! i = 1"
  moreover have len: "length (events ?g) = length (events g)" "op ?g = op g"
    by (simp_all add: kind_step_def split: step_kind.splits)
  ultimately have iu: "i \<in> gave_up (pc ?g u) (targets (length (events g)) (op g u))" "events ?g ! i = 1"
    by simp_all
  show "\<exists>v. pc ?g v = Sig_acquire \<or> pc ?g u = Asleep \<and> pc ?g v = Sig_notify"
  proof (cases k)
    case (Stores j)
    then have "pc ?g t = Sig_acquire" by (simp add: kind_step_def)
    then show ?thesis by blast
  next
    case Notifies
    then have crit: "mtx g = Some t" and "pc g t = Sig_notify"
      using ok mut by (auto simp: kind_ok_def mutex_ok_def)
    have nc: "\<not> critical (pc g u)" if "u \<noteq> t"
      using mut crit that by (auto simp: mutex_ok_def)
    have "gave_up (pc ?g u) (targets (length (events g)) (op g u)) = {}"
      using Notifies nc by (cases "pc g u") (auto simp: kind_step_def)
    then show ?thesis using iu by simp
  next
    case (Lock p)
    then show ?thesis
      using kind_wake_lock [OF wake mut, of p t] ok iu by simp
  qed (use kind_wake_before [OF wake rng ok] iu in simp_all)
qed

lemma woken_inv:
  assumes inv: "group_inv n g" and pc: "pc g t = Asleep"
  shows "group_inv n (goto t (Relock b) g)"
proof -
  have "wake_ok (goto t (Relock b) g)"
    unfolding wake_ok_def
  proof (intro allI impI)
    fix u i
    assume a: "i \<in> gave_up (pc (goto t (Relock b) g) u)
        (targets (length (events (goto t (Relock b) g))) (op (goto t (Relock b) g) u)) \<and>
      events (goto t (Relock b) g) ! i = 1"
    then have "u \<noteq> t" "i \<in> gave_up (pc g u) (targets (length (events g)) (op g u))" "events g ! i = 1"
      by (auto simp: goto_def split: if_splits)
    then obtain v where v: "pc g v = Sig_acquire \<or> pc g u = Asleep \<and> pc g v = Sig_notify"
      using inv wake_okD unfolding group_inv_def by blast
    then show "\<exists>v. pc (goto t (Relock b) g) v = Sig_acquire \<or>
        pc (goto t (Relock b) g) u = Asleep \<and> pc (goto t (Relock b) g) v = Sig_notify"
      using pc \<open>u \<noteq> t\<close> by (intro exI [of _ v]) (auto simp: goto_def)
  qed
  moreover have "range_ok n (goto t (Relock b) g)"
  proof -
    have r: "in_range_pc n (pc g u)" "(\<exists>r. pc g u = Out r) \<or> set (targets n (op g u)) \<subseteq> {..<n}" for u
      using inv by (simp_all add: group_inv_def range_ok_def)
    have "in_range_pc n (pc (goto t (Relock b) g) u) \<and>
        ((\<exists>r. pc (goto t (Relock b) g) u = Out r) \<or> set (targets n (op g u)) \<subseteq> {..<n})" for u
      using r [of u] pc by (auto simp: goto_def)
    then show ?thesis
      using inv by (simp add: group_inv_def range_ok_def goto_def)
  qed
  moreover have "mtx g \<noteq> Some t"
    using inv pc by (metis critical_simps(8) group_inv_def mutex_ok_def)
  then have "mutex_ok (goto t (Relock b) g)"
    using inv pc by (auto simp: group_inv_def mutex_ok_def goto_def)
  ultimately show ?thesis
    using inv by (simp add: group_inv_def count_ok_def goto_def)
qed

lemma group_step_inv:
  assumes inv: "group_inv n g" and step: "group_step ev g = Some g'"
  shows "group_inv n g'"
proof (cases ev)
  case (Step t)
  then have "thread_step t g = Some g'"
    using step by (simp add: group_step_def)
  then obtain k where k: "kind_ok k t g" "g' = kind_step k t g"
    using thread_step_kind by blast
  show ?thesis
    using inv k kind_mutex kind_range kind_count kind_wake unfolding group_inv_def by metis
next
  case (Call t c)
  then obtain r where out: "pc g t = Out r"
    and g': "g' = g\<lparr>pc := (pc g)(t := SignalGroup_call (length (events g)) c), op := (op g)(t := c)\<rparr>"
    using step by (auto simp: group_step_def split: tpc.splits)
  define p where "p = SignalGroup_call (length (events g)) c"
  have p: "\<not> critical p" "in_range_pc (length (events g)) p" "gave_up p ts = {}"
    "(\<exists>r. p = Out r) \<or> set (targets (length (events g)) c) \<subseteq> {..<length (events g)}" for ts
    by (auto simp: p_def SignalGroup_call_def targets_def split: sig_op.splits)
  have free: "mtx g \<noteq> Some t"
    using inv out by (metis critical_simps(1) group_inv_def mutex_ok_def)
  have "pc g t \<noteq> Sig_acquire" "pc g t \<noteq> Sig_notify"
    using out by simp_all
  then have "wake_ok g'"
    using inv p unfolding group_inv_def wake_ok_def g' p_def [symmetric] by (fastforce split: if_splits)
  then show ?thesis
    using inv p out free unfolding g' p_def [symmetric]
    by (auto simp: group_inv_def mutex_ok_def range_ok_def count_ok_def)
next
  case (Spurious_wake t)
  then have "pc g t = Asleep" "g' = goto t (Relock False) g"
    using step by (auto simp: group_step_def split: if_splits)
  then show ?thesis
    using woken_inv [OF inv] by simp
next
  case (Deadline t)
  then have "pc g t = Asleep" "g' = goto t (Relock True) g"
    using step by (auto simp: group_step_def split: if_splits)
  then show ?thesis
    using woken_inv [OF inv] by simp
qed

lemma group_new_inv: "group_inv n (SignalGroup_new n)"
  by (simp add: group_inv_def mutex_ok_def range_ok_def count_ok_def wake_ok_def SignalGroup_new_def)

lemma group_reach_inv: "group_reach n g \<Longrightarrow> group_inv n g"
  by (induction rule: group_reach.induct) (auto intro: group_step_inv group_new_inv)

lemma group_run_reach: "group_run evs g = Some g' \<Longrightarrow> group_reach n g \<Longrightarrow> group_reach n g'"
  by (induction evs arbitrary: g) (auto split: option.splits intro: group_reach.step)

section \<open>Properties\<close>

text \<open>C17: no wake-up is lost. Whatever the threads of a program do with a group of signals,
  and however they interleave, a thread that sleeps in \<open>wait\<close> or \<open>waitOne\<close> while an event it
  waits for is set is about to be notified: some thread is inside \<open>signal\<close>, past its store
  and before its \<^verbatim>\<open>notify_all\<close>. So once no thread is inside \<open>signal\<close>, nobody sleeps on a
  pending event.\<close>

theorem Signal_no_lost_wakeup:
  assumes "group_reach n g" "pc g t = Asleep" "i \<in> set (targets n (op g t))" "events g ! i = 1"
  shows "\<exists>u. pc g u = Sig_acquire \<or> pc g u = Sig_notify"
proof -
  have "group_inv n g"
    using assms(1) by (rule group_reach_inv)
  then show ?thesis
    using wake_okD [of g i t] assms(2-4) by (auto simp: group_inv_def range_ok_def)
qed

theorem Signal_no_lost_wakeup_witness:
  "\<exists>g. group_run [Call 0 (Wait 0), Step 0, Step 0, Step 0, Step 0, Step 0, Step 0, Call 1 (Signal 0), Step 1]
       (SignalGroup_new 1) = Some g \<and> pc g 0 = Asleep \<and> (\<exists>u. pc g u = Sig_acquire \<or> pc g u = Sig_notify)"
proof -
  let ?evs = "[Call 0 (Wait 0), Step 0, Step 0, Step 0, Step 0, Step 0, Step 0, Call 1 (Signal 0), Step 1]"
  have "map_option (\<lambda>g. (pc g 0, events g, targets 1 (op g 0))) (group_run ?evs (SignalGroup_new 1))
      = Some (Asleep, [1], [0])"
    by code_simp
  then obtain g where g: "group_run ?evs (SignalGroup_new 1) = Some g" "pc g 0 = Asleep" "events g = [1]"
    "targets 1 (op g 0) = [0]"
    by auto
  have "group_reach 1 g"
    using group_run_reach [OF g(1)] group_reach.start by blast
  then have "\<exists>u. pc g u = Sig_acquire \<or> pc g u = Sig_notify"
    using g Signal_no_lost_wakeup [of 1 g 0 0] by simp
  then show ?thesis
    using g by blast
qed

text \<open>C18: a signal is consumed at most once. In every reachable state each event is 0 or 1
  (two levels, no counter) and the number of calls that consumed an event, plus one if it
  is still set, is at most the number of times it was signalled; and at most one thread is
  inside the critical section.\<close>

theorem Signal_consumed_once:
  assumes "group_reach n g"
  shows "length (events g) = n \<and>
    (\<forall>i. i < n \<longrightarrow> events g ! i \<in> {0, 1} \<and> takes g i + unat (events g ! i) \<le> posts g i) \<and>
    (\<forall>t u. critical (pc g t) \<and> critical (pc g u) \<longrightarrow> t = u)"
  using group_reach_inv [OF assms]
  by (auto simp: group_inv_def range_ok_def count_ok_def mutex_ok_def)

text \<open>Two threads find the same signal set; one consumes it and the other goes on to the critical section.\<close>

theorem Signal_consumed_once_witness:
  "\<exists>g. group_reach 2 g \<and> posts g 1 = 1 \<and> takes g 1 = 1 \<and> events g ! 1 = 0 \<and> pc g 0 = Out Returned \<and>
     critical (pc g 1) \<and> (\<forall>t. t \<noteq> 1 \<longrightarrow> \<not> critical (pc g t))"
proof -
  let ?evs = "[Call 7 (Signal 1), Step 7, Call 0 (Wait 1), Call 1 (Wait 1), Step 0, Step 1, Step 0, Step 1, Step 1, Step 1]"
  have "map_option (\<lambda>g. (posts g 1, takes g 1, pc g 0, pc g 1)) (group_run ?evs (SignalGroup_new 2)) =
      Some (1, 1, Out Returned, Scan [1])"
    by code_simp
  then obtain g where g: "group_run ?evs (SignalGroup_new 2) = Some g" "posts g 1 = 1" "takes g 1 = 1"
    "pc g 0 = Out Returned" "pc g 1 = Scan [1]"
    by auto
  have r: "group_reach 2 g"
    using group_run_reach [OF g(1)] group_reach.start by blast
  have "events g ! 1 \<in> {0, 1} \<and> takes g 1 + unat (events g ! 1) \<le> posts g 1"
    and c: "\<forall>t u. critical (pc g t) \<and> critical (pc g u) \<longrightarrow> t = u"
    using Signal_consumed_once [OF r] by simp_all
  then have "events g ! 1 = 0"
    using g(2,3) by auto
  moreover have "\<not> critical (pc g t)" if "t \<noteq> 1" for t
    using c that g(5) critical_simps(5) by metis
  ultimately show ?thesis
    using r g critical_simps(5) [of "[1]"] by metis
qed

text \<open>The fast path of a thread that is not interfered with.\<close>

lemma fast_path_takes:
  assumes "pc g t = Fast (before @ i # rest)" "\<forall>j \<in> set before. events g ! j = 0" "events g ! i = 1"
  shows "group_run (replicate (length before + 2) (Step t)) g
    = Some (goto t (Out (consumed (op g t) i)) (took i g))"
  using assms
proof (induction before arbitrary: g)
  case Nil
  then show ?case
    by (simp add: group_step_def thread_step_def Let_def goto_def took_def)
next
  case (Cons j before)
  let ?g = "goto t (Fast (before @ i # rest)) g"
  have "group_step (Step t) g = Some ?g"
    using Cons.prems by (simp add: group_step_def thread_step_def Let_def)
  moreover have "group_run (replicate (length before + 2) (Step t)) ?g
      = Some (goto t (Out (consumed (op g t) i)) (took i g))"
    using Cons.IH [of ?g] Cons.prems by (simp add: goto_def took_def)
  ultimately show ?case
    by simp
qed

lemma consume_first_skips:
  "\<forall>j \<in> set before. es ! j = 0 \<Longrightarrow> es ! i = 1 \<Longrightarrow>
   consume_first es (before @ i # rest) = (Some i, es[i := 0])"
proof (induction before)
  case (Cons j before)
  then have "es[j := 0] = es"
    by (metis list.set_intros(1) list_update_id)
  with Cons show ?case
    by (simp add: tryConsume_at_def tryConsume_def)
qed (simp add: tryConsume_at_def tryConsume_def)

text \<open>\<open>waitOne\<close> picks the lowest pending index. A thread that calls \<open>waitOne\<close> on a group
  whose lowest set event is \<open>i\<close> returns \<open>i\<close> after at most \<open>i + 2\<close> steps of its own on the
  fast path, without touching the mutex, and consumes that event and no other:
  exactly what \<open>tryConsumeOne\<close> computes.\<close>

theorem waitOne_lowest:
  assumes "group_reach n g" "pc g t = Out r" "i < n" "events g ! i = 1" "\<forall>j < i. events g ! j = 0"
  shows "\<exists>g'. group_run (Call t WaitOne # replicate (i + 2) (Step t)) g = Some g' \<and>
    pc g' t = Out (Index i) \<and> events g' = (events g)[i := 0] \<and> mtx g' = mtx g \<and>
    tryConsumeOne (events g) = (of_nat i, events g')"
proof -
  have len: "length (events g) = n"
    using group_reach_inv [OF assms(1)] by (simp add: group_inv_def range_ok_def)
  let ?g = "g\<lparr>pc := (pc g)(t := Fast ([0..<i] @ i # [Suc i..<n])), op := (op g)(t := WaitOne)\<rparr>"
  have idx: "[0..<n] = [0..<i] @ i # [Suc i..<n]"
    using assms(3) upt_add_eq_append [of 0 i "n - i"] upt_conv_Cons [of i n] by simp
  have "group_step (Call t WaitOne) g = Some ?g"
    using assms(2) len idx by (simp add: group_step_def SignalGroup_call_def targets_def)
  moreover have "group_run (replicate (i + 2) (Step t)) ?g = Some (goto t (Out (Index i)) (took i ?g))"
    using fast_path_takes [of ?g t "[0..<i]" i "[Suc i..<n]"] assms(4,5) by (simp add: consumed_def)
  moreover have "tryConsumeOne (events g) = (of_nat i, (events g)[i := 0])"
    using consume_first_skips [of "[0..<i]" "events g" i "[Suc i..<n]"] assms(4,5) len idx
    by (simp add: tryConsumeOne_def)
  ultimately show ?thesis
    by (simp add: goto_def took_def)
qed

theorem waitOne_lowest_witness:
  "\<exists>g g'. group_run (Call 0 WaitOne # replicate 3 (Step 0)) g = Some g' \<and>
     pc g' 0 = Out (Index 1) \<and> events g = [0, 1, 1] \<and> events g' = [0, 0, 1]"
proof -
  let ?evs = "[Call 7 (Signal 2), Step 7, Step 7, Step 7, Call 7 (Signal 1), Step 7]"
  have "map_option (\<lambda>g. (events g, pc g 0)) (group_run ?evs (SignalGroup_new 3)) = Some ([0, 1, 1], Out Returned)"
    by code_simp
  then obtain g where g: "group_run ?evs (SignalGroup_new 3) = Some g" "events g = [0, 1, 1]" "pc g 0 = Out Returned"
    by auto
  have "group_reach 3 g"
    using group_run_reach [OF g(1)] group_reach.start by blast
  then show ?thesis
    using waitOne_lowest [of 3 g 0 Returned 1] g(2,3) by (auto simp: numeral_eq_Suc)
qed

section \<open>Signal is sticky\<close>

definition Signal_ops :: "uint32 ipsignal" where
  "Signal_ops = \<lparr>sig_enter = (\<lambda>e. e),
     sig_leave = (\<lambda>e. case tryConsume e of (True, e') \<Rightarrow> Some e' | (False, _) \<Rightarrow> None),
     sig_post = (\<lambda>_. 1)\<rparr>"

interpretation sig: sticky_signal Signal_ops "\<lambda>e. e = 1"
  by unfold_locales (simp_all add: Signal_ops_def tryConsume_def)

end
