(* ===== verification/MultiLock.thy ===== *)
theory MultiLock
  imports Gicame_Prelude
begin

text \<open>
  \<^verbatim>\<open>src/headers/concurrency/MultiLock.h\<close>: a counter in front of a lock that makes it
  re-entrant for one thread. The wrapped lock is an interface, the locale \<open>lockable\<close>: its
  three operations, and \<open>avail\<close>, how many more acquisitions it grants. A blocking call
  answers \<open>None\<close> when it does not return.
\<close>

record 's lock_ops =
  theLock_lock :: "'s \<Rightarrow> 's result option"
  theLock_unlock :: "'s \<Rightarrow> 's result"
  theLock_try_lock :: "'s \<Rightarrow> (bool \<times> 's) result option"

record 's MultiLock =
  counter :: size_t
  theLock :: 's

definition MultiLock_new :: "'s \<Rightarrow> 's MultiLock" where
  "MultiLock_new l = \<lparr>counter = 0, theLock = l\<rparr>"

definition MultiLock_lock :: "'s lock_ops \<Rightarrow> 's MultiLock \<Rightarrow> 's MultiLock result option" where
  "MultiLock_lock ops m =
     (if counter m = NOT 0 then Some (Inl (RUNTIME_ERROR ''lock'' ''counter overflow''))
      else if counter m = 0 then
        (case theLock_lock ops (theLock m) of
           None \<Rightarrow> None
         | Some (Inl e) \<Rightarrow> Some (Inl e)
         | Some (Inr l) \<Rightarrow> Some (Inr (m\<lparr>theLock := l, counter := counter m + 1\<rparr>)))
      else Some (Inr (m\<lparr>counter := counter m + 1\<rparr>)))"

definition MultiLock_unlock :: "'s lock_ops \<Rightarrow> 's MultiLock \<Rightarrow> 's MultiLock result" where
  "MultiLock_unlock ops m =
     (if counter m = 0 then Inl (RUNTIME_ERROR ''unlock'' ''counter underflow'')
      else if counter m = 1 then
        bind_result (theLock_unlock ops (theLock m)) (\<lambda>l. Inr (m\<lparr>theLock := l, counter := counter m - 1\<rparr>))
      else Inr (m\<lparr>counter := counter m - 1\<rparr>))"

definition MultiLock_try_lock :: "'s lock_ops \<Rightarrow> 's MultiLock \<Rightarrow> (bool \<times> 's MultiLock) result option" where
  "MultiLock_try_lock ops m =
     (if counter m = NOT 0 then Some (Inl (RUNTIME_ERROR ''try_lock'' ''counter overflow''))
      else if counter m = 0 then
        (case theLock_try_lock ops (theLock m) of
           None \<Rightarrow> None
         | Some (Inl e) \<Rightarrow> Some (Inl e)
         | Some (Inr (success, l)) \<Rightarrow>
             Some (Inr (success, m\<lparr>theLock := l, counter := (if success then 1 else counter m)\<rparr>)))
      else Some (Inr (True, m\<lparr>counter := counter m + 1\<rparr>)))"

section \<open>Sequences of calls\<close>

datatype lock_call = Lock | Unlock | Try_lock

text \<open>One call; a call that throws leaves the object as it was.\<close>

definition MultiLock_call :: "'s lock_ops \<Rightarrow> lock_call \<Rightarrow> 's MultiLock \<Rightarrow> 's MultiLock option" where
  "MultiLock_call ops c m = (case c of
     Lock \<Rightarrow> map_option (\<lambda>r. case r of Inl _ \<Rightarrow> m | Inr m' \<Rightarrow> m') (MultiLock_lock ops m)
   | Unlock \<Rightarrow> Some (case MultiLock_unlock ops m of Inl _ \<Rightarrow> m | Inr m' \<Rightarrow> m')
   | Try_lock \<Rightarrow> map_option (\<lambda>r. case r of Inl _ \<Rightarrow> m | Inr (_, m') \<Rightarrow> m') (MultiLock_try_lock ops m))"

fun MultiLock_calls :: "'s lock_ops \<Rightarrow> lock_call list \<Rightarrow> 's MultiLock \<Rightarrow> 's MultiLock option" where
  "MultiLock_calls ops [] m = Some m"
| "MultiLock_calls ops (c # cs) m =
     (case MultiLock_call ops c m of None \<Rightarrow> None | Some m' \<Rightarrow> MultiLock_calls ops cs m')"

section \<open>The Lockable interface\<close>

locale lockable =
  fixes ops :: "'s lock_ops" and avail :: "'s \<Rightarrow> nat"
  assumes lock_takes: "theLock_lock ops l = Some (Inr l') \<Longrightarrow> avail l = Suc (avail l')"
    and unlock_gives: "theLock_unlock ops l = Inr l' \<Longrightarrow> avail l' = Suc (avail l)"
    and try_lock_takes: "theLock_try_lock ops l = Some (Inr (b, l')) \<Longrightarrow>
      avail l = (if b then Suc (avail l') else avail l')"
begin

definition holds_one :: "nat \<Rightarrow> 's MultiLock \<Rightarrow> bool" where
  "holds_one n m \<longleftrightarrow> avail (theLock m) + (if counter m = 0 then 0 else 1) = n"

lemma max_plus: "(c :: size_t) \<noteq> NOT 0 \<Longrightarrow> c + 1 \<noteq> 0"
  by (simp add: eq_neg_iff_add_eq_0 [symmetric])

lemma lock_holds: "MultiLock_lock ops m = Some (Inr m') \<Longrightarrow> holds_one n m \<Longrightarrow> holds_one n m'"
  using max_plus [of "counter m"] lock_takes [of "theLock m" "theLock m'"]
  by (auto simp: MultiLock_lock_def holds_one_def split: option.splits sum.splits if_splits)

lemma unlock_holds: "MultiLock_unlock ops m = Inr m' \<Longrightarrow> holds_one n m \<Longrightarrow> holds_one n m'"
  using unlock_gives [of "theLock m" "theLock m'"]
  by (auto simp: MultiLock_unlock_def holds_one_def bind_result_Inr split: if_splits)

lemma try_lock_holds: "MultiLock_try_lock ops m = Some (Inr (b, m')) \<Longrightarrow> holds_one n m \<Longrightarrow> holds_one n m'"
  using max_plus [of "counter m"] try_lock_takes [of "theLock m" b "theLock m'"]
  by (auto simp: MultiLock_try_lock_def holds_one_def split: option.splits sum.splits if_splits)

lemma call_holds:
  assumes "MultiLock_call ops c m = Some m'" "holds_one n m"
  shows "holds_one n m'"
proof (cases c)
  case Lock
  then obtain r where r: "MultiLock_lock ops m = Some r" "m' = (case r of Inl _ \<Rightarrow> m | Inr x \<Rightarrow> x)"
    using assms(1) by (auto simp: MultiLock_call_def)
  then show ?thesis
    using assms(2) lock_holds by (cases r) auto
next
  case Unlock
  then show ?thesis
    using assms unlock_holds by (cases "MultiLock_unlock ops m") (auto simp: MultiLock_call_def)
next
  case Try_lock
  then obtain r where r: "MultiLock_try_lock ops m = Some r" "m' = (case r of Inl _ \<Rightarrow> m | Inr (_, x) \<Rightarrow> x)"
    using assms(1) by (auto simp: MultiLock_call_def)
  then show ?thesis
    using assms(2) try_lock_holds by (cases r) auto
qed

lemma calls_hold: "MultiLock_calls ops cs m = Some m' \<Longrightarrow> holds_one n m \<Longrightarrow> holds_one n m'"
  by (induction cs arbitrary: m) (auto split: option.splits intro: call_holds)

lemma MultiLock_owns_at_most_one:
  assumes "MultiLock_calls ops cs (MultiLock_new l) = Some m"
  shows "avail (theLock m) + (if counter m = 0 then 0 else 1) = avail l"
  using calls_hold [OF assms, of "avail l"] by (simp add: holds_one_def MultiLock_new_def)

end

end
