(* ===== verification/Semaphore.thy ===== *)
theory Semaphore
  imports MultiLock Numbers "HOL-Library.Signed_Division"
begin

text \<open>
  The named semaphore \<^verbatim>\<open>InterprocessSemaphore\<close> of \<^verbatim>\<open>src/headers/concurrency/Semaphore.h\<close>
  and \<^verbatim>\<open>src/src/concurrency/Semaphore.cpp\<close>, in its POSIX and its Windows version. The
  system calls are parameters over a state \<open>'o\<close> of the operating system, a blocking call
  answering \<open>None\<close> when it does not return; the retry loops are partial functions, whose
  value \<open>None\<close> is a call that never returns.
\<close>

datatype AcquireResult = SUCCESS | TIMEOUT | FAIL

type_synonym errno = nat

definition EINTR :: errno where "EINTR = 4"
definition EAGAIN :: errno where "EAGAIN = 11"
definition EEXIST :: errno where "EEXIST = 17"
definition EINVAL :: errno where "EINVAL = 22"
definition ETIMEDOUT_errno :: errno where "ETIMEDOUT_errno = 110"

definition UNSIGNED_INT :: int_type where "UNSIGNED_INT = \<lparr>is_signed = False, width = 32\<rparr>"
definition LONG :: int_type where "LONG = \<lparr>is_signed = True, width = 32\<rparr>"

section \<open>POSIX\<close>

record timespec =
  tv_sec :: int
  tv_nsec :: int

text \<open>A call's return code, the \<^verbatim>\<open>errno\<close> it leaves and the new state of the system.\<close>

type_synonym 'o answer = "int \<times> errno \<times> 'o"

text \<open>\<open>sem_open\<close> answers a handle, \<open>None\<close> being \<^verbatim>\<open>SEM_FAILED\<close>.\<close>

record ('h, 'o) sem_api =
  sem_open_new :: "string \<Rightarrow> uint32 \<Rightarrow> 'o \<Rightarrow> 'h option \<times> errno \<times> 'o"
  sem_open_old :: "string \<Rightarrow> 'o \<Rightarrow> 'h option \<times> errno \<times> 'o"
  sem_close :: "'h \<Rightarrow> 'o \<Rightarrow> 'o"
  sem_unlink :: "string \<Rightarrow> 'o \<Rightarrow> 'o"
  sem_wait :: "'h option \<Rightarrow> 'o \<Rightarrow> 'o answer option"
  sem_timedwait :: "'h option \<Rightarrow> timespec \<Rightarrow> 'o \<Rightarrow> 'o answer option"
  sem_trywait :: "'h option \<Rightarrow> 'o \<Rightarrow> 'o answer"
  sem_post :: "'h option \<Rightarrow> 'o \<Rightarrow> int \<times> 'o"
  clock_gettime :: "'o \<Rightarrow> timespec option"

record 'h posix_semaphore =
  handle :: "'h option"
  posixName :: string
  unlinkOnDestruction :: bool

definition sem_error :: "string \<Rightarrow> string \<Rightarrow> exn" where
  "sem_error fn msg = RUNTIME_ERROR fn msg"

definition posix_InterprocessSemaphore ::
    "('h, 'o) sem_api \<Rightarrow> string \<Rightarrow> size_t \<Rightarrow> 'o \<Rightarrow> ('h posix_semaphore \<times> 'o) result" where
  "posix_InterprocessSemaphore api name maxConcurrency os =
     (let s = (\<lambda>h. \<lparr>handle = h, posixName = ''/'' @ name, unlinkOnDestruction = True\<rparr>);
          err = sem_error ''InterprocessSemaphore'' in
      if maxConcurrency = 0 then Inl (err ''maxConcurrency cannot be 0'')
      else if name = [] then Inl (err ''name cannot be empty'')
      else bind_result (safeNumericCast UNSIGNED_INT SIZE_T (uint maxConcurrency)) (\<lambda>semValue.
        case sem_open_new api (''/'' @ name) (word_of_int semValue) os of
          (Some h, _, os1) \<Rightarrow> Inr (s (Some h), os1)
        | (None, errno, os1) \<Rightarrow>
            if errno = EEXIST then
              (case sem_open_old api (''/'' @ name) os1 of
                 (None, _, _) \<Rightarrow> Inl (err ''sem_open(...) failed'')
               | (Some h, _, os2) \<Rightarrow> Inr (s (Some h), os2))
            else if errno = EINVAL then
              (if CHR ''/'' \<in> set name
               then Inl (err ''sem_open(...) failed, invalid semaphore name (cannot contain '/')'')
               else Inl (err ''sem_open(...) failed''))
            else Inr (s None, os1)))"

definition posix_destroy :: "('h, 'o) sem_api \<Rightarrow> 'h posix_semaphore \<Rightarrow> 'o \<Rightarrow> 'o" where
  "posix_destroy api s os =
     (case handle s of
        None \<Rightarrow> os
      | Some h \<Rightarrow>
          let os1 = sem_close api h os in
          if unlinkOnDestruction s then sem_unlink api (posixName s) os1 else os1)"

partial_function (option) sem_wait_loop ::
    "('h, 'o) sem_api \<Rightarrow> 'h option \<Rightarrow> 'o \<Rightarrow> (int \<times> 'o) option" where
  "sem_wait_loop api h os =
     Option.bind (sem_wait api h os) (\<lambda>(result, errno, os').
       if result = - 1 \<and> errno = EINTR then sem_wait_loop api h os' else Some (result, os'))"

definition posix_acquire :: "('h, 'o) sem_api \<Rightarrow> 'h posix_semaphore \<Rightarrow> 'o \<Rightarrow> (bool \<times> 'o) option" where
  "posix_acquire api s os =
     map_option (\<lambda>(result, os'). (result = 0, os')) (sem_wait_loop api (handle s) os)"

text \<open>
  The absolute time: \<^verbatim>\<open>long long\<close> arithmetic, whose overflow is undefined; C++ division
  truncates.
\<close>

definition add_ms :: "timespec \<Rightarrow> int \<Rightarrow> timespec result" where
  "add_ms now timeout =
     (let totalNs = tv_nsec now + timeout * 1000000 in
      if in_range INT64 (timeout * 1000000) \<and> in_range INT64 totalNs then
        Inr \<lparr>tv_sec = tv_sec now + totalNs sdiv 1000000000, tv_nsec = totalNs smod 1000000000\<rparr>
      else Inl (Undefined_behaviour ''long long overflow''))"

partial_function (option) sem_timedwait_loop ::
    "('h, 'o) sem_api \<Rightarrow> 'h option \<Rightarrow> timespec \<Rightarrow> 'o \<Rightarrow> (AcquireResult \<times> 'o) option" where
  "sem_timedwait_loop api h absTime os =
     Option.bind (sem_timedwait api h absTime os) (\<lambda>(result, errno, os').
       if result = 0 then Some (SUCCESS, os')
       else if errno = EINTR then sem_timedwait_loop api h absTime os'
       else if errno = ETIMEDOUT_errno then Some (TIMEOUT, os')
       else Some (FAIL, os'))"

definition posix_acquireWithTimeout ::
    "('h, 'o) sem_api \<Rightarrow> 'h posix_semaphore \<Rightarrow> int \<Rightarrow> 'o \<Rightarrow> (AcquireResult \<times> 'o) result option" where
  "posix_acquireWithTimeout api s timeout os =
     (case clock_gettime api os of
        None \<Rightarrow> Some (Inr (FAIL, os))
      | Some now \<Rightarrow>
          (case add_ms now timeout of
             Inl e \<Rightarrow> Some (Inl e)
           | Inr absTime \<Rightarrow> map_option Inr (sem_timedwait_loop api (handle s) absTime os)))"

definition posix_release :: "('h, 'o) sem_api \<Rightarrow> 'h posix_semaphore \<Rightarrow> 'o \<Rightarrow> bool \<times> 'o" where
  "posix_release api s os = (case sem_post api (handle s) os of (r, os') \<Rightarrow> (r = 0, os'))"

partial_function (option) posix_try_lock ::
    "('h, 'o) sem_api \<Rightarrow> 'h posix_semaphore \<Rightarrow> 'o \<Rightarrow> (bool \<times> 'o) result option" where
  "posix_try_lock api s os =
     (case sem_trywait api (handle s) os of (result, errno, os') \<Rightarrow>
        if result = 0 then Some (Inr (True, os'))
        else if errno = EINTR then posix_try_lock api s os'
        else if errno = EAGAIN then Some (Inr (False, os'))
        else Some (Inl (sem_error ''try_lock'' ''Unable to unlock the semaphore'')))"

text \<open>\<open>lock\<close> and \<open>unlock\<close> are the same on both systems.\<close>

definition sem_lock :: "('o \<Rightarrow> (bool \<times> 'o) option) \<Rightarrow> 'o \<Rightarrow> 'o result option" where
  "sem_lock acquire os =
     map_option (\<lambda>(ok, os'). if ok then Inr os' else Inl (sem_error ''lock'' ''Unable to lock the semaphore''))
       (acquire os)"

definition sem_unlock :: "('o \<Rightarrow> bool \<times> 'o) \<Rightarrow> 'o \<Rightarrow> 'o result" where
  "sem_unlock release os =
     (case release os of (ok, os') \<Rightarrow>
        if ok then Inr os' else Inl (sem_error ''unlock'' ''Unable to unlock the semaphore''))"

definition setUnlinkOnDestruction_sem :: "bool \<Rightarrow> 'h posix_semaphore \<Rightarrow> 'h posix_semaphore" where
  "setUnlinkOnDestruction_sem uod s = s\<lparr>unlinkOnDestruction := uod\<rparr>"

section \<open>Windows\<close>

text \<open>
  \<open>WaitForSingleObject\<close> takes the time-out in milliseconds, \<open>None\<close> standing for
  \<^verbatim>\<open>INFINITE\<close>. The name is limited by \<^verbatim>\<open>MAX_PATH\<close>, 260.
\<close>

record ('h, 'o) win_sem_api =
  CreateSemaphoreA :: "int \<Rightarrow> int \<Rightarrow> string \<Rightarrow> 'o \<Rightarrow> 'h option \<times> 'o"
  CloseSemaphore :: "'h \<Rightarrow> 'o \<Rightarrow> 'o"
  WaitSemaphore :: "'h \<Rightarrow> uint32 option \<Rightarrow> 'o \<Rightarrow> (uint32 \<times> 'o) option"
  ReleaseSemaphore :: "'h \<Rightarrow> 'o \<Rightarrow> bool \<times> 'o"

definition W_OBJECT_0 :: uint32 where "W_OBJECT_0 = 0"
definition W_TIMEOUT :: uint32 where "W_TIMEOUT = 258"
definition W_FAILED :: uint32 where "W_FAILED = 0xFFFFFFFF"

definition win_InterprocessSemaphore ::
    "('h, 'o) win_sem_api \<Rightarrow> string \<Rightarrow> size_t \<Rightarrow> 'o \<Rightarrow> ('h \<times> 'o) result" where
  "win_InterprocessSemaphore api name maxConcurrency os =
     (let err = sem_error ''InterprocessSemaphore''; windowsName = ''Local'' @ [CHR 0x5C] @ name in
      if maxConcurrency = 0 then Inl (err ''maxConcurrency cannot be 0'')
      else if name = [] then Inl (err ''name cannot be empty'')
      else if length windowsName > 260 - 1 then Inl (err ''name too long'')
      else bind_result (safeNumericCast LONG SIZE_T (uint maxConcurrency)) (\<lambda>n.
        case CreateSemaphoreA api n n windowsName os of
          (None, _) \<Rightarrow> Inl (err ''CreateSemaphoreA(...) failed'')
        | (Some h, os1) \<Rightarrow> Inr (h, os1)))"

definition win_destroy_sem :: "('h, 'o) win_sem_api \<Rightarrow> 'h option \<Rightarrow> 'o \<Rightarrow> 'o" where
  "win_destroy_sem api h os = (case h of None \<Rightarrow> os | Some k \<Rightarrow> CloseSemaphore api k os)"

partial_function (option) win_acquire :: "('h, 'o) win_sem_api \<Rightarrow> 'h \<Rightarrow> 'o \<Rightarrow> (bool \<times> 'o) option" where
  "win_acquire api h os =
     Option.bind (WaitSemaphore api h None os) (\<lambda>(result, os').
       if result = W_FAILED then Some (False, os')
       else if result \<noteq> W_OBJECT_0 then win_acquire api h os'
       else Some (True, os'))"

partial_function (option) win_wait_loop ::
    "('h, 'o) win_sem_api \<Rightarrow> 'h \<Rightarrow> uint32 \<Rightarrow> 'o \<Rightarrow> (AcquireResult \<times> 'o) option" where
  "win_wait_loop api h timeoutMs os =
     Option.bind (WaitSemaphore api h (Some timeoutMs) os) (\<lambda>(result, os').
       if result = W_FAILED then Some (FAIL, os')
       else if result = W_TIMEOUT then Some (TIMEOUT, os')
       else if result \<noteq> W_OBJECT_0 then win_wait_loop api h timeoutMs os'
       else Some (SUCCESS, os'))"

definition win_acquireWithTimeout ::
    "('h, 'o) win_sem_api \<Rightarrow> 'h \<Rightarrow> int \<Rightarrow> 'o \<Rightarrow> (AcquireResult \<times> 'o) result option" where
  "win_acquireWithTimeout api h timeout os =
     (case safeNumericCast DWORD INT64 timeout of
        Inl e \<Rightarrow> Some (Inl e)
      | Inr timeoutMs \<Rightarrow> map_option Inr (win_wait_loop api h (word_of_int timeoutMs) os))"

definition win_release :: "('h, 'o) win_sem_api \<Rightarrow> 'h \<Rightarrow> 'o \<Rightarrow> bool \<times> 'o" where
  "win_release api h os = ReleaseSemaphore api h os"

partial_function (option) win_try_lock :: "('h, 'o) win_sem_api \<Rightarrow> 'h \<Rightarrow> 'o \<Rightarrow> (bool \<times> 'o) result option" where
  "win_try_lock api h os =
     Option.bind (WaitSemaphore api h (Some 0) os) (\<lambda>(result, os').
       if result = W_TIMEOUT then Some (Inr (False, os'))
       else if result = W_FAILED then Some (Inl (sem_error ''try_lock'' ''Unable to lock the semaphore''))
       else if result \<noteq> W_OBJECT_0 then win_try_lock api h os'
       else Some (Inr (True, os')))"

section \<open>The POSIX semaphore is Lockable\<close>

text \<open>
  The documented behaviour of a POSIX semaphore, \<open>val\<close> being its value: a successful wait
  decrements it, a failing or interrupted one leaves it, a successful post increments it.
\<close>

locale counting_semaphore =
  fixes api :: "('h, 'o) sem_api" and h :: "'h option" and val :: "'o \<Rightarrow> nat"
  assumes wait_ok: "sem_wait api h os = Some (0, e, os') \<Longrightarrow> val os = Suc (val os')"
    and wait_fail: "sem_wait api h os = Some (r, e, os') \<Longrightarrow> r \<noteq> 0 \<Longrightarrow> r = - 1 \<and> val os' = val os"
    and trywait_ok: "sem_trywait api h os = (0, e, os') \<Longrightarrow> val os = Suc (val os')"
    and trywait_fail: "sem_trywait api h os = (r, e, os') \<Longrightarrow> r \<noteq> 0 \<Longrightarrow> val os' = val os"
    and post_ok: "sem_post api h os = (0, os') \<Longrightarrow> val os' = Suc (val os)"
begin

lemma wait_loop_takes:
  assumes "sem_wait_loop api h os = Some y"
  shows "val os = (if fst y = 0 then Suc (val (snd y)) else val (snd y))"
proof -
  let ?P = "\<lambda>a k os y. a = api \<and> k = h \<longrightarrow> val os = (if fst y = 0 then Suc (val (snd y)) else val (snd y))"
  have "?P api h os y"
  proof (rule sem_wait_loop.raw_induct [where P = ?P, OF _ assms], rule impI, elim conjE)
    fix loop a k os y
    assume IH: "\<And>a k os y. loop a k os = Some y \<Longrightarrow> ?P a k os y"
      and eq: "Option.bind (sem_wait a k os) (\<lambda>(result, errno, os').
        if result = - 1 \<and> errno = EINTR then loop a k os' else Some (result, os')) = Some y"
      and same: "a = api" "k = h"
    obtain r e os1 where w: "sem_wait api h os = Some (r, e, os1)"
      and y: "(if r = - 1 \<and> e = EINTR then loop api h os1 else Some (r, os1)) = Some y"
      using eq same by (auto simp: bind_eq_Some_conv)
    show "val os = (if fst y = 0 then Suc (val (snd y)) else val (snd y))"
    proof (cases "r = - 1 \<and> e = EINTR")
      case True
      then have "loop api h os1 = Some y" using y by auto
      then have "val os1 = (if fst y = 0 then Suc (val (snd y)) else val (snd y))"
        using IH by blast
      moreover have "val os1 = val os"
        using wait_fail [OF w] True by linarith
      ultimately show ?thesis by simp
    next
      case False
      then have y1: "y = (r, os1)" using y by auto
      show ?thesis
      proof (cases "r = 0")
        case True
        then show ?thesis using y1 w wait_ok by simp
      next
        case False
        then show ?thesis using y1 wait_fail [OF w] by simp
      qed
    qed
  qed
  then show ?thesis by simp
qed

lemma try_lock_takes:
  assumes "posix_try_lock api s os = Some (Inr y)" "handle s = h"
  shows "val os = (if fst y then Suc (val (snd y)) else val (snd y))"
proof -
  let ?P = "\<lambda>a t os (z :: (bool \<times> 'o) result). a = api \<and> t = s \<longrightarrow>
    (\<forall>y. z = Inr y \<longrightarrow> val os = (if fst y then Suc (val (snd y)) else val (snd y)))"
  have "?P api s os (Inr y)"
  proof (rule posix_try_lock.raw_induct [where P = ?P, OF _ assms(1)], rule impI, elim conjE)
    fix loop a t os z
    assume IH: "\<And>a t os z. loop a t os = Some z \<Longrightarrow> ?P a t os z"
      and eq: "(case sem_trywait a (handle t) os of (result, errno, os') \<Rightarrow>
        if result = 0 then Some (Inr (True, os'))
        else if errno = EINTR then loop a t os'
        else if errno = EAGAIN then Some (Inr (False, os'))
        else Some (Inl (sem_error ''try_lock'' ''Unable to unlock the semaphore''))) = Some z"
      and same: "a = api" "t = s"
    obtain r e os1 where w: "sem_trywait api h os = (r, e, os1)"
      by (cases "sem_trywait api h os") auto
    show "\<forall>y. z = Inr y \<longrightarrow> val os = (if fst y then Suc (val (snd y)) else val (snd y))"
    proof (cases "r \<noteq> 0 \<and> e = EINTR")
      case True
      then show ?thesis
        using IH [of api s os1 z] eq same w assms(2) trywait_fail [OF w] by simp
    next
      case False
      then show ?thesis
        using eq same w assms(2) trywait_ok [of os e os1] trywait_fail [OF w] by (auto split: if_splits)
    qed
  qed
  then show ?thesis by simp
qed

end

text \<open>The three operations of \<^verbatim>\<open>InterprocessSemaphore\<close> that make it Lockable.\<close>

definition posix_lock_ops :: "('h, 'o) sem_api \<Rightarrow> 'h posix_semaphore \<Rightarrow> 'o lock_ops" where
  "posix_lock_ops api s =
     \<lparr>theLock_lock = sem_lock (posix_acquire api s),
      theLock_unlock = sem_unlock (posix_release api s),
      theLock_try_lock = posix_try_lock api s\<rparr>"

sublocale counting_semaphore \<subseteq> sem: lockable
    "posix_lock_ops api \<lparr>handle = h, posixName = name, unlinkOnDestruction = u\<rparr>" val for name u
proof (unfold_locales, goal_cases)
  case (1 l l')
  then obtain r where "sem_wait_loop api h l = Some (r, l')" "r = 0"
    by (auto simp: posix_lock_ops_def sem_lock_def posix_acquire_def split: if_splits)
  then show ?case
    using wait_loop_takes by fastforce
next
  case (2 l l')
  then show ?case
    by (auto simp: posix_lock_ops_def sem_unlock_def posix_release_def split: prod.splits if_splits dest: post_ok)
next
  case (3 l b l')
  then show ?case
    using try_lock_takes [of _ l "(b, l')"] by (auto simp: posix_lock_ops_def)
qed

text \<open>A semaphore that is nothing but its value and a script of interruptions.\<close>

definition plain_sem :: "(unit, nat \<times> bool list) sem_api" where
  "plain_sem =
     \<lparr>sem_open_new = (\<lambda>_ v os. (Some (), 0, (unat v, snd os))),
      sem_open_old = (\<lambda>_ os. (Some (), 0, os)),
      sem_close = (\<lambda>_ os. os), sem_unlink = (\<lambda>_ os. os),
      sem_wait = (\<lambda>_ (v, i). case i of True # i' \<Rightarrow> Some (- 1, EINTR, (v, i'))
        | _ \<Rightarrow> if v = 0 then None else Some (0, 0, (v - 1, i))),
      sem_timedwait = (\<lambda>_ _ (v, i). Some (if v = 0 then (- 1, ETIMEDOUT_errno, (v, i)) else (0, 0, (v - 1, i)))),
      sem_trywait = (\<lambda>_ (v, i). if v = 0 then (- 1, EAGAIN, (v, i)) else (0, 0, (v - 1, i))),
      sem_post = (\<lambda>_ (v, i). (0, (v + 1, i))),
      clock_gettime = (\<lambda>_. Some \<lparr>tv_sec = 0, tv_nsec = 0\<rparr>)\<rparr>"

interpretation plain: counting_semaphore plain_sem "Some ()" fst
  by unfold_locales (auto simp: plain_sem_def split: list.splits bool.splits if_splits)

context counting_semaphore
begin

lemma semaphore_lockable: "handle s = h \<Longrightarrow> lockable (posix_lock_ops api s) val"
  using sem.lockable_axioms [of "posixName s" "unlinkOnDestruction s"]
  by (cases s) (simp add: posix_semaphore.defs)

end

section \<open>Properties\<close>

text \<open>C23: a \<open>MultiLock\<close> over the semaphore holds at most one unit of it. Whatever sequence of
  \<open>lock\<close>, \<open>unlock\<close> and \<open>try_lock\<close> is called (calls that throw or fail included, interrupted
  system calls retried), the semaphore's value plus one if the counter is positive is the
  value the semaphore had: nested locks take it once, and the last unlock gives it back.\<close>

theorem MultiLock_over_semaphore:
  assumes os: "\<And>os e os'. sem_wait api h os = Some (0, e, os') \<Longrightarrow> val os = Suc (val os')"
      "\<And>os r e os'. sem_wait api h os = Some (r, e, os') \<Longrightarrow> r \<noteq> 0 \<Longrightarrow> r = - 1 \<and> val os' = val os"
      "\<And>os e os'. sem_trywait api h os = (0, e, os') \<Longrightarrow> val os = Suc (val os')"
      "\<And>os r e os'. sem_trywait api h os = (r, e, os') \<Longrightarrow> r \<noteq> 0 \<Longrightarrow> val os' = val os"
      "\<And>os os'. sem_post api h os = (0, os') \<Longrightarrow> val os' = Suc (val os)"
    and "handle s = h"
    and "MultiLock_calls (posix_lock_ops api s) cs (MultiLock_new os0) = Some m"
  shows "val (theLock m) + (if counter m = 0 then 0 else 1) = val os0"
proof -
  have "counting_semaphore api h val"
    using os by unfold_locales auto
  then have "lockable (posix_lock_ops api s) val"
    using assms(6) by (rule counting_semaphore.semaphore_lockable)
  then show ?thesis
    using assms(7) by (rule lockable.MultiLock_owns_at_most_one)
qed

theorem MultiLock_over_semaphore_witness:
  "\<exists>m. MultiLock_calls (posix_lock_ops plain_sem \<lparr>handle = Some (), posixName = ''/s'', unlinkOnDestruction = True\<rparr>)
       [Try_lock, Lock, Lock, Unlock] (MultiLock_new (1, [True])) = Some m \<and>
     counter m = 2 \<and> fst (theLock m) = 0"
proof -
  let ?s = "\<lparr>handle = Some (), posixName = ''/s'', unlinkOnDestruction = True\<rparr>"
  have "posix_try_lock plain_sem ?s (1, [True]) = Some (Inr (True, (0, [True])))"
    by (subst posix_try_lock.simps) (simp add: plain_sem_def)
  then obtain m where m: "MultiLock_calls (posix_lock_ops plain_sem ?s) [Try_lock, Lock, Lock, Unlock]
      (MultiLock_new (1, [True])) = Some m" and c: "counter m = 2"
    by (auto simp: MultiLock_new_def MultiLock_call_def MultiLock_try_lock_def MultiLock_lock_def
        MultiLock_unlock_def posix_lock_ops_def)
  have "fst (theLock m) + (if counter m = 0 then 0 else 1) = fst (1 :: nat, [True])"
    by (rule MultiLock_over_semaphore [where h = "Some ()", OF _ _ _ _ _ _ m])
      (auto simp: plain_sem_def split: list.splits bool.splits if_splits)
  then show ?thesis
    using m c by auto
qed

text \<open>\<open>acquire\<close> retries as long as signal handlers interrupt it and then reports what the
  system said: after any number \<open>k\<close> of interruptions, it returns true exactly when the
  first uninterrupted \<^verbatim>\<open>sem_wait\<close> succeeded.\<close>

theorem posix_acquire_retries:
  assumes "\<And>i. i < k \<Longrightarrow> sem_wait api (handle s) (st i) = Some (- 1, EINTR, st (Suc i))"
    and "sem_wait api (handle s) (st k) = Some (r, e, os')" "r \<noteq> - 1 \<or> e \<noteq> EINTR"
  shows "posix_acquire api s (st 0) = Some (r = 0, os')"
proof -
  have "sem_wait_loop api (handle s) (st i) = Some (r, os')" if "i \<le> k" for i
    using that
  proof (induction rule: inc_induct)
    case base
    then show ?case
      using assms(2,3) by (subst sem_wait_loop.simps) auto
  next
    case (step i)
    then show ?case
      using assms(1) [of i] by (subst sem_wait_loop.simps) auto
  qed
  then show ?thesis
    by (simp add: posix_acquire_def)
qed

theorem posix_acquire_retries_witness:
  "posix_acquire plain_sem \<lparr>handle = Some (), posixName = ''/s'', unlinkOnDestruction = True\<rparr> (3, [True, True])
     = Some (True, (2, []))"
proof -
  let ?s = "\<lparr>handle = Some (), posixName = ''/s'', unlinkOnDestruction = True\<rparr>"
  let ?st = "\<lambda>i. (3 :: nat, drop i [True, True])"
  have "sem_wait plain_sem (handle ?s) (?st i) = Some (- 1, EINTR, ?st (Suc i))" if "i < 2" for i
    using that by (auto simp: plain_sem_def less_2_cases_iff)
  moreover have "sem_wait plain_sem (handle ?s) (?st 2) = Some (0, 0, (2, []))"
    by (simp add: plain_sem_def)
  ultimately show ?thesis
    using posix_acquire_retries [of 2 plain_sem ?s ?st 0 0 "(2, [])"] by simp
qed

text \<open>the deadline of \<open>acquireWithTimeout\<close> is right: for a non-negative time-out whose
  nanoseconds fit in a \<^verbatim>\<open>long long\<close>, the absolute time is the current time plus the
  time-out, with its nanosecond field normalised.\<close>

theorem add_ms_deadline:
  assumes "0 \<le> tv_nsec now" "tv_nsec now < 1000000000" "0 \<le> timeout"
    and "tv_nsec now + timeout * 1000000 < 2 ^ 63"
  shows "\<exists>d. add_ms now timeout = Inr d \<and> 0 \<le> tv_nsec d \<and> tv_nsec d < 1000000000 \<and>
    tv_sec d * 1000000000 + tv_nsec d = tv_sec now * 1000000000 + tv_nsec now + timeout * 1000000"
proof -
  define n where "n = tv_nsec now + timeout * 1000000"
  have n: "0 \<le> n" using assms by (simp add: n_def)
  have "n sdiv 1000000000 = n div 1000000000" "n smod 1000000000 = n mod 1000000000"
    using n by (simp_all add: signed_divide_int_def signed_modulo_int_def sgn_if minus_mult_div_eq_mod
        flip: minus_div_mult_eq_mod)
  moreover have "in_range INT64 (timeout * 1000000)" "in_range INT64 n"
    using assms n by (simp_all add: in_range_def INT64_def min_of_def max_of_def n_def)
  ultimately have "add_ms now timeout = Inr \<lparr>tv_sec = tv_sec now + n div 1000000000, tv_nsec = n mod 1000000000\<rparr>"
    by (simp add: add_ms_def n_def Let_def)
  then show ?thesis
    using n by (simp add: n_def distrib_right)
qed

theorem add_ms_deadline_witness:
  "\<exists>d. add_ms \<lparr>tv_sec = 5, tv_nsec = 999999999\<rparr> 2500 = Inr d \<and>
     tv_sec d * 1000000000 + tv_nsec d = 8499999999"
  using add_ms_deadline [of "\<lparr>tv_sec = 5, tv_nsec = 999999999\<rparr>" 2500] by auto

text \<open>when \<^verbatim>\<open>sem_open\<close> fails for a reason other than \<^verbatim>\<open>EEXIST\<close> or \<^verbatim>\<open>EINVAL\<close> (no permission,
  too many open files), the constructor does not throw: it yields an object whose handle
  is \<^verbatim>\<open>SEM_FAILED\<close>.\<close>

theorem semaphore_constructor_ignores_errors:
  assumes "name \<noteq> []" "maxConcurrency \<noteq> 0" "uint maxConcurrency < 2 ^ 32"
    and "sem_open_new api (''/'' @ name) (word_of_int (uint maxConcurrency)) os = (None, e, os')"
    and "e \<noteq> EEXIST" "e \<noteq> EINVAL"
  shows "posix_InterprocessSemaphore api name maxConcurrency os =
    Inr (\<lparr>handle = None, posixName = ''/'' @ name, unlinkOnDestruction = True\<rparr>, os')"
proof -
  have "safeNumericCast UNSIGNED_INT SIZE_T (uint maxConcurrency) = Inr (uint maxConcurrency)"
    using assms(3) by (simp add: safeNumericCast_def UNSIGNED_INT_def SIZE_T_def UINT64_def max_of_def static_cast_def)
  then show ?thesis
    using assms by (simp add: posix_InterprocessSemaphore_def Let_def)
qed

theorem semaphore_constructor_ignores_errors_witness:
  "posix_InterprocessSemaphore (plain_sem\<lparr>sem_open_new := \<lambda>_ _ os. (None, 13, os)\<rparr>) ''s'' 1 (0, [])
     = Inr (\<lparr>handle = None, posixName = ''/s'', unlinkOnDestruction = True\<rparr>, (0, []))"
  using semaphore_constructor_ignores_errors
    [of "''s''" 1 "plain_sem\<lparr>sem_open_new := \<lambda>_ _ os. (None, 13, os)\<rparr>" "(0, [])" 13 "(0, [])"]
  by (simp add: EEXIST_def EINVAL_def)

end
