(* ===== verification/SPSCQueue.thy ===== *)
theory SPSCQueue
  imports ByteRing_Fifo
begin

text \<open>
  The in-process queue \<^verbatim>\<open>src/headers/concurrency/SPSCQueue.h\<close> and
  \<^verbatim>\<open>src/src/concurrency/SPSCQueue.cpp\<close>: the same ring as \<^verbatim>\<open>ByteRing\<close>, with a byte-wise loop
  and a modulo in place of the two-part copy. Its calls are modelled as seen by the
  calling thread: a wait for space or data that is not there is the value \<open>None\<close>, as is a
  loop that never ends.
\<close>

record SPSCQueue =
  q_head :: ipc_size_t
  q_tail :: ipc_size_t
  q_capacity :: size_t
  q_buffer :: "byte_t list"

text \<open>The constructor sets the indices and the capacity; the vector stays empty.\<close>

definition SPSCQueue_new :: "size_t \<Rightarrow> SPSCQueue" where
  "SPSCQueue_new cap = \<lparr>q_head = 0, q_tail = 0, q_capacity = cap, q_buffer = []\<rparr>"

definition spsc_size :: "SPSCQueue \<Rightarrow> size_t" where
  "spsc_size q =
     (let h = q_head q; t = q_tail q in if h \<ge> t then h - t else q_capacity q - (t - h))"

definition spsc_freeSpace :: "SPSCQueue \<Rightarrow> size_t" where
  "spsc_freeSpace q = q_capacity q - spsc_size q - 1"

text \<open>The copying loops of \<open>push\<close> and \<open>pop\<close>, from iteration \<open>i\<close> on.\<close>

definition slot :: "size_t \<Rightarrow> ipc_size_t \<Rightarrow> nat \<Rightarrow> nat result" where
  "slot cap base i =
     (if cap = 0 then Inl (Undefined_behaviour ''modulo by zero'')
      else Inr (unat ((base + of_nat i) mod cap)))"

fun write_loop :: "byte_t list \<Rightarrow> size_t \<Rightarrow> ipc_size_t \<Rightarrow> nat \<Rightarrow> byte_t list \<Rightarrow> byte_t list result" where
  "write_loop buf cap h i [] = Inr buf"
| "write_loop buf cap h i (x # xs) =
     bind_result (slot cap h i) (\<lambda>k.
     bind_result (vec_set buf k x) (\<lambda>buf'. write_loop buf' cap h (Suc i) xs))"

fun read_loop :: "byte_t list \<Rightarrow> size_t \<Rightarrow> ipc_size_t \<Rightarrow> nat \<Rightarrow> nat \<Rightarrow> byte_t list result" where
  "read_loop buf cap t i 0 = Inr []"
| "read_loop buf cap t i (Suc n) =
     bind_result (slot cap t i) (\<lambda>k.
     bind_result (vec_get buf k) (\<lambda>x.
     bind_result (read_loop buf cap t (Suc i) n) (\<lambda>xs. Inr (x # xs))))"

definition push_chunk :: "SPSCQueue \<Rightarrow> byte_t list \<Rightarrow> SPSCQueue result" where
  "push_chunk q chunk =
     bind_result (write_loop (q_buffer q) (q_capacity q) (q_head q) 0 chunk) (\<lambda>buf.
       Inr (q\<lparr>q_buffer := buf, q_head := (q_head q + of_nat (length chunk)) mod q_capacity q\<rparr>))"

definition pop_chunk :: "SPSCQueue \<Rightarrow> size_t \<Rightarrow> (byte_t list \<times> SPSCQueue) result" where
  "pop_chunk q n =
     bind_result (read_loop (q_buffer q) (q_capacity q) (q_tail q) 0 (unat n)) (\<lambda>xs.
       Inr (xs, q\<lparr>q_tail := (q_tail q + n) mod q_capacity q\<rparr>))"

partial_function (option) SPSC_push :: "SPSCQueue \<Rightarrow> byte_t list \<Rightarrow> size_t \<Rightarrow> SPSCQueue result option" where
  "SPSC_push q ptr dataSize =
     (if dataSize = 0 then Some (Inr q)
      else
        let n = chunkSize (q_capacity q) dataSize in
        if spsc_freeSpace q < n then None
        else case push_chunk q (take (unat n) ptr) of
          Inl e \<Rightarrow> Some (Inl e)
        | Inr q' \<Rightarrow> SPSC_push q' (drop (unat n) ptr) (dataSize - n))"

partial_function (option) SPSC_pop ::
    "SPSCQueue \<Rightarrow> byte_t list \<Rightarrow> size_t \<Rightarrow> (byte_t list \<times> SPSCQueue) result option" where
  "SPSC_pop q out dataSize =
     (if dataSize = 0 then Some (Inr (out, q))
      else
        let n = chunkSize (q_capacity q) dataSize in
        if spsc_size q < n then None
        else case pop_chunk q n of
          Inl e \<Rightarrow> Some (Inl e)
        | Inr (xs, q') \<Rightarrow> SPSC_pop q' (out @ xs) (dataSize - n))"

text \<open>
  The timed wait looks at the size three times: at once, after consuming a stale signal,
  and after at most one timed wait. \<open>s0\<close>, \<open>s1\<close>, \<open>s2\<close> are what it sees.
\<close>

definition waitElemPresent_timed :: "size_t \<Rightarrow> size_t \<Rightarrow> size_t \<Rightarrow> size_t \<Rightarrow> bool" where
  "waitElemPresent_timed dataSize s0 s1 s2 =
     (if s0 \<ge> dataSize then True else if s1 \<ge> dataSize then True else s2 \<ge> dataSize)"

definition SPSC_pop_timed ::
    "SPSCQueue \<Rightarrow> size_t \<Rightarrow> bool \<Rightarrow> (byte_t list option \<times> SPSCQueue) result" where
  "SPSC_pop_timed q dataSize present =
     (if dataSize > q_capacity q - 1 then Inr (None, q)
      else if \<not> present then Inr (None, q)
      else bind_result (pop_chunk q dataSize) (\<lambda>(xs, q'). Inr (Some xs, q')))"

text \<open>The \<^verbatim>\<open>IDataExchanger\<close> interface on top of it.\<close>

definition spsc_send :: "SPSCQueue \<Rightarrow> byte_t list \<Rightarrow> (size_t \<times> SPSCQueue) result option" where
  "spsc_send q d =
     map_option (map_sum id (\<lambda>q'. (of_nat (length d), q'))) (SPSC_push q d (of_nat (length d)))"

definition spsc_receive :: "SPSCQueue \<Rightarrow> size_t \<Rightarrow> (size_t \<times> byte_t list \<times> SPSCQueue) result option" where
  "spsc_receive q n = map_option (map_sum id (\<lambda>(xs, q'). (n, xs, q'))) (SPSC_pop q [] n)"

section \<open>Correctness with a buffer of the capacity's size\<close>

definition spsc_wf :: "SPSCQueue \<Rightarrow> bool" where
  "spsc_wf q \<longleftrightarrow> 2 \<le> unat (q_capacity q) \<and> unat (q_capacity q) \<le> 2 ^ 63 \<and> q_head q < q_capacity q \<and>
     q_tail q < q_capacity q \<and> length (q_buffer q) = unat (q_capacity q)"

definition spsc_contents :: "SPSCQueue \<Rightarrow> byte_t list" where
  "spsc_contents q = ring_contents (unat (q_capacity q)) (unat (q_head q)) (unat (q_tail q)) (q_buffer q)"

lemma spsc_size_eq: "spsc_size q = circularBufferSize (q_capacity q) (q_head q) (q_tail q)"
  by (simp add: spsc_size_def circularBufferSize_def Let_def)

lemma spsc_freeSpace_eq: "spsc_freeSpace q = circularBufferFreeSpace (q_capacity q) (q_head q) (q_tail q)"
  by (simp add: spsc_freeSpace_def spsc_size_def circularBufferFreeSpace_def Let_def)

lemma slot_nat:
  assumes "unat cap \<le> 2 ^ 63" "base < cap" "i < unat cap"
  shows "slot cap base i = Inr ((unat base + i) mod unat cap)"
proof -
  have "unat (of_nat i :: size_t) = i"
    using assms(1,3) by (intro unat_of_nat_size) simp
  then have "unat (base + of_nat i) = unat base + i"
    using assms by (subst unat_plus_lt) (simp_all add: word_less_nat_alt)
  moreover have "cap \<noteq> 0"
    using assms(3) by auto
  ultimately show ?thesis
    by (simp add: slot_def unat_mod_distrib)
qed

text \<open>The loop writes the slots after the head and nothing else.\<close>

lemma write_loop_spec:
  assumes "unat cap \<le> 2 ^ 63" "h < cap" "length buf = unat cap" "i + length xs < unat cap"
  shows "\<exists>b. write_loop buf cap h i xs = Inr b \<and> length b = unat cap \<and>
    (\<forall>j < length xs. b ! ((unat h + (i + j)) mod unat cap) = xs ! j) \<and>
    (\<forall>k < unat cap. (\<forall>j < length xs. k \<noteq> (unat h + (i + j)) mod unat cap) \<longrightarrow> b ! k = buf ! k)"
  using assms
proof (induction xs arbitrary: buf i)
  case (Cons x xs)
  let ?c = "unat cap" and ?k = "(unat h + i) mod unat cap"
  have k: "?k < ?c" using Cons.prems by simp
  have sl: "slot cap h i = Inr ?k"
    using Cons.prems by (intro slot_nat) auto
  obtain b where b: "write_loop (buf[?k := x]) cap h (Suc i) xs = Inr b" "length b = ?c"
    "\<And>j. j < length xs \<Longrightarrow> b ! ((unat h + (Suc i + j)) mod ?c) = xs ! j"
    "\<And>k. k < ?c \<Longrightarrow> \<forall>j < length xs. k \<noteq> (unat h + (Suc i + j)) mod ?c \<Longrightarrow> b ! k = buf[?k := x] ! k"
    using Cons.IH [of "buf[?k := x]" "Suc i"] Cons.prems by auto
  have other: "?k \<noteq> (unat h + (Suc i + j)) mod ?c" if "j < length xs" for j
    using that Cons.prems add_mod_lt [of "unat h" ?c i] add_mod_lt [of "unat h" ?c "Suc i + j"]
    by (auto simp: word_less_nat_alt)
  have "b ! ((unat h + (i + j)) mod ?c) = (x # xs) ! j" if "j < length (x # xs)" for j
  proof (cases j)
    case 0
    then show ?thesis
      using b(4) [OF k] other k Cons.prems by simp
  next
    case (Suc j')
    then show ?thesis using b(3) [of j'] that by simp
  qed
  moreover have "b ! m = buf ! m" if "m < ?c" "\<forall>j < length (x # xs). m \<noteq> (unat h + (i + j)) mod ?c" for m
  proof -
    have "m \<noteq> ?k" using that(2) by (auto dest: spec [of _ 0])
    moreover have "\<forall>j < length xs. m \<noteq> (unat h + (Suc i + j)) mod ?c"
      using that(2) by (auto dest: spec [of _ "Suc _"])
    ultimately show ?thesis
      using b(4) [OF that(1)] by simp
  qed
  moreover have "write_loop buf cap h i (x # xs) = Inr b"
    using sl k Cons.prems b(1) by simp
  ultimately show ?case
    using b(2) by blast
qed auto

lemma read_loop_spec:
  assumes "unat cap \<le> 2 ^ 63" "t < cap" "length buf = unat cap" "i + n \<le> unat cap"
  shows "read_loop buf cap t i n = Inr (map (\<lambda>j. buf ! ((unat t + (i + j)) mod unat cap)) [0..<n])"
  using assms
proof (induction n arbitrary: i)
  case (Suc n)
  have "slot cap t i = Inr ((unat t + i) mod unat cap)"
    using Suc.prems by (intro slot_nat) auto
  moreover have "(unat t + i) mod unat cap < length buf"
    using Suc.prems by simp
  moreover have "[0..<Suc n] = 0 # map Suc [0..<n]"
    by (simp add: upt_conv_Cons map_Suc_upt)
  ultimately show ?case
    using Suc.IH [of "Suc i"] Suc.prems by (simp add: comp_def)
qed simp

lemma mod_index:
  fixes cap i n :: size_t
  assumes "unat cap \<le> 2 ^ 63" "i < cap" "n < cap"
  shows "(i + n) mod cap < cap" "unat ((i + n) mod cap) = (unat i + unat n) mod unat cap"
proof -
  have "unat (i + n) = unat i + unat n"
    using assms by (subst unat_plus_lt) (auto simp: word_less_nat_alt)
  then show eq: "unat ((i + n) mod cap) = (unat i + unat n) mod unat cap"
    by (simp add: unat_mod_distrib)
  have "0 < unat cap"
    using assms(2) by (simp add: word_less_nat_alt)
  then show "(i + n) mod cap < cap"
    by (simp add: word_less_nat_alt eq)
qed

lemma chunk_word:
  assumes "spsc_wf q" "length chunk < unat (q_capacity q)"
  shows "unat (of_nat (length chunk) :: size_t) = length chunk" "of_nat (length chunk) < q_capacity q"
proof -
  show "unat (of_nat (length chunk) :: size_t) = length chunk"
    using assms by (intro unat_of_nat_size) (simp add: spsc_wf_def)
  then show "of_nat (length chunk) < q_capacity q"
    using assms(2) by (simp add: word_less_nat_alt)
qed

lemma spsc_dist:
  assumes "spsc_wf q"
  shows "unat (spsc_size q) = length (spsc_contents q)" "length (spsc_contents q) < unat (q_capacity q)"
    "unat (spsc_freeSpace q) = unat (q_capacity q) - 1 - length (spsc_contents q)"
  using assms
  by (simp_all add: spsc_wf_def spsc_contents_def spsc_size_eq spsc_freeSpace_eq unat_circularBufferSize
      unat_circularBufferFreeSpace ring_dist_lt word_less_nat_alt)

lemma spsc_bounds:
  assumes "spsc_wf q"
  shows "unat (q_head q) < unat (q_capacity q)" "unat (q_tail q) < unat (q_capacity q)" "unat (q_capacity q) \<le> 2 ^ 63"
    "length (q_buffer q) = unat (q_capacity q)"
  using assms by (simp_all add: spsc_wf_def word_less_nat_alt)

lemma push_chunk_appends:
  assumes wf: "spsc_wf q" and fit: "length chunk + length (spsc_contents q) < unat (q_capacity q)"
  obtains q' where "push_chunk q chunk = Inr q'" "spsc_wf q'" "spsc_contents q' = spsc_contents q @ chunk"
proof -
  let ?c = "unat (q_capacity q)" and ?h = "unat (q_head q)" and ?t = "unat (q_tail q)"
  note bnd = spsc_bounds [OF wf]
  have len: "length chunk < ?c" "length chunk + ring_dist ?c ?h ?t < ?c"
    using fit by (simp_all add: spsc_contents_def)
  note cw = chunk_word [OF wf len(1)]
  have hd: "q_head q < q_capacity q"
    using bnd(1) by (simp add: word_less_nat_alt)
  then obtain b where b: "write_loop (q_buffer q) (q_capacity q) (q_head q) 0 chunk = Inr b" "length b = ?c"
    "\<And>j. j < length chunk \<Longrightarrow> b ! ((?h + j) mod ?c) = chunk ! j"
    "\<And>k. k < ?c \<Longrightarrow> \<forall>j < length chunk. k \<noteq> (?h + j) mod ?c \<Longrightarrow> b ! k = q_buffer q ! k"
    using write_loop_spec [OF bnd(3) hd bnd(4), of 0 chunk] len(1) by auto
  define q' where "q' = q\<lparr>q_buffer := b, q_head := (q_head q + of_nat (length chunk)) mod q_capacity q\<rparr>"
  note mi = mod_index [OF bnd(3) hd cw(2)]
  have same: "ring_contents ?c ?h ?t b = spsc_contents q"
    unfolding spsc_contents_def
    using ring_slots_disjoint [OF bnd(1,2) len(2)] b(4) bnd(2) by (intro ring_contents_cong) auto
  have "push_chunk q chunk = Inr q'"
    using b(1) by (simp add: push_chunk_def q'_def)
  moreover have "spsc_wf q'"
    using wf b(2) mi(1) by (simp add: spsc_wf_def q'_def)
  moreover have "spsc_contents q' = spsc_contents q @ chunk"
    using ring_contents_push [OF bnd(1,2) len(2) b(3)] same mi(2) cw(1) by (simp add: spsc_contents_def q'_def)
  ultimately show thesis
    using that by blast
qed

lemma pop_chunk_removes:
  assumes wf: "spsc_wf q" and n: "unat n \<le> length (spsc_contents q)"
  obtains q' where "pop_chunk q n = Inr (take (unat n) (spsc_contents q), q')" "spsc_wf q'"
    "spsc_contents q' = drop (unat n) (spsc_contents q)"
proof -
  let ?c = "unat (q_capacity q)" and ?h = "unat (q_head q)" and ?t = "unat (q_tail q)"
  note bnd = spsc_bounds [OF wf]
  have n': "unat n \<le> ring_dist ?c ?h ?t" "unat n < ?c"
    using n spsc_dist(2) [OF wf] by (simp_all add: spsc_contents_def)
  define q' where "q' = q\<lparr>q_tail := (q_tail q + n) mod q_capacity q\<rparr>"
  have "q_tail q < q_capacity q" "n < q_capacity q"
    using bnd(2) n'(2) by (simp_all add: word_less_nat_alt)
  note mi = mod_index [OF bnd(3) this]
  have "read_loop (q_buffer q) (q_capacity q) (q_tail q) 0 (unat n) = Inr (take (unat n) (spsc_contents q))"
    using read_loop_spec [OF bnd(3) \<open>q_tail q < q_capacity q\<close> bnd(4), of 0 "unat n"] n'
    by (simp add: spsc_contents_def ring_contents_def take_map min_def)
  then have "pop_chunk q n = Inr (take (unat n) (spsc_contents q), q')"
    by (simp add: pop_chunk_def q'_def)
  moreover have "spsc_wf q'"
    using wf mi(1) by (simp add: spsc_wf_def q'_def)
  moreover have "spsc_contents q' = drop (unat n) (spsc_contents q)"
    using ring_contents_pop [OF bnd(1,2) n'(1)] mi(2) by (simp add: spsc_contents_def q'_def)
  ultimately show thesis
    using that by blast
qed

text \<open>Whole calls of at most one chunk.\<close>

lemma chunk_capacity:
  "push_chunk q chunk = Inr q' \<Longrightarrow> q_capacity q' = q_capacity q"
  "pop_chunk q n = Inr (xs, q') \<Longrightarrow> q_capacity q' = q_capacity q"
  by (auto simp: push_chunk_def pop_chunk_def bind_result_def split: sum.splits)

lemma chunkSize_small:
  assumes "spsc_wf q" "unat n < unat (q_capacity q)"
  shows "chunkSize (q_capacity q) n = n"
  using assms by (simp add: word_unat_eq_iff unat_chunkSize spsc_wf_def)

lemma SPSC_push_fits:
  assumes wf: "spsc_wf q" and fit: "length d + length (spsc_contents q) < unat (q_capacity q)"
  obtains q' where "SPSC_push q d (of_nat (length d)) = Some (Inr q')" "spsc_wf q'"
    "spsc_contents q' = spsc_contents q @ d" "q_capacity q' = q_capacity q"
proof (cases "d = []")
  case True
  then show thesis
    using that wf by (auto simp: SPSC_push.simps)
next
  case False
  have n: "unat (of_nat (length d) :: size_t) = length d"
    using fit by (intro chunk_word(1) [OF wf]) simp
  have ck: "chunkSize (q_capacity q) (of_nat (length d)) = of_nat (length d)"
    using fit n by (intro chunkSize_small [OF wf]) simp
  have "\<not> spsc_freeSpace q < of_nat (length d)"
    using spsc_dist(3) [OF wf] fit n by (simp add: word_less_nat_alt)
  moreover have "(of_nat (length d) :: size_t) \<noteq> 0"
    using n False by (metis length_0_conv unat_0)
  moreover obtain q' where "push_chunk q d = Inr q'" "spsc_wf q'" "spsc_contents q' = spsc_contents q @ d"
    using push_chunk_appends [OF wf fit] .
  ultimately show thesis
    using that [of q'] ck n chunk_capacity(1) by (simp add: SPSC_push.simps)
qed

lemma SPSC_pop_there:
  assumes wf: "spsc_wf q" and n: "unat n \<le> length (spsc_contents q)"
  obtains q' where "SPSC_pop q [] n = Some (Inr (take (unat n) (spsc_contents q), q'))" "spsc_wf q'"
    "spsc_contents q' = drop (unat n) (spsc_contents q)" "q_capacity q' = q_capacity q"
proof (cases "n = 0")
  case True
  then show thesis
    using that wf by (auto simp: SPSC_pop.simps)
next
  case False
  have ck: "chunkSize (q_capacity q) n = n"
    using n spsc_dist(2) [OF wf] by (intro chunkSize_small [OF wf]) simp
  have "\<not> spsc_size q < n"
    using spsc_dist(1) [OF wf] n by (simp add: word_less_nat_alt)
  moreover obtain q' where "pop_chunk q n = Inr (take (unat n) (spsc_contents q), q')" "spsc_wf q'"
    "spsc_contents q' = drop (unat n) (spsc_contents q)"
    using pop_chunk_removes [OF wf n] .
  ultimately show thesis
    using that [of q'] ck False chunk_capacity(2) by (simp add: SPSC_pop.simps)
qed

text \<open>A buffer is determined by the bytes written into a stretch of the ring and those it
  had elsewhere.\<close>

lemma ring_write_unique:
  assumes "length b = c" "length b' = c"
    and "\<And>j. j < n \<Longrightarrow> b ! ((h + j) mod c) = b' ! ((h + j) mod c)"
    and "\<And>k. k < c \<Longrightarrow> \<forall>j < n. k \<noteq> (h + j) mod c \<Longrightarrow> b ! k = b' ! k"
  shows "b = b'"
proof (rule nth_equalityI)
  show "b ! k = b' ! k" if "k < length b" for k
    using assms that by (cases "\<exists>j < n. k = (h + j) mod c") auto
qed (use assms in simp)

text \<open>one round of \<open>push\<close> and one round of \<open>pop\<close> on a queue whose buffer has the size of its
  capacity. Pushing what fits appends it, popping what is there removes and returns the
  front, neither goes outside the buffer, and both keep the queue well formed.\<close>

theorem SPSCQueue_fifo:
  assumes wf: "spsc_wf q"
  shows "(length chunk + length (spsc_contents q) < unat (q_capacity q) \<longrightarrow>
      (\<exists>q'. push_chunk q chunk = Inr q' \<and> spsc_wf q' \<and> spsc_contents q' = spsc_contents q @ chunk))
    \<and> (unat n \<le> length (spsc_contents q) \<longrightarrow>
      (\<exists>q'. pop_chunk q n = Inr (take (unat n) (spsc_contents q), q') \<and> spsc_wf q' \<and>
        spsc_contents q' = drop (unat n) (spsc_contents q)))"
  using push_chunk_appends [OF wf, of chunk] pop_chunk_removes [OF wf, of n] by (metis)

lemma SPSCQueue_fifo_example: "spsc_wf \<lparr>q_head = 2, q_tail = 1, q_capacity = 4, q_buffer = [0, 7, 0, 0]\<rparr>"
  by (simp add: spsc_wf_def)

theorem SPSCQueue_fifo_witness:
  "\<exists>q'. push_chunk \<lparr>q_head = 2, q_tail = 1, q_capacity = 4, q_buffer = [0, 7, 0, 0]\<rparr> [8, 9] = Inr q' \<and>
     spsc_contents q' = [7, 8, 9]"
proof -
  let ?q = "\<lparr>q_head = 2, q_tail = 1, q_capacity = 4, q_buffer = [0, 7, 0, 0]\<rparr>"
  have "spsc_contents ?q = [7]"
    by code_simp
  then show ?thesis
    using SPSCQueue_fifo [OF SPSCQueue_fifo_example, of "[8, 9]" 0] by auto
qed

lemma push_chunk_two_parts:
  assumes wf: "spsc_wf q" and len: "off + unat n \<le> length data" "n < q_capacity q"
  shows "push_chunk q (take (unat n) (drop off data)) =
    bind_result (memcpy (q_buffer q) (unat (q_head q)) data off (unat (firstPart (q_capacity q) (q_head q) n))) (\<lambda>b.
    bind_result (if firstPart (q_capacity q) (q_head q) n \<noteq> n
        then memcpy b 0 data (off + unat (firstPart (q_capacity q) (q_head q) n)) (unat (n - firstPart (q_capacity q) (q_head q) n))
        else Inr b) (\<lambda>b'.
    Inr (q\<lparr>q_buffer := b', q_head := nextIndex (q_capacity q) (q_head q) n\<rparr>)))"
proof -
  let ?c = "unat (q_capacity q)" and ?h = "unat (q_head q)" and ?n = "unat n"
  have bnd: "?h < ?c" "?n < ?c" "?c \<le> 2 ^ 63" "length (q_buffer q) = ?c" "q_head q < q_capacity q"
    using wf len(2) by (simp_all add: spsc_wf_def word_less_nat_alt)
  define f where "f = min ?n (?c - ?h)"
  have f: "unat (firstPart (q_capacity q) (q_head q) n) = f" "f \<le> ?n" "?h + f \<le> ?c"
    using bnd(1) by (simp_all add: unat_firstPart [OF bnd(5)] f_def)
  have fn: "firstPart (q_capacity q) (q_head q) n \<noteq> n \<longleftrightarrow> f \<noteq> ?n"
    "unat (n - firstPart (q_capacity q) (q_head q) n) = ?n - f"
    using f by (auto simp: word_unat_eq_iff unat_minus_le)
  define b1 where "b1 = blit (q_buffer q) ?h (take f (drop off data))"
  define b2 where "b2 = (if f = ?n then b1 else blit b1 0 (take (?n - f) (drop (off + f) data)))"
  note w1 = ring_write_first [OF bnd(1,2,4) len(1), folded f_def, folded b1_def]
  note w2 = ring_write_rest [OF bnd(1,2) w1(1) len(1), folded f_def, OF w1(2), simplified, folded b2_def]
  have c1: "memcpy (q_buffer q) ?h data off f = Inr b1"
    using f bnd len(1) unfolding b1_def by (intro memcpy_ok) auto
  have c2: "(if f \<noteq> ?n then memcpy b1 0 data (off + f) (?n - f) else Inr b1) = Inr b2"
    using f bnd len(1) w1(1) by (auto simp: b2_def intro!: memcpy_ok)
  define chunk where "chunk = take ?n (drop off data)"
  have chunk: "length chunk = ?n" "\<And>j. j < ?n \<Longrightarrow> chunk ! j = data ! (off + j)"
    using len(1) by (simp_all add: chunk_def)
  obtain b where b: "write_loop (q_buffer q) (q_capacity q) (q_head q) 0 chunk = Inr b" "length b = ?c"
    "\<And>j. j < ?n \<Longrightarrow> b ! ((?h + j) mod ?c) = data ! (off + j)"
    "\<And>k. k < ?c \<Longrightarrow> \<forall>j < ?n. k \<noteq> (?h + j) mod ?c \<Longrightarrow> b ! k = q_buffer q ! k"
    using write_loop_spec [OF bnd(3,5,4), of 0 chunk] bnd(2) chunk by auto
  have "b ! k = b2 ! k" if "k < ?c" "\<forall>j < ?n. k \<noteq> (?h + j) mod ?c" for k
    using b(4) w1(3) w2(3) that by simp
  then have "b = b2"
    using b(2,3) w2(1,2) by (intro ring_write_unique [of b ?c b2 ?n ?h]) auto
  moreover have "(q_head q + of_nat (length chunk)) mod q_capacity q = nextIndex (q_capacity q) (q_head q) n"
    using mod_index(2) [OF bnd(3,5) len(2)] unat_nextIndex [OF bnd(5) len(2) bnd(3)] chunk(1)
    by (simp add: word_unat_eq_iff)
  ultimately show ?thesis
    using b(1) c1 c2 unfolding chunk_def [symmetric] push_chunk_def f(1) fn by simp
qed



section \<open>What the constructor leaves out\<close>

lemma push_as_constructed:
  assumes "2 \<le> cap" "0 < n"
  shows "SPSC_push (SPSCQueue_new cap) (x # xs) n =
    Some (Inl (Undefined_behaviour ''operator[]: index out of bounds''))"
proof -
  define k where "k = chunkSize cap n"
  have cap2: "2 \<le> unat cap" using assms(1) by (simp add: word_le_nat_alt)
  have k: "unat k = min (unat n) (unat cap - 1)"
    using cap2 by (simp add: k_def unat_chunkSize)
  then have k0: "0 < unat k"
    using assms(2) cap2 by (auto simp: word_less_nat_alt)
  have "unat (cap - 1) = unat cap - 1"
    using cap2 by (simp add: unat_minus_le)
  then have room: "\<not> spsc_freeSpace (SPSCQueue_new cap) < k"
    using k by (simp add: spsc_freeSpace_def spsc_size_def SPSCQueue_new_def word_less_nat_alt)
  obtain m where "unat k = Suc m"
    using k0 by (cases "unat k") auto
  then have "push_chunk (SPSCQueue_new cap) (take (unat k) (x # xs)) =
      Inl (Undefined_behaviour ''operator[]: index out of bounds'')"
    using cap2 by (auto simp: push_chunk_def SPSCQueue_new_def slot_def vec_set_def)
  then show ?thesis
    using room assms(2) by (subst SPSC_push.simps) (simp add: Let_def k_def SPSCQueue_new_def)
qed

text \<open>the constructor never gives the vector a size, so on a queue as constructed, with
  any capacity of at least 2, the first \<open>push\<close> of a non-empty message writes outside the
  buffer.\<close>

theorem SPSCQueue_push_out_of_bounds:
  assumes "2 \<le> cap" "0 < n"
  shows "SPSC_push (SPSCQueue_new cap) (x # xs) n =
    Some (Inl (Undefined_behaviour ''operator[]: index out of bounds''))"
  using assms by (rule push_as_constructed)

theorem SPSCQueue_push_out_of_bounds_witness:
  "SPSC_push (SPSCQueue_new 1024) [1] 1 =
     Some (Inl (Undefined_behaviour ''operator[]: index out of bounds''))"
  by (rule SPSCQueue_push_out_of_bounds) simp_all

text \<open>a capacity of 1 is accepted, but then every chunk has size 0 and \<open>push\<close> of a
  non-empty message never returns.\<close>

theorem SPSCQueue_capacity_1_never_returns:
  assumes "n \<noteq> 0"
  shows "SPSC_push (SPSCQueue_new 1) xs n = None"
proof (rule ccontr)
  let ?P = "\<lambda>q (xs :: byte_t list) m y. \<not> (q = SPSCQueue_new 1 \<and> m \<noteq> 0)"
  assume "SPSC_push (SPSCQueue_new 1) xs n \<noteq> None"
  then obtain y where y: "SPSC_push (SPSCQueue_new 1) xs n = Some y" by auto
  have "?P (SPSCQueue_new 1) xs n y"
  proof (rule SPSC_push.raw_induct [where P = ?P, OF _ y], rule notI, elim conjE)
    fix push q xs m y
    assume IH: "\<And>q xs m y. push q xs m = Some y \<Longrightarrow> ?P q xs m y"
      and eq: "(if m = 0 then Some (Inr q)
        else let n = chunkSize (q_capacity q) m in
          if spsc_freeSpace q < n then None
          else case push_chunk q (take (unat n) xs) of Inl e \<Rightarrow> Some (Inl e)
            | Inr q' \<Rightarrow> push q' (drop (unat n) xs) (m - n)) = Some y"
      and q: "q = SPSCQueue_new 1" "m \<noteq> 0"
    have "chunkSize 1 m = 0"
      by (simp add: chunkSize_def)
    moreover have "push_chunk (SPSCQueue_new 1) [] = Inr (SPSCQueue_new 1)"
      by (simp add: push_chunk_def SPSCQueue_new_def)
    ultimately have "push (SPSCQueue_new 1) xs m = Some y"
      using eq q by (simp add: Let_def SPSCQueue_new_def split: if_splits)
    then show False
      using IH q(2) by blast
  qed
  then show False
    using assms by simp
qed

theorem SPSCQueue_capacity_1_never_returns_witness: "SPSC_push (SPSCQueue_new 1) [5] 1 = None"
  by (rule SPSCQueue_capacity_1_never_returns) simp

end
