(* ===== verification/SPSCQueue_Threads.thy ===== *)
theory SPSCQueue_Threads
  imports Signal InterprocessQueue SPSCQueue
begin

text \<open>
  \<^verbatim>\<open>src/src/concurrency/SPSCQueue.cpp\<close> with its two threads: \<open>push\<close> and \<open>pop\<close> step by step, with the
  waiting loops \<open>waitFreeSpace\<close> and \<open>waitElemPresent\<close> over the two signals of the queue. A step is one look at the indices, one
  call on a signal, one copying loop (over slots that the other thread does not touch) or one store of an index.
  The threads are shown to be a refinement of the interprocess ring, whose theorems so hold
  for the in-process queue too, provided its buffer has the size of its capacity.
\<close>

section \<open>The threads\<close>

datatype spsc_pc =
    At_idle
  | At_loop
  | At_check size_t
  | At_wait size_t
  | At_sleep size_t
  | At_copy size_t
  | At_store size_t
  | At_signal size_t
  | At_fault

record push_thread =
  pu_pc :: spsc_pc
  pu_data :: "byte_t list"
  pu_off :: nat
  pu_left :: size_t
  pu_todo :: "byte_t list list"

record pop_thread =
  po_pc :: spsc_pc
  po_out :: "byte_t list"
  po_off :: nat
  po_left :: size_t
  po_todo :: "size_t list"
  po_done :: "byte_t list list"

record 'w spsc_sys =
  sq :: SPSCQueue
  pusher :: push_thread
  popper :: pop_thread
  signals :: 'w

text \<open>What the two waiting loops do with what they see.\<close>

definition waitFreeSpace :: "SPSCQueue \<Rightarrow> size_t \<Rightarrow> spsc_pc" where
  "waitFreeSpace q n = (if spsc_freeSpace q < n then At_wait n else At_copy n)"

definition waitElemPresent :: "SPSCQueue \<Rightarrow> size_t \<Rightarrow> spsc_pc" where
  "waitElemPresent q n = (if spsc_size q < n then At_wait n else At_copy n)"

definition push_step :: "'w wait_policy \<Rightarrow> 'w spsc_sys \<Rightarrow> 'w spsc_sys option" where
  "push_step pol s =
     (let p = pusher s; q = sq s in
      case pu_pc p of
        At_idle \<Rightarrow>
          (case pu_todo p of
             [] \<Rightarrow> None
           | d # ds \<Rightarrow> Some (s\<lparr>pusher := p\<lparr>pu_pc := At_loop, pu_data := d, pu_off := 0,
                pu_left := of_nat (length d), pu_todo := ds\<rparr>\<rparr>))
      | At_loop \<Rightarrow>
          if pu_left p = 0 then Some (s\<lparr>pusher := p\<lparr>pu_pc := At_idle, pu_data := [], pu_off := 0\<rparr>\<rparr>)
          else Some (s\<lparr>pusher := p\<lparr>pu_pc := At_check (chunkSize (q_capacity q) (pu_left p))\<rparr>\<rparr>)
      | At_check n \<Rightarrow> Some (s\<lparr>pusher := p\<lparr>pu_pc := waitFreeSpace q n\<rparr>\<rparr>)
      | At_wait n \<Rightarrow> Some (s\<lparr>pusher := p\<lparr>pu_pc := At_sleep n\<rparr>, signals := enterDataFree pol (signals s)\<rparr>)
      | At_sleep n \<Rightarrow>
          (case leaveDataFree pol (signals s) of
             None \<Rightarrow> None
           | Some w \<Rightarrow> Some (s\<lparr>pusher := p\<lparr>pu_pc := At_check n\<rparr>, signals := w\<rparr>))
      | At_copy n \<Rightarrow>
          (case bind_result (memcpy_from (pu_data p) (pu_off p) (unat n)) (write_loop (q_buffer q) (q_capacity q) (q_head q) 0) of
             Inl _ \<Rightarrow> Some (s\<lparr>pusher := p\<lparr>pu_pc := At_fault\<rparr>\<rparr>)
           | Inr b \<Rightarrow> Some (s\<lparr>sq := q\<lparr>q_buffer := b\<rparr>, pusher := p\<lparr>pu_pc := At_store n\<rparr>\<rparr>))
      | At_store n \<Rightarrow>
          Some (s\<lparr>sq := q\<lparr>q_head := (q_head q + n) mod q_capacity q\<rparr>, pusher := p\<lparr>pu_pc := At_signal n\<rparr>\<rparr>)
      | At_signal n \<Rightarrow>
          Some (s\<lparr>pusher := p\<lparr>pu_pc := At_loop, pu_left := pu_left p - n, pu_off := pu_off p + unat n\<rparr>,
                 signals := signalDataPresent pol (signals s)\<rparr>)
      | At_fault \<Rightarrow> None)"

definition pop_step :: "'w wait_policy \<Rightarrow> 'w spsc_sys \<Rightarrow> 'w spsc_sys option" where
  "pop_step pol s =
     (let c = popper s; q = sq s in
      case po_pc c of
        At_idle \<Rightarrow>
          (case po_todo c of
             [] \<Rightarrow> None
           | k # ks \<Rightarrow> Some (s\<lparr>popper := c\<lparr>po_pc := At_loop, po_out := replicate (unat k) 0, po_off := 0,
                po_left := k, po_todo := ks\<rparr>\<rparr>))
      | At_loop \<Rightarrow>
          if po_left c = 0 then
            Some (s\<lparr>popper := c\<lparr>po_pc := At_idle, po_done := po_done c @ [po_out c], po_out := [], po_off := 0\<rparr>\<rparr>)
          else Some (s\<lparr>popper := c\<lparr>po_pc := At_check (chunkSize (q_capacity q) (po_left c))\<rparr>\<rparr>)
      | At_check n \<Rightarrow> Some (s\<lparr>popper := c\<lparr>po_pc := waitElemPresent q n\<rparr>\<rparr>)
      | At_wait n \<Rightarrow> Some (s\<lparr>popper := c\<lparr>po_pc := At_sleep n\<rparr>, signals := enterDataPresent pol (signals s)\<rparr>)
      | At_sleep n \<Rightarrow>
          (case leaveDataPresent pol (signals s) of
             None \<Rightarrow> None
           | Some w \<Rightarrow> Some (s\<lparr>popper := c\<lparr>po_pc := At_check n\<rparr>, signals := w\<rparr>))
      | At_copy n \<Rightarrow>
          (case bind_result (read_loop (q_buffer q) (q_capacity q) (q_tail q) 0 (unat n)) (memcpy_to (po_out c) (po_off c)) of
             Inl _ \<Rightarrow> Some (s\<lparr>popper := c\<lparr>po_pc := At_fault\<rparr>\<rparr>)
           | Inr b \<Rightarrow> Some (s\<lparr>popper := c\<lparr>po_out := b, po_pc := At_store n\<rparr>\<rparr>))
      | At_store n \<Rightarrow>
          Some (s\<lparr>sq := q\<lparr>q_tail := (q_tail q + n) mod q_capacity q\<rparr>, popper := c\<lparr>po_pc := At_signal n\<rparr>\<rparr>)
      | At_signal n \<Rightarrow>
          Some (s\<lparr>popper := c\<lparr>po_pc := At_loop, po_left := po_left c - n, po_off := po_off c + unat n\<rparr>,
                 signals := signalDataFree pol (signals s)\<rparr>)
      | At_fault \<Rightarrow> None)"

definition spsc_step :: "'w wait_policy \<Rightarrow> side \<Rightarrow> 'w spsc_sys \<Rightarrow> 'w spsc_sys option" where
  "spsc_step pol i s = (case i of Producer \<Rightarrow> push_step pol s | Consumer \<Rightarrow> pop_step pol s)"

inductive spsc_reach :: "'w wait_policy \<Rightarrow> 'w spsc_sys \<Rightarrow> 'w spsc_sys \<Rightarrow> bool" for pol s0 where
  spsc_init: "spsc_reach pol s0 s0"
| spsc_next: "spsc_reach pol s0 s \<Longrightarrow> spsc_step pol i s = Some s' \<Longrightarrow> spsc_reach pol s0 s'"

definition spsc_start :: "SPSCQueue \<Rightarrow> byte_t list list \<Rightarrow> size_t list \<Rightarrow> 'w \<Rightarrow> 'w spsc_sys" where
  "spsc_start q msgs wants w =
     \<lparr>sq = q, pusher = \<lparr>pu_pc = At_idle, pu_data = [], pu_off = 0, pu_left = 0, pu_todo = msgs\<rparr>,
      popper = \<lparr>po_pc = At_idle, po_out = [], po_off = 0, po_left = 0, po_todo = wants, po_done = []\<rparr>, signals = w\<rparr>"

definition spsc_finished :: "'w spsc_sys \<Rightarrow> bool" where
  "spsc_finished s \<longleftrightarrow> pu_pc (pusher s) = At_idle \<and> pu_todo (pusher s) = [] \<and> po_pc (popper s) = At_idle \<and> po_todo (popper s) = []"

text \<open>The signals are two objects of class \<^verbatim>\<open>Signal\<close>: sticky, and consumed by a wait.\<close>

definition SPSC_signals :: "(uint32 \<times> uint32) wait_policy" where
  "SPSC_signals = IntPrQueueLockPolicy Signal_ops"

definition SPSC_signals_new :: "uint32 \<times> uint32" where
  "SPSC_signals_new = (0, 0)"

interpretation spsc: sticky_policy SPSC_signals "\<lambda>(p, f). p = 1" "\<lambda>(p, f). f = 1"
  unfolding SPSC_signals_def by (rule sticky_signal.policy_is_sticky [OF sig.sticky_signal_axioms])

section \<open>The ring they refine\<close>

text \<open>
  A state of the ring matches a state of the queue when they agree on everything but where the threads
  look at the other side's index: the ring may already know from its snapshot what the queue's
  thread is about to find out.
\<close>

fun at_match :: "spsc_pc \<Rightarrow> side_pc \<Rightarrow> bool" where
  "at_match At_idle c \<longleftrightarrow> c = Idle"
| "at_match At_loop c \<longleftrightarrow> c = Loop"
| "at_match (At_check n) c \<longleftrightarrow> c = Reload n \<or> c = Copy n"
| "at_match (At_wait n) c \<longleftrightarrow> c = side_pc.Wait n"
| "at_match (At_sleep n) c \<longleftrightarrow> c = Sleep n"
| "at_match (At_copy n) c \<longleftrightarrow> c = Copy n"
| "at_match (At_store n) c \<longleftrightarrow> c = Publish n"
| "at_match (At_signal n) c \<longleftrightarrow> c = Notify n"
| "at_match At_fault c \<longleftrightarrow> False"

definition queue_of :: "'w sys \<Rightarrow> SPSCQueue" where
  "queue_of r = \<lparr>q_head = head (mem r), q_tail = tail (mem r), q_capacity = capacity (p_ring (prodr r)), q_buffer = buffer (mem r)\<rparr>"

definition matches :: "'w sys \<Rightarrow> 'w spsc_sys \<Rightarrow> bool" where
  "matches r s \<longleftrightarrow> sq s = queue_of r \<and> signals s = wst r \<and> capacity (c_ring (consr r)) = capacity (p_ring (prodr r)) \<and>
     at_match (pu_pc (pusher s)) (p_pc (prodr r)) \<and> at_match (po_pc (popper s)) (c_pc (consr r)) \<and>
     pu_data (pusher s) = p_data (prodr r) \<and> pu_off (pusher s) = p_off (prodr r) \<and> pu_left (pusher s) = p_left (prodr r) \<and>
     pu_todo (pusher s) = p_todo (prodr r) \<and>
     po_out (popper s) = c_out (consr r) \<and> po_off (popper s) = c_off (consr r) \<and> po_left (popper s) = c_left (consr r) \<and>
     po_todo (popper s) = c_todo (consr r) \<and> po_done (popper s) = c_done (consr r)"

section \<open>The copies and the indices agree\<close>

lemma queue_of_simps [simp]:
  "q_head (queue_of r) = head (mem r)" "q_tail (queue_of r) = tail (mem r)" "q_capacity (queue_of r) = capacity (p_ring (prodr r))"
  "q_buffer (queue_of r) = buffer (mem r)"
  by (simp_all add: queue_of_def)

lemma queue_of_wf: "ring_inv bs r \<Longrightarrow> spsc_wf (queue_of r)"
  using ring_invD(1) [of bs r] by (simp add: spsc_wf_def mem_ok_def state_defs word_less_nat_alt)

lemma queue_of_contents: "spsc_contents (queue_of r) = contents r"
  by (simp add: spsc_contents_def contents_def state_defs)

lemma copying_steps:
  "p_pc (prodr r) \<in> {Copy n, Copy_rest n} \<Longrightarrow> \<exists>r1. producer_step pol r = Some r1"
  "c_pc (consr r) \<in> {Copy n, Copy_rest n} \<Longrightarrow> \<exists>r1. consumer_step pol r = Some r1"
  by (auto simp: producer_step_def consumer_step_def Let_def split: sum.split)

lemma push_copies:
  assumes inv: "ring_inv bs r" and pc: "p_pc (prodr r) = Copy n"
  obtains b where "run pol [Producer, Producer] r = Some (r\<lparr>mem := (mem r)\<lparr>buffer := b\<rparr>, prodr := (prodr r)\<lparr>p_pc := Publish n\<rparr>\<rparr>)"
    "bind_result (memcpy_from (p_data (prodr r)) (p_off (prodr r)) (unat n))
       (write_loop (buffer (mem r)) (capacity (p_ring (prodr r))) (head (mem r)) 0) = Inr b"
proof -
  let ?p = "prodr r" and ?m = "mem r" and ?cap = "capacity (p_ring (prodr r))"
  let ?f = "firstPart ?cap (head ?m) n"
  note facts = producer_copying_facts [OF inv, of n, unfolded pc, simplified]
  obtain r1 where st1: "producer_step pol r = Some r1"
    using copying_steps(1) [of r n] pc by auto
  have "p_pc (prodr r1) \<noteq> Fault"
    using ring_invD(2) [OF producer_step_inv [OF inv st1]] by (auto simp: prod_ok_def Let_def)
  then obtain b1 where b1: "memcpy (buffer ?m) (unat (head ?m)) (p_data ?p) (p_off ?p) (unat ?f) = Inr b1"
    and r1: "r1 = r\<lparr>mem := ?m\<lparr>buffer := b1\<rparr>, prodr := ?p\<lparr>p_pc := Copy_rest n\<rparr>\<rparr>"
    using st1 pc by (auto simp: producer_step_def Let_def split: sum.splits)
  obtain r2 where st2: "producer_step pol r1 = Some r2"
    using copying_steps(1) [of r1 n] r1 by auto
  have "p_pc (prodr r2) \<noteq> Fault"
    using ring_invD(2) [OF producer_step_inv [OF producer_step_inv [OF inv st1] st2]] by (auto simp: prod_ok_def Let_def)
  then obtain b where b: "(if ?f \<noteq> n then memcpy b1 0 (p_data ?p) (p_off ?p + unat ?f) (unat (n - ?f)) else Inr b1) = Inr b"
    and r2: "r2 = r\<lparr>mem := ?m\<lparr>buffer := b\<rparr>, prodr := ?p\<lparr>p_pc := Publish n\<rparr>\<rparr>"
    using st2 r1 by (auto simp: producer_step_def Let_def split: sum.splits if_splits)
  have "n < ?cap"
    using facts(3) by (simp add: word_less_nat_alt state_defs)
  then have "push_chunk (queue_of r) (take (unat n) (drop (p_off ?p) (p_data ?p))) =
      Inr ((queue_of r)\<lparr>q_buffer := b, q_head := nextIndex ?cap (head ?m) n\<rparr>)"
    using push_chunk_two_parts [OF queue_of_wf [OF inv] facts(5)] b1 b by (simp split: if_splits)
  then have "write_loop (buffer ?m) ?cap (head ?m) 0 (take (unat n) (drop (p_off ?p) (p_data ?p))) = Inr b"
    by (auto simp: push_chunk_def queue_of_def bind_result_def split: sum.splits)
  then show thesis
    using that [of b] st1 st2 r2 facts(5) by (simp add: side_step_def memcpy_from_ok)
qed

lemma two_part_pop:
  fixes r :: "'w sys"
  defines "c \<equiv> consr r" and "m \<equiv> mem r" and "f \<equiv> firstPart (capacity (c_ring (consr r))) (tail (mem r))"
  assumes inv: "ring_inv bs r" and pc: "c_pc (consr r) = Copy n"
    and b1: "memcpy (c_out c) (c_off c) (buffer m) (unat (tail m)) (unat (f n)) = Inr b1"
    and b: "(if f n \<noteq> n then memcpy b1 (c_off c + unat (f n)) (buffer m) 0 (unat (n - f n)) else Inr b1) = Inr b"
  shows "b = blit (c_out c) (c_off c) (take (unat n) (contents r))"
proof -
  define k where "k = min (unat n) (cap_of r - tail_of r)"
  note facts = consumer_copying_facts [OF inv, of n, unfolded pc, simplified]
  have fk: "unat (f n) = k" "unat (n - f n) = unat n - k" "f n = n \<longleftrightarrow> k = unat n"
    using facts(6) by (simp_all add: f_def k_def unat_minus_le word_unat_eq_iff)
  have t: "unat (tail m) = tail_of r" "length (buffer m) = cap_of r" "c_off c + unat n \<le> length (c_out c)"
    using facts(4,5) by (simp_all add: m_def c_def state_defs)
  have b1': "b1 = blit (c_out c) (c_off c) (take k (drop (tail_of r) (buffer m)))"
    using b1 fk(1) t by (simp add: memcpy_def memcpy_from_def memcpy_to_def split: if_splits)
  note cont = take_ring_contents [OF facts(2,7,4,3), folded contents_def]
  show ?thesis
  proof (cases "k = unat n")
    case True
    then have "unat n \<le> cap_of r - tail_of r"
      by (simp add: k_def)
    then show ?thesis
      using b b1' fk(3) True cont(1) by (simp add: m_def)
  next
    case False
    then have big: "\<not> unat n \<le> cap_of r - tail_of r" "k = cap_of r - tail_of r" "k \<le> unat n"
      by (auto simp: k_def)
    have "length (take k (drop (tail_of r) (buffer m))) = k" "length (take (unat n - k) (buffer m)) = unat n - k"
      using t(2) big(2) facts(2,3) by auto
    moreover have "b = blit b1 (c_off c + k) (take (unat n - k) (buffer m))"
      using b fk False t(2) facts(3) by (simp add: memcpy_def memcpy_from_def memcpy_to_def split: if_splits)
    ultimately show ?thesis
      using blit_append [of "c_off c" "take k (drop (tail_of r) (buffer m))" "take (unat n - k) (buffer m)" "c_out c"]
        b1' cont(2) [OF big(1)] t(3) big(2,3) by (simp add: m_def)
  qed
qed

lemma pop_copies:
  assumes inv: "ring_inv bs r" and pc: "c_pc (consr r) = Copy n"
  obtains b where "run pol [Consumer, Consumer] r = Some (r\<lparr>consr := (consr r)\<lparr>c_out := b, c_pc := Publish n\<rparr>\<rparr>)"
    "bind_result (read_loop (buffer (mem r)) (capacity (p_ring (prodr r))) (tail (mem r)) 0 (unat n))
       (memcpy_to (c_out (consr r)) (c_off (consr r))) = Inr b"
proof -
  let ?c = "consr r" and ?m = "mem r" and ?cap = "capacity (c_ring (consr r))"
  let ?f = "firstPart ?cap (tail ?m) n"
  note facts = consumer_copying_facts [OF inv, of n, unfolded pc, simplified]
  obtain r1 where st1: "consumer_step pol r = Some r1"
    using copying_steps(2) [of r n] pc by auto
  have "c_pc (consr r1) \<noteq> Fault"
    using ring_invD(3) [OF consumer_step_inv [OF inv st1]] by (auto simp: cons_ok_def Let_def)
  then obtain b1 where b1: "memcpy (c_out ?c) (c_off ?c) (buffer ?m) (unat (tail ?m)) (unat ?f) = Inr b1"
    and r1: "r1 = r\<lparr>consr := ?c\<lparr>c_out := b1, c_pc := Copy_rest n\<rparr>\<rparr>"
    using st1 pc by (auto simp: consumer_step_def Let_def split: sum.splits)
  obtain r2 where st2: "consumer_step pol r1 = Some r2"
    using copying_steps(2) [of r1 n] r1 by auto
  have "c_pc (consr r2) \<noteq> Fault"
    using ring_invD(3) [OF consumer_step_inv [OF consumer_step_inv [OF inv st1] st2]] by (auto simp: cons_ok_def Let_def)
  then obtain b where b: "(if ?f \<noteq> n then memcpy b1 (c_off ?c + unat ?f) (buffer ?m) 0 (unat (n - ?f)) else Inr b1) = Inr b"
    and r2: "r2 = r\<lparr>consr := ?c\<lparr>c_out := b, c_pc := Publish n\<rparr>\<rparr>"
    using st2 r1 by (auto simp: consumer_step_def Let_def split: sum.splits if_splits)
  have "b = blit (c_out ?c) (c_off ?c) (take (unat n) (contents r))"
    using two_part_pop [OF inv pc b1 b] .
  moreover have "read_loop (buffer ?m) (capacity (p_ring (prodr r))) (tail ?m) 0 (unat n) = Inr (take (unat n) (contents r))"
  proof -
    have len: "unat n \<le> length (spsc_contents (queue_of r))"
      using facts(7) by (simp add: queue_of_contents length_contents)
    obtain q' where "pop_chunk (queue_of r) n = Inr (take (unat n) (spsc_contents (queue_of r)), q')"
      by (rule pop_chunk_removes [OF queue_of_wf [OF inv] len])
    then show ?thesis
      by (auto simp: pop_chunk_def bind_result_def queue_of_contents split: sum.splits)
  qed
  ultimately show thesis
    using that [of b] st1 st2 r2 facts(5) by (simp add: side_step_def memcpy_to_def)
qed

lemma store_index:
  assumes "spsc_wf q" "n < q_capacity q" "i < q_capacity q"
  shows "(i + n) mod q_capacity q = nextIndex (q_capacity q) i n"
  using mod_index(2) [OF spsc_bounds(3) [OF assms(1)] assms(3,2)] unat_nextIndex [OF assms(3,2) spsc_bounds(3) [OF assms(1)]]
  by (simp add: word_unat_eq_iff)

text \<open>Looking at the indices answers what the ring finds after reloading its snapshot.\<close>

lemma seen_afresh:
  "spsc_freeSpace (queue_of r) = freeSpaceSeen ((p_ring (prodr r))\<lparr>cachedTail := tail (mem r)\<rparr>) (mem r)"
  "capacity (c_ring (consr r)) = capacity (p_ring (prodr r)) \<Longrightarrow>
     spsc_size (queue_of r) = sizeSeen ((c_ring (consr r))\<lparr>cachedHead := head (mem r)\<rparr>) (mem r)"
  by (simp_all add: spsc_freeSpace_eq spsc_size_eq freeSpaceSeen_def sizeSeen_def)

text \<open>Where the ring copies on the strength of its snapshot, the queue finds enough, too.\<close>

lemma seen_enough:
  assumes inv: "ring_inv bs r"
  shows "p_pc (prodr r) = Copy n \<Longrightarrow> waitFreeSpace (queue_of r) n = At_copy n"
    "c_pc (consr r) = Copy n \<Longrightarrow> waitElemPresent (queue_of r) n = At_copy n"
proof -
  note dist = spsc_dist [OF queue_of_wf [OF inv], unfolded queue_of_contents queue_of_simps]
  show "waitFreeSpace (queue_of r) n = At_copy n" if pc: "p_pc (prodr r) = Copy n"
  proof -
    have "unat n + length (contents r) < unat (capacity (p_ring (prodr r)))"
      using fits_actual [OF ring_invD(1) [OF inv], of n] producer_copying_facts(1) [OF inv, of n] pc
      by (simp add: length_contents state_defs)
    then show ?thesis
      using dist(3) by (simp add: waitFreeSpace_def word_less_nat_alt)
  qed
  show "waitElemPresent (queue_of r) n = At_copy n" if "c_pc (consr r) = Copy n"
    using holds_actual [OF ring_invD(1) [OF inv], of n] consumer_copying_facts(1) [OF inv, of n] that dist(1)
    by (simp add: waitElemPresent_def word_less_nat_alt)
qed

lemma publish_bounds:
  assumes inv: "ring_inv bs r"
  shows "p_pc (prodr r) = Publish n \<Longrightarrow> n < capacity (p_ring (prodr r)) \<and> head (mem r) < capacity (p_ring (prodr r))"
    "c_pc (consr r) = Publish n \<Longrightarrow> n < capacity (p_ring (prodr r)) \<and> tail (mem r) < capacity (p_ring (prodr r))"
  using ring_invD(1-3) [OF inv] chunk_ok_bounds(2) [of _ _ n]
  by (auto simp: mem_ok_def prod_ok_def cons_ok_def Let_def state_defs word_less_nat_alt)

section \<open>Simulation\<close>

lemma push_plain:
  assumes "matches r s" "push_step pol s = Some s'"
    and "case pu_pc (pusher s) of At_check _ \<Rightarrow> False | At_copy _ \<Rightarrow> False | At_store _ \<Rightarrow> False | _ \<Rightarrow> True"
  shows "case producer_step pol r of None \<Rightarrow> False | Some r' \<Rightarrow> matches r' s'"
proof (cases "pu_pc (pusher s)")
  case At_idle
  then show ?thesis
    using assms by (auto simp: matches_def push_step_def producer_step_def Let_def queue_of_def split: list.splits)
next
  case (At_sleep n)
  then show ?thesis
    using assms by (auto simp: matches_def push_step_def producer_step_def Let_def queue_of_def split: option.splits)
qed (use assms in \<open>auto simp: matches_def push_step_def producer_step_def Let_def queue_of_def\<close>)

lemma push_simulates:
  assumes inv: "ring_inv bs r" and m: "matches r s" and st: "push_step pol s = Some s'"
  shows "\<exists>k r'. run pol (replicate k Producer) r = Some r' \<and> matches r' s' \<and> k \<le> 2 \<and>
    (k = 0 \<longrightarrow> (\<exists>n. pu_pc (pusher s) = At_check n \<and> pu_pc (pusher s') = At_copy n)) \<and> (k = 2 \<longrightarrow> (\<exists>n. pu_pc (pusher s) = At_copy n))"
proof -
  have one: ?thesis if "case producer_step pol r of None \<Rightarrow> False | Some r' \<Rightarrow> matches r' s'"
    using that by (intro exI [of _ 1]) (auto simp: side_step_def split: option.splits)
  show ?thesis
  proof (cases "pu_pc (pusher s)")
    case (At_check n)
    show ?thesis
    proof (cases "p_pc (prodr r) = Copy n")
      case True
      then show ?thesis
        using m st At_check seen_enough(1) [OF inv True]
        by (intro exI [of _ 0] exI [of _ r]) (auto simp: matches_def push_step_def)
    next
      case False
      then show ?thesis
        using m st At_check
        by (intro one) (auto simp: matches_def push_step_def producer_step_def Let_def waitFreeSpace_def seen_afresh [unfolded queue_of_def] queue_of_def)
    qed
  next
    case (At_copy n)
    then have pc: "p_pc (prodr r) = Copy n"
      using m by (simp add: matches_def)
    obtain b where b: "run pol [Producer, Producer] r = Some (r\<lparr>mem := (mem r)\<lparr>buffer := b\<rparr>, prodr := (prodr r)\<lparr>p_pc := Publish n\<rparr>\<rparr>)"
      "bind_result (memcpy_from (p_data (prodr r)) (p_off (prodr r)) (unat n))
        (write_loop (buffer (mem r)) (capacity (p_ring (prodr r))) (head (mem r)) 0) = Inr b"
      by (rule push_copies [OF inv pc])
    then show ?thesis
      using m st At_copy by (intro exI [of _ 2] exI) (auto simp: matches_def push_step_def numeral_eq_Suc queue_of_def)
  next
    case (At_store n)
    then have pc: "p_pc (prodr r) = Publish n"
      using m by (simp add: matches_def)
    then have "n < capacity (p_ring (prodr r))" "head (mem r) < capacity (p_ring (prodr r))"
      using publish_bounds(1) [OF inv] by simp_all
    then show ?thesis
      using m st At_store pc store_index [OF queue_of_wf [OF inv]]
      by (intro one) (auto simp: matches_def push_step_def producer_step_def Let_def queue_of_def)
  qed (rule one [OF push_plain [OF m st]], simp)+
qed

lemma pop_plain:
  assumes "matches r s" "pop_step pol s = Some s'"
    and "case po_pc (popper s) of At_check _ \<Rightarrow> False | At_copy _ \<Rightarrow> False | At_store _ \<Rightarrow> False | _ \<Rightarrow> True"
  shows "case consumer_step pol r of None \<Rightarrow> False | Some r' \<Rightarrow> matches r' s'"
proof (cases "po_pc (popper s)")
  case At_idle
  then show ?thesis
    using assms by (auto simp: matches_def pop_step_def consumer_step_def Let_def queue_of_def split: list.splits)
next
  case (At_sleep n)
  then show ?thesis
    using assms by (auto simp: matches_def pop_step_def consumer_step_def Let_def queue_of_def split: option.splits)
qed (use assms in \<open>auto simp: matches_def pop_step_def consumer_step_def Let_def queue_of_def\<close>)

lemma pop_simulates:
  assumes inv: "ring_inv bs r" and m: "matches r s" and st: "pop_step pol s = Some s'"
  shows "\<exists>k r'. run pol (replicate k Consumer) r = Some r' \<and> matches r' s' \<and> k \<le> 2 \<and>
    (k = 0 \<longrightarrow> (\<exists>n. po_pc (popper s) = At_check n \<and> po_pc (popper s') = At_copy n)) \<and> (k = 2 \<longrightarrow> (\<exists>n. po_pc (popper s) = At_copy n))"
proof -
  have one: ?thesis if "case consumer_step pol r of None \<Rightarrow> False | Some r' \<Rightarrow> matches r' s'"
    using that by (intro exI [of _ 1]) (auto simp: side_step_def split: option.splits)
  show ?thesis
  proof (cases "po_pc (popper s)")
    case (At_check n)
    show ?thesis
    proof (cases "c_pc (consr r) = Copy n")
      case True
      then show ?thesis
        using m st At_check seen_enough(2) [OF inv True]
        by (intro exI [of _ 0] exI [of _ r]) (auto simp: matches_def pop_step_def)
    next
      case False
      then show ?thesis
        using m st At_check
        by (intro one) (auto simp: matches_def pop_step_def consumer_step_def Let_def waitElemPresent_def seen_afresh [unfolded queue_of_def] queue_of_def)
    qed
  next
    case (At_copy n)
    then have pc: "c_pc (consr r) = Copy n"
      using m by (simp add: matches_def)
    obtain b where b: "run pol [Consumer, Consumer] r = Some (r\<lparr>consr := (consr r)\<lparr>c_out := b, c_pc := Publish n\<rparr>\<rparr>)"
      "bind_result (read_loop (buffer (mem r)) (capacity (p_ring (prodr r))) (tail (mem r)) 0 (unat n))
        (memcpy_to (c_out (consr r)) (c_off (consr r))) = Inr b"
      by (rule pop_copies [OF inv pc])
    then show ?thesis
      using m st At_copy by (intro exI [of _ 2] exI) (auto simp: matches_def pop_step_def numeral_eq_Suc queue_of_def)
  next
    case (At_store n)
    then have pc: "c_pc (consr r) = Publish n"
      using m by (simp add: matches_def)
    then have "n < capacity (p_ring (prodr r))" "tail (mem r) < capacity (p_ring (prodr r))"
      using publish_bounds(2) [OF inv] by simp_all
    then show ?thesis
      using m st At_store pc store_index [OF queue_of_wf [OF inv]]
      by (intro one) (auto simp: matches_def pop_step_def consumer_step_def Let_def queue_of_def)
  qed (rule one [OF pop_plain [OF m st]], simp)+
qed


definition thread_pc :: "side \<Rightarrow> 'w spsc_sys \<Rightarrow> spsc_pc" where
  "thread_pc i s = (case i of Producer \<Rightarrow> pu_pc (pusher s) | Consumer \<Rightarrow> po_pc (popper s))"

definition ring_pc :: "side \<Rightarrow> 'w sys \<Rightarrow> side_pc" where
  "ring_pc i r = (case i of Producer \<Rightarrow> p_pc (prodr r) | Consumer \<Rightarrow> c_pc (consr r))"

lemma matches_pc: "matches r s \<Longrightarrow> at_match (thread_pc i s) (ring_pc i r)"
  by (cases i) (simp_all add: matches_def thread_pc_def ring_pc_def)

lemma spsc_simulates:
  assumes "ring_inv bs r" "matches r s" "spsc_step pol i s = Some s'"
  obtains k r' where "run pol (replicate k i) r = Some r'" "matches r' s'" "k \<le> 2"
    "k = 0 \<longrightarrow> (\<exists>n. thread_pc i s = At_check n \<and> thread_pc i s' = At_copy n)" "k = 2 \<longrightarrow> (\<exists>n. thread_pc i s = At_copy n)"
  using push_simulates [OF assms(1,2), of pol s'] pop_simulates [OF assms(1,2), of pol s'] assms(3)
  by (cases i) (auto simp: spsc_step_def thread_pc_def)

lemma threads_refine:
  assumes "spsc_reach pol s0 s" "ring_inv bs r0" "matches r0 s0"
  obtains r where "reach pol r0 r" "matches r s"
proof -
  have "\<exists>r. reach pol r0 r \<and> matches r s"
    using assms
  proof (induction rule: spsc_reach.induct)
    case spsc_init
    then show ?case using reach.start by blast
  next
    case (spsc_next s i s')
    then obtain r where r: "reach pol r0 r" "matches r s"
      by blast
    obtain k r' where "run pol (replicate k i) r = Some r'" "matches r' s'"
      by (rule spsc_simulates [OF reach_inv [OF r(1) spsc_next.prems(1)] r(2) spsc_next.hyps(2)])
    then show ?case
      using run_reach r(1) by blast
  qed
  then show thesis
    using that by blast
qed

definition sized_queue :: "size_t \<Rightarrow> SPSCQueue" where
  "sized_queue cap = (SPSCQueue_new cap)\<lparr>q_buffer := replicate (unat cap) 0\<rparr>"

lemma start_matches: "matches (start_sys cap msgs wants w) (spsc_start (sized_queue cap) msgs wants w)"
  by (simp add: matches_def start_sys_def spsc_start_def sized_queue_def SPSCQueue_new_def queue_of_def ByteRing_new_def Let_def)

lemma at_match_idle: "at_match a Idle \<longleftrightarrow> a = At_idle"
  by (cases a) simp_all

lemma matches_finished: "matches r s \<Longrightarrow> finished r \<longleftrightarrow> spsc_finished s"
  by (cases "pu_pc (pusher s)"; cases "po_pc (popper s)")
    (auto simp: matches_def finished_def spsc_finished_def at_match_idle)

text \<open>A thread that the ring lets step can step.\<close>

lemma spsc_enabled:
  assumes "matches r s" "side_step pol i r = Some r1"
  shows "\<exists>s'. spsc_step pol i s = Some s'"
proof (cases i)
  case Producer
  then show ?thesis
    using assms by (cases "pu_pc (pusher s)")
      (auto simp: matches_def spsc_step_def side_step_def push_step_def producer_step_def Let_def
        split: list.splits option.splits sum.split)
next
  case Consumer
  then show ?thesis
    using assms by (cases "po_pc (popper s)")
      (auto simp: matches_def spsc_step_def side_step_def pop_step_def consumer_step_def Let_def
        split: list.splits option.splits sum.split)
qed

text \<open>How many threads are about to look at the indices.\<close>

definition looking :: "side \<Rightarrow> 'w spsc_sys \<Rightarrow> nat" where
  "looking i s = (case thread_pc i s of At_check n \<Rightarrow> 1 | _ \<Rightarrow> 0)"

lemma looking_le: "looking i s \<le> 1"
  by (simp add: looking_def split: spsc_pc.split)

definition other_side :: "side \<Rightarrow> side" where
  "other_side i = (case i of Producer \<Rightarrow> Consumer | Consumer \<Rightarrow> Producer)"

lemma spsc_step_other: "spsc_step pol i s = Some s' \<Longrightarrow> thread_pc (other_side i) s' = thread_pc (other_side i) s"
  by (cases i) (auto simp: spsc_step_def other_side_def thread_pc_def push_step_def pop_step_def Let_def
      split: spsc_pc.splits list.splits option.splits sum.splits if_splits)

lemma copy_goes_on:
  assumes "side_step pol i r = Some r1" "ring_pc i r = Copy n"
  shows "useful i r1"
  using assms by (cases i) (auto simp: side_step_def ring_pc_def producer_step_def consumer_step_def Let_def useful_def waits_for_def
      split: sum.splits)

section \<open>Progress\<close>

lemma spsc_reach_trans: "spsc_reach pol s s' \<Longrightarrow> spsc_reach pol s0 s \<Longrightarrow> spsc_reach pol s0 s'"
  by (induction rule: spsc_reach.induct) (auto intro: spsc_reach.spsc_next)

definition both_looking :: "'w spsc_sys \<Rightarrow> nat" where
  "both_looking s = looking Producer s + looking Consumer s"

lemma both_looking_step:
  assumes "spsc_step pol i s = Some s'"
  shows "both_looking s' + looking i s = both_looking s + looking i s'"
  using spsc_step_other [OF assms] by (cases i) (simp_all add: both_looking_def looking_def other_side_def)

context sticky_policy
begin

text \<open>One step of a thread whose side of the ring has work to do: either the ring gets closer to its end,
  or the thread has found out what the ring knew.\<close>

lemma thread_progress:
  assumes live: "live bs r" and m: "matches r s" and use: "useful i r"
    and ring: "side_step pol i r = Some r1" and st: "spsc_step pol i s = Some s'"
  shows "\<exists>r'. reach pol r r' \<and> live bs r' \<and> matches r' s' \<and> 3 * work_left r' + both_looking s' < 3 * work_left r + both_looking s"
proof -
  have inv: "ring_inv bs r"
    using live by (simp add: live_def)
  obtain k r' where sim: "run pol (replicate k i) r = Some r'" "matches r' s'" "k \<le> 2"
    "k = 0 \<longrightarrow> (\<exists>n. thread_pc i s = At_check n \<and> thread_pc i s' = At_copy n)" "k = 2 \<longrightarrow> (\<exists>n. thread_pc i s = At_copy n)"
    by (rule spsc_simulates [OF inv m st])
  have r': "reach pol r r'"
    using run_reach [OF sim(1) reach.start] .
  have look: "both_looking s' + looking i s = both_looking s + looking i s'" "looking i s' \<le> 1"
    using both_looking_step [OF st] looking_le [of i s'] by simp_all
  have less: "work_left r1 < work_left r"
    using useful_decreases [OF live ring use] .
  consider "k = 0" | "k = 1" | "k = 2"
    using sim(3) by linarith
  then have "3 * work_left r' + both_looking s' < 3 * work_left r + both_looking s"
  proof cases
    case 1
    then have "looking i s = 1" "looking i s' = 0" "r' = r"
      using sim(1,4) by (auto simp: looking_def)
    then show ?thesis
      using look by simp
  next
    case 2
    then have "r' = r1"
      using sim(1) ring by simp
    then show ?thesis
      using look less by simp
  next
    case 3
    then obtain n where "thread_pc i s = At_copy n"
      using sim(5) by blast
    then have "ring_pc i r = Copy n"
      using matches_pc [OF m, of i] by simp
    then have "useful i r1"
      using copy_goes_on [OF ring] by simp
    moreover have "side_step pol i r1 = Some r'"
      using 3 sim(1) ring by (simp add: numeral_eq_Suc split: option.splits)
    ultimately show ?thesis
      using useful_decreases [OF step_live [OF ring live]] less look by fastforce
  qed
  then show ?thesis
    using r' sim(2) reach_live [OF r' live] by blast
qed

lemma threads_can_finish:
  assumes "live bs r" "matches r s"
  shows "\<exists>s' r'. spsc_reach pol s s' \<and> spsc_finished s' \<and> reach pol r r' \<and> matches r' s'"
  using assms
proof (induction "3 * work_left r + both_looking s" arbitrary: r s rule: less_induct)
  case less
  show ?case
  proof (cases "finished r")
    case True
    then have "spsc_finished s"
      using matches_finished [OF less.prems(2)] by simp
    then show ?thesis
      using less.prems spsc_reach.spsc_init reach.start by blast
  next
    case False
    then obtain i r1 where r1: "useful i r" "side_step pol i r = Some r1"
      using no_deadlock less.prems(1) by blast
    obtain s1 where s1: "spsc_step pol i s = Some s1"
      using spsc_enabled [OF less.prems(2) r1(2)] by blast
    obtain r2 where r2: "reach pol r r2" "live bs r2" "matches r2 s1"
      "3 * work_left r2 + both_looking s1 < 3 * work_left r + both_looking s"
      using thread_progress [OF less.prems r1 s1] by blast
    obtain s' r' where "spsc_reach pol s1 s'" "spsc_finished s'" "reach pol r2 r'" "matches r' s'"
      using less.hyps [OF r2(4) r2(2,3)] by blast
    moreover have "spsc_reach pol s s1"
      using spsc_reach.spsc_next [OF spsc_reach.spsc_init s1] .
    ultimately show ?thesis
      using spsc_reach_trans reach_trans [OF _ r2(1)] by blast
  qed
qed

end

section \<open>As constructed\<close>

text \<open>
  On a queue as its constructor leaves it, whose vector is empty, the pusher faults at its first byte and the
  popper finds nothing. The invariant says where the threads can be.
\<close>

definition push_stuck :: "size_t \<Rightarrow> byte_t list list \<Rightarrow> push_thread \<Rightarrow> bool" where
  "push_stuck cap msgs p \<longleftrightarrow>
     (\<forall>d \<in> set msgs. d \<noteq> [] \<longrightarrow> d \<in> set (pu_todo p) \<or> pu_pc p \<noteq> At_idle \<and> pu_data p = d) \<and>
     (case pu_pc p of At_idle \<Rightarrow> True | At_loop \<Rightarrow> pu_left p = of_nat (length (pu_data p)) \<and> length (pu_data p) < 2 ^ 64
      | At_check n \<Rightarrow> 0 < n \<and> n \<le> cap - 1 | At_copy n \<Rightarrow> 0 < n | At_fault \<Rightarrow> True | _ \<Rightarrow> False) \<and>
     (\<forall>d \<in> set (pu_todo p). length d < 2 ^ 64)"

definition pop_stuck :: "size_t list \<Rightarrow> pop_thread \<Rightarrow> bool" where
  "pop_stuck wants c \<longleftrightarrow>
     (\<forall>k \<in> set wants. k \<noteq> 0 \<longrightarrow> k \<in> set (po_todo c) \<or> po_pc c \<noteq> At_idle \<and> po_left c = k) \<and>
     (case po_pc c of At_idle \<Rightarrow> True | At_loop \<Rightarrow> po_out c = replicate (unat (po_left c)) 0
      | At_check n \<Rightarrow> 0 < n | At_wait n \<Rightarrow> 0 < n | At_sleep n \<Rightarrow> 0 < n | _ \<Rightarrow> False) \<and>
     (\<forall>b \<in> set (po_done c). b = [])"

definition spsc_stuck :: "size_t \<Rightarrow> byte_t list list \<Rightarrow> size_t list \<Rightarrow> 'w spsc_sys \<Rightarrow> bool" where
  "spsc_stuck cap msgs wants s \<longleftrightarrow> sq s = SPSCQueue_new cap \<and> push_stuck cap msgs (pusher s) \<and> pop_stuck wants (popper s)"

lemma chunk_pos:
  assumes "2 \<le> cap" "n \<noteq> 0"
  shows "0 < chunkSize cap n" "chunkSize cap n \<le> cap - 1"
proof -
  have "unat (chunkSize cap n) = min (unat n) (unat cap - 1)" "unat (cap - 1) = unat cap - 1" "2 \<le> unat cap" "unat n \<noteq> 0"
    using assms by (simp_all add: unat_chunkSize unat_minus_le word_le_nat_alt unat_eq_0 unat_gt_0)
  then show "0 < chunkSize cap n" "chunkSize cap n \<le> cap - 1"
    by (simp_all add: word_less_nat_alt word_le_nat_alt)
qed

lemma empty_copy_faults:
  assumes "0 < (n :: size_t)" "2 \<le> cap"
  shows "\<exists>e. bind_result (memcpy_from d off (unat n)) (write_loop [] cap 0 0) = Inl e"
proof (cases "memcpy_from d off (unat n)")
  case (Inr xs)
  then have "length xs = unat n"
    by (auto simp: memcpy_from_def split: if_splits)
  then obtain y ys where "xs = y # ys"
    using assms(1) by (cases xs) (auto simp: word_less_nat_alt)
  then show ?thesis
    using Inr assms(2) by (auto simp: slot_def vec_set_def)
qed simp

lemma of_nat_zero: "length d < 2 ^ 64 \<Longrightarrow> (of_nat (length d) :: size_t) = 0 \<Longrightarrow> d = []"
  using unat_of_nat_size [of "length d"] by auto

lemma constructed_looks:
  "n \<le> cap - 1 \<Longrightarrow> waitFreeSpace (SPSCQueue_new cap) n = At_copy n"
  "0 < n \<Longrightarrow> waitElemPresent (SPSCQueue_new cap) n = At_wait n"
  by (simp_all add: waitFreeSpace_def waitElemPresent_def spsc_freeSpace_def spsc_size_def SPSCQueue_new_def not_less)

lemma push_stuck_step:
  assumes cap: "2 \<le> cap" and s: "spsc_stuck cap msgs wants s" and st: "push_step pol s = Some s'"
  shows "spsc_stuck cap msgs wants s'"
proof -
  have p: "push_stuck cap msgs (pusher s)"
    using s by (simp add: spsc_stuck_def)
  consider "pu_pc (pusher s) = At_idle" | "pu_pc (pusher s) = At_loop" | n where "pu_pc (pusher s) = At_check n" "0 < n"
    | n where "pu_pc (pusher s) = At_copy n" "0 < n"
    using p st by (cases "pu_pc (pusher s)") (auto simp: push_stuck_def push_step_def)
  then show ?thesis
  proof cases
    case 1
    then show ?thesis
      using s st by (auto simp: spsc_stuck_def push_stuck_def push_step_def Let_def split: list.splits)
  next
    case 2
    then show ?thesis
      using s st chunk_pos [OF cap] of_nat_zero
      by (fastforce simp: spsc_stuck_def push_stuck_def push_step_def SPSCQueue_new_def Let_def split: if_splits)
  next
    case (3 n)
    then have "waitFreeSpace (SPSCQueue_new cap) n = At_copy n"
      using p constructed_looks(1) by (simp add: push_stuck_def)
    then show ?thesis
      using s st 3 by (auto simp: spsc_stuck_def push_stuck_def push_step_def Let_def)
  next
    case (4 n)
    then show ?thesis
      using s st empty_copy_faults [OF 4(2) cap, of "pu_data (pusher s)" "pu_off (pusher s)"]
      by (fastforce simp: spsc_stuck_def push_stuck_def push_step_def SPSCQueue_new_def Let_def)
  qed
qed

lemma pop_stuck_step:
  assumes cap: "2 \<le> cap" and s: "spsc_stuck cap msgs wants s" and st: "pop_step pol s = Some s'"
  shows "spsc_stuck cap msgs wants s'"
proof (cases "po_pc (popper s)")
  case At_idle
  then show ?thesis
    using s st by (fastforce simp: spsc_stuck_def pop_stuck_def pop_step_def Let_def split: list.splits)
next
  case At_loop
  then show ?thesis
    using s st chunk_pos(1) [OF cap]
    by (fastforce simp: spsc_stuck_def pop_stuck_def pop_step_def SPSCQueue_new_def Let_def split: if_splits)
next
  case (At_sleep n)
  then show ?thesis
    using s st by (fastforce simp: spsc_stuck_def pop_stuck_def pop_step_def Let_def split: option.splits)
qed (use s st constructed_looks(2) in \<open>fastforce simp: spsc_stuck_def pop_stuck_def pop_step_def Let_def\<close>)+

lemma spsc_stuck_reach:
  assumes "spsc_reach pol s0 s" "2 \<le> cap" "spsc_stuck cap msgs wants s0"
  shows "spsc_stuck cap msgs wants s"
  using assms
  by (induction rule: spsc_reach.induct)
    (auto simp: spsc_step_def split: side.splits intro: push_stuck_step pop_stuck_step)

lemma constructed_stuck:
  "\<forall>d \<in> set msgs. length d < 2 ^ 64 \<Longrightarrow> spsc_stuck cap msgs wants (spsc_start (SPSCQueue_new cap) msgs wants w)"
  by (auto simp: spsc_stuck_def push_stuck_def pop_stuck_def spsc_start_def)

text \<open>The pusher is never blocked on its way to the fault.\<close>

definition push_rank :: "spsc_pc \<Rightarrow> nat" where
  "push_rank a = (case a of At_fault \<Rightarrow> 0 | At_idle \<Rightarrow> 0 | At_copy _ \<Rightarrow> 1 | At_check _ \<Rightarrow> 2 | _ \<Rightarrow> 3)"

lemma push_stuck_goes_on:
  assumes cap: "2 \<le> cap" and s: "spsc_stuck cap msgs wants s" and d: "d \<in> set msgs" "d \<noteq> []" and nf: "pu_pc (pusher s) \<noteq> At_fault"
  shows "\<exists>s'. push_step pol s = Some s' \<and>
    (pu_pc (pusher s') = At_fault \<or> 4 * length (pu_todo (pusher s')) + push_rank (pu_pc (pusher s')) <
      4 * length (pu_todo (pusher s)) + push_rank (pu_pc (pusher s)))"
proof -
  have p: "push_stuck cap msgs (pusher s)" and q: "sq s = SPSCQueue_new cap"
    using s by (simp_all add: spsc_stuck_def)
  show ?thesis
  proof (cases "pu_pc (pusher s)")
    case At_idle
    then have "d \<in> set (pu_todo (pusher s))"
      using p d by (auto simp: push_stuck_def)
    then obtain e es where "pu_todo (pusher s) = e # es"
      by (cases "pu_todo (pusher s)") auto
    then show ?thesis
      using At_idle by (simp add: push_step_def push_rank_def Let_def)
  next
    case At_loop
    then show ?thesis
      by (simp add: push_step_def push_rank_def Let_def)
  next
    case (At_check n)
    then have "waitFreeSpace (SPSCQueue_new cap) n = At_copy n"
      using p constructed_looks(1) by (simp add: push_stuck_def)
    then show ?thesis
      using At_check q by (simp add: push_step_def push_rank_def Let_def)
  next
    case (At_copy n)
    then have "0 < n"
      using p by (simp add: push_stuck_def)
    then obtain e where "bind_result (memcpy_from (pu_data (pusher s)) (pu_off (pusher s)) (unat n)) (write_loop [] cap 0 0) = Inl e"
      using empty_copy_faults [OF _ cap] by blast
    then show ?thesis
      using At_copy q by (simp add: push_step_def Let_def SPSCQueue_new_def)
  qed (use p nf in \<open>simp_all add: push_stuck_def\<close>)
qed

lemma push_stuck_faults:
  assumes "2 \<le> cap" "spsc_stuck cap msgs wants s" "d \<in> set msgs" "d \<noteq> []"
  shows "\<exists>s'. spsc_reach pol s s' \<and> pu_pc (pusher s') = At_fault"
  using assms(2)
proof (induction "4 * length (pu_todo (pusher s)) + push_rank (pu_pc (pusher s))" arbitrary: s rule: less_induct)
  case less
  show ?case
  proof (cases "pu_pc (pusher s) = At_fault")
    case True
    then show ?thesis
      using spsc_reach.spsc_init by blast
  next
    case False
    then obtain s1 where s1: "push_step pol s = Some s1"
      "pu_pc (pusher s1) = At_fault \<or> 4 * length (pu_todo (pusher s1)) + push_rank (pu_pc (pusher s1)) <
        4 * length (pu_todo (pusher s)) + push_rank (pu_pc (pusher s))"
      using push_stuck_goes_on [OF assms(1) less.prems assms(3,4)] by blast
    have "spsc_reach pol s s1"
      using spsc_reach.spsc_next [OF spsc_reach.spsc_init, of pol Producer s s1] s1(1) by (simp add: spsc_step_def)
    then show ?thesis
      using s1(2) less.hyps [OF _ push_stuck_step [OF assms(1) less.prems s1(1)]] spsc_reach.spsc_init spsc_reach_trans by blast
  qed
qed

section \<open>Theorems\<close>

lemma threads_of_ring:
  assumes "2 \<le> cap" "unat cap \<le> 2 ^ 63" "\<forall>d \<in> set msgs. length d < 2 ^ 64"
    and "spsc_reach pol (spsc_start (sized_queue cap) msgs wants w) s"
  obtains r where "reach pol (start_sys cap msgs wants w) r" "matches r s" "ring_inv (concat msgs) r"
proof -
  have inv: "ring_inv (concat msgs) (start_sys cap msgs wants w)"
    by (rule start_inv [OF assms(1-3)])
  obtain r where r: "reach pol (start_sys cap msgs wants w) r" "matches r s"
    by (rule threads_refine [OF assms(4) inv start_matches])
  show thesis
    by (rule that [OF r reach_inv [OF r(1) inv]])
qed

lemma matches_popped:
  assumes "reach pol (start_sys cap msgs wants w) r" "ring_inv (concat msgs) (start_sys cap msgs wants w)"
    and "matches r s" "map unat wants = map length msgs"
  shows "po_done (popper s) = take (length (po_done (popper s))) msgs" "spsc_finished s \<Longrightarrow> po_done (popper s) = msgs"
proof -
  have want: "wanted r = map length msgs"
    using reach_wanted [OF assms(1,2)] assms(4) by (simp add: wanted_def start_sys_def Let_def)
  note inv = reach_inv [OF assms(1,2)]
  show "po_done (popper s) = take (length (po_done (popper s))) msgs"
    using popped_are_pushed [OF inv want] assms(3) by (simp add: matches_def)
  show "po_done (popper s) = msgs" if "spsc_finished s"
    using finished_delivers [OF inv _ want] matches_finished [OF assms(3)] that assms(3) by (simp add: matches_def)
qed





text \<open>C21: the queue as its constructor leaves it, with an empty vector and a capacity of at least 2. Whatever the two threads do
  and whatever the signals, the indices stay where they are and nothing but empty buffers is popped; a thread that has a non-empty
  message to push never gets through, nor does one that asks for at least one byte; and the pusher of a non-empty message can
  always go on to the write outside the vector.\<close>

theorem SPSC_threads_as_constructed:
  assumes "2 \<le> cap" "\<forall>d \<in> set msgs. length d < 2 ^ 64"
    and "spsc_reach pol (spsc_start (SPSCQueue_new cap) msgs wants w) s"
  shows "sq s = SPSCQueue_new cap \<and> (\<forall>b \<in> set (po_done (popper s)). b = []) \<and>
    (\<forall>d \<in> set msgs. d \<noteq> [] \<longrightarrow> \<not> (pu_pc (pusher s) = At_idle \<and> pu_todo (pusher s) = []) \<and>
       (\<exists>s'. spsc_reach pol s s' \<and> pu_pc (pusher s') = At_fault)) \<and>
    (\<forall>k \<in> set wants. k \<noteq> 0 \<longrightarrow> \<not> (po_pc (popper s) = At_idle \<and> po_todo (popper s) = []))"
proof -
  have stuck: "spsc_stuck cap msgs wants s"
    by (rule spsc_stuck_reach [OF assms(3,1) constructed_stuck [OF assms(2)]])
  then have "\<exists>s'. spsc_reach pol s s' \<and> pu_pc (pusher s') = At_fault" if "d \<in> set msgs" "d \<noteq> []" for d
    by (rule push_stuck_faults [OF assms(1) _ that])
  then show ?thesis
    using stuck by (auto simp: spsc_stuck_def push_stuck_def pop_stuck_def)
qed

theorem SPSC_threads_as_constructed_witness:
  "\<exists>s'. spsc_reach SPSC_signals (spsc_start (SPSCQueue_new 1024) [[], [5]] [0, 1] SPSC_signals_new) s' \<and> pu_pc (pusher s') = At_fault"
  using SPSC_threads_as_constructed [of 1024 "[[], [5]]" SPSC_signals "[0, 1]" SPSC_signals_new, OF _ _ spsc_reach.spsc_init]
  by auto

end
