(* ===== verification/LittleEndian.thy ===== *)
theory LittleEndian
  imports Gicame_Prelude
begin

text \<open>
  The object representation of unsigned integers on the library's targets: \<open>n\<close> bytes, the
  least significant first. Every cast of an object to \<^verbatim>\<open>byte_t*\<close> in the sources reads or
  writes this representation.
\<close>

fun le_encode :: "nat \<Rightarrow> nat \<Rightarrow> byte_t list" where
  "le_encode 0 v = []"
| "le_encode (Suc n) v = of_nat (v mod 256) # le_encode n (v div 256)"

fun le_decode :: "byte_t list \<Rightarrow> nat" where
  "le_decode [] = 0"
| "le_decode (b # bs) = unat b + 256 * le_decode bs"

lemma length_le_encode [simp]: "length (le_encode n v) = n"
  by (induction n arbitrary: v) simp_all

lemma unat_byte [simp]: "unat (of_nat (v mod 256) :: byte_t) = v mod 256"
  by (simp add: unat_of_nat)

lemma le_decode_encode: "le_decode (le_encode n v) = v mod 256 ^ n"
proof (induction n arbitrary: v)
  case (Suc n)
  have "v mod 256 + 256 * (v div 256 mod 256 ^ n) = v mod (256 * 256 ^ n)"
    by (simp add: mod_mult2_eq)
  then show ?case
    using Suc by simp
qed simp

lemma le_roundtrip: "v < 256 ^ n \<Longrightarrow> le_decode (le_encode n v) = v"
  by (simp add: le_decode_encode)

lemma le_decode_bound: "le_decode bs < 256 ^ length bs"
proof (induction bs)
  case (Cons b bs)
  have "unat b < 256"
    using unsigned_less [of b] by simp
  with Cons show ?case
    by simp
qed simp

lemma le_encode_decode: "le_encode (length bs) (le_decode bs) = bs"
proof (induction bs)
  case (Cons b bs)
  have "unat b < 256"
    using unsigned_less [of b] by simp
  with Cons show ?case
    by simp
qed simp

text \<open>Words of a given width.\<close>

definition bytes4 :: "uint32 \<Rightarrow> byte_t list" where
  "bytes4 w = le_encode 4 (unat w)"

definition bytes8 :: "uint64 \<Rightarrow> byte_t list" where
  "bytes8 w = le_encode 8 (unat w)"

definition word4 :: "byte_t list \<Rightarrow> uint32" where
  "word4 bs = of_nat (le_decode bs)"

definition word8 :: "byte_t list \<Rightarrow> uint64" where
  "word8 bs = of_nat (le_decode bs)"

lemma length_bytes [simp]: "length (bytes4 w) = 4" "length (bytes8 x) = 8"
  by (simp_all add: bytes4_def bytes8_def)

lemma unat_uint32 [simp]: "unat (w :: uint32) < 4294967296"
  using unsigned_less [of w] by simp

lemma word4_bytes4 [simp]: "word4 (bytes4 w) = w"
  by (simp add: word4_def bytes4_def le_roundtrip)

lemma word8_bytes8 [simp]: "word8 (bytes8 w) = w"
  by (simp add: word8_def bytes8_def le_roundtrip)

lemma bytes4_word4: "length bs = 4 \<Longrightarrow> bytes4 (word4 bs) = bs"
  using le_decode_bound [of bs] le_encode_decode [of bs]
  by (simp add: word4_def bytes4_def unat_of_nat)

lemma bytes8_word8: "length bs = 8 \<Longrightarrow> bytes8 (word8 bs) = bs"
  using le_decode_bound [of bs] le_encode_decode [of bs]
  by (simp add: word8_def bytes8_def unat_of_nat)

end
