(* ===== verification/MemoryStream.thy ===== *)
theory MemoryStream
  imports LittleEndian
begin

text \<open>
  The streams over a memory block of \<^verbatim>\<open>src/headers/stream/MemoryStream.h\<close>: the stream
  buffer's virtual functions, and what \<^verbatim>\<open>std::basic_ostream::write\<close>, \<^verbatim>\<open>tellp\<close> and
  \<^verbatim>\<open>std::basic_istream::read\<close>, \<^verbatim>\<open>tellg\<close> of the C++ standard library do on top of them with the
  stream's error state.
\<close>

record MemoryStreamBuf =
  mem_buffer :: "byte_t list"
  bufferSize :: nat
  pos :: nat

definition MemoryStreamBuf_new :: "byte_t list \<Rightarrow> nat \<Rightarrow> MemoryStreamBuf" where
  "MemoryStreamBuf_new b n = \<lparr>mem_buffer = b, bufferSize = n, pos = 0\<rparr>"

fun put_loop :: "byte_t list \<Rightarrow> nat \<Rightarrow> byte_t list \<Rightarrow> byte_t list result" where
  "put_loop b p [] = Inr b"
| "put_loop b p (x # xs) = bind_result (vec_set b p x) (\<lambda>b'. put_loop b' (Suc p) xs)"

fun get_loop :: "byte_t list \<Rightarrow> nat \<Rightarrow> nat \<Rightarrow> byte_t list result" where
  "get_loop b p 0 = Inr []"
| "get_loop b p (Suc n) =
     bind_result (vec_get b p) (\<lambda>x. bind_result (get_loop b (Suc p) n) (\<lambda>xs. Inr (x # xs)))"

definition xsputn :: "MemoryStreamBuf \<Rightarrow> byte_t list \<Rightarrow> (nat \<times> MemoryStreamBuf) result" where
  "xsputn s ptr =
     (let toWrite = min (length ptr) (bufferSize s - pos s) in
      bind_result (put_loop (mem_buffer s) (pos s) (take toWrite ptr)) (\<lambda>b.
        Inr (toWrite, s\<lparr>mem_buffer := b, pos := pos s + toWrite\<rparr>)))"

definition xsgetn :: "MemoryStreamBuf \<Rightarrow> nat \<Rightarrow> (byte_t list \<times> MemoryStreamBuf) result" where
  "xsgetn s count =
     (let toRead = min count (bufferSize s - pos s) in
      bind_result (get_loop (mem_buffer s) (pos s) toRead) (\<lambda>xs. Inr (xs, s\<lparr>pos := pos s + toRead\<rparr>)))"

text \<open>Single characters; \<open>None\<close> is \<^verbatim>\<open>EOF\<close>.\<close>

definition overflow :: "MemoryStreamBuf \<Rightarrow> byte_t \<Rightarrow> (byte_t option \<times> MemoryStreamBuf) result" where
  "overflow s c =
     (if pos s \<ge> bufferSize s then Inr (None, s)
      else bind_result (vec_set (mem_buffer s) (pos s) c) (\<lambda>b.
        Inr (Some c, s\<lparr>mem_buffer := b, pos := pos s + 1\<rparr>)))"

definition underflow :: "MemoryStreamBuf \<Rightarrow> (byte_t option \<times> MemoryStreamBuf) result" where
  "underflow s =
     (if pos s \<ge> bufferSize s then Inr (None, s)
      else bind_result (vec_get (mem_buffer s) (pos s)) (\<lambda>c. Inr (Some c, s\<lparr>pos := pos s + 1\<rparr>)))"

definition seekoff :: "MemoryStreamBuf \<Rightarrow> nat" where
  "seekoff s = pos s"

section \<open>The streams\<close>

record mstream =
  memBuff :: MemoryStreamBuf
  failed :: bool

definition MemoryOStream :: "byte_t list \<Rightarrow> nat \<Rightarrow> mstream" where
  "MemoryOStream b n = \<lparr>memBuff = MemoryStreamBuf_new b n, failed = False\<rparr>"

definition MemoryIStream :: "byte_t list \<Rightarrow> nat \<Rightarrow> mstream" where
  "MemoryIStream b n = \<lparr>memBuff = MemoryStreamBuf_new b n, failed = False\<rparr>"

text \<open>\<open>write\<close>: nothing on a failed stream; an incomplete write sets the error state.\<close>

definition ostream_write :: "byte_t list \<Rightarrow> mstream \<Rightarrow> mstream result" where
  "ostream_write bs s =
     (if failed s then Inr s
      else bind_result (xsputn (memBuff s) bs) (\<lambda>(n, b).
        Inr (s\<lparr>memBuff := b, failed := n \<noteq> length bs\<rparr>)))"

text \<open>\<open>read\<close> of \<open>n\<close> characters: the characters read, the rest of the destination unchanged.\<close>

definition istream_read :: "nat \<Rightarrow> mstream \<Rightarrow> (byte_t list \<times> mstream) result" where
  "istream_read n s =
     (if failed s then Inr ([], s)
      else bind_result (xsgetn (memBuff s) n) (\<lambda>(bs, b).
        Inr (bs, s\<lparr>memBuff := b, failed := length bs \<noteq> n\<rparr>)))"

text \<open>\<open>tellp\<close> and \<open>tellg\<close>, converted to \<^verbatim>\<open>size_t\<close>: the position, or -1 on a failed stream.\<close>

definition stream_tell :: "mstream \<Rightarrow> size_t" where
  "stream_tell s = (if failed s then - 1 else of_nat (seekoff (memBuff s)))"

section \<open>Correctness\<close>

text \<open>A stream over a block it does not run out of.\<close>

definition stream_wf :: "mstream \<Rightarrow> bool" where
  "stream_wf s \<longleftrightarrow> bufferSize (memBuff s) \<le> length (mem_buffer (memBuff s)) \<and> pos (memBuff s) \<le> bufferSize (memBuff s)"

lemma put_loop_blit: "p + length xs \<le> length b \<Longrightarrow> put_loop b p xs = Inr (blit b p xs)"
proof (induction xs arbitrary: b p)
  case (Cons x xs)
  then have "put_loop b p (x # xs) = Inr (blit (b[p := x]) (Suc p) xs)"
    by simp
  moreover have "blit (b[p := x]) (Suc p) xs = blit b p (x # xs)"
    using Cons.prems by (simp add: blit_def take_Suc_conv_app_nth)
  ultimately show ?case by simp
qed (simp add: blit_def)

lemma get_loop_slice: "p + n \<le> length b \<Longrightarrow> get_loop b p n = Inr (take n (drop p b))"
proof (induction n arbitrary: p)
  case (Suc n)
  then have "drop p b = b ! p # drop (Suc p) b"
    by (simp add: Cons_nth_drop_Suc)
  with Suc show ?case by simp
qed simp

text \<open>What a stream has been given so far, and what is left to read.\<close>

definition written_bytes :: "mstream \<Rightarrow> byte_t list" where
  "written_bytes s = take (pos (memBuff s)) (mem_buffer (memBuff s))"

definition unread :: "mstream \<Rightarrow> byte_t list" where
  "unread s = drop (pos (memBuff s)) (take (bufferSize (memBuff s)) (mem_buffer (memBuff s)))"

lemma write_fits:
  assumes "stream_wf s" "\<not> failed s" "pos (memBuff s) + length bs \<le> bufferSize (memBuff s)"
  shows "\<exists>s'. ostream_write bs s = Inr s' \<and> stream_wf s' \<and> \<not> failed s' \<and>
    written_bytes s' = written_bytes s @ bs \<and> bufferSize (memBuff s') = bufferSize (memBuff s) \<and>
    length (mem_buffer (memBuff s')) = length (mem_buffer (memBuff s)) \<and>
    pos (memBuff s') = pos (memBuff s) + length bs \<and>
    drop (pos (memBuff s')) (mem_buffer (memBuff s')) = drop (pos (memBuff s')) (mem_buffer (memBuff s))"
proof -
  have "put_loop (mem_buffer (memBuff s)) (pos (memBuff s)) bs = Inr (blit (mem_buffer (memBuff s)) (pos (memBuff s)) bs)"
    using assms by (intro put_loop_blit) (simp add: stream_wf_def)
  then show ?thesis
    using assms by (simp add: ostream_write_def xsputn_def stream_wf_def written_bytes_def Let_def blit_def)
qed

lemma read_fits:
  assumes "stream_wf s" "\<not> failed s" "n \<le> length (unread s)"
  shows "\<exists>s'. istream_read n s = Inr (take n (unread s), s') \<and> stream_wf s' \<and> \<not> failed s' \<and>
    unread s' = drop n (unread s) \<and> bufferSize (memBuff s') = bufferSize (memBuff s)"
proof -
  have len: "length (unread s) = bufferSize (memBuff s) - pos (memBuff s)"
    using assms(1) by (simp add: unread_def stream_wf_def)
  then have le: "n + pos (memBuff s) \<le> bufferSize (memBuff s)"
    using assms(1,3) by (auto simp: stream_wf_def)
  have "get_loop (mem_buffer (memBuff s)) (pos (memBuff s)) n = Inr (take n (drop (pos (memBuff s)) (mem_buffer (memBuff s))))"
    using assms len by (intro get_loop_slice) (auto simp: stream_wf_def)
  moreover have "take n (unread s) = take n (drop (pos (memBuff s)) (mem_buffer (memBuff s)))"
    using le by (simp add: unread_def take_drop min_absorb1)
  moreover have "length (take n (unread s)) = n"
    using assms(3) by simp
  ultimately show ?thesis
    using assms len le by (simp add: istream_read_def xsgetn_def stream_wf_def unread_def Let_def min_absorb1 add.commute)
qed

lemma read_short:
  assumes "stream_wf s" "\<not> failed s" "length (unread s) < n"
  shows "\<exists>bs s'. istream_read n s = Inr (bs, s') \<and> failed s'"
proof -
  have len: "length (unread s) = bufferSize (memBuff s) - pos (memBuff s)"
    using assms(1) by (simp add: unread_def stream_wf_def)
  have "get_loop (mem_buffer (memBuff s)) (pos (memBuff s)) (length (unread s))
      = Inr (take (length (unread s)) (drop (pos (memBuff s)) (mem_buffer (memBuff s))))"
    using assms(1) len by (intro get_loop_slice) (auto simp: stream_wf_def)
  then show ?thesis
    using assms len by (simp add: istream_read_def xsgetn_def stream_wf_def Let_def min_def)
qed

end
