(* ===== verification/BinarySerializer.thy ===== *)
theory BinarySerializer
  imports MemoryStream
begin

text \<open>
  \<^verbatim>\<open>src/headers/dataSerialization/BinarySerializer.h\<close>. The template parameter is a value of
  \<open>cxx_type\<close>: \<^verbatim>\<open>void\<close>, a fundamental type with its size in bytes, or any other type, and the
  branches of \<^verbatim>\<open>if constexpr\<close> are a case distinction on it. The value of a fundamental type is
  the number its bytes represent.
\<close>

datatype cxx_type = Void | Fundamental nat | Other

definition unsupported :: "string \<Rightarrow> exn" where
  "unsupported fn = RUNTIME_ERROR fn ''Unsupported data type''"

definition serializedSize :: "cxx_type \<Rightarrow> size_t result" where
  "serializedSize ty = (case ty of
     Void \<Rightarrow> Inr 0
   | Fundamental n \<Rightarrow> Inr (of_nat n)
   | Other \<Rightarrow> Inl (unsupported ''serializedSize''))"

text \<open>Method A: to a new vector.\<close>

definition serialize :: "cxx_type \<Rightarrow> nat \<Rightarrow> byte_t list result" where
  "serialize ty v = (case ty of
     Void \<Rightarrow> Inr []
   | Fundamental n \<Rightarrow> Inr (le_encode n v)
   | Other \<Rightarrow> Inl (unsupported ''serialize''))"

text \<open>Method B: to a buffer of \<open>outBufferSize\<close> bytes.\<close>

definition serialize_buffer :: "cxx_type \<Rightarrow> nat \<Rightarrow> byte_t list \<Rightarrow> size_t \<Rightarrow> byte_t list result" where
  "serialize_buffer ty v outBuffer outBufferSize = (case ty of
     Void \<Rightarrow> Inr outBuffer
   | Fundamental n \<Rightarrow>
       if outBufferSize < of_nat n then Inl (RUNTIME_ERROR ''serialize'' ''outBuffer too short'')
       else memcpy_to outBuffer 0 (le_encode n v)
   | Other \<Rightarrow> Inl (unsupported ''serialize''))"

text \<open>Method C: to a stream.\<close>

definition serialize_stream :: "cxx_type \<Rightarrow> nat \<Rightarrow> mstream \<Rightarrow> mstream result" where
  "serialize_stream ty v out = (case ty of
     Void \<Rightarrow> Inr out
   | Fundamental n \<Rightarrow> ostream_write (le_encode n v) out
   | Other \<Rightarrow> Inl (unsupported ''serialize''))"

definition deserialize_buffer :: "cxx_type \<Rightarrow> byte_t list \<Rightarrow> size_t \<Rightarrow> nat option result" where
  "deserialize_buffer ty inBuffer inBufferSize = (case ty of
     Void \<Rightarrow> Inr None
   | Fundamental n \<Rightarrow>
       if inBufferSize < of_nat n then Inl (RUNTIME_ERROR ''deserialize'' ''Invalid inBufferSize'')
       else bind_result (memcpy_from inBuffer 0 n) (\<lambda>bs. Inr (Some (le_decode bs)))
   | Other \<Rightarrow> Inl (unsupported ''deserialize''))"

text \<open>The result variable is uninitialised before \<open>read\<close>; after a complete read it is not.\<close>

definition deserialize_stream :: "cxx_type \<Rightarrow> mstream \<Rightarrow> (nat option \<times> mstream) result" where
  "deserialize_stream ty s = (case ty of
     Void \<Rightarrow> Inr (None, s)
   | Fundamental n \<Rightarrow>
       bind_result (istream_read n s) (\<lambda>(bs, s').
         if failed s' then Inl (RUNTIME_ERROR ''deserialize'' ''Invalid inStream in'')
         else Inr (Some (le_decode bs), s'))
   | Other \<Rightarrow> Inl (unsupported ''deserialize''))"

text \<open>The overloads for \<^verbatim>\<open>ISerializable\<close>: the object gives its own bytes.\<close>

fun copy_loop :: "byte_t list \<Rightarrow> byte_t list \<Rightarrow> nat \<Rightarrow> byte_t list result" where
  "copy_loop out [] i = Inr out"
| "copy_loop out (x # xs) i = bind_result (vec_set out i x) (\<lambda>out'. copy_loop out' xs (Suc i))"

definition ISerializable_serialize_buffer :: "byte_t list \<Rightarrow> byte_t list \<Rightarrow> size_t \<Rightarrow> byte_t list result" where
  "ISerializable_serialize_buffer dataBytes outBuffer outBufferSize =
     (if of_nat (length dataBytes) > outBufferSize then Inl (RUNTIME_ERROR ''serialize'' ''outBuffer too short'')
      else copy_loop outBuffer dataBytes 0)"

definition ISerializable_serialize_stream :: "byte_t list \<Rightarrow> mstream \<Rightarrow> mstream result" where
  "ISerializable_serialize_stream dataBytes out = ostream_write dataBytes out"

definition ISerializable_serializedSize :: "byte_t list \<Rightarrow> size_t" where
  "ISerializable_serializedSize dataBytes = of_nat (length dataBytes)"

section \<open>Sequences of values in a stream\<close>

fun serialize_all :: "(nat \<times> nat) list \<Rightarrow> mstream \<Rightarrow> mstream result" where
  "serialize_all [] out = Inr out"
| "serialize_all ((n, v) # args) out =
     bind_result (serialize_stream (Fundamental n) v out) (serialize_all args)"

fun deserialize_all :: "nat list \<Rightarrow> mstream \<Rightarrow> (nat list \<times> mstream) result" where
  "deserialize_all [] s = Inr ([], s)"
| "deserialize_all (n # ns) s =
     bind_result (deserialize_stream (Fundamental n) s) (\<lambda>(v, s').
     bind_result (deserialize_all ns s') (\<lambda>(vs, s'').
       Inr (the v # vs, s'')))"

definition encoded :: "(nat \<times> nat) list \<Rightarrow> byte_t list" where
  "encoded args = concat (map (\<lambda>(n, v). le_encode n v) args)"

definition values_ok :: "(nat \<times> nat) list \<Rightarrow> bool" where
  "values_ok args = list_all (\<lambda>(n, v). v < 256 ^ n) args"

lemma length_encoded [simp]: "length (encoded args) = sum_list (map fst args)"
  by (induction args) (auto simp: encoded_def)

lemma encoded_simps [simp]: "encoded [] = []" "encoded ((n, v) # args) = le_encode n v @ encoded args"
  by (simp_all add: encoded_def)

lemma serialize_all_ok:
  assumes "stream_wf s" "\<not> failed s" "pos (memBuff s) + length (encoded args) \<le> bufferSize (memBuff s)"
  shows "\<exists>s'. serialize_all args s = Inr s' \<and> stream_wf s' \<and> \<not> failed s' \<and>
    written_bytes s' = written_bytes s @ encoded args \<and> pos (memBuff s') = pos (memBuff s) + length (encoded args) \<and>
    bufferSize (memBuff s') = bufferSize (memBuff s) \<and>
    length (mem_buffer (memBuff s')) = length (mem_buffer (memBuff s))"
  using assms
proof (induction args arbitrary: s)
  case (Cons a args)
  obtain n v where a: "a = (n, v)" by (cases a)
  obtain s1 where s1: "ostream_write (le_encode n v) s = Inr s1" "stream_wf s1" "\<not> failed s1"
    "written_bytes s1 = written_bytes s @ le_encode n v" "bufferSize (memBuff s1) = bufferSize (memBuff s)"
    "length (mem_buffer (memBuff s1)) = length (mem_buffer (memBuff s))" "pos (memBuff s1) = pos (memBuff s) + n"
    using write_fits [of s "le_encode n v"] Cons.prems a by auto
  then obtain s' where "serialize_all args s1 = Inr s'" "stream_wf s'" "\<not> failed s'"
    "written_bytes s' = written_bytes s1 @ encoded args" "pos (memBuff s') = pos (memBuff s1) + length (encoded args)"
    "bufferSize (memBuff s') = bufferSize (memBuff s1)" "length (mem_buffer (memBuff s')) = length (mem_buffer (memBuff s1))"
    using Cons.IH [of s1] Cons.prems a by auto
  then show ?case
    using s1 a by (simp add: serialize_stream_def)
qed simp

lemma deserialize_all_ok:
  assumes "stream_wf s" "\<not> failed s" "unread s = encoded args @ rest" "values_ok args"
  shows "\<exists>s'. deserialize_all (map fst args) s = Inr (map snd args, s') \<and> stream_wf s' \<and> \<not> failed s' \<and> unread s' = rest"
  using assms
proof (induction args arbitrary: s)
  case (Cons a args)
  obtain n v where a: "a = (n, v)" by (cases a)
  obtain s1 where s1: "istream_read n s = Inr (le_encode n v, s1)" "stream_wf s1" "\<not> failed s1"
    "unread s1 = encoded args @ rest"
    using read_fits [of s n] Cons.prems a by auto
  then obtain s' where "deserialize_all (map fst args) s1 = Inr (map snd args, s')" "stream_wf s'" "\<not> failed s'" "unread s' = rest"
    using Cons.IH [of s1] Cons.prems a by (auto simp: values_ok_def)
  then show ?case
    using s1 Cons.prems a by (simp add: deserialize_stream_def values_ok_def le_roundtrip)
qed simp

section \<open>Properties\<close>

text \<open>what \<open>serialize\<close> writes, \<open>deserialize\<close> reads back. Any sequence of values of
  fundamental types, each in the range of its type, serialized one after the other to a
  stream over a buffer of exactly the sum of their \<open>serializedSize\<close> fills the buffer without
  an error, and deserializing the same types in the same order from that buffer returns
  the values and uses it up.\<close>

theorem BinarySerializer_stream_roundtrip:
  assumes "values_ok args"
  shows "\<exists>out s. serialize_all args (MemoryOStream (replicate (sum_list (map fst args)) 0) (sum_list (map fst args))) = Inr out \<and>
    \<not> failed out \<and> mem_buffer (memBuff out) = encoded args \<and>
    deserialize_all (map fst args) (MemoryIStream (mem_buffer (memBuff out)) (sum_list (map fst args))) = Inr (map snd args, s) \<and>
    unread s = []"
proof -
  let ?n = "sum_list (map fst args)"
  let ?o = "MemoryOStream (replicate ?n 0) ?n"
  have "stream_wf ?o" "\<not> failed ?o" "pos (memBuff ?o) + length (encoded args) \<le> bufferSize (memBuff ?o)"
    by (simp_all add: MemoryOStream_def MemoryStreamBuf_new_def stream_wf_def)
  from serialize_all_ok [OF this] obtain out where out: "serialize_all args ?o = Inr out" "\<not> failed out"
    "written_bytes out = encoded args" "pos (memBuff out) = ?n" "length (mem_buffer (memBuff out)) = ?n"
    by (auto simp: MemoryOStream_def MemoryStreamBuf_new_def written_bytes_def)
  then have buf: "mem_buffer (memBuff out) = encoded args"
    by (simp add: written_bytes_def)
  let ?i = "MemoryIStream (encoded args) ?n"
  have "stream_wf ?i" "\<not> failed ?i" "unread ?i = encoded args @ []"
    by (simp_all add: MemoryIStream_def MemoryStreamBuf_new_def stream_wf_def unread_def)
  from deserialize_all_ok [OF this assms] show ?thesis
    using out buf by auto
qed

theorem BinarySerializer_stream_roundtrip_witness:
  "\<exists>out s. serialize_all [(4, 258), (1, 7)] (MemoryOStream (replicate 5 0) 5) = Inr out \<and>
     deserialize_all [4, 1] (MemoryIStream (mem_buffer (memBuff out)) 5) = Inr ([258, 7], s)"
  using BinarySerializer_stream_roundtrip [of "[(4, 258), (1, 7)]"]
  by (simp add: values_ok_def) blast

end
