(* ===== verification/DataTransfer.thy ===== *)
theory DataTransfer
  imports LittleEndian
begin

text \<open>
  The interfaces \<^verbatim>\<open>src/headers/interfaces/IReceiver.h\<close>, \<^verbatim>\<open>ISender.h\<close>, \<^verbatim>\<open>IDataExchanger.h\<close>, their
  adapter for queues \<^verbatim>\<open>src/headers/concurrency/IDataExchangerQueueAdapter.h\<close>, and the length
  prefixed transfers \<^verbatim>\<open>src/headers/dataTransfer/\<close>\<open>{ObjectSender, ObjectReceiver, TextSender, TextReceiver}.h\<close>.
  A peer is a record of operations on its state \<open>'d\<close>, each of which may throw. The transfer
  loops are partial functions, \<open>None\<close> being a call that never returns.
\<close>

section \<open>The interfaces\<close>

text \<open>
  \<open>ex_receive n\<close> answers the call's return value and the bytes it has put at the start of
  the destination.
\<close>

record 'd IDataExchanger =
  ex_send :: "byte_t list \<Rightarrow> 'd \<Rightarrow> (size_t \<times> 'd) result"
  ex_receive :: "size_t \<Rightarrow> 'd \<Rightarrow> (size_t \<times> byte_t list \<times> 'd) result"
  isSenderConnected :: "'d \<Rightarrow> bool"
  isReceiverConnected :: "'d \<Rightarrow> bool"

definition isConnected :: "'d IDataExchanger \<Rightarrow> 'd \<Rightarrow> bool" where
  "isConnected ex d \<longleftrightarrow> isReceiverConnected ex d \<and> isSenderConnected ex d"

definition MAX_VECTOR :: nat where
  "MAX_VECTOR = 2 ^ 63 - 1"

text \<open>The vector versions: a zeroed vector of the requested size, cut or grown to what the call returned.\<close>

definition receive_vector :: "'d IDataExchanger \<Rightarrow> size_t \<Rightarrow> 'd \<Rightarrow> (byte_t list \<times> 'd) result" where
  "receive_vector ex n d =
     (if unat n > MAX_VECTOR then Inl Length_error
      else bind_result (ex_receive ex n d) (\<lambda>(receivedBytes, bs, d').
        bind_result (memcpy_to (replicate (unat n) 0) 0 bs) (\<lambda>ret.
          if unat receivedBytes > MAX_VECTOR then Inl Length_error
          else Inr (take (unat receivedBytes) ret @ replicate (unat receivedBytes - unat n) 0, d'))))"

definition send_vector :: "'d IDataExchanger \<Rightarrow> byte_t list \<Rightarrow> 'd \<Rightarrow> (size_t \<times> 'd) result" where
  "send_vector ex v d = ex_send ex v d"

text \<open>The adapter over a queue with \<open>push\<close> and \<open>pop\<close>.\<close>

definition QueueAdapter :: "(byte_t list \<Rightarrow> 'q \<Rightarrow> 'q) \<Rightarrow> (size_t \<Rightarrow> 'q \<Rightarrow> byte_t list \<times> 'q) \<Rightarrow> 'q IDataExchanger" where
  "QueueAdapter push pop =
     \<lparr>ex_send = (\<lambda>bs q. Inr (of_nat (length bs), push bs q)),
      ex_receive = (\<lambda>n q. case pop n q of (bs, q') \<Rightarrow> Inr (n, bs, q')),
      isSenderConnected = (\<lambda>_. True),
      isReceiverConnected = (\<lambda>_. True)\<rparr>"

section \<open>Sending and receiving objects\<close>

partial_function (option) send_loop ::
    "'d IDataExchanger \<Rightarrow> byte_t list \<Rightarrow> size_t \<Rightarrow> size_t \<Rightarrow> 'd \<Rightarrow> (size_t \<times> 'd) result option" where
  "send_loop ex buf n sentBytes d =
     (case ex_send ex (take (unat (n - sentBytes)) (drop (unat sentBytes) buf)) d of
        Inl e \<Rightarrow> Some (Inl e)
      | Inr (k, d') \<Rightarrow>
          if sentBytes + k < n then send_loop ex buf n (sentBytes + k) d'
          else Some (Inr (sentBytes + k, d')))"

partial_function (option) receive_loop ::
    "'d IDataExchanger \<Rightarrow> byte_t list \<Rightarrow> size_t \<Rightarrow> size_t \<Rightarrow> 'd \<Rightarrow> (byte_t list \<times> 'd) result option" where
  "receive_loop ex buf n receivedBytes d =
     (case ex_receive ex (n - receivedBytes) d of Inl e \<Rightarrow> Some (Inl e) | Inr (k, bs, d') \<Rightarrow>
        case memcpy_to buf (unat receivedBytes) bs of
          Inl e \<Rightarrow> Some (Inl e)
        | Inr buf' \<Rightarrow>
            if receivedBytes + k < n then receive_loop ex buf' n (receivedBytes + k) d'
            else Some (Inr (buf', d')))"

definition send_sized :: "'d IDataExchanger \<Rightarrow> byte_t list \<Rightarrow> size_t \<Rightarrow> 'd \<Rightarrow> (size_t \<times> 'd) result option" where
  "send_sized ex buf n d =
     Option.bind (send_loop ex (bytes8 n) 8 0 d) (\<lambda>r. case r of
         Inl e \<Rightarrow> Some (Inl e)
       | Inr (_, d1) \<Rightarrow> send_loop ex buf n 0 d1)"

definition sendObject :: "'d IDataExchanger \<Rightarrow> byte_t list \<Rightarrow> size_t \<Rightarrow> 'd \<Rightarrow> (size_t \<times> 'd) result option" where
  "sendObject ex buf n d = send_sized ex buf n d"

text \<open>
  The header's variable is not initialised before the first call: its bytes are the
  argument \<open>garbage\<close>.
\<close>

definition receive_sized ::
    "string \<Rightarrow> string \<Rightarrow> 'd IDataExchanger \<Rightarrow> byte_t list \<Rightarrow> (size_t \<Rightarrow> byte_t list result) \<Rightarrow> size_t \<Rightarrow> 'd
     \<Rightarrow> (byte_t list \<times> 'd) result option" where
  "receive_sized fn msg ex garbage buffer maxSize d =
     Option.bind (receive_loop ex garbage 8 0 d) (\<lambda>r. case r of
         Inl e \<Rightarrow> Some (Inl e)
       | Inr (h, d1) \<Rightarrow>
           let incomingObjectSize = word8 h in
           if incomingObjectSize > maxSize then Some (Inl (RUNTIME_ERROR fn msg))
           else case buffer incomingObjectSize of
               Inl e \<Rightarrow> Some (Inl e)
             | Inr b \<Rightarrow> receive_loop ex b incomingObjectSize 0 d1)"

definition receiveObject ::
    "'d IDataExchanger \<Rightarrow> byte_t list \<Rightarrow> byte_t list \<Rightarrow> size_t \<Rightarrow> 'd \<Rightarrow> (byte_t list \<times> 'd) result option" where
  "receiveObject ex garbage buffer bufferSize d =
     receive_sized ''receiveObject'' ''Incoming object size greater then buffer size'' ex garbage (\<lambda>_. Inr buffer) bufferSize d"

text \<open>Text: the same, with a fresh string of the announced size on the receiving side.\<close>

definition sendText :: "'d IDataExchanger \<Rightarrow> byte_t list \<Rightarrow> 'd \<Rightarrow> (size_t \<times> 'd) result option" where
  "sendText ex s d = send_sized ex s (of_nat (length s)) d"

definition receiveText :: "'d IDataExchanger \<Rightarrow> byte_t list \<Rightarrow> size_t \<Rightarrow> 'd \<Rightarrow> (byte_t list \<times> 'd) result option" where
  "receiveText ex garbage maxTextSize d =
     receive_sized ''receiveText'' ''Incoming object size greater then maxTextSize'' ex garbage
       (\<lambda>n. if unat n > MAX_VECTOR then Inl Length_error else Inr (replicate (unat n) 0)) maxTextSize d"

section \<open>Peers that make progress\<close>

text \<open>
  The contract of a connected peer: \<open>out\<close> is what it has been sent, \<open>inc\<close> what it will
  deliver. A call may transfer fewer bytes than asked for, but at least one.
\<close>

locale peer =
  fixes ex :: "'d IDataExchanger" and out :: "'d \<Rightarrow> byte_t list" and inc :: "'d \<Rightarrow> byte_t list"
  assumes send_returns: "length bs < 2 ^ 64 \<Longrightarrow> is_ok (ex_send ex bs d)"
    and receive_returns: "unat n \<le> length (inc d) \<Longrightarrow> is_ok (ex_receive ex n d)"
    and send_progress: "ex_send ex bs d = Inr (k, d') \<Longrightarrow> length bs < 2 ^ 64 \<Longrightarrow>
      unat k \<le> length bs \<and> (bs \<noteq> [] \<longrightarrow> 0 < unat k) \<and> out d' = out d @ take (unat k) bs"
    and receive_progress: "ex_receive ex n d = Inr (k, bs, d') \<Longrightarrow> unat n \<le> length (inc d) \<Longrightarrow>
      unat k \<le> unat n \<and> (n \<noteq> 0 \<longrightarrow> 0 < unat k) \<and> bs = take (unat k) (inc d) \<and> inc d' = drop (unat k) (inc d)"
begin

lemma send_loop_ok:
  assumes "unat sent \<le> unat n" "unat n = length buf"
  shows "\<exists>d'. send_loop ex buf n sent d = Some (Inr (n, d')) \<and> out d' = out d @ drop (unat sent) buf"
  using assms
proof (induction "length buf - unat sent" arbitrary: sent d rule: less_induct)
  case less
  let ?rest = "drop (unat sent) buf"
  have len: "length ?rest = unat n - unat sent" "length ?rest < 2 ^ 64"
    using less.prems unat_lt_size [of n] by simp_all
  obtain k d' where sd: "ex_send ex ?rest d = Inr (k, d')"
    using send_returns [OF len(2), of d] by (auto simp: is_ok_iff)
  have pr: "unat k \<le> length ?rest" "?rest \<noteq> [] \<longrightarrow> 0 < unat k" "out d' = out d @ take (unat k) ?rest"
    using send_progress [OF sd len(2)] by auto
  have "unat sent + unat k \<le> unat n"
    using pr(1) len(1) less.prems by linarith
  then have sum: "unat (sent + k) = unat sent + unat k"
    by (intro unat_plus_lt) (rule le_less_trans [OF _ unat_lt_size])
  have all: "take (unat (n - sent)) ?rest = ?rest"
    using less.prems by (simp add: unat_minus_le)
  have unfold: "send_loop ex buf n sent d =
      (if sent + k < n then send_loop ex buf n (sent + k) d' else Some (Inr (sent + k, d')))"
    by (subst send_loop.simps) (simp add: all sd)
  show ?case
  proof (cases "sent + k < n")
    case True
    then have lt: "unat sent + unat k < unat n"
      by (simp add: word_less_nat_alt sum)
    then have "?rest \<noteq> []"
      using less.prems by auto
    then have "length buf - unat (sent + k) < length buf - unat sent"
      using pr(2) lt less.prems sum by simp
    then obtain d'' where "send_loop ex buf n (sent + k) d' = Some (Inr (n, d''))" "out d'' = out d' @ drop (unat (sent + k)) buf"
      using less.hyps [of "sent + k" d'] less.prems lt sum by auto
    then show ?thesis
      using unfold True pr(3) sum by (simp add: add.commute) (metis append_take_drop_id drop_drop)
  next
    case False
    then have "unat sent + unat k = unat n"
      using pr(1) len(1) less.prems sum by (simp add: word_less_nat_alt)
    then have "sent + k = n" "unat k = length ?rest"
      using sum len(1) by (simp_all add: word_unat_eq_iff)
    then show ?thesis
      using unfold False pr(3) by simp
  qed
qed

lemma blit_take_split:
  assumes "got + k \<le> n" "n \<le> length buf" "n - got \<le> length xs"
  shows "blit (blit buf got (take k xs)) (got + k) (take (n - (got + k)) (drop k xs)) = blit buf got (take (n - got) xs)"
proof -
  have "k + (n - (got + k)) = n - got"
    using assms(1) by linarith
  then have "take k xs @ take (n - (got + k)) (drop k xs) = take (n - got) xs"
    by (metis take_add)
  moreover have "length (take k xs) = k" "got + k + length (take (n - (got + k)) (drop k xs)) \<le> length buf"
    using assms by auto
  ultimately show ?thesis
    using blit_append [of got "take k xs" "take (n - (got + k)) (drop k xs)" buf] by simp
qed

text \<open>One round of the loop.\<close>

lemma receive_round:
  assumes "unat got \<le> unat n" "unat n \<le> length buf" "unat n - unat got \<le> length (inc d)"
  obtains k d' where "unat (got + k) = unat got + unat k" "unat got + unat k \<le> unat n" "unat got < unat n \<longrightarrow> 0 < unat k"
    "inc d' = drop (unat k) (inc d)"
    "receive_loop ex buf n got d = (if got + k < n then receive_loop ex (blit buf (unat got) (take (unat k) (inc d))) n (got + k) d'
      else Some (Inr (blit buf (unat got) (take (unat k) (inc d)), d')))"
proof -
  have m: "unat (n - got) = unat n - unat got"
    using assms by (simp add: unat_minus_le)
  obtain k bs d' where rc: "ex_receive ex (n - got) d = Inr (k, bs, d')"
    using receive_returns [of "n - got" d] m assms by (auto simp: is_ok_iff)
  have pr: "unat k \<le> unat n - unat got" "n - got \<noteq> 0 \<longrightarrow> 0 < unat k" "bs = take (unat k) (inc d)" "inc d' = drop (unat k) (inc d)"
    using receive_progress [OF rc] m assms by auto
  have le: "unat got + unat k \<le> unat n"
    using pr(1) assms by linarith
  then have sum: "unat (got + k) = unat got + unat k"
    by (intro unat_plus_lt) (rule le_less_trans [OF _ unat_lt_size])
  have "memcpy_to buf (unat got) bs = Inr (blit buf (unat got) bs)"
    using pr(1,3) assms by (simp add: memcpy_to_def)
  then have "receive_loop ex buf n got d =
      (if got + k < n then receive_loop ex (blit buf (unat got) bs) n (got + k) d' else Some (Inr (blit buf (unat got) bs, d')))"
    by (subst receive_loop.simps) (simp add: rc)
  moreover have "unat got < unat n \<longrightarrow> 0 < unat k"
    using pr(2) by auto
  ultimately show thesis
    using that [OF sum le _ pr(4)] pr(3) by simp
qed

lemma receive_loop_ok:
  assumes "unat got \<le> unat n" "unat n \<le> length buf" "unat n - unat got \<le> length (inc d)"
  shows "\<exists>d'. receive_loop ex buf n got d =
      Some (Inr (blit buf (unat got) (take (unat n - unat got) (inc d)), d')) \<and>
    inc d' = drop (unat n - unat got) (inc d)"
  using assms
proof (induction "unat n - unat got" arbitrary: got buf d rule: less_induct)
  case less
  obtain k d' where sum: "unat (got + k) = unat got + unat k" and le: "unat got + unat k \<le> unat n"
    and pos: "unat got < unat n \<longrightarrow> 0 < unat k" and inc: "inc d' = drop (unat k) (inc d)"
    and unfold: "receive_loop ex buf n got d = (if got + k < n then receive_loop ex (blit buf (unat got) (take (unat k) (inc d))) n (got + k) d'
      else Some (Inr (blit buf (unat got) (take (unat k) (inc d)), d')))"
    by (rule receive_round [OF less.prems])
  let ?buf = "blit buf (unat got) (take (unat k) (inc d))"
  show ?case
  proof (cases "got + k < n")
    case True
    then have lt: "unat got + unat k < unat n"
      by (simp add: word_less_nat_alt sum)
    then have dec: "unat n - unat (got + k) < unat n - unat got"
      using pos sum by simp
    have pre: "unat (got + k) \<le> unat n" "unat n \<le> length ?buf" "unat n - unat (got + k) \<le> length (inc d')"
      using less.prems lt sum inc by simp_all
    have "blit ?buf (unat (got + k)) (take (unat n - unat (got + k)) (inc d')) = blit buf (unat got) (take (unat n - unat got) (inc d))"
      using blit_take_split [of "unat got" "unat k" "unat n" buf "inc d"] inc sum lt less.prems by simp
    then show ?thesis
      using less.hyps [OF dec pre] unfold True inc sum lt by auto
  next
    case False
    then have "unat k = unat n - unat got"
      using le sum by (simp add: word_less_nat_alt)
    then show ?thesis
      using unfold False inc by simp
  qed
qed

lemma send_sized_ok:
  assumes "unat n = length buf"
  shows "\<exists>d'. send_sized ex buf n d = Some (Inr (n, d')) \<and> out d' = out d @ bytes8 n @ buf"
proof -
  obtain d1 where "send_loop ex (bytes8 n) 8 0 d = Some (Inr (8, d1))" "out d1 = out d @ bytes8 n"
    using send_loop_ok [of 0 8 "bytes8 n" d] by auto
  moreover obtain d' where "send_loop ex buf n 0 d1 = Some (Inr (n, d'))" "out d' = out d1 @ buf"
    using send_loop_ok [of 0 n buf d1] assms by auto
  ultimately show ?thesis
    by (simp add: send_sized_def)
qed

lemma receive_sized_ok:
  assumes "length garbage = 8" "inc d = bytes8 n @ data @ rest" "unat n = length data"
    and "n \<le> maxSize" "buffer n = Inr b" "length data \<le> length b"
  shows "\<exists>d'. receive_sized fn msg ex garbage buffer maxSize d = Some (Inr (blit b 0 data, d')) \<and> inc d' = rest"
proof -
  obtain d1 where 1: "receive_loop ex garbage 8 0 d = Some (Inr (bytes8 n, d1))" "inc d1 = data @ rest"
    using receive_loop_ok [of 0 8 garbage d] assms(1,2) by (auto simp: blit_def)
  moreover obtain d' where "receive_loop ex b n 0 d1 = Some (Inr (blit b 0 data, d'))" "inc d' = rest"
    using receive_loop_ok [of 0 n b d1] 1(2) assms(3,6) by auto
  ultimately show ?thesis
    using assms(4,5) by (auto simp: receive_sized_def)
qed

end

text \<open>A queue used through the adapter keeps the contract: its \<open>send\<close> and \<open>receive\<close> are complete.\<close>

definition fifo_adapter :: "byte_t list IDataExchanger" where
  "fifo_adapter = QueueAdapter (\<lambda>bs q. q @ bs) (\<lambda>n q. (take (unat n) q, drop (unat n) q))"

interpretation adapter: peer fifo_adapter "\<lambda>q. q" "\<lambda>q. q"
proof (unfold_locales, goal_cases)
  case (3 bs d k d')
  then have "unat k = length bs" "d' = d @ bs"
    by (auto simp: fifo_adapter_def QueueAdapter_def unat_of_nat_size)
  then show ?case by auto
next
  case (4 n d k bs d')
  then show ?case
    by (auto simp: fifo_adapter_def QueueAdapter_def unat_gt_0)
qed (simp_all add: fifo_adapter_def QueueAdapter_def)

text \<open>A stream connection that delivers in fragments: its state is what was sent, what is to
  come, and the sizes of the next fragments.\<close>

definition fragment :: "nat list \<Rightarrow> nat \<Rightarrow> nat" where
  "fragment fs n = (case fs of [] \<Rightarrow> n | f # _ \<Rightarrow> min n (max 1 f))"

definition fragmenting :: "(byte_t list \<times> byte_t list \<times> nat list) IDataExchanger" where
  "fragmenting =
     \<lparr>ex_send = (\<lambda>bs (o', i, fs). let k = fragment fs (length bs) in Inr (of_nat k, (o' @ take k bs, i, tl fs))),
      ex_receive = (\<lambda>n (o', i, fs). let k = fragment fs (unat n) in Inr (of_nat k, take k i, (o', drop k i, tl fs))),
      isSenderConnected = (\<lambda>_. True), isReceiverConnected = (\<lambda>_. True)\<rparr>"

lemma fragment_bounds: "fragment fs n \<le> n" "0 < fragment fs n \<or> n = 0"
  by (auto simp: fragment_def split: list.splits)

interpretation frag: peer fragmenting fst "\<lambda>d. fst (snd d)"
proof
  fix bs :: "byte_t list" and d d' :: "byte_t list \<times> byte_t list \<times> nat list" and k
  assume 1: "ex_send fragmenting bs d = Inr (k, d')" "length bs < 2 ^ 64"
  then have "fragment (snd (snd d)) (length bs) < 2 ^ 64"
    using fragment_bounds(1) [of "snd (snd d)" "length bs"] by linarith
  then have "unat k = fragment (snd (snd d)) (length bs)"
    using 1(1) by (auto simp: fragmenting_def Let_def unat_of_nat_size split: prod.splits)
  then show "unat k \<le> length bs \<and> (bs \<noteq> [] \<longrightarrow> 0 < unat k) \<and> fst d' = fst d @ take (unat k) bs"
    using 1 fragment_bounds [of "snd (snd d)" "length bs"] by (auto simp: fragmenting_def Let_def split: prod.splits)
next
  fix n k :: size_t and d d' :: "byte_t list \<times> byte_t list \<times> nat list" and bs
  assume 2: "ex_receive fragmenting n d = Inr (k, bs, d')" "unat n \<le> length (fst (snd d))"
  have "fragment (snd (snd d)) (unat n) < 2 ^ 64"
    using le_less_trans [OF fragment_bounds(1) unat_lt_size [of n]] by simp
  then have "unat k = fragment (snd (snd d)) (unat n)"
    using 2(1) by (auto simp: fragmenting_def Let_def unat_of_nat_size split: prod.splits)
  moreover have "n \<noteq> 0 \<longrightarrow> 0 < unat n"
    by (simp add: unat_gt_0)
  ultimately show "unat k \<le> unat n \<and> (n \<noteq> 0 \<longrightarrow> 0 < unat k) \<and> bs = take (unat k) (fst (snd d)) \<and>
      fst (snd d') = drop (unat k) (fst (snd d))"
    using 2 fragment_bounds [of "snd (snd d)" "unat n"] by (auto simp: fragmenting_def Let_def split: prod.splits)
qed (auto simp: fragmenting_def Let_def split: prod.splits)

section \<open>Properties\<close>

text \<open>C13: an object sent with \<open>ObjectSender\<close> is the object received with \<open>ObjectReceiver\<close>.
  Between any two peers that keep the contract, however they fragment the stream, both
  calls return, the sender reports the object's size, and the receiver's buffer starts
  with the object's bytes and is otherwise unchanged, whatever the uninitialised header
  variable held.\<close>

theorem ObjectSender_ObjectReceiver_roundtrip:
  assumes "peer ex1 out1 inc1" "peer ex2 out2 inc2"
    and "unat n = length obj" "length garbage = 8" "n \<le> bufferSize" "unat bufferSize = length buffer"
    and "\<And>d1'. out1 d1' = out1 d1 @ bytes8 n @ obj \<Longrightarrow> inc2 (link d1') = bytes8 n @ obj @ rest"
  shows "\<exists>d1' d2'. sendObject ex1 obj n d1 = Some (Inr (n, d1')) \<and>
    receiveObject ex2 garbage buffer bufferSize (link d1') = Some (Inr (obj @ drop (length obj) buffer, d2')) \<and>
    inc2 d2' = rest"
proof -
  obtain d1' where d1': "sendObject ex1 obj n d1 = Some (Inr (n, d1'))" "out1 d1' = out1 d1 @ bytes8 n @ obj"
    using peer.send_sized_ok [OF assms(1,3)] by (auto simp: sendObject_def)
  have "length obj \<le> length buffer"
    using assms(3,5,6) by (simp add: word_le_nat_alt)
  then obtain d2' where "receiveObject ex2 garbage buffer bufferSize (link d1') = Some (Inr (blit buffer 0 obj, d2'))"
    "inc2 d2' = rest"
    using peer.receive_sized_ok [OF assms(2,4) assms(7) [OF d1'(2)] assms(3,5), of "\<lambda>_. Inr buffer" buffer]
    by (auto simp: receiveObject_def)
  then show ?thesis
    using d1' by (auto simp: blit_def)
qed

theorem ObjectSender_ObjectReceiver_roundtrip_witness:
  "\<exists>d1' d2'. sendObject fragmenting [1, 2, 3] 3 ([], [], [3, 0, 9, 2]) = Some (Inr (3, d1')) \<and>
     receiveObject fragmenting (replicate 8 255) [0, 0, 0, 0] 4 ([], fst d1', [1, 2]) = Some (Inr ([1, 2, 3, 0], d2'))"
proof -
  have "peer fragmenting fst (\<lambda>d. fst (snd d))"
    by (rule frag.peer_axioms)
  from ObjectSender_ObjectReceiver_roundtrip [OF this this, of 3 "[1, 2, 3]" "replicate 8 255" 4 "[0, 0, 0, 0]"
      "([], [], [3, 0, 9, 2])" "\<lambda>d. ([], fst d, [1, 2])" "[]"]
  show ?thesis
    by auto
qed

lemma receive_loop_hangs_at:
  assumes "ex_receive ex (n - got) d = Inr (0, [], d)" "got < n" "unat got \<le> length buf"
  shows "receive_loop ex buf n got d = None"
proof (rule ccontr)
  let ?P = "\<lambda>e (b :: byte_t list) m g d' y. \<not> (e = ex \<and> b = buf \<and> m = n \<and> g = got \<and> d' = d)"
  assume "receive_loop ex buf n got d \<noteq> None"
  then obtain y where y: "receive_loop ex buf n got d = Some y" by auto
  have "?P ex buf n got d y"
  proof (rule receive_loop.raw_induct [where P = ?P, OF _ y], rule notI, elim conjE)
    fix loop e b m g d' y
    assume IH: "\<And>e b m g d' y. loop e b m g d' = Some y \<Longrightarrow> ?P e b m g d' y"
      and eq: "(case ex_receive e (m - g) d' of Inl e \<Rightarrow> Some (Inl e) | Inr (k, bs, d'') \<Rightarrow>
        case memcpy_to b (unat g) bs of Inl e \<Rightarrow> Some (Inl e)
        | Inr buf' \<Rightarrow> if g + k < m then loop e buf' m (g + k) d'' else Some (Inr (buf', d''))) = Some y"
      and same: "e = ex" "b = buf" "m = n" "g = got" "d' = d"
    have "memcpy_to buf (unat got) [] = Inr buf"
      using assms(3) by (simp add: memcpy_to_def blit_def)
    then have "loop ex buf n got d = Some y"
      using eq assms(1,2) by (simp add: same)
    then show False
      using IH [of ex buf n got d y] by simp
  qed
  then show False by simp
qed

text \<open>a closed connection hangs the receiver. When the peer is gone and \<open>receive\<close> keeps
  returning 0, \<open>receiveObject\<close> and \<open>receiveText\<close> never return: their loops do not look at
  the connection.\<close>

theorem receiveObject_hangs_when_closed:
  assumes "\<And>n. ex_receive ex n d = Inr (0, [], d)" and "length garbage = 8"
  shows "receiveObject ex garbage buffer bufferSize d = None \<and> receiveText ex garbage maxTextSize d = None"
  using receive_loop_hangs_at [OF assms(1), of 0 8 garbage] assms(2)
  by (simp add: receiveObject_def receiveText_def receive_sized_def)

definition closed_peer :: "unit IDataExchanger" where
  "closed_peer = \<lparr>ex_send = (\<lambda>_ d. Inr (0, d)), ex_receive = (\<lambda>_ d. Inr (0, [], d)),
     isSenderConnected = (\<lambda>_. False), isReceiverConnected = (\<lambda>_. False)\<rparr>"

theorem receiveObject_hangs_when_closed_witness:
  "receiveObject closed_peer (replicate 8 0) [0, 0] 2 () = None \<and> receiveText closed_peer (replicate 8 0) 100 () = None"
  using receiveObject_hangs_when_closed [of closed_peer "()" "replicate 8 0"] by (simp add: closed_peer_def)

end
