(* ===== verification/Rpc.thy ===== *)
theory Rpc
  imports BinarySerializer DataTransfer
begin

text \<open>
  Remote procedure calls, \<^verbatim>\<open>src/headers/rpc/\<close>\<open>{RpcCommon, RerBuilding, RpcClient, RpcServer}.h\<close>
  with \<^verbatim>\<open>src/src/rpc/\<close>\<open>{RpcClient, RpcServer}.cpp\<close>. A template parameter pack is the list of its
  types; values are numbers as in \<open>BinarySerializer\<close>; \<open>'a\<close> is the state of the application
  the registered functions work on.
\<close>

section \<open>The execution request\<close>

type_synonym FunctionId = uint32

record RpcExecutionRequest =
  magic :: uint32
  functionId :: FunctionId
  params :: "uint64 list"
  paramCount :: uint8

definition MAGIC :: uint32 where "MAGIC = 0xDEADBEEF"

definition MAGIC_FOR_EMPTY_REQUESTS :: uint32 where "MAGIC_FOR_EMPTY_REQUESTS = 0xFFFFFFFF"

definition MAX_PARAM_COUNT :: nat where "MAX_PARAM_COUNT = 6"

definition RER_empty :: RpcExecutionRequest where
  "RER_empty = \<lparr>magic = MAGIC_FOR_EMPTY_REQUESTS, functionId = 0, params = replicate MAX_PARAM_COUNT 0, paramCount = 0\<rparr>"

definition RER_new :: "FunctionId \<Rightarrow> uint8 \<Rightarrow> RpcExecutionRequest result" where
  "RER_new fid n =
     (if unat n > MAX_PARAM_COUNT then Inl (RUNTIME_ERROR ''RpcExecutionRequest'' ''Invalid paramCount'')
      else Inr \<lparr>magic = MAGIC, functionId = fid, params = replicate MAX_PARAM_COUNT 0, paramCount = n\<rparr>)"

definition checkIntegrity :: "RpcExecutionRequest \<Rightarrow> bool" where
  "checkIntegrity rer \<longleftrightarrow> magic rer = MAGIC \<and> unat (paramCount rer) < MAX_PARAM_COUNT"

text \<open>The class is packed: its object representation has no padding.\<close>

definition sizeof_RER :: nat where "sizeof_RER = 4 + 4 + 8 * MAX_PARAM_COUNT + 1"

definition RER_bytes :: "RpcExecutionRequest \<Rightarrow> byte_t list" where
  "RER_bytes rer = bytes4 (magic rer) @ bytes4 (functionId rer) @ concat (map bytes8 (params rer)) @ [paramCount rer]"

definition RER_serialize :: "RpcExecutionRequest \<Rightarrow> byte_t list \<Rightarrow> byte_t list result" where
  "RER_serialize rer outBuffer = memcpy_to outBuffer 0 (RER_bytes rer)"

definition RER_of_bytes :: "byte_t list \<Rightarrow> RpcExecutionRequest" where
  "RER_of_bytes bs =
     \<lparr>magic = word4 (take 4 bs), functionId = word4 (take 4 (drop 4 bs)),
      params = map (\<lambda>i. word8 (take 8 (drop (8 + 8 * i) bs))) [0..<MAX_PARAM_COUNT],
      paramCount = bs ! (8 + 8 * MAX_PARAM_COUNT)\<rparr>"

definition RER_deserialize :: "byte_t list \<Rightarrow> RpcExecutionRequest result" where
  "RER_deserialize inBuffer = bind_result (memcpy_from inBuffer 0 sizeof_RER) (\<lambda>bs. Inr (RER_of_bytes bs))"

definition RER_wf :: "RpcExecutionRequest \<Rightarrow> bool" where
  "RER_wf rer \<longleftrightarrow> length (params rer) = MAX_PARAM_COUNT"

lemma length_concat_bytes8 [simp]: "length (concat (map bytes8 ws)) = 8 * length ws"
  by (induction ws) simp_all

lemma nth_concat_bytes8:
  "i < length ws \<Longrightarrow> take 8 (drop (8 * i) (concat (map bytes8 ws) @ rest)) = bytes8 (ws ! i)"
proof (induction ws arbitrary: i)
  case (Cons w ws)
  then show ?case by (cases i) (simp_all add: add.commute)
qed simp

lemma length_RER_bytes [simp]: "RER_wf rer \<Longrightarrow> length (RER_bytes rer) = sizeof_RER"
  by (simp add: RER_bytes_def RER_wf_def sizeof_RER_def)

lemma RER_of_RER_bytes:
  assumes "RER_wf rer"
  shows "RER_of_bytes (RER_bytes rer) = rer"
proof -
  have "map (\<lambda>i. word8 (take 8 (drop (8 + 8 * i) (RER_bytes rer)))) [0..<MAX_PARAM_COUNT] = params rer"
    using assms nth_concat_bytes8 [of _ "params rer" "[paramCount rer]"]
    by (intro nth_equalityI) (simp_all add: RER_bytes_def RER_wf_def)
  moreover have "RER_bytes rer ! (8 + 8 * MAX_PARAM_COUNT) = paramCount rer"
    using assms by (simp add: RER_bytes_def RER_wf_def nth_append)
  ultimately show ?thesis
    by (simp add: RER_of_bytes_def) (simp add: RER_bytes_def)
qed

lemma RER_deserialize_serialize:
  assumes "RER_wf rer"
  shows "RER_deserialize (RER_bytes rer @ rest) = Inr rer"
  using assms by (simp add: RER_deserialize_def memcpy_from_def RER_of_RER_bytes)

section \<open>Building a request\<close>

text \<open>\<^verbatim>\<open>RerBuilding::build\<close>; the compiler rejects packs of more than \<open>MAX_PARAM_COUNT\<close> arguments.\<close>

fun serializedSizes :: "(cxx_type \<times> nat) list \<Rightarrow> size_t list result" where
  "serializedSizes [] = Inr []"
| "serializedSizes ((ty, v) # args) =
     bind_result (serializedSize ty) (\<lambda>n. bind_result (serializedSizes args) (\<lambda>ns. Inr (n # ns)))"

fun set_sizes :: "nat \<Rightarrow> size_t list \<Rightarrow> RpcExecutionRequest \<Rightarrow> size_t \<Rightarrow> RpcExecutionRequest \<times> size_t" where
  "set_sizes i [] rer totalSize = (rer, totalSize)"
| "set_sizes i (n # ns) rer totalSize = set_sizes (Suc i) ns (rer\<lparr>params := (params rer)[i := n]\<rparr>) (totalSize + n)"

fun serialize_args :: "(cxx_type \<times> nat) list \<Rightarrow> mstream \<Rightarrow> mstream result" where
  "serialize_args [] out = Inr out"
| "serialize_args ((ty, v) # args) out = bind_result (serialize_stream ty v out) (serialize_args args)"

definition build :: "FunctionId \<Rightarrow> (cxx_type \<times> nat) list \<Rightarrow> (RpcExecutionRequest \<times> byte_t list) result" where
  "build fid args =
     bind_result (RER_new fid (of_nat (length args))) (\<lambda>rer.
       if args = [] then Inr (rer, [])
       else bind_result (serializedSizes args) (\<lambda>serBufferSizes.
         case set_sizes 0 serBufferSizes rer 0 of (rer', totalSize) \<Rightarrow>
           if unat totalSize > MAX_VECTOR then Inl Length_error
           else bind_result (serialize_args args (MemoryOStream (replicate (unat totalSize) 0) (unat totalSize))) (\<lambda>out.
             Inr (rer', mem_buffer (memBuff out)))))"

section \<open>The client\<close>

definition sendExeRequest ::
    "'d IDataExchanger \<Rightarrow> RpcExecutionRequest \<Rightarrow> byte_t list \<Rightarrow> size_t \<Rightarrow> 'd \<Rightarrow> (byte_t list \<times> 'd) result" where
  "sendExeRequest ex rer paramsDump replySize d =
     bind_result (RER_serialize rer (replicate (sizeof_RER + length paramsDump) 0)) (\<lambda>b1.
     bind_result (memcpy_to b1 sizeof_RER paramsDump) (\<lambda>b2.
     bind_result (send_vector ex b2 d) (\<lambda>(_, d'). receive_vector ex replySize d')))"

text \<open>The lambda that \<^verbatim>\<open>get<RetType, Args...>(functionId)\<close> returns, applied to its arguments.\<close>

definition reply_size :: "cxx_type \<Rightarrow> size_t result" where
  "reply_size RetType = (if RetType = Void then Inr 1 else serializedSize RetType)"

definition RpcClient_get ::
    "'d IDataExchanger \<Rightarrow> cxx_type \<Rightarrow> FunctionId \<Rightarrow> (cxx_type \<times> nat) list \<Rightarrow> 'd \<Rightarrow> (nat option \<times> 'd) result" where
  "RpcClient_get ex RetType fid args d =
     bind_result (reply_size RetType) (\<lambda>replySize.
     bind_result (build fid args) (\<lambda>(rer, paramsDump).
     bind_result (sendExeRequest ex rer paramsDump replySize d) (\<lambda>(serializedReply, d').
       if RetType = Void then Inr (None, d')
       else bind_result (deserialize_buffer RetType serializedReply (of_nat (length serializedReply))) (\<lambda>v.
         Inr (v, d')))))"

section \<open>The server\<close>

datatype InvalidRequestReason = RER_INTEGRITY_CHECK_FAILED | INVALID_FUNCTION_ID | BAD_PARAMETERS

type_synonym 'a RpcFunction = "RpcExecutionRequest \<Rightarrow> byte_t list \<Rightarrow> 'a \<Rightarrow> (byte_t list \<times> 'a) result"

record 'a RpcFunctionDescriptor =
  rpcFunction :: "'a RpcFunction"
  fd_functionId :: FunctionId

record ('d, 'a) RpcServer =
  dataExchanger :: "'d IDataExchanger"
  funStore :: "FunctionId \<rightharpoonup> 'a RpcFunctionDescriptor"
  invalidRequestEventHandler :: "RpcExecutionRequest \<Rightarrow> InvalidRequestReason \<Rightarrow> bool result"

definition default_handler :: "RpcExecutionRequest \<Rightarrow> InvalidRequestReason \<Rightarrow> bool result" where
  "default_handler rer reason = Inl (RUNTIME_ERROR ''operator()'' (case reason of
     INVALID_FUNCTION_ID \<Rightarrow> ''Invalid request: invalid functionId''
   | BAD_PARAMETERS \<Rightarrow> ''Invalid request: bad parameters''
   | RER_INTEGRITY_CHECK_FAILED \<Rightarrow> ''Invalid request: failed integrity check''))"

definition RpcServer_new :: "'d IDataExchanger \<Rightarrow> ('d, 'a) RpcServer" where
  "RpcServer_new ex = \<lparr>dataExchanger = ex, funStore = Map.empty, invalidRequestEventHandler = default_handler\<rparr>"

definition setInvalidRequestEventHandler ::
    "(RpcExecutionRequest \<Rightarrow> InvalidRequestReason \<Rightarrow> bool result) \<Rightarrow> ('d, 'a) RpcServer \<Rightarrow> ('d, 'a) RpcServer" where
  "setInvalidRequestEventHandler h sv = sv\<lparr>invalidRequestEventHandler := h\<rparr>"

definition registerRpcFunction :: "'a RpcFunction \<Rightarrow> FunctionId \<Rightarrow> ('d, 'a) RpcServer \<Rightarrow> ('d, 'a) RpcServer" where
  "registerRpcFunction f fid sv =
     sv\<lparr>funStore := (funStore sv)(fid \<mapsto> \<lparr>rpcFunction = f, fd_functionId = fid\<rparr>)\<rparr>"

text \<open>
  The arguments of the call \<^verbatim>\<open>function(serializer.deserialize<Args>(memoryIStream)...)\<close> are
  evaluated in an order that the language leaves to the compiler: \<open>order\<close> lists the
  argument positions as they are evaluated.
\<close>

fun deserialize_args :: "cxx_type list \<Rightarrow> nat list \<Rightarrow> nat list \<Rightarrow> mstream \<Rightarrow> (nat list \<times> mstream) result" where
  "deserialize_args tys [] vals s = Inr (vals, s)"
| "deserialize_args tys (i # order) vals s =
     bind_result (deserialize_stream (tys ! i) s) (\<lambda>(v, s').
       deserialize_args tys order (vals[i := (case v of Some x \<Rightarrow> x | None \<Rightarrow> 0)]) s')"

definition typed_function ::
    "nat list \<Rightarrow> cxx_type \<Rightarrow> cxx_type list \<Rightarrow> (nat list \<Rightarrow> 'a \<Rightarrow> (nat \<times> 'a) result) \<Rightarrow> 'a RpcFunction" where
  "typed_function order Result Args f = (\<lambda>_ ps a.
     bind_result (deserialize_args Args order (replicate (length Args) 0) (MemoryIStream ps (length ps))) (\<lambda>(vals, _).
     bind_result (f vals a) (\<lambda>(res, a').
       if Result = Void then Inr ([0], a')
       else bind_result (serialize Result res) (\<lambda>bs. Inr (bs, a')))))"

definition registerFunctionInternal ::
    "nat list \<Rightarrow> cxx_type \<Rightarrow> cxx_type list \<Rightarrow> (nat list \<Rightarrow> 'a \<Rightarrow> (nat \<times> 'a) result) \<Rightarrow> FunctionId
     \<Rightarrow> ('d, 'a) RpcServer \<Rightarrow> ('d, 'a) RpcServer" where
  "registerFunctionInternal order Result Args f fid sv = registerRpcFunction (typed_function order Result Args f) fid sv"

text \<open>The public overloads, for a function pointer and a \<^verbatim>\<open>std::function\<close>, only forward.\<close>

definition registerFunction ::
    "nat list \<Rightarrow> cxx_type \<Rightarrow> cxx_type list \<Rightarrow> (nat list \<Rightarrow> 'a \<Rightarrow> (nat \<times> 'a) result) \<Rightarrow> FunctionId
     \<Rightarrow> ('d, 'a) RpcServer \<Rightarrow> ('d, 'a) RpcServer" where
  "registerFunction order Result Args f fid sv = registerFunctionInternal order Result Args f fid sv"

fun sum_sizes :: "uint64 list \<Rightarrow> nat \<Rightarrow> nat \<Rightarrow> size_t \<Rightarrow> size_t result" where
  "sum_sizes ps i 0 acc = Inr acc"
| "sum_sizes ps i (Suc n) acc = bind_result (vec_get ps i) (\<lambda>s. sum_sizes ps (Suc i) n (acc + s))"

definition receive_parameters ::
    "('d, 'a) RpcServer \<Rightarrow> size_t \<Rightarrow> 'd \<Rightarrow> (byte_t list option \<times> 'd) result" where
  "receive_parameters sv totalParametersSize d =
     (if totalParametersSize > 0 then
        bind_result (receive_vector (dataExchanger sv) totalParametersSize d) (\<lambda>(buf, d').
          Inr (if of_nat (length buf) \<noteq> totalParametersSize then None else Some buf, d'))
      else Inr (Some [], d))"

definition invalid_request ::
    "('d, 'a) RpcServer \<Rightarrow> RpcExecutionRequest \<Rightarrow> InvalidRequestReason \<Rightarrow> 'd \<Rightarrow> 'a \<Rightarrow> (bool \<times> 'd \<times> 'a) result" where
  "invalid_request sv rer reason d a =
     bind_result (invalidRequestEventHandler sv rer reason) (\<lambda>b. Inr (b, d, a))"

definition oneShot :: "('d, 'a) RpcServer \<Rightarrow> 'd \<Rightarrow> 'a \<Rightarrow> (bool \<times> 'd \<times> 'a) result" where
  "oneShot sv d a =
     bind_result (receive_vector (dataExchanger sv) (of_nat sizeof_RER) d) (\<lambda>(serExeRequest, d1).
       if length serExeRequest \<noteq> sizeof_RER then Inr (False, d1, a)
       else bind_result (RER_deserialize serExeRequest) (\<lambda>exeRequest.
         if \<not> checkIntegrity exeRequest then invalid_request sv exeRequest RER_INTEGRITY_CHECK_FAILED d1 a
         else case funStore sv (functionId exeRequest) of
           None \<Rightarrow> invalid_request sv exeRequest INVALID_FUNCTION_ID d1 a
         | Some fd \<Rightarrow>
             bind_result (sum_sizes (params exeRequest) 0 (unat (paramCount exeRequest)) 0) (\<lambda>totalParametersSize.
             bind_result (receive_parameters sv totalParametersSize d1) (\<lambda>(buf, d2).
               case buf of
                 None \<Rightarrow> invalid_request sv exeRequest BAD_PARAMETERS d2 a
               | Some allParametersBuffer \<Rightarrow>
                   bind_result (rpcFunction fd exeRequest allParametersBuffer a) (\<lambda>(result, a').
                   bind_result (send_vector (dataExchanger sv) result d2) (\<lambda>(_, d3). Inr (True, d3, a')))))))"

partial_function (option) run :: "('d, 'a) RpcServer \<Rightarrow> 'd \<Rightarrow> 'a \<Rightarrow> ('d \<times> 'a) result option" where
  "run sv d a =
     (if isConnected (dataExchanger sv) d then
        case oneShot sv d a of
          Inl e \<Rightarrow> Some (Inl e)
        | Inr (connectionStatus, d', a') \<Rightarrow> if connectionStatus then run sv d' a' else Some (Inr (d', a'))
      else Some (Inr (d, a)))"

section \<open>Requests of typed arguments\<close>

text \<open>Arguments of fundamental types: size and value.\<close>

definition typed :: "(nat \<times> nat) list \<Rightarrow> (cxx_type \<times> nat) list" where
  "typed args = map (\<lambda>(n, v). (Fundamental n, v)) args"

definition size_words :: "(nat \<times> nat) list \<Rightarrow> size_t list" where
  "size_words args = map (\<lambda>(n, v). of_nat n) args"

definition request :: "FunctionId \<Rightarrow> (nat \<times> nat) list \<Rightarrow> RpcExecutionRequest" where
  "request fid args =
     \<lparr>magic = MAGIC, functionId = fid, params = blit (replicate MAX_PARAM_COUNT 0) 0 (size_words args),
      paramCount = of_nat (length args)\<rparr>"

lemma typed_simps [simp]: "typed [] = []" "typed ((n, v) # args) = (Fundamental n, v) # typed args"
  "length (typed args) = length args" "typed args = [] \<longleftrightarrow> args = []"
  by (auto simp: typed_def)

lemma size_words_simps [simp]: "size_words [] = []" "size_words ((n, v) # args) = of_nat n # size_words args"
  "length (size_words args) = length args"
  by (simp_all add: size_words_def)

lemma serializedSizes_typed: "serializedSizes (typed args) = Inr (size_words args)"
  by (induction args) (auto simp: serializedSize_def)

lemma serialize_args_typed: "serialize_args (typed args) out = serialize_all args out"
proof (induction args arbitrary: out)
  case (Cons a args)
  then show ?case
    by (cases a) (cases "serialize_stream (Fundamental (fst a)) (snd a) out"; simp)
qed simp

lemma set_sizes_blit:
  "i + length ns \<le> length (params rer) \<Longrightarrow>
   set_sizes i ns rer t = (rer\<lparr>params := blit (params rer) i ns\<rparr>, t + sum_list ns)"
proof (induction ns arbitrary: i rer t)
  case (Cons n ns)
  have "blit ((params rer)[i := n]) (Suc i) ns = blit (params rer) i (n # ns)"
    using Cons.prems by (simp add: blit_def take_Suc_conv_app_nth)
  with Cons show ?case
    by (simp add: add.assoc)
qed (simp add: blit_def)

lemma sum_size_words: "sum_list (size_words args) = of_nat (sum_list (map fst args))"
  by (induction args) auto

lemma build_typed:
  assumes "length args \<le> MAX_PARAM_COUNT" "sum_list (map fst args) \<le> MAX_VECTOR"
  shows "build fid (typed args) = Inr (request fid args, encoded args)"
proof (cases "args = []")
  case True
  then show ?thesis
    by (simp add: build_def RER_new_def request_def MAX_PARAM_COUNT_def blit_def)
next
  case False
  let ?n = "sum_list (map fst args)"
  let ?out = "MemoryOStream (replicate ?n 0) ?n"
  have n: "unat (of_nat ?n :: size_t) = ?n"
    using assms(2) by (simp add: unat_of_nat_size MAX_VECTOR_def)
  have "unat (of_nat (length args) :: uint8) = length args"
    using assms(1) by (simp add: unat_of_nat MAX_PARAM_COUNT_def)
  then have new: "RER_new fid (of_nat (length args)) =
      Inr \<lparr>magic = MAGIC, functionId = fid, params = replicate MAX_PARAM_COUNT 0, paramCount = of_nat (length args)\<rparr>"
    using assms(1) by (simp add: RER_new_def)
  have "stream_wf ?out" "\<not> failed ?out" "pos (memBuff ?out) + length (encoded args) \<le> bufferSize (memBuff ?out)"
    by (simp_all add: MemoryOStream_def MemoryStreamBuf_new_def stream_wf_def)
  from serialize_all_ok [OF this] obtain out where out: "serialize_all args ?out = Inr out"
    "written_bytes out = encoded args" "pos (memBuff out) = ?n" "length (mem_buffer (memBuff out)) = ?n"
    by (auto simp: MemoryOStream_def MemoryStreamBuf_new_def written_bytes_def)
  then have "mem_buffer (memBuff out) = encoded args"
    by (simp add: written_bytes_def)
  then show ?thesis
    using False assms out(1) n
    by (simp add: build_def new serializedSizes_typed serialize_args_typed set_sizes_blit sum_size_words request_def)
qed

lemma request_wf: "length args \<le> MAX_PARAM_COUNT \<Longrightarrow> RER_wf (request fid args)"
  by (simp add: RER_wf_def request_def)

lemma request_fields [simp]: "magic (request fid args) = MAGIC" "functionId (request fid args) = fid"
  "paramCount (request fid args) = of_nat (length args)"
  by (simp_all add: request_def)

lemma sum_sizes_take:
  "i + n \<le> length ps \<Longrightarrow> sum_sizes ps i n acc = Inr (acc + sum_list (take n (drop i ps)))"
proof (induction n arbitrary: i acc)
  case (Suc n)
  then have "drop i ps = ps ! i # drop (Suc i) ps"
    by (simp add: Cons_nth_drop_Suc)
  with Suc show ?case
    by (simp add: add.assoc)
qed simp

lemma sum_sizes_request:
  assumes "length args \<le> MAX_PARAM_COUNT"
  shows "sum_sizes (params (request fid args)) 0 (length args) 0 = Inr (of_nat (sum_list (map fst args)))"
proof -
  have "take (length args) (params (request fid args)) = size_words args"
    by (simp add: request_def blit_def)
  moreover have "length (params (request fid args)) = MAX_PARAM_COUNT"
    using request_wf [OF assms] by (simp add: RER_wf_def)
  ultimately show ?thesis
    using assms by (simp add: sum_sizes_take sum_size_words)
qed

text \<open>Evaluated from left to right, the arguments are the values that were sent.\<close>

lemma deserialize_args_left_to_right:
  assumes "deserialize_all (drop i ns) s = Inr (vs, s')" "length vals = length ns" "i \<le> length ns"
  shows "deserialize_args (map Fundamental ns) [i..<length ns] vals s = Inr (take i vals @ vs, s')"
  using assms
proof (induction "length ns - i" arbitrary: i vals vs s)
  case 0
  then show ?case by simp
next
  case (Suc k)
  then have i: "i < length ns" by simp
  then have dr: "drop i ns = ns ! i # drop (Suc i) ns"
    by (simp add: Cons_nth_drop_Suc)
  obtain v s1 where v: "deserialize_stream (Fundamental (ns ! i)) s = Inr (v, s1)"
    using Suc.prems(1) unfolding dr by (cases "deserialize_stream (Fundamental (ns ! i)) s") auto
  obtain vs' where vs': "deserialize_all (drop (Suc i) ns) s1 = Inr (vs', s')" "vs = the v # vs'"
    using Suc.prems(1) v unfolding dr by (auto simp: bind_result_Inr)
  have "\<exists>x. v = Some x"
    using v by (auto simp: deserialize_stream_def bind_result_Inr split: if_splits)
  then obtain x where x: "v = Some x" by blast
  have "deserialize_args (map Fundamental ns) [Suc i..<length ns] (vals[i := x]) s1 =
      Inr (take (Suc i) (vals[i := x]) @ vs', s')"
    using Suc.hyps(1) [of "Suc i"] Suc.hyps(2) Suc.prems vs' i by simp
  then show ?case
    using i v vs'(2) x Suc.prems(2) by (simp add: upt_rec take_Suc_conv_app_nth)
qed

lemma typed_function_left_to_right:
  assumes "values_ok args" "f (map snd args) a = Inr (res, a')"
  shows "typed_function [0..<length args] (Fundamental m) (map Fundamental (map fst args)) f rer (encoded args) a =
    Inr (le_encode m res, a')"
proof -
  let ?i = "MemoryIStream (encoded args) (length (encoded args))"
  have "stream_wf ?i" "\<not> failed ?i" "unread ?i = encoded args @ []"
    by (simp_all add: MemoryIStream_def MemoryStreamBuf_new_def stream_wf_def unread_def)
  from deserialize_all_ok [OF this assms(1)] obtain s' where
    "deserialize_all (drop 0 (map fst args)) ?i = Inr (map snd args, s')" by auto
  from deserialize_args_left_to_right [OF this, of "replicate (length args) 0"]
  show ?thesis
    using assms(2) by (simp add: typed_function_def serialize_def)
qed

lemma sendExeRequest_sends:
  assumes "RER_wf rer"
  shows "sendExeRequest ex rer ps replySize d =
    bind_result (send_vector ex (RER_bytes rer @ ps) d) (\<lambda>(_, d'). receive_vector ex replySize d')"
  using assms by (simp add: sendExeRequest_def RER_serialize_def memcpy_to_def blit_def)

section \<open>Peers that transfer everything\<close>

text \<open>
  \<open>oneShot\<close> and \<open>sendExeRequest\<close> make a single call per message, so they rely on more than
  \<open>peer\<close> promises: a transfer is complete, as long as the connection is \<open>up\<close> and the
  message is no longer than a limit.
\<close>

locale bounded_peer =
  fixes ex :: "'d IDataExchanger" and out :: "'d \<Rightarrow> byte_t list" and inc :: "'d \<Rightarrow> byte_t list"
    and up :: "'d \<Rightarrow> bool" and limit :: nat
  assumes send_whole: "up d \<Longrightarrow> length bs \<le> limit \<Longrightarrow>
      \<exists>d'. ex_send ex bs d = Inr (of_nat (length bs), d') \<and> out d' = out d @ bs \<and> inc d' = inc d \<and> up d'"
    and receive_whole: "up d \<Longrightarrow> unat n \<le> limit \<Longrightarrow> unat n \<le> length (inc d) \<Longrightarrow>
      \<exists>d'. ex_receive ex n d = Inr (n, take (unat n) (inc d), d') \<and> inc d' = drop (unat n) (inc d) \<and> out d' = out d \<and> up d'"
    and limit_vector: "limit \<le> MAX_VECTOR"
begin

lemma receive_vector_whole:
  assumes "up d" "unat n \<le> limit" "unat n \<le> length (inc d)"
  shows "\<exists>d'. receive_vector ex n d = Inr (take (unat n) (inc d), d') \<and> inc d' = drop (unat n) (inc d) \<and> out d' = out d \<and> up d'"
  using receive_whole [OF assms] limit_vector assms
  by (auto simp: receive_vector_def memcpy_to_def blit_def)

text \<open>A well-formed request for a registered function is served, and nothing else is read.\<close>

lemma oneShot_serves:
  assumes sv: "dataExchanger sv = ex" and fd: "funStore sv fid = Some fd" and up: "up d"
    and args: "length args < MAX_PARAM_COUNT" "sum_list (map fst args) \<le> limit" and lim: "sizeof_RER \<le> limit"
    and inc: "inc d = RER_bytes (request fid args) @ encoded args @ rest"
    and call: "rpcFunction fd (request fid args) (encoded args) a = Inr (reply, a')" "length reply \<le> limit"
  shows "\<exists>d'. oneShot sv d a = Inr (True, d', a') \<and> inc d' = rest \<and> out d' = out d @ reply \<and> up d'"
proof -
  let ?rer = "request fid args"
  let ?n = "sum_list (map fst args)"
  have wf: "RER_wf ?rer"
    using args(1) by (simp add: request_wf)
  have sz: "unat (of_nat sizeof_RER :: size_t) = sizeof_RER"
    by (simp add: sizeof_RER_def MAX_PARAM_COUNT_def)
  have pc: "unat (paramCount ?rer) = length args"
    using args(1) by (simp add: unat_of_nat MAX_PARAM_COUNT_def)
  have n: "unat (of_nat ?n :: size_t) = ?n"
    using args(2) limit_vector by (simp add: unat_of_nat_size MAX_VECTOR_def)
  obtain d1 where d1: "receive_vector ex (of_nat sizeof_RER) d = Inr (RER_bytes ?rer, d1)"
    "inc d1 = encoded args @ rest" "out d1 = out d" "up d1"
    using receive_vector_whole [OF up, of "of_nat sizeof_RER"] wf lim by (auto simp: inc sz)
  have ok: "RER_deserialize (RER_bytes ?rer) = Inr ?rer"
    using RER_deserialize_serialize [OF wf, of "[]"] by simp
  have integrity: "checkIntegrity ?rer"
    using pc args(1) by (simp only: checkIntegrity_def request_fields)
  obtain d2 where d2: "receive_parameters sv (of_nat ?n) d1 = Inr (Some (encoded args), d2)" "inc d2 = rest" "out d2 = out d" "up d2"
  proof (cases "?n = 0")
    case True
    then have "encoded args = []"
      by (metis length_0_conv length_encoded)
    with d1 show ?thesis
      by (intro that [of d1]) (simp_all add: receive_parameters_def True del: sum_list_eq_0_iff)
  next
    case False
    then have "(of_nat ?n :: size_t) > 0"
      using n by (simp only: word_less_nat_alt unat_0)
    then show ?thesis
      using receive_vector_whole [OF d1(4), of "of_nat ?n"] args(2) d1 n that by (auto simp: receive_parameters_def sv)
  qed
  obtain d3 where d3: "ex_send ex reply d2 = Inr (of_nat (length reply), d3)" "out d3 = out d2 @ reply" "inc d3 = inc d2" "up d3"
    using send_whole [OF d2(4) call(2)] by blast
  have "oneShot sv d a = Inr (True, d3, a')"
    using sum_sizes_request [of args fid] args(1) wf d1(1) d2(1) d3(1) call(1) pc
    by (simp add: oneShot_def sv fd ok integrity send_vector_def)
  then show ?thesis
    using d2 d3 by simp
qed

text \<open>The client's call: it sends the request, and returns what the reply that comes says.\<close>

lemma client_gets:
  assumes "up d" "length args \<le> MAX_PARAM_COUNT" "sizeof_RER + sum_list (map fst args) \<le> limit"
    and "reply_size R = Inr n" "unat n = length reply" "length reply \<le> limit" "inc d = reply @ rest"
    and "if R = Void then v = None else deserialize_buffer R reply (of_nat (length reply)) = Inr v"
  shows "\<exists>d'. RpcClient_get ex R fid (typed args) d = Inr (v, d') \<and>
    out d' = out d @ RER_bytes (request fid args) @ encoded args \<and> inc d' = rest \<and> up d'"
proof -
  let ?msg = "RER_bytes (request fid args) @ encoded args"
  have wf: "RER_wf (request fid args)"
    using assms(2) by (simp add: request_wf)
  have b: "build fid (typed args) = Inr (request fid args, encoded args)"
    using assms(2,3) limit_vector by (intro build_typed) auto
  obtain d1 where d1: "ex_send ex ?msg d = Inr (of_nat (length ?msg), d1)" "out d1 = out d @ ?msg" "inc d1 = inc d" "up d1"
    using send_whole [OF assms(1), of ?msg] wf assms(3) by auto
  obtain d2 where d2: "receive_vector ex n d1 = Inr (reply, d2)" "inc d2 = rest" "out d2 = out d1" "up d2"
    using receive_vector_whole [OF d1(4), of n] assms(5,6,7) d1(3) by auto
  have "sendExeRequest ex (request fid args) (encoded args) n d = Inr (reply, d2)"
    using wf d1(1) d2(1) by (simp add: sendExeRequest_sends send_vector_def)
  then show ?thesis
    using assms(4,8) b d1(2) d2 by (auto simp: RpcClient_get_def split: if_splits)
qed

end

locale full_peer =
  fixes ex :: "'d IDataExchanger" and out :: "'d \<Rightarrow> byte_t list" and inc :: "'d \<Rightarrow> byte_t list"
  assumes send_all: "length bs < 2 ^ 64 \<Longrightarrow>
      \<exists>d'. ex_send ex bs d = Inr (of_nat (length bs), d') \<and> out d' = out d @ bs \<and> inc d' = inc d"
    and receive_all: "unat n \<le> length (inc d) \<Longrightarrow>
      \<exists>d'. ex_receive ex n d = Inr (n, take (unat n) (inc d), d') \<and> inc d' = drop (unat n) (inc d) \<and> out d' = out d"

sublocale full_peer \<subseteq> peer
proof
  fix bs d k d'
  assume "ex_send ex bs d = Inr (k, d')" "length bs < 2 ^ 64"
  then have "unat k = length bs" "out d' = out d @ bs"
    using send_all [of bs d] by (auto simp: unat_of_nat_size)
  then show "unat k \<le> length bs \<and> (bs \<noteq> [] \<longrightarrow> 0 < unat k) \<and> out d' = out d @ take (unat k) bs"
    by simp
next
  fix n d k bs d'
  assume "ex_receive ex n d = Inr (k, bs, d')" "unat n \<le> length (inc d)"
  then show "unat k \<le> unat n \<and> (n \<noteq> 0 \<longrightarrow> 0 < unat k) \<and> bs = take (unat k) (inc d) \<and> inc d' = drop (unat k) (inc d)"
    using receive_all [of n d] by (auto simp: unat_gt_0)
qed (use send_all receive_all in \<open>force simp: is_ok_iff\<close>)+

sublocale full_peer \<subseteq> whole: bounded_peer ex out inc "\<lambda>_. True" MAX_VECTOR
  by unfold_locales (use send_all receive_all in \<open>auto simp: MAX_VECTOR_def\<close>)

section \<open>A queue for each direction\<close>

text \<open>The exchanger of a class derived from the queue adapter, whose \<open>push\<close> goes to one queue and whose \<open>pop\<close> takes from another one:
  the state is what was pushed and what is left to pop.\<close>

definition duplex :: "(byte_t list \<times> byte_t list) IDataExchanger" where
  "duplex = QueueAdapter (\<lambda>bs (q, r). (q @ bs, r)) (\<lambda>n (q, r). (take (unat n) r, (q, drop (unat n) r)))"

interpretation duplex: full_peer duplex fst snd
  by unfold_locales (auto simp: duplex_def QueueAdapter_def)

text \<open>Both sides of a call, over any two peers: the server turns the bytes the client sends into the bytes that
  the client needs.\<close>

lemma call_answered:
  assumes client: "bounded_peer exc outc incc upc limc" and server: "bounded_peer exs outs incs ups lims"
    and sv: "dataExchanger sv = exs" "funStore sv fid = Some fd"
    and args: "length args < MAX_PARAM_COUNT" "sizeof_RER + sum_list (map fst args) \<le> min limc lims"
    and call: "rpcFunction fd (request fid args) (encoded args) a = Inr (le_encode m res, a')"
    and m: "m \<le> min limc lims" "res < 256 ^ m"
  shows "\<exists>query reply.
    (\<forall>dc rest. upc dc \<and> incc dc = reply @ rest \<longrightarrow>
      (\<exists>dc'. RpcClient_get exc (Fundamental m) fid (typed args) dc = Inr (Some res, dc') \<and>
        outc dc' = outc dc @ query \<and> incc dc' = rest \<and> upc dc')) \<and>
    (\<forall>ds rest. ups ds \<and> incs ds = query @ rest \<longrightarrow>
      (\<exists>ds'. oneShot sv ds a = Inr (True, ds', a') \<and> outs ds' = outs ds @ reply \<and> incs ds' = rest \<and> ups ds'))"
proof (rule exI [of _ "RER_bytes (request fid args) @ encoded args"], rule exI [of _ "le_encode m res"], intro conjI allI impI)
  fix dc rest
  assume dc: "upc dc \<and> incc dc = le_encode m res @ rest"
  have "limc \<le> MAX_VECTOR"
    using client by (rule bounded_peer.limit_vector)
  then have "unat (of_nat m :: size_t) = m"
    using m(1) by (simp add: unat_of_nat_size MAX_VECTOR_def)
  moreover have "deserialize_buffer (Fundamental m) (le_encode m res) (of_nat (length (le_encode m res))) = Inr (Some res)"
    using m(2) by (simp add: deserialize_buffer_def memcpy_from_def le_roundtrip)
  ultimately show "\<exists>dc'. RpcClient_get exc (Fundamental m) fid (typed args) dc = Inr (Some res, dc') \<and>
      outc dc' = outc dc @ RER_bytes (request fid args) @ encoded args \<and> incc dc' = rest \<and> upc dc'"
    using bounded_peer.client_gets [OF client, of dc args "Fundamental m" "of_nat m" "le_encode m res" rest "Some res" fid] dc args m(1)
    by (simp add: reply_size_def serializedSize_def)
next
  fix ds rest
  assume "ups ds \<and> incs ds = (RER_bytes (request fid args) @ encoded args) @ rest"
  then show "\<exists>ds'. oneShot sv ds a = Inr (True, ds', a') \<and> outs ds' = outs ds @ le_encode m res \<and> incs ds' = rest \<and> ups ds'"
    using bounded_peer.oneShot_serves [OF server sv, of ds args rest a "le_encode m res" a'] args call m(1) by auto
qed

section \<open>Absence of undefined behaviour\<close>

definition no_ub :: "'b result \<Rightarrow> bool" where
  "no_ub r = (case r of Inl (Undefined_behaviour _) \<Rightarrow> False | _ \<Rightarrow> True)"

lemma no_ub_simps [simp]: "no_ub (Inr x)" "no_ub (Inl Length_error)" "no_ub (Inl (RUNTIME_ERROR fn msg))"
  by (simp_all add: no_ub_def RUNTIME_ERROR_def)

lemma no_ub_bind:
  assumes "no_ub m" "\<And>x. m = Inr x \<Longrightarrow> no_ub (f x)"
  shows "no_ub (bind_result m f)"
  using assms by (cases m) (auto simp: no_ub_def)

lemma deserialize_stream_safe:
  assumes "stream_wf s" "\<not> failed s"
  shows "no_ub (deserialize_stream ty s)"
    and "deserialize_stream ty s = Inr (v, s') \<Longrightarrow> stream_wf s' \<and> \<not> failed s'"
proof -
  have "no_ub (deserialize_stream ty s) \<and> (\<forall>v s'. deserialize_stream ty s = Inr (v, s') \<longrightarrow> stream_wf s' \<and> \<not> failed s')"
  proof (cases ty)
    case (Fundamental n)
    then show ?thesis
    proof (cases "n \<le> length (unread s)")
      case True
      with Fundamental read_fits [OF assms True] show ?thesis
        by (auto simp: deserialize_stream_def)
    next
      case False
      with Fundamental read_short [OF assms, of n] show ?thesis
        by (auto simp: deserialize_stream_def)
    qed
  qed (use assms in \<open>auto simp: deserialize_stream_def unsupported_def\<close>)
  then show "no_ub (deserialize_stream ty s)" "deserialize_stream ty s = Inr (v, s') \<Longrightarrow> stream_wf s' \<and> \<not> failed s'"
    by auto
qed

lemma deserialize_args_safe:
  "stream_wf s \<Longrightarrow> \<not> failed s \<Longrightarrow> no_ub (deserialize_args tys order vals s)"
proof (induction order arbitrary: vals s)
  case (Cons i order)
  show ?case
    unfolding deserialize_args.simps
  proof (rule no_ub_bind)
    show "no_ub (deserialize_stream (tys ! i) s)"
      by (rule deserialize_stream_safe(1) [OF Cons.prems])
  next
    fix x
    assume "deserialize_stream (tys ! i) s = Inr x"
    then show "no_ub (case x of (v, s') \<Rightarrow> deserialize_args tys order (vals[i := (case v of Some x \<Rightarrow> x | None \<Rightarrow> 0)]) s')"
      using deserialize_stream_safe(2) [OF Cons.prems] Cons.IH by (cases x) auto
  qed
qed simp

lemma typed_function_safe:
  assumes "\<And>vs a. no_ub (f vs a)"
  shows "no_ub (typed_function order R tys f rer ps a)"
proof -
  have "no_ub (deserialize_args tys order (replicate (length tys) 0) (MemoryIStream ps (length ps)))"
    by (rule deserialize_args_safe) (simp_all add: MemoryIStream_def MemoryStreamBuf_new_def stream_wf_def)
  then show ?thesis
    using assms unfolding typed_function_def
    by (auto intro!: no_ub_bind simp: serialize_def unsupported_def split: cxx_type.splits)
qed

text \<open>A connection that never delivers more than it was asked for, and is itself free of
  undefined behaviour.\<close>

definition honest :: "'d IDataExchanger \<Rightarrow> bool" where
  "honest ex \<longleftrightarrow> (\<forall>bs d. no_ub (ex_send ex bs d)) \<and> (\<forall>n d. no_ub (ex_receive ex n d)) \<and>
     (\<forall>n d k bs d'. ex_receive ex n d = Inr (k, bs, d') \<longrightarrow> length bs \<le> unat n)"

lemma receive_vector_safe:
  assumes "honest ex"
  shows "no_ub (receive_vector ex n d)"
proof -
  have "no_ub (ex_receive ex n d)" "ex_receive ex n d = Inr (k, bs, d') \<Longrightarrow> length bs \<le> unat n" for k bs d'
    using assms unfolding honest_def by blast+
  then show ?thesis
    by (auto intro!: no_ub_bind simp: receive_vector_def memcpy_to_def)
qed

lemma send_vector_safe: "honest ex \<Longrightarrow> no_ub (send_vector ex bs d)"
  by (simp add: honest_def send_vector_def)

lemma RER_deserialize_params:
  "length bs = sizeof_RER \<Longrightarrow> RER_deserialize bs = Inr (RER_of_bytes bs) \<and> length (params (RER_of_bytes bs)) = MAX_PARAM_COUNT"
  by (simp add: RER_deserialize_def memcpy_from_def RER_of_bytes_def)

section \<open>Properties\<close>

text \<open>C9: a remote call computes the registered function. Client and server each have a connection that transfers a
  message whole, as long as it is no longer than a limit (the queues do; a TCP connection may not). A client calls, through
  \<open>RpcClient::get\<close>, a function registered with \<open>registerFunction\<close>, with up to five arguments
  of fundamental types whose values fit, and the server's compiler evaluates arguments from
  left to right. Then there are a request and a reply such that the client, when the reply arrives, sends exactly the request and returns what the function
  returns on the client's arguments in their order, and the server, when the request arrives, calls the function once, sends exactly the reply and goes on;
  neither touches the bytes that follow.\<close>

theorem Rpc_call_correct:
  assumes "bounded_peer exc outc incc upc limc" "bounded_peer exs outs incs ups lims" "dataExchanger sv = exs"
    and "length args < MAX_PARAM_COUNT" "values_ok args" "sizeof_RER + sum_list (map fst args) \<le> min limc lims"
    and "f (map snd args) a = Inr (res, a')" "res < 256 ^ m" "m \<le> min limc lims"
  shows "\<exists>query reply.
    (\<forall>dc rest. upc dc \<and> incc dc = reply @ rest \<longrightarrow>
      (\<exists>dc'. RpcClient_get exc (Fundamental m) fid (typed args) dc = Inr (Some res, dc') \<and>
        outc dc' = outc dc @ query \<and> incc dc' = rest \<and> upc dc')) \<and>
    (\<forall>ds rest. ups ds \<and> incs ds = query @ rest \<longrightarrow>
      (\<exists>ds'. oneShot (registerFunction [0..<length args] (Fundamental m) (map Fundamental (map fst args)) f fid sv) ds a = Inr (True, ds', a') \<and>
        outs ds' = outs ds @ reply \<and> incs ds' = rest \<and> ups ds'))"
  using assms
  by (intro call_answered [where fd = "\<lparr>rpcFunction = typed_function [0..<length args] (Fundamental m)
          (map Fundamental (map fst args)) f, fd_functionId = fid\<rparr>"])
    (simp_all add: registerFunction_def registerFunctionInternal_def registerRpcFunction_def
      typed_function_left_to_right del: map_map)

definition difference :: "nat list \<Rightarrow> nat \<Rightarrow> (nat \<times> nat) result" where
  "difference xs calls = Inr (xs ! 0 - xs ! 1, calls + 1)"

theorem Rpc_call_correct_witness:
  "\<exists>query reply. RpcClient_get duplex (Fundamental 4) 7 [(Fundamental 4, 50), (Fundamental 4, 8)] ([], reply @ [1]) = Inr (Some 42, (query, [1])) \<and>
     oneShot (registerFunction [0, 1] (Fundamental 4) [Fundamental 4, Fundamental 4] difference 7 (RpcServer_new duplex)) ([], query @ [2]) 0 =
       Inr (True, (reply, [2]), 1)"
proof -
  let ?args = "[(4, 50), (4, 8)] :: (nat \<times> nat) list"
  have "\<exists>query reply.
    (\<forall>dc rest. True \<and> snd dc = reply @ rest \<longrightarrow>
      (\<exists>dc'. RpcClient_get duplex (Fundamental 4) 7 (typed ?args) dc = Inr (Some 42, dc') \<and>
        fst dc' = fst dc @ query \<and> snd dc' = rest \<and> True)) \<and>
    (\<forall>ds rest. True \<and> snd ds = query @ rest \<longrightarrow>
      (\<exists>ds'. oneShot (registerFunction [0..<length ?args] (Fundamental 4) (map Fundamental (map fst ?args)) difference 7 (RpcServer_new duplex)) ds 0 =
          Inr (True, ds', 1) \<and> fst ds' = fst ds @ reply \<and> snd ds' = rest \<and> True))"
    by (rule Rpc_call_correct [OF duplex.whole.bounded_peer_axioms duplex.whole.bounded_peer_axioms])
      (simp_all add: MAX_PARAM_COUNT_def MAX_VECTOR_def values_ok_def difference_def RpcServer_new_def sizeof_RER_def)
  then obtain query reply where *: "\<forall>dc rest. True \<and> snd dc = reply @ rest \<longrightarrow>
      (\<exists>dc'. RpcClient_get duplex (Fundamental 4) 7 (typed ?args) dc = Inr (Some 42, dc') \<and> fst dc' = fst dc @ query \<and> snd dc' = rest \<and> True)"
    "\<forall>ds rest. True \<and> snd ds = query @ rest \<longrightarrow>
      (\<exists>ds'. oneShot (registerFunction [0..<length ?args] (Fundamental 4) (map Fundamental (map fst ?args)) difference 7 (RpcServer_new duplex)) ds 0 =
          Inr (True, ds', 1) \<and> fst ds' = fst ds @ reply \<and> snd ds' = rest \<and> True)"
    by blast
  show ?thesis
    using spec [OF spec [OF *(1), of "([], reply @ [1])"], of "[1]"] spec [OF spec [OF *(2), of "([], query @ [2])"], of "[2]"]
    by - (rule exI [of _ query], rule exI [of _ reply], simp add: upt_rec prod_eq_iff)
qed

text \<open>the result of a remote call depends on the server's compiler. The arguments are
  deserialized from one stream by the operands of a single function call, whose order of
  evaluation is not specified: a server whose compiler evaluates them from right to left
  calls a function of two equally sized parameters with its arguments exchanged.\<close>

theorem Rpc_right_to_left_swaps:
  assumes "bounded_peer exc outc incc upc limc" "bounded_peer exs outs incs ups lims" "dataExchanger sv = exs"
    and "x < 256 ^ n" "y < 256 ^ n" "sizeof_RER + (n + n) \<le> min limc lims"
    and "f [y, x] a = Inr (res, a')" "res < 256 ^ m" "m \<le> min limc lims"
  shows "\<exists>query reply.
    (\<forall>dc rest. upc dc \<and> incc dc = reply @ rest \<longrightarrow>
      (\<exists>dc'. RpcClient_get exc (Fundamental m) fid (typed [(n, x), (n, y)]) dc = Inr (Some res, dc') \<and>
        outc dc' = outc dc @ query \<and> incc dc' = rest \<and> upc dc')) \<and>
    (\<forall>ds rest. ups ds \<and> incs ds = query @ rest \<longrightarrow>
      (\<exists>ds'. oneShot (registerFunction [1, 0] (Fundamental m) [Fundamental n, Fundamental n] f fid sv) ds a = Inr (True, ds', a') \<and>
        outs ds' = outs ds @ reply \<and> incs ds' = rest \<and> ups ds'))"
proof -
  let ?args = "[(n, x), (n, y)]"
  let ?i = "MemoryIStream (encoded ?args) (length (encoded ?args))"
  have "stream_wf ?i" "\<not> failed ?i" "unread ?i = encoded ?args @ []" "values_ok ?args"
    using assms(4,5) by (simp_all add: MemoryIStream_def MemoryStreamBuf_new_def stream_wf_def unread_def values_ok_def)
  from deserialize_all_ok [OF this] obtain s1 v1 s2 v2 where
    "deserialize_stream (Fundamental n) ?i = Inr (v1, s1)" "deserialize_stream (Fundamental n) s1 = Inr (v2, s2)"
    "the v1 = x" "the v2 = y"
    by (auto simp: bind_result_Inr)
  moreover have "v1 \<noteq> None" "v2 \<noteq> None"
    using calculation(1,2) by (auto simp: deserialize_stream_def bind_result_Inr split: if_splits)
  ultimately have call: "typed_function [1, 0] (Fundamental m) [Fundamental n, Fundamental n] f (request fid ?args) (encoded ?args) a =
      Inr (le_encode m res, a')"
    using assms(7) by (auto simp: typed_function_def serialize_def numeral_2_eq_2)
  show ?thesis
    using assms call
    by (intro call_answered [where fd = "\<lparr>rpcFunction = typed_function [1, 0] (Fundamental m) [Fundamental n, Fundamental n] f, fd_functionId = fid\<rparr>"])
      (simp_all add: registerFunction_def registerFunctionInternal_def registerRpcFunction_def MAX_PARAM_COUNT_def)
qed

theorem Rpc_right_to_left_swaps_witness:
  "\<exists>query reply. RpcClient_get duplex (Fundamental 4) 7 [(Fundamental 4, 8), (Fundamental 4, 50)] ([], reply) = Inr (Some 42, (query, [])) \<and>
     oneShot (registerFunction [1, 0] (Fundamental 4) [Fundamental 4, Fundamental 4] difference 7 (RpcServer_new duplex)) ([], query) 0 =
       Inr (True, (reply, []), 1)"
proof -
  have "\<exists>query reply.
    (\<forall>dc rest. True \<and> snd dc = reply @ rest \<longrightarrow>
      (\<exists>dc'. RpcClient_get duplex (Fundamental 4) 7 (typed [(4, 8), (4, 50)]) dc = Inr (Some 42, dc') \<and>
        fst dc' = fst dc @ query \<and> snd dc' = rest \<and> True)) \<and>
    (\<forall>ds rest. True \<and> snd ds = query @ rest \<longrightarrow>
      (\<exists>ds'. oneShot (registerFunction [1, 0] (Fundamental 4) [Fundamental 4, Fundamental 4] difference 7 (RpcServer_new duplex)) ds 0 =
          Inr (True, ds', 1) \<and> fst ds' = fst ds @ reply \<and> snd ds' = rest \<and> True))"
    by (rule Rpc_right_to_left_swaps [OF duplex.whole.bounded_peer_axioms duplex.whole.bounded_peer_axioms])
      (simp_all add: MAX_PARAM_COUNT_def MAX_VECTOR_def difference_def RpcServer_new_def sizeof_RER_def)
  then obtain query reply where *: "\<forall>dc rest. True \<and> snd dc = reply @ rest \<longrightarrow>
      (\<exists>dc'. RpcClient_get duplex (Fundamental 4) 7 (typed [(4, 8), (4, 50)]) dc = Inr (Some 42, dc') \<and> fst dc' = fst dc @ query \<and> snd dc' = rest \<and> True)"
    "\<forall>ds rest. True \<and> snd ds = query @ rest \<longrightarrow>
      (\<exists>ds'. oneShot (registerFunction [1, 0] (Fundamental 4) [Fundamental 4, Fundamental 4] difference 7 (RpcServer_new duplex)) ds 0 =
          Inr (True, ds', 1) \<and> fst ds' = fst ds @ reply \<and> snd ds' = rest \<and> True)"
    by blast
  show ?thesis
    using spec [OF spec [OF *(1), of "([], reply)"], of "[]"] spec [OF spec [OF *(2), of "([], query)"], of "[]"]
    by - (rule exI [of _ query], rule exI [of _ reply], simp add: prod_eq_iff)
qed

text \<open>six arguments are built and sent but never served. \<open>MAX_PARAM_COUNT\<close> is 6 for the
  constructor and for \<open>build\<close>, but \<open>checkIntegrity\<close> demands fewer: every request with six
  arguments ends in the server's handler for damaged requests, by default an exception.\<close>

theorem Rpc_six_parameters_rejected:
  assumes "length args = 6" "sum_list (map fst args) \<le> MAX_VECTOR"
  shows "\<exists>rer. build fid (typed args) = Inr (rer, encoded args) \<and>
    oneShot (registerFunction order R tys f fid (RpcServer_new duplex)) ([], RER_bytes rer @ encoded args) a =
      Inl (RUNTIME_ERROR ''operator()'' ''Invalid request: failed integrity check'')"
proof -
  let ?rer = "request fid args"
  let ?d = "([], RER_bytes ?rer @ encoded args)"
  have wf: "RER_wf ?rer"
    using assms(1) by (simp add: request_wf MAX_PARAM_COUNT_def)
  have "unat (of_nat sizeof_RER :: size_t) = sizeof_RER" "sizeof_RER \<le> MAX_VECTOR"
    by (simp_all add: sizeof_RER_def MAX_PARAM_COUNT_def MAX_VECTOR_def)
  then obtain d1 where "receive_vector duplex (of_nat sizeof_RER) ?d = Inr (RER_bytes ?rer, d1)"
    using duplex.whole.receive_vector_whole [of "of_nat sizeof_RER" ?d] wf by auto
  moreover have "RER_deserialize (RER_bytes ?rer) = Inr ?rer"
    using RER_deserialize_serialize [OF wf, of "[]"] by simp
  moreover have "\<not> checkIntegrity ?rer"
    using assms(1) by (simp add: checkIntegrity_def MAX_PARAM_COUNT_def unat_of_nat)
  ultimately show ?thesis
    using assms wf
    by (simp add: build_typed MAX_PARAM_COUNT_def oneShot_def registerFunction_def registerFunctionInternal_def
        registerRpcFunction_def RpcServer_new_def invalid_request_def default_handler_def)
qed

theorem Rpc_six_parameters_rejected_witness:
  "\<exists>rer. build 3 (typed (replicate 6 (1, 0))) = Inr (rer, encoded (replicate 6 (1, 0))) \<and>
    oneShot (registerFunction [0, 1, 2, 3, 4, 5] Void (replicate 6 (Fundamental 1)) (\<lambda>_ a. Inr (0, a)) 3 (RpcServer_new duplex))
      ([], RER_bytes rer @ encoded (replicate 6 (1, 0))) () =
      Inl (RUNTIME_ERROR ''operator()'' ''Invalid request: failed integrity check'')"
  by (rule Rpc_six_parameters_rejected) (simp_all add: MAX_VECTOR_def sum_list_replicate)

text \<open>C10: no message from the peer makes the server misbehave. Whatever bytes arrive, and
  however many the connection delivers per call (never more than it was asked for), a
  server with functions registered through \<open>registerFunction\<close> serves, rejects or raises an
  exception, but never accesses memory outside an object: the parameter table is only
  read below the checked count, and the arguments only inside the received bytes, even
  when the announced sizes overflow.\<close>

theorem RpcServer_memory_safe:
  assumes conn: "honest (dataExchanger sv)"
    and funs: "\<And>fid fd. funStore sv fid = Some fd \<Longrightarrow>
      \<exists>order R tys f. rpcFunction fd = typed_function order R tys f \<and> (\<forall>vs a. no_ub (f vs a))"
    and handler: "\<And>rer reason. no_ub (invalidRequestEventHandler sv rer reason)"
  shows "no_ub (oneShot sv d a)"
proof -
  have inv: "no_ub (invalid_request sv rer reason d a)" for rer reason d a
    unfolding invalid_request_def by (rule no_ub_bind) (simp_all add: handler)
  have call: "no_ub (rpcFunction fd rer ps a)" if "funStore sv fid = Some fd" for fid fd rer ps a
    using funs [OF that] typed_function_safe by metis
  have rest: "no_ub (if \<not> checkIntegrity rer then invalid_request sv rer RER_INTEGRITY_CHECK_FAILED d1 a
      else case funStore sv (functionId rer) of
        None \<Rightarrow> invalid_request sv rer INVALID_FUNCTION_ID d1 a
      | Some fd \<Rightarrow>
          bind_result (sum_sizes (params rer) 0 (unat (paramCount rer)) 0) (\<lambda>total_size.
          bind_result (receive_parameters sv total_size d1) (\<lambda>(buf, d2).
            case buf of None \<Rightarrow> invalid_request sv rer BAD_PARAMETERS d2 a
            | Some ps \<Rightarrow> bind_result (rpcFunction fd rer ps a) (\<lambda>(result, a').
                bind_result (send_vector (dataExchanger sv) result d2) (\<lambda>(_, d3). Inr (True, d3, a'))))))"
    if "length (params rer) = MAX_PARAM_COUNT" for rer d1
  proof (cases "checkIntegrity rer")
    case True
    then have "sum_sizes (params rer) 0 (unat (paramCount rer)) 0 = Inr (sum_list (take (unat (paramCount rer)) (params rer)))"
      using that by (simp add: sum_sizes_take checkIntegrity_def)
    moreover have "no_ub (receive_parameters sv n d1)" for n
      unfolding receive_parameters_def using receive_vector_safe [OF conn]
      by (auto intro!: no_ub_bind split: prod.splits)
    ultimately show ?thesis
      using True call send_vector_safe [OF conn] by (auto intro!: no_ub_bind inv split: option.splits prod.splits)
  qed (simp add: inv)
  show ?thesis
    unfolding oneShot_def
    using receive_vector_safe [OF conn] RER_deserialize_params rest
    by (auto intro!: no_ub_bind split: prod.splits)
qed

definition hostile :: "(size_t \<times> byte_t list) list IDataExchanger" where
  "hostile =
     \<lparr>ex_send = (\<lambda>bs d. Inr (0, d)),
      ex_receive = (\<lambda>n d. case d of [] \<Rightarrow> Inr (0, [], []) | (k, bs) # d' \<Rightarrow> Inr (k, take (unat n) bs, d')),
      isSenderConnected = (\<lambda>_. True), isReceiverConnected = (\<lambda>_. True)\<rparr>"

theorem RpcServer_memory_safe_witness:
  "no_ub (oneShot (registerFunction [0] (Fundamental 4) [Fundamental 4] (\<lambda>vs a. Inr (vs ! 0, a)) 5 (RpcServer_new hostile))
     [(57, RER_bytes \<lparr>magic = MAGIC, functionId = 5, params = [2 ^ 63, 2 ^ 63, 0, 0, 0, 0], paramCount = 2\<rparr>)] ())"
proof (rule RpcServer_memory_safe)
  show "honest (dataExchanger (registerFunction [0] (Fundamental 4) [Fundamental 4]
      (\<lambda>vs a. Inr (vs ! 0, a)) 5 (RpcServer_new hostile)))"
    by (auto simp: registerFunction_def registerFunctionInternal_def registerRpcFunction_def RpcServer_new_def
        hostile_def honest_def split: list.splits)
qed (auto simp: registerFunction_def registerFunctionInternal_def registerRpcFunction_def RpcServer_new_def
    default_handler_def split: if_splits intro!: exI)

end
