(* ===== verification/Reflection.thy ===== *)
theory Reflection
  imports MemoryStream
begin

text \<open>
  Objects described by their properties: \<^verbatim>\<open>src/headers/reflection/\<close>\<open>{Property, Comparable}.h\<close> and
  what is built on them, \<^verbatim>\<open>src/headers/serialization/\<close>\<open>{Binary, Tree}.h\<close>.

  A class with properties is the tuple of its \<^verbatim>\<open>makeProperty\<close> entries, each a member pointer
  (the member's index) and a name, and the types of its members: a property list may leave
  members out, reorder or repeat them. Values of fundamental types are their object representations, as
  numbers; a type says how many bytes they have, which of them are valid and when two are equal.
  For the remaining types the program that uses the library provides \<open>toBinary\<close>,
  \<open>fromBinary\<close> and \<open>operator==\<close>; they are the record \<open>custom\<close>.
\<close>

record Property =
  member_ptr :: nat
  prop_name :: string

text \<open>Integers of a size, \<^verbatim>\<open>bool\<close>, and the floating point types in the format of IEEE 754.\<close>

datatype fundamental = Integral nat | Boolean | Float_t | Double_t

fun fund_size :: "fundamental \<Rightarrow> nat" where
  "fund_size (Integral n) = n"
| "fund_size Boolean = 1"
| "fund_size Float_t = 4"
| "fund_size Double_t = 8"

definition is_nan :: "fundamental \<Rightarrow> nat \<Rightarrow> bool" where
  "is_nan t x = (case t of
     Float_t \<Rightarrow> x div 2 ^ 23 mod 2 ^ 8 = 2 ^ 8 - 1 \<and> x mod 2 ^ 23 \<noteq> 0
   | Double_t \<Rightarrow> x div 2 ^ 52 mod 2 ^ 11 = 2 ^ 11 - 1 \<and> x mod 2 ^ 52 \<noteq> 0
   | _ \<Rightarrow> False)"

definition is_zero :: "fundamental \<Rightarrow> nat \<Rightarrow> bool" where
  "is_zero t x = (case t of Float_t \<Rightarrow> x mod 2 ^ 31 = 0 | Double_t \<Rightarrow> x mod 2 ^ 63 = 0 | _ \<Rightarrow> x = 0)"

text \<open>The built-in \<open>operator==\<close>: no NaN equals anything, and the two zeros are equal.\<close>

definition fund_eq :: "fundamental \<Rightarrow> nat \<Rightarrow> nat \<Rightarrow> bool" where
  "fund_eq t x y \<longleftrightarrow> \<not> is_nan t x \<and> \<not> is_nan t y \<and> (x = y \<or> is_zero t x \<and> is_zero t y)"

datatype otype = TFund fundamental | TOther | TObj "Property list" "otype list"

datatype 'o oval = VFund nat | VOther 'o | VObj "'o oval list"

definition makeProperty :: "nat \<Rightarrow> string \<Rightarrow> Property" where
  "makeProperty m n = \<lparr>member_ptr = m, prop_name = n\<rparr>"

definition HasProperies :: "otype \<Rightarrow> bool" where
  "HasProperies ty = (case ty of TObj _ _ \<Rightarrow> True | _ \<Rightarrow> False)"

record 'o custom =
  toBinary :: "'o \<Rightarrow> mstream \<Rightarrow> mstream result"
  fromBinary :: "'o \<Rightarrow> mstream \<Rightarrow> ('o \<times> mstream) result"
  custom_eq :: "'o \<Rightarrow> 'o \<Rightarrow> bool"

lemma size_in_list: "x \<in> set xs \<Longrightarrow> size x < size_list size xs"
  by (induction xs) auto

lemma size_member_le: "i < length (tys :: otype list) \<Longrightarrow> size (tys ! i) < size_list size tys"
  by (rule size_in_list) simp

text \<open>The memory of an object: every fundamental member has its number of bytes, whatever they are.\<close>

function stored :: "otype \<Rightarrow> 'o oval \<Rightarrow> bool" where
  "stored (TFund t) (VFund v) = (v < 256 ^ fund_size t)"
| "stored TOther (VOther _) = True"
| "stored (TObj ps tys) (VObj vs) =
     (list_all (\<lambda>p. member_ptr p < length tys) ps \<and> list_all2 stored tys vs)"
| "stored (TFund n) (VOther x) = False" | "stored (TFund n) (VObj vs) = False"
| "stored TOther (VFund v) = False" | "stored TOther (VObj vs) = False"
| "stored (TObj ps tys) (VFund v) = False" | "stored (TObj ps tys) (VOther x) = False"
  by pat_completeness auto
termination
  by (relation "measure (\<lambda>(ty, v). size ty)") (auto dest: size_in_list intro: less_SucI)

text \<open>A valid object: each of its \<^verbatim>\<open>bool\<close> members, properties or not, is 0 or 1. Integers and floating point
  numbers have no invalid representation.\<close>

function valid_members :: "otype \<Rightarrow> 'o oval \<Rightarrow> bool" where
  "valid_members (TFund t) v = (case v of VFund x \<Rightarrow> t = Boolean \<longrightarrow> x < 2 | _ \<Rightarrow> True)"
| "valid_members TOther v = True"
| "valid_members (TObj ps tys) v = (case v of VObj vs \<Rightarrow> list_all2 valid_members tys vs | _ \<Rightarrow> True)"
  by pat_completeness auto
termination
  by (relation "measure (\<lambda>(ty, v). size ty)") (auto dest: size_in_list intro: less_SucI)

definition welltyped :: "otype \<Rightarrow> 'o oval \<Rightarrow> bool" where
  "welltyped ty v \<longleftrightarrow> stored ty v \<and> valid_members ty v"

section \<open>Iterating on the properties\<close>

text \<open>
  \<open>equals\<close> of \<^verbatim>\<open>Comparable\<close>: the conjunction over the properties; a member that has properties is
  compared by its own \<open>equals\<close>.
\<close>

function equals :: "'o custom \<Rightarrow> otype \<Rightarrow> 'o oval \<Rightarrow> 'o oval \<Rightarrow> bool"
  and equals_props :: "'o custom \<Rightarrow> Property list \<Rightarrow> otype list \<Rightarrow> 'o oval list \<Rightarrow> 'o oval list \<Rightarrow> bool" where
  "equals c (TFund t) a b = (case (a, b) of (VFund x, VFund y) \<Rightarrow> fund_eq t x y | _ \<Rightarrow> False)"
| "equals c TOther a b = (case (a, b) of (VOther x, VOther y) \<Rightarrow> custom_eq c x y | _ \<Rightarrow> False)"
| "equals c (TObj ps tys) a b = (case (a, b) of (VObj xs, VObj ys) \<Rightarrow> equals_props c ps tys xs ys | _ \<Rightarrow> False)"
| "equals_props c [] tys xs ys = True"
| "equals_props c (p # ps) tys xs ys =
     (if member_ptr p < length tys
      then equals c (tys ! member_ptr p) (xs ! member_ptr p) (ys ! member_ptr p) \<and> equals_props c ps tys xs ys
      else False)"
  by pat_completeness auto
termination
  by (relation "inv_image (less_than <*lex*> less_than) (\<lambda>x. case x of
        Inl (c, ty, a, b) \<Rightarrow> (size ty, 0) | Inr (c, ps, tys, xs, ys) \<Rightarrow> (size_list size tys, Suc (length ps)))")
    (auto dest: size_member_le)

definition not_equals :: "'o custom \<Rightarrow> otype \<Rightarrow> 'o oval \<Rightarrow> 'o oval \<Rightarrow> bool" where
  "not_equals c ty a b \<longleftrightarrow> \<not> equals c ty a b"

definition ill_typed :: exn where
  "ill_typed = Undefined_behaviour ''member pointer''"

definition fundamentalToBinary :: "nat \<Rightarrow> nat \<Rightarrow> mstream \<Rightarrow> mstream result" where
  "fundamentalToBinary n v out = ostream_write (le_encode n v) out"

text \<open>A short read overwrites only the first bytes of the object.\<close>

definition binaryToFundamental :: "nat \<Rightarrow> nat \<Rightarrow> mstream \<Rightarrow> (nat \<times> mstream) result" where
  "binaryToFundamental n v s =
     bind_result (istream_read n s) (\<lambda>(bs, s'). Inr (le_decode (bs @ drop (length bs) (le_encode n v)), s'))"

function binarySerialize :: "'o custom \<Rightarrow> otype \<Rightarrow> 'o oval \<Rightarrow> mstream \<Rightarrow> mstream result"
  and serialize_props :: "'o custom \<Rightarrow> Property list \<Rightarrow> otype list \<Rightarrow> 'o oval list \<Rightarrow> mstream \<Rightarrow> mstream result" where
  "binarySerialize c (TFund t) v out = (case v of VFund x \<Rightarrow> fundamentalToBinary (fund_size t) x out | _ \<Rightarrow> Inl ill_typed)"
| "binarySerialize c TOther v out = (case v of VOther x \<Rightarrow> toBinary c x out | _ \<Rightarrow> Inl ill_typed)"
| "binarySerialize c (TObj ps tys) v out = (case v of VObj vs \<Rightarrow> serialize_props c ps tys vs out | _ \<Rightarrow> Inl ill_typed)"
| "serialize_props c [] tys vs out = Inr out"
| "serialize_props c (p # ps) tys vs out =
     (if member_ptr p < length tys
      then bind_result (binarySerialize c (tys ! member_ptr p) (vs ! member_ptr p) out) (serialize_props c ps tys vs)
      else Inl ill_typed)"
  by pat_completeness auto
termination
  by (relation "inv_image (less_than <*lex*> less_than) (\<lambda>x. case x of
        Inl (c, ty, v, out) \<Rightarrow> (size ty, 0) | Inr (c, ps, tys, vs, out) \<Rightarrow> (size_list size tys, Suc (length ps)))")
    (auto dest: size_member_le)

function binaryDeserialize :: "'o custom \<Rightarrow> otype \<Rightarrow> 'o oval \<Rightarrow> mstream \<Rightarrow> ('o oval \<times> mstream) result"
  and deserialize_props :: "'o custom \<Rightarrow> Property list \<Rightarrow> otype list \<Rightarrow> 'o oval list \<Rightarrow> mstream \<Rightarrow> ('o oval list \<times> mstream) result" where
  "binaryDeserialize c (TFund t) v s = (case v of
     VFund x \<Rightarrow> bind_result (binaryToFundamental (fund_size t) x s) (\<lambda>(y, s'). Inr (VFund y, s')) | _ \<Rightarrow> Inl ill_typed)"
| "binaryDeserialize c TOther v s = (case v of
     VOther x \<Rightarrow> bind_result (fromBinary c x s) (\<lambda>(y, s'). Inr (VOther y, s')) | _ \<Rightarrow> Inl ill_typed)"
| "binaryDeserialize c (TObj ps tys) v s = (case v of
     VObj vs \<Rightarrow> bind_result (deserialize_props c ps tys vs s) (\<lambda>(ws, s'). Inr (VObj ws, s')) | _ \<Rightarrow> Inl ill_typed)"
| "deserialize_props c [] tys vs s = Inr (vs, s)"
| "deserialize_props c (p # ps) tys vs s =
     (if member_ptr p < length tys
      then bind_result (binaryDeserialize c (tys ! member_ptr p) (vs ! member_ptr p) s) (\<lambda>(w, s').
        deserialize_props c ps tys (vs[member_ptr p := w]) s')
      else Inl ill_typed)"
  by pat_completeness auto
termination
  by (relation "inv_image (less_than <*lex*> less_than) (\<lambda>x. case x of
        Inl (c, ty, v, s) \<Rightarrow> (size ty, 0) | Inr (c, ps, tys, vs, s) \<Rightarrow> (size_list size tys, Suc (length ps)))")
    (auto dest: size_member_le)

text \<open>The overloads on a buffer.\<close>

definition binarySerialize_buffer ::
    "'o custom \<Rightarrow> otype \<Rightarrow> 'o oval \<Rightarrow> byte_t list \<Rightarrow> nat \<Rightarrow> (size_t \<times> byte_t list) result" where
  "binarySerialize_buffer c ty v buffer n =
     bind_result (binarySerialize c ty v (MemoryOStream buffer n)) (\<lambda>out.
       Inr (stream_tell out, mem_buffer (memBuff out)))"

definition binaryDeserialize_buffer ::
    "'o custom \<Rightarrow> otype \<Rightarrow> 'o oval \<Rightarrow> byte_t list \<Rightarrow> nat \<Rightarrow> ('o oval \<times> size_t) result" where
  "binaryDeserialize_buffer c ty v buffer n =
     bind_result (binaryDeserialize c ty v (MemoryIStream buffer n)) (\<lambda>(w, s). Inr (w, stream_tell s))"

section \<open>Trees\<close>

datatype 'o tree_node = Leaf string "otype \<times> 'o oval" | Node string "'o tree_node list"

record 'o Tree = root :: "'o tree_node"

function buildTreeNode :: "string \<Rightarrow> otype \<Rightarrow> 'o oval \<Rightarrow> 'o tree_node"
  and tree_children :: "Property list \<Rightarrow> otype list \<Rightarrow> 'o oval list \<Rightarrow> 'o tree_node list" where
  "buildTreeNode nm ty v = (case (ty, v) of
     (TObj ps tys, VObj vs) \<Rightarrow> Node nm (tree_children ps tys vs)
   | _ \<Rightarrow> Leaf nm (ty, v))"
| "tree_children [] tys vs = []"
| "tree_children (p # ps) tys vs =
     (if member_ptr p < length tys
      then (if HasProperies (tys ! member_ptr p)
            then buildTreeNode (prop_name p) (tys ! member_ptr p) (vs ! member_ptr p)
            else Leaf (prop_name p) (tys ! member_ptr p, vs ! member_ptr p)) # tree_children ps tys vs
      else [])"
  by pat_completeness auto
termination
  by (relation "inv_image (less_than <*lex*> less_than) (\<lambda>x. case x of
        Inl (nm, ty, v) \<Rightarrow> (size ty, 0) | Inr (ps, tys, vs) \<Rightarrow> (size_list size tys, Suc (length ps)))")
    (auto dest: size_member_le)

definition buildTree :: "string \<Rightarrow> otype \<Rightarrow> 'o oval \<Rightarrow> 'o Tree" where
  "buildTree nm ty v = \<lparr>root = buildTreeNode nm ty v\<rparr>"

section \<open>The binary form\<close>

text \<open>The reference: the bytes of an object, given those of the custom types.\<close>

function binary_form :: "('o \<Rightarrow> byte_t list) \<Rightarrow> otype \<Rightarrow> 'o oval \<Rightarrow> byte_t list"
  and binary_form_props :: "('o \<Rightarrow> byte_t list) \<Rightarrow> Property list \<Rightarrow> otype list \<Rightarrow> 'o oval list \<Rightarrow> byte_t list" where
  "binary_form cb (TFund t) v = (case v of VFund x \<Rightarrow> le_encode (fund_size t) x | _ \<Rightarrow> [])"
| "binary_form cb TOther v = (case v of VOther x \<Rightarrow> cb x | _ \<Rightarrow> [])"
| "binary_form cb (TObj ps tys) v = (case v of VObj vs \<Rightarrow> binary_form_props cb ps tys vs | _ \<Rightarrow> [])"
| "binary_form_props cb [] tys vs = []"
| "binary_form_props cb (p # ps) tys vs =
     (if member_ptr p < length tys
      then binary_form cb (tys ! member_ptr p) (vs ! member_ptr p) @ binary_form_props cb ps tys vs
      else [])"
  by pat_completeness auto
termination
  by (relation "inv_image (less_than <*lex*> less_than) (\<lambda>x. case x of
        Inl (cb, ty, v) \<Rightarrow> (size ty, 0) | Inr (cb, ps, tys, vs) \<Rightarrow> (size_list size tys, Suc (length ps)))")
    (auto dest: size_member_le)

text \<open>Objects that agree on the properties: the same bits of every fundamental type, equal objects of the custom types.\<close>

function same :: "'o custom \<Rightarrow> otype \<Rightarrow> 'o oval \<Rightarrow> 'o oval \<Rightarrow> bool"
  and same_props :: "'o custom \<Rightarrow> Property list \<Rightarrow> otype list \<Rightarrow> 'o oval list \<Rightarrow> 'o oval list \<Rightarrow> bool" where
  "same c (TFund t) a b = (a = b)"
| "same c TOther a b = (case (a, b) of (VOther x, VOther y) \<Rightarrow> custom_eq c x y | _ \<Rightarrow> False)"
| "same c (TObj ps tys) a b = (case (a, b) of (VObj xs, VObj ys) \<Rightarrow> same_props c ps tys xs ys | _ \<Rightarrow> False)"
| "same_props c [] tys xs ys = True"
| "same_props c (p # ps) tys xs ys =
     (if member_ptr p < length tys
      then same c (tys ! member_ptr p) (xs ! member_ptr p) (ys ! member_ptr p) \<and> same_props c ps tys xs ys
      else False)"
  by pat_completeness auto
termination
  by (relation "inv_image (less_than <*lex*> less_than) (\<lambda>x. case x of
        Inl (c, ty, a, b) \<Rightarrow> (size ty, 0) | Inr (c, ps, tys, xs, ys) \<Rightarrow> (size_list size tys, Suc (length ps)))")
    (auto dest: size_member_le)

text \<open>No property, at any depth, is a NaN.\<close>

function nan_free :: "otype \<Rightarrow> 'o oval \<Rightarrow> bool"
  and nan_free_props :: "Property list \<Rightarrow> otype list \<Rightarrow> 'o oval list \<Rightarrow> bool" where
  "nan_free (TFund t) v = (case v of VFund x \<Rightarrow> \<not> is_nan t x | _ \<Rightarrow> True)"
| "nan_free TOther v = True"
| "nan_free (TObj ps tys) v = (case v of VObj vs \<Rightarrow> nan_free_props ps tys vs | _ \<Rightarrow> True)"
| "nan_free_props [] tys vs = True"
| "nan_free_props (p # ps) tys vs =
     (if member_ptr p < length tys
      then nan_free (tys ! member_ptr p) (vs ! member_ptr p) \<and> nan_free_props ps tys vs
      else True)"
  by pat_completeness auto
termination
  by (relation "inv_image (less_than <*lex*> less_than) (\<lambda>x. case x of
        Inl (ty, v) \<Rightarrow> (size ty, 0) | Inr (ps, tys, vs) \<Rightarrow> (size_list size tys, Suc (length ps)))")
    (auto dest: size_member_le)

text \<open>Objects of the same bits are equal unless there is a NaN among them.\<close>

lemma same_equals:
  "same c ty a b \<Longrightarrow> stored ty b \<Longrightarrow> equals c ty a b \<longleftrightarrow> nan_free ty b"
  "same_props c ps tys xs ys \<Longrightarrow> list_all2 stored tys ys \<Longrightarrow> equals_props c ps tys xs ys \<longleftrightarrow> nan_free_props ps tys ys"
proof (induction c ty a b and c ps tys xs ys rule: same_same_props.induct)
  case (1 c t a b)
  then show ?case by (cases b) (auto simp: fund_eq_def)
next
  case (2 c a b)
  then show ?case by (auto split: oval.splits)
next
  case (3 c ps tys a b)
  then show ?case by (auto split: oval.splits)
next
  case (5 c p ps tys xs ys)
  then show ?case by (auto simp: list_all2_nthD split: if_splits)
qed simp

text \<open>A stream \<open>s'\<close> that \<open>s\<close> has become by writing \<open>bs\<close>.\<close>

definition wrote :: "mstream \<Rightarrow> byte_t list \<Rightarrow> mstream \<Rightarrow> bool" where
  "wrote s bs s' \<longleftrightarrow> stream_wf s' \<and> \<not> failed s' \<and> written_bytes s' = written_bytes s @ bs \<and>
     bufferSize (memBuff s') = bufferSize (memBuff s) \<and>
     length (mem_buffer (memBuff s')) = length (mem_buffer (memBuff s)) \<and> pos (memBuff s') = pos (memBuff s) + length bs \<and>
     drop (pos (memBuff s')) (mem_buffer (memBuff s')) = drop (pos (memBuff s')) (mem_buffer (memBuff s))"

definition room :: "mstream \<Rightarrow> nat \<Rightarrow> bool" where
  "room s n \<longleftrightarrow> stream_wf s \<and> \<not> failed s \<and> pos (memBuff s) + n \<le> bufferSize (memBuff s)"

definition offers :: "nat \<Rightarrow> mstream \<Rightarrow> byte_t list \<Rightarrow> bool" where
  "offers N s bs \<longleftrightarrow> bufferSize (memBuff s) = N \<and> stream_wf s \<and> \<not> failed s \<and> unread s = bs"

lemma wrote_nil: "room s 0 \<Longrightarrow> wrote s [] s"
  by (simp add: wrote_def room_def)

lemma wrote_trans:
  assumes "wrote s bs s1" "wrote s1 cs s2"
  shows "wrote s (bs @ cs) s2"
proof -
  have "drop (pos (memBuff s1)) (mem_buffer (memBuff s1)) = drop (pos (memBuff s1)) (mem_buffer (memBuff s))"
    using assms(1) unfolding wrote_def by blast
  moreover have a: "pos (memBuff s2) = length cs + pos (memBuff s1)"
    and b: "drop (pos (memBuff s2)) (mem_buffer (memBuff s2)) = drop (pos (memBuff s2)) (mem_buffer (memBuff s1))"
    using assms(2) unfolding wrote_def by (simp, blast)
  ultimately have "drop (pos (memBuff s2)) (mem_buffer (memBuff s2)) = drop (pos (memBuff s2)) (mem_buffer (memBuff s))"
    by (metis drop_drop)
  then show ?thesis
    using assms by (simp add: wrote_def)
qed

lemma room_wrote: "wrote s bs s' \<Longrightarrow> room s (length bs + n) \<Longrightarrow> room s' n"
  by (simp add: wrote_def room_def)

lemma room_mono: "room s n \<Longrightarrow> m \<le> n \<Longrightarrow> room s m"
  by (simp add: room_def)

lemma fundamental_wrote:
  "room s n \<Longrightarrow> \<exists>s'. fundamentalToBinary n v s = Inr s' \<and> wrote s (le_encode n v) s'"
  using write_fits [of s "le_encode n v"] by (auto simp: fundamentalToBinary_def room_def wrote_def)

lemma fundamental_read:
  assumes "offers N s (le_encode n v @ rest)" "v < 256 ^ n"
  shows "\<exists>s'. binaryToFundamental n old s = Inr (v, s') \<and> offers N s' rest"
  using read_fits [of s n] assms by (auto simp: binaryToFundamental_def offers_def le_roundtrip)

text \<open>The contract of the custom types: \<open>toBinary\<close> writes \<open>cb\<close> of the object, \<open>fromBinary\<close> reads
  it back to an equal object.\<close>

locale custom_codec =
  fixes c :: "'o custom" and cb :: "'o \<Rightarrow> byte_t list"
  assumes toBinary_ok: "room s (length (cb x)) \<Longrightarrow> \<exists>s'. toBinary c x s = Inr s' \<and> wrote s (cb x) s'"
    and fromBinary_ok: "offers N s (cb x @ rest) \<Longrightarrow>
      \<exists>y s'. fromBinary c old s = Inr (y, s') \<and> custom_eq c y x \<and> offers N s' rest"
begin

lemma binarySerialize_wrote:
  "stored ty v \<Longrightarrow> room s (length (binary_form cb ty v)) \<Longrightarrow>
     \<exists>s'. binarySerialize c ty v s = Inr s' \<and> wrote s (binary_form cb ty v) s'"
proof (induction ty arbitrary: v s)
  case (TFund n)
  then show ?case by (cases v) (auto simp: fundamental_wrote)
next
  case TOther
  then show ?case by (cases v) (auto simp: toBinary_ok)
next
  case (TObj ps tys)
  obtain vs where v: "v = VObj vs"
    using TObj.prems(1) by (cases v) auto
  have wt: "list_all2 stored tys vs" "list_all (\<lambda>p. member_ptr p < length tys) ps"
    using TObj.prems(1) v by auto
  have "\<exists>s'. serialize_props c qs tys vs s = Inr s' \<and> wrote s (binary_form_props cb qs tys vs) s'"
    if "list_all (\<lambda>p. member_ptr p < length tys) qs" "room s (length (binary_form_props cb qs tys vs))" for qs s
    using that
  proof (induction qs arbitrary: s)
    case Nil
    then show ?case by (simp add: wrote_nil)
  next
    case (Cons q qs)
    let ?i = "member_ptr q"
    have i: "?i < length tys"
      using Cons.prems(1) by simp
    have r: "room s (length (binary_form cb (tys ! ?i) (vs ! ?i)) + length (binary_form_props cb qs tys vs))"
      using Cons.prems(2) i by simp
    obtain s1 where s1: "binarySerialize c (tys ! ?i) (vs ! ?i) s = Inr s1" "wrote s (binary_form cb (tys ! ?i) (vs ! ?i)) s1"
      using TObj.IH [of "tys ! ?i" "vs ! ?i" s] i wt(1) room_mono [OF r] by (auto simp: list_all2_nthD)
    obtain s2 where "serialize_props c qs tys vs s1 = Inr s2" "wrote s1 (binary_form_props cb qs tys vs) s2"
      using Cons.IH [of s1] Cons.prems(1) room_wrote [OF s1(2) r] by auto
    then show ?case
      using s1 i wrote_trans by fastforce
  qed
  then show ?case
    using TObj.prems v wt(2) by simp
qed

text \<open>Deserializing over any object of the class gives one with the same properties.\<close>

text \<open>The properties of an object, given the same for the types of its members.\<close>

lemma deserialize_props_same:
  assumes members: "\<And>i w s rest. i < length tys \<Longrightarrow> stored (tys ! i) w \<Longrightarrow> offers N s (binary_form cb (tys ! i) (vs ! i) @ rest) \<Longrightarrow>
      \<exists>w' s'. binaryDeserialize c (tys ! i) w s = Inr (w', s') \<and> stored (tys ! i) w' \<and> same c (tys ! i) w' (vs ! i) \<and> offers N s' rest"
    and "list_all (\<lambda>p. member_ptr p < length tys) qs" "list_all2 stored tys ws"
      "offers N s (binary_form_props cb qs tys vs @ rest)"
  shows "\<exists>ws' s'. deserialize_props c qs tys ws s = Inr (ws', s') \<and> list_all2 stored tys ws' \<and> offers N s' rest \<and>
    (\<forall>i. i \<notin> member_ptr ` set qs \<longrightarrow> ws' ! i = ws ! i) \<and>
    (\<forall>i\<in>member_ptr ` set qs. same c (tys ! i) (ws' ! i) (vs ! i))"
  using assms(2-4)
proof (induction qs arbitrary: ws s)
  case Nil
  then show ?case by auto
next
  case (Cons q qs)
  let ?i = "member_ptr q"
  have i: "?i < length tys" "length ws = length tys"
    using Cons.prems(1,2) by (auto dest: list_all2_lengthD)
  obtain w1 s1 where w1: "binaryDeserialize c (tys ! ?i) (ws ! ?i) s = Inr (w1, s1)" "stored (tys ! ?i) w1"
    "same c (tys ! ?i) w1 (vs ! ?i)" "offers N s1 (binary_form_props cb qs tys vs @ rest)"
    using members [OF i(1), of "ws ! ?i" s "binary_form_props cb qs tys vs @ rest"] i Cons.prems
    by (auto simp: list_all2_nthD)
  have "list_all2 stored tys (ws[?i := w1])"
    using Cons.prems(2) w1(2) i by (metis list_all2_update_cong list_update_id)
  then obtain ws' s' where ws': "deserialize_props c qs tys (ws[?i := w1]) s1 = Inr (ws', s')" "list_all2 stored tys ws'"
    "offers N s' rest" "\<forall>i. i \<notin> member_ptr ` set qs \<longrightarrow> ws' ! i = ws[?i := w1] ! i"
    "\<forall>i\<in>member_ptr ` set qs. same c (tys ! i) (ws' ! i) (vs ! i)"
    using Cons.IH [of "ws[?i := w1]" s1] Cons.prems(1) w1(4) by auto
  have "same c (tys ! ?i) (ws' ! ?i) (vs ! ?i)"
    using ws'(4,5) w1(3) i by (cases "?i \<in> member_ptr ` set qs") auto
  then show ?case
    using ws' w1(1) i by (intro exI [of _ ws'] exI [of _ s']) auto
qed

lemma binaryDeserialize_same:
  "stored ty v \<Longrightarrow> stored ty w \<Longrightarrow> offers N s (binary_form cb ty v @ rest) \<Longrightarrow>
     \<exists>w' s'. binaryDeserialize c ty w s = Inr (w', s') \<and> stored ty w' \<and> same c ty w' v \<and> offers N s' rest \<and>
       (case (ty, w, w') of (TObj ps tys, VObj ws, VObj ws') \<Rightarrow>
          (\<forall>i. i \<notin> member_ptr ` set ps \<longrightarrow> ws' ! i = ws ! i) | _ \<Rightarrow> True)"
proof (induction ty arbitrary: v w s rest)
  case (TFund t)
  then obtain x y where x: "v = VFund x" "x < 256 ^ fund_size t" and y: "w = VFund y"
    by (cases v; cases w) auto
  then show ?case
    using TFund.prems(3) fundamental_read [of N s "fund_size t" x rest y] by auto
next
  case TOther
  then obtain x y where x: "v = VOther x" and y: "w = VOther y"
    by (cases v; cases w) auto
  then show ?case
    using TOther.prems(3) fromBinary_ok [of N s x rest y] by auto
next
  case (TObj ps tys)
  obtain vs ws where v: "v = VObj vs" "w = VObj ws"
    using TObj.prems(1,2) by (cases v; cases w) auto
  have wt: "list_all2 stored tys vs" "list_all2 stored tys ws" "list_all (\<lambda>p. member_ptr p < length tys) ps"
    using TObj.prems(1,2) v by auto
  have members: "\<exists>w' s'. binaryDeserialize c (tys ! i) w s = Inr (w', s') \<and> stored (tys ! i) w' \<and> same c (tys ! i) w' (vs ! i) \<and> offers N s' rest"
    if "i < length tys" "stored (tys ! i) w" "offers N s (binary_form cb (tys ! i) (vs ! i) @ rest)" for i w s rest
    using TObj.IH [of "tys ! i" "vs ! i" w s rest] that wt(1) by (auto simp: list_all2_nthD)
  have off: "offers N s (binary_form_props cb ps tys vs @ rest)"
    using TObj.prems(3) v by simp
  from deserialize_props_same [OF members wt(3,2) off] obtain ws' s' where d: "deserialize_props c ps tys ws s = Inr (ws', s')" "list_all2 stored tys ws'"
    "offers N s' rest" "\<forall>i. i \<notin> member_ptr ` set ps \<longrightarrow> ws' ! i = ws ! i"
    "\<forall>i\<in>member_ptr ` set ps. same c (tys ! i) (ws' ! i) (vs ! i)"
    by blast
  have "same_props c qs tys ws' vs"
    if "set qs \<subseteq> set ps" for qs
    using that d(5) wt(3) by (induction qs) (auto simp: list_all_iff)
  then show ?case
    using d wt(3) v by auto
qed

end

text \<open>An enumeration is not a fundamental type; its codec is that of the underlying type.\<close>

definition enum_custom :: "nat \<Rightarrow> nat custom" where
  "enum_custom n = \<lparr>toBinary = (\<lambda>x. fundamentalToBinary n (x mod 256 ^ n)),
     fromBinary = (\<lambda>old. binaryToFundamental n (old mod 256 ^ n)), custom_eq = (\<lambda>x y. x mod 256 ^ n = y mod 256 ^ n)\<rparr>"

interpretation enum: custom_codec "enum_custom n" "\<lambda>x. le_encode n (x mod 256 ^ n)" for n
proof
  fix s x
  assume "room s (length (le_encode n (x mod 256 ^ n)))"
  then show "\<exists>s'. toBinary (enum_custom n) x s = Inr s' \<and> wrote s (le_encode n (x mod 256 ^ n)) s'"
    by (simp add: enum_custom_def fundamental_wrote)
next
  fix N s x rest old
  assume "offers N s (le_encode n (x mod 256 ^ n) @ rest)"
  then show "\<exists>y s'. fromBinary (enum_custom n) old s = Inr (y, s') \<and> custom_eq (enum_custom n) y x \<and> offers N s' rest"
    using fundamental_read [of N s n "x mod 256 ^ n" rest] by (fastforce simp: enum_custom_def)
qed

section \<open>Objects that do not fit\<close>

text \<open>A stream \<open>s'\<close> that \<open>s\<close> has become by a write that did not fit: nothing outside the
  block's bounds has changed.\<close>

definition overran :: "mstream \<Rightarrow> mstream \<Rightarrow> bool" where
  "overran s s' \<longleftrightarrow> stream_wf s' \<and> failed s' \<and> bufferSize (memBuff s') = bufferSize (memBuff s) \<and>
     length (mem_buffer (memBuff s')) = length (mem_buffer (memBuff s)) \<and>
     drop (bufferSize (memBuff s)) (mem_buffer (memBuff s')) = drop (bufferSize (memBuff s)) (mem_buffer (memBuff s))"

lemma overran_refl: "stream_wf s \<Longrightarrow> failed s \<Longrightarrow> overran s s"
  by (simp add: overran_def)

lemma overran_trans: "overran s s1 \<Longrightarrow> overran s1 s2 \<Longrightarrow> overran s s2"
  by (simp add: overran_def)

lemma wrote_overran:
  assumes "wrote s bs s1" "overran s1 s2"
  shows "overran s s2"
proof -
  have "drop (pos (memBuff s1)) (mem_buffer (memBuff s1)) = drop (pos (memBuff s1)) (mem_buffer (memBuff s))"
    using assms(1) unfolding wrote_def by blast
  from arg_cong [OF this, of "drop (bufferSize (memBuff s) - pos (memBuff s1))"]
  have "drop (bufferSize (memBuff s)) (mem_buffer (memBuff s1)) = drop (bufferSize (memBuff s)) (mem_buffer (memBuff s))"
    using assms(1) by (simp add: wrote_def stream_wf_def)
  then show ?thesis
    using assms by (simp add: overran_def wrote_def)
qed

lemma fundamental_overran:
  assumes "stream_wf s" "\<not> room s n"
  shows "\<exists>s'. fundamentalToBinary n v s = Inr s' \<and> overran s s'"
proof (cases "failed s")
  case True
  then show ?thesis
    using assms(1) by (auto simp: fundamentalToBinary_def ostream_write_def overran_refl)
next
  case False
  let ?k = "bufferSize (memBuff s) - pos (memBuff s)"
  have k: "?k < n" "pos (memBuff s) + ?k = bufferSize (memBuff s)" "bufferSize (memBuff s) \<le> length (mem_buffer (memBuff s))"
    "pos (memBuff s) \<le> bufferSize (memBuff s)"
    using assms False by (auto simp: room_def stream_wf_def)
  then have "put_loop (mem_buffer (memBuff s)) (pos (memBuff s)) (take ?k (le_encode n v)) =
      Inr (blit (mem_buffer (memBuff s)) (pos (memBuff s)) (take ?k (le_encode n v)))"
    by (intro put_loop_blit) simp
  then show ?thesis
    using False k by (simp add: fundamentalToBinary_def ostream_write_def xsputn_def Let_def overran_def stream_wf_def min_def blit_def)
      linarith
qed

locale bounded_codec = custom_codec +
  assumes toBinary_short: "stream_wf s \<Longrightarrow> \<not> room s (length (cb x)) \<Longrightarrow> \<exists>s'. toBinary c x s = Inr s' \<and> overran s s'"
begin

lemma serialize_props_overran:
  assumes members: "\<And>i s. i < length tys \<Longrightarrow> stream_wf s \<Longrightarrow> \<not> room s (length (binary_form cb (tys ! i) (vs ! i))) \<Longrightarrow>
      failed s \<or> binary_form cb (tys ! i) (vs ! i) \<noteq> [] \<Longrightarrow> \<exists>s'. binarySerialize c (tys ! i) (vs ! i) s = Inr s' \<and> overran s s'"
    and wt: "list_all2 stored tys vs" and "list_all (\<lambda>p. member_ptr p < length tys) qs" "stream_wf s"
      "\<not> room s (length (binary_form_props cb qs tys vs))"
  shows "\<exists>s'. serialize_props c qs tys vs s = Inr s' \<and> overran s s'"
  using assms(3-5)
proof (induction qs arbitrary: s)
  case Nil
  then show ?case by (auto simp: room_def stream_wf_def intro: overran_refl)
next
  case (Cons q qs)
  let ?i = "member_ptr q"
  let ?b = "binary_form cb (tys ! ?i) (vs ! ?i)"
  have i: "?i < length tys" and wti: "stored (tys ! ?i) (vs ! ?i)"
    using Cons.prems(1) wt by (auto simp: list_all2_nthD)
  show ?case
  proof (cases "room s (length ?b)")
    case True
    then obtain s1 where s1: "binarySerialize c (tys ! ?i) (vs ! ?i) s = Inr s1" "wrote s ?b s1"
      using binarySerialize_wrote [OF wti] by blast
    then have "\<not> room s1 (length (binary_form_props cb qs tys vs))" "stream_wf s1"
      using Cons.prems(3) i True by (auto simp: room_def wrote_def)
    then obtain s2 where "serialize_props c qs tys vs s1 = Inr s2" "overran s1 s2"
      using Cons.IH [of s1] Cons.prems(1) by auto
    then show ?thesis
      using s1 i wrote_overran by fastforce
  next
    case False
    then have "failed s \<or> ?b \<noteq> []"
      using Cons.prems(2) by (auto simp: room_def stream_wf_def)
    then obtain s1 where s1: "binarySerialize c (tys ! ?i) (vs ! ?i) s = Inr s1" "overran s s1"
      using members [OF i Cons.prems(2) False] by auto
    then have "\<not> room s1 (length (binary_form_props cb qs tys vs))" "stream_wf s1"
      by (auto simp: room_def overran_def)
    then obtain s2 where "serialize_props c qs tys vs s1 = Inr s2" "overran s1 s2"
      using Cons.IH [of s1] Cons.prems(1) by auto
    then show ?thesis
      using s1 i overran_trans by fastforce
  qed
qed

lemma binarySerialize_overran:
  "stored ty v \<Longrightarrow> stream_wf s \<Longrightarrow> \<not> room s (length (binary_form cb ty v)) \<Longrightarrow> failed s \<or> binary_form cb ty v \<noteq> [] \<Longrightarrow>
     \<exists>s'. binarySerialize c ty v s = Inr s' \<and> overran s s'"
proof (induction ty arbitrary: v s)
  case (TFund n)
  then show ?case by (cases v) (auto simp: fundamental_overran)
next
  case TOther
  then show ?case by (cases v) (auto simp: toBinary_short)
next
  case (TObj ps tys)
  obtain vs where v: "v = VObj vs"
    using TObj.prems(1) by (cases v) auto
  have wt: "list_all2 stored tys vs" "list_all (\<lambda>p. member_ptr p < length tys) ps"
    using TObj.prems(1) v by auto
  have "\<exists>s'. binarySerialize c (tys ! i) (vs ! i) s = Inr s' \<and> overran s s'"
    if "i < length tys" "stream_wf s" "\<not> room s (length (binary_form cb (tys ! i) (vs ! i)))"
      "failed s \<or> binary_form cb (tys ! i) (vs ! i) \<noteq> []" for i s
    using TObj.IH [of "tys ! i" "vs ! i" s] that wt(1) by (simp add: list_all2_nthD)
  from serialize_props_overran [OF this wt] show ?case
    using TObj.prems v wt(2) by simp
qed

end

interpretation enum: bounded_codec "enum_custom n" "\<lambda>x. le_encode n (x mod 256 ^ n)" for n
  by unfold_locales (simp add: enum_custom_def fundamental_overran)

section \<open>Trees and the binary form\<close>

text \<open>The leaves of a tree, from left to right, are the binary form of its object.\<close>

fun tree_leaves :: "'o tree_node \<Rightarrow> (otype \<times> 'o oval) list" where
  "tree_leaves (Leaf nm x) = [x]"
| "tree_leaves (Node nm ts) = concat (map tree_leaves ts)"

definition leaves_form :: "('o \<Rightarrow> byte_t list) \<Rightarrow> (otype \<times> 'o oval) list \<Rightarrow> byte_t list" where
  "leaves_form cb ls = concat (map (\<lambda>(ty, v). binary_form cb ty v) ls)"

lemma leaves_form_simps [simp]: "leaves_form cb [] = []" "leaves_form cb [(ty, v)] = binary_form cb ty v"
  "leaves_form cb (xs @ ys) = leaves_form cb xs @ leaves_form cb ys"
  by (simp_all add: leaves_form_def)

lemma leaves_form_children:
  "leaves_form cb (concat (map tree_leaves (t # ts))) = leaves_form cb (tree_leaves t) @ leaves_form cb (concat (map tree_leaves ts))"
  by simp

lemma tree_children_leaves:
  "stored ty v \<Longrightarrow> leaves_form cb (tree_leaves (buildTreeNode nm ty v)) = binary_form cb ty v"
proof (induction ty arbitrary: v nm)
  case (TObj ps tys)
  obtain vs where v: "v = VObj vs"
    using TObj.prems(1) by (cases v) auto
  have wt: "list_all2 stored tys vs" "list_all (\<lambda>p. member_ptr p < length tys) ps"
    using TObj.prems(1) v by auto
  have "leaves_form cb (concat (map tree_leaves (tree_children qs tys vs))) = binary_form_props cb qs tys vs"
    if "list_all (\<lambda>p. member_ptr p < length tys) qs" for qs
    using that
  proof (induction qs)
    case (Cons q qs)
    then have "member_ptr q < length tys" by simp
    then have "leaves_form cb (tree_leaves (buildTreeNode (prop_name q) (tys ! member_ptr q) (vs ! member_ptr q))) =
        binary_form cb (tys ! member_ptr q) (vs ! member_ptr q)"
      using TObj.IH wt(1) by (auto simp: list_all2_nthD)
    then show ?case
      using Cons by (simp del: buildTreeNode.simps)
  qed simp
  then show ?case
    using v wt(2) by simp
qed (auto split: oval.splits)

section \<open>Properties\<close>

text \<open>C11: an object survives its binary form. For every class described by properties,
  however nested, whose custom member types keep their contract, serializing an object to
  a buffer that is large enough returns the number of bytes written, and deserializing
  that buffer over the memory of any other object of the class returns the same number and leaves an
  object whose fundamental properties have the same bits as the original's and whose custom properties are equal to them, with the
  members that are not properties untouched. \<^verbatim>\<open>Comparable::equals\<close> confirms that the two are equal exactly when no property of
  the original, at any depth, is a NaN.\<close>

theorem binary_roundtrip:
  assumes "custom_codec c cb" "welltyped (TObj ps tys) v" "stored (TObj ps tys) (VObj ws)"
    and "length (binary_form cb (TObj ps tys) v) \<le> n" "n \<le> length buffer"
  shows "\<exists>buffer' ws'. binarySerialize_buffer c (TObj ps tys) v buffer n =
        Inr (of_nat (length (binary_form cb (TObj ps tys) v)), buffer') \<and>
      binaryDeserialize_buffer c (TObj ps tys) (VObj ws) buffer' (length (binary_form cb (TObj ps tys) v)) =
        Inr (VObj ws', of_nat (length (binary_form cb (TObj ps tys) v))) \<and>
      same c (TObj ps tys) (VObj ws') v \<and> (equals c (TObj ps tys) (VObj ws') v \<longleftrightarrow> nan_free (TObj ps tys) v) \<and>
      (\<forall>i. i \<notin> member_ptr ` set ps \<longrightarrow> ws' ! i = ws ! i)"
proof -
  let ?ty = "TObj ps tys"
  let ?b = "binary_form cb ?ty v"
  have st: "stored ?ty v"
    using assms(2) by (simp add: welltyped_def)
  have "room (MemoryOStream buffer n) (length ?b)"
    using assms(4,5) by (simp add: room_def MemoryOStream_def MemoryStreamBuf_new_def stream_wf_def)
  then obtain out where out: "binarySerialize c ?ty v (MemoryOStream buffer n) = Inr out" "wrote (MemoryOStream buffer n) ?b out"
    using custom_codec.binarySerialize_wrote [OF assms(1) st] by blast
  let ?b' = "mem_buffer (memBuff out)"
  have wr: "take (length ?b) ?b' = ?b" "length ?b \<le> length ?b'" "stream_tell out = of_nat (length ?b)"
    using out(2) assms(4,5) by (auto simp: wrote_def written_bytes_def MemoryOStream_def MemoryStreamBuf_new_def stream_tell_def seekoff_def)
  let ?i = "MemoryIStream ?b' (length ?b)"
  have "offers (length ?b) ?i (?b @ [])"
    using wr by (simp add: offers_def MemoryIStream_def MemoryStreamBuf_new_def stream_wf_def unread_def)
  from custom_codec.binaryDeserialize_same [OF assms(1) st assms(3) this] obtain w' s' where
    d: "binaryDeserialize c ?ty (VObj ws) ?i = Inr (w', s')" "stored ?ty w'" "same c ?ty w' v" "offers (length ?b) s' []"
      "case (?ty, VObj ws, w') of (TObj ps tys, VObj ws, VObj ws') \<Rightarrow>
          (\<forall>i. i \<notin> member_ptr ` set ps \<longrightarrow> ws' ! i = ws ! i) | _ \<Rightarrow> True"
    by blast
  obtain ws' where w': "w' = VObj ws'"
    using d(2) by (cases w') auto
  have "pos (memBuff s') = length ?b"
    using d(4) by (auto simp: offers_def stream_wf_def unread_def simp del: binary_form.simps)
  then have "stream_tell s' = of_nat (length ?b)"
    using d(4) by (simp add: offers_def stream_wf_def unread_def stream_tell_def seekoff_def del: binary_form.simps)
  then show ?thesis
    using out(1) wr(3) d w' same_equals(1) [OF d(3) st]
    by (simp add: binarySerialize_buffer_def binaryDeserialize_buffer_def
        del: binarySerialize.simps binaryDeserialize.simps equals.simps same.simps nan_free.simps)
qed

text \<open>Two classes: the second has a member of the first, an enumeration, and a member that is
  not a property.\<close>

definition Pack1 :: otype where
  "Pack1 = TObj [makeProperty 1 ''a'', makeProperty 0 ''b'', makeProperty 2 ''c''] [TFund Double_t, TFund (Integral 4), TFund (Integral 4)]"

definition Pack_enum :: otype where
  "Pack_enum = TObj [makeProperty 0 ''pack1'', makeProperty 2 ''e''] [Pack1, TFund (Integral 4), TOther]"

lemma Pack_enum_object:
  "welltyped Pack_enum (VObj [VObj [VFund 1, VFund 2, VFund 3], VFund 4, VOther (5 :: nat)])"
  "welltyped Pack_enum (VObj [VObj [VFund 0, VFund 0, VFund 0], VFund 9, VOther (0 :: nat)])"
  "length (binary_form (\<lambda>x. le_encode 1 (x mod 256 ^ 1)) Pack_enum (VObj [VObj [VFund 1, VFund 2, VFund 3], VFund 4, VOther 5])) = 17"
  "stored Pack_enum (VObj [VObj [VFund 1, VFund 2, VFund 3], VFund 4, VOther (5 :: nat)])"
  "stored Pack_enum (VObj [VObj [VFund 0, VFund 0, VFund 0], VFund 9, VOther (0 :: nat)])"
  "nan_free Pack_enum (VObj [VObj [VFund 1, VFund 2, VFund 3], VFund 4, VOther (5 :: nat)])"
  by (simp_all add: Pack_enum_def Pack1_def makeProperty_def welltyped_def is_nan_def)

theorem binary_roundtrip_witness:
  "\<exists>buffer' ws'. binarySerialize_buffer (enum_custom 1) Pack_enum (VObj [VObj [VFund 1, VFund 2, VFund 3], VFund 4, VOther 5]) (replicate 20 0) 20 =
        Inr (17, buffer') \<and>
      binaryDeserialize_buffer (enum_custom 1) Pack_enum (VObj [VObj [VFund 0, VFund 0, VFund 0], VFund 9, VOther 0]) buffer' 17 =
        Inr (VObj ws', 17) \<and>
      equals (enum_custom 1) Pack_enum (VObj ws') (VObj [VObj [VFund 1, VFund 2, VFund 3], VFund 4, VOther 5]) \<and> ws' ! 1 = VFund 9"
proof -
  have *: "(\<forall>i. i \<notin> member_ptr ` set [makeProperty 0 ''pack1'', makeProperty 2 ''e''] \<longrightarrow>
      ws' ! i = [VObj [VFund 0, VFund 0, VFund 0], VFund 9, VOther (0 :: nat)] ! i) \<Longrightarrow> ws' ! 1 = VFund 9" for ws'
    by (drule spec [of _ 1]) (simp add: makeProperty_def)
  show ?thesis
    using binary_roundtrip [OF enum.custom_codec_axioms [of 1] Pack_enum_object(1,5) [unfolded Pack_enum_def], of 20 "replicate 20 0"] *
      Pack_enum_object(6)
    unfolding Pack_enum_def [symmetric] Pack_enum_object(3) by fastforce
qed

text \<open>C12: an object that does not fit leaves the memory after the buffer alone. The code does not check
  the buffer's size itself, but serializing to a buffer that is too small writes nothing
  beyond it and is reported: the returned size is \<^verbatim>\<open>size_t(-1)\<close>.\<close>

theorem binary_overflow_reported:
  assumes "bounded_codec c cb" "stored ty v" "n < length (binary_form cb ty v)" "n \<le> length buffer"
  shows "\<exists>buffer'. binarySerialize_buffer c ty v buffer n = Inr (- 1, buffer') \<and>
    length buffer' = length buffer \<and> drop n buffer' = drop n buffer"
proof -
  let ?o = "MemoryOStream buffer n"
  have "stream_wf ?o" "\<not> room ?o (length (binary_form cb ty v))" "failed ?o \<or> binary_form cb ty v \<noteq> []"
    using assms(3,4) by (auto simp: room_def MemoryOStream_def MemoryStreamBuf_new_def stream_wf_def)
  from bounded_codec.binarySerialize_overran [OF assms(1,2) this] show ?thesis
    by (auto simp: overran_def binarySerialize_buffer_def MemoryOStream_def MemoryStreamBuf_new_def stream_tell_def)
qed

theorem binary_overflow_reported_witness:
  "\<exists>buffer'. binarySerialize_buffer (enum_custom 1) Pack_enum (VObj [VObj [VFund 1, VFund 2, VFund 3], VFund 4, VOther 5]) [0, 0, 0, 9] 3 =
     Inr (- 1, buffer') \<and> length buffer' = length [0, 0, 0, 9 :: byte_t] \<and> drop 3 buffer' = [9]"
  using binary_overflow_reported [OF enum.bounded_codec_axioms [of 1] Pack_enum_object(4), of 3 "[0, 0, 0, 9]"]
  unfolding Pack_enum_object(3) by simp

text \<open>the tree of an object holds exactly what its binary form holds: the binary forms
  of the tree's leaves, from left to right, make up that of the object.\<close>

theorem buildTree_binary_form:
  assumes "stored ty v"
  shows "leaves_form cb (tree_leaves (root (buildTree nm ty v))) = binary_form cb ty v"
  using assms by (simp add: buildTree_def tree_children_leaves del: buildTreeNode.simps)

theorem buildTree_binary_form_witness:
  "length (leaves_form (\<lambda>x. le_encode 1 (x mod 256 ^ 1))
     (tree_leaves (root (buildTree ''p'' Pack_enum (VObj [VObj [VFund 1, VFund 2, VFund 3], VFund 4, VOther 5]))))) = 17"
  unfolding buildTree_binary_form [OF Pack_enum_object(4)] by (rule Pack_enum_object(3))

text \<open>Reading never leaves the buffer: a read on any stream over a block, failed or short ones included, gives
  at most what was asked for and leaves such a stream.\<close>

lemma read_any:
  assumes "stream_wf s"
  shows "\<exists>bs s'. istream_read n s = Inr (bs, s') \<and> length bs \<le> n \<and> stream_wf s'"
proof -
  let ?k = "min n (bufferSize (memBuff s) - pos (memBuff s))"
  have "get_loop (mem_buffer (memBuff s)) (pos (memBuff s)) ?k = Inr (take ?k (drop (pos (memBuff s)) (mem_buffer (memBuff s))))"
    using assms by (intro get_loop_slice) (auto simp: stream_wf_def min_def)
  then show ?thesis
    using assms by (auto simp: istream_read_def xsgetn_def stream_wf_def Let_def)
qed

lemma fundamental_any:
  assumes "stream_wf s"
  shows "\<exists>y s'. binaryToFundamental n v s = Inr (y, s') \<and> y < 256 ^ n \<and> stream_wf s'"
proof -
  obtain bs s' where r: "istream_read n s = Inr (bs, s')" "length bs \<le> n" "stream_wf s'"
    using read_any [OF assms] by blast
  then have "le_decode (bs @ drop (length bs) (le_encode n v)) < 256 ^ n"
    using le_decode_bound [of "bs @ drop (length bs) (le_encode n v)"] by simp
  then show ?thesis
    using r by (simp add: binaryToFundamental_def)
qed

text \<open>The types whose objects can be read without reading a \<^verbatim>\<open>bool\<close>.\<close>

function reads_no_bool :: "otype \<Rightarrow> bool"
  and props_read_no_bool :: "Property list \<Rightarrow> otype list \<Rightarrow> bool" where
  "reads_no_bool (TFund t) = (t \<noteq> Boolean)"
| "reads_no_bool TOther = True"
| "reads_no_bool (TObj ps tys) = props_read_no_bool ps tys"
| "props_read_no_bool [] tys = True"
| "props_read_no_bool (p # ps) tys =
     (if member_ptr p < length tys then reads_no_bool (tys ! member_ptr p) \<and> props_read_no_bool ps tys else True)"
  by pat_completeness auto
termination
  by (relation "inv_image (less_than <*lex*> less_than) (\<lambda>x. case x of
        Inl ty \<Rightarrow> (size ty, 0) | Inr (ps, tys) \<Rightarrow> (size_list size tys, Suc (length ps)))")
    (auto dest: size_member_le)

lemma valid_update:
  "list_all2 P tys vs \<Longrightarrow> P (tys ! i) w \<Longrightarrow> list_all2 P tys (vs[i := w])"
  using list_all2_update_cong [of P tys vs "tys ! i" w i] by simp

lemma deserialize_props_any:
  assumes members: "\<And>i w s. i < length tys \<Longrightarrow> stored (tys ! i) w \<Longrightarrow> stream_wf s \<Longrightarrow>
      \<exists>w' s'. binaryDeserialize c (tys ! i) w s = Inr (w', s') \<and> stored (tys ! i) w' \<and> stream_wf s' \<and>
        (valid_members (tys ! i) w \<and> reads_no_bool (tys ! i) \<longrightarrow> valid_members (tys ! i) w')"
    and "list_all (\<lambda>p. member_ptr p < length tys) qs" "list_all2 stored tys vs" "stream_wf s"
  shows "\<exists>ws s'. deserialize_props c qs tys vs s = Inr (ws, s') \<and> list_all2 stored tys ws \<and> stream_wf s' \<and>
    (list_all2 valid_members tys vs \<and> props_read_no_bool qs tys \<longrightarrow> list_all2 valid_members tys ws)"
  using assms(2-4)
proof (induction qs arbitrary: vs s)
  case (Cons q qs)
  let ?i = "member_ptr q"
  have i: "?i < length tys" "stored (tys ! ?i) (vs ! ?i)"
    using Cons.prems by (auto simp: list_all2_conv_all_nth)
  obtain w1 s1 where s1: "binaryDeserialize c (tys ! ?i) (vs ! ?i) s = Inr (w1, s1)" "stored (tys ! ?i) w1" "stream_wf s1"
    "valid_members (tys ! ?i) (vs ! ?i) \<and> reads_no_bool (tys ! ?i) \<longrightarrow> valid_members (tys ! ?i) w1"
    using members [OF i Cons.prems(3)] by blast
  obtain ws s' where ws: "deserialize_props c qs tys (vs[?i := w1]) s1 = Inr (ws, s')" "list_all2 stored tys ws" "stream_wf s'"
    "list_all2 valid_members tys (vs[?i := w1]) \<and> props_read_no_bool qs tys \<longrightarrow> list_all2 valid_members tys ws"
    using Cons.IH [of "vs[?i := w1]" s1] Cons.prems(1) valid_update [OF Cons.prems(2) s1(2)] s1(3) by auto
  have "list_all2 valid_members tys ws" if "list_all2 valid_members tys vs" "props_read_no_bool (q # qs) tys"
    using that i(1) ws(4) s1(4) valid_update [OF that(1), of ?i w1] by (simp add: list_all2_nthD)
  then show ?case
    using ws s1(1) i(1) by auto
qed simp

lemma binaryDeserialize_any:
  assumes custom: "\<And>x s. stream_wf s \<Longrightarrow> \<exists>y s'. fromBinary c x s = Inr (y, s') \<and> stream_wf s'"
    and "stored ty w" "stream_wf s"
  shows "\<exists>w' s'. binaryDeserialize c ty w s = Inr (w', s') \<and> stored ty w' \<and> stream_wf s' \<and>
    (valid_members ty w \<and> reads_no_bool ty \<longrightarrow> valid_members ty w')"
  using assms(2,3)
proof (induction ty arbitrary: w s)
  case (TFund t)
  then obtain x where x: "w = VFund x"
    by (cases w) auto
  show ?case
    using fundamental_any [OF TFund.prems(2), of "fund_size t" x] x by auto
next
  case TOther
  then obtain x where x: "w = VOther x"
    by (cases w) auto
  show ?case
    using custom [OF TOther.prems(2), of x] x by auto
next
  case (TObj ps tys)
  obtain ws where w: "w = VObj ws"
    using TObj.prems(1) by (cases w) auto
  have st: "list_all (\<lambda>p. member_ptr p < length tys) ps" "list_all2 stored tys ws"
    using TObj.prems(1) w by auto
  have "\<exists>w' s'. binaryDeserialize c (tys ! i) w s = Inr (w', s') \<and> stored (tys ! i) w' \<and> stream_wf s' \<and>
      (valid_members (tys ! i) w \<and> reads_no_bool (tys ! i) \<longrightarrow> valid_members (tys ! i) w')"
    if "i < length tys" "stored (tys ! i) w" "stream_wf s" for i w s
    using TObj.IH [of "tys ! i" w s] that by simp
  from deserialize_props_any [OF this st TObj.prems(2)] show ?case
    using w st(1) by fastforce
qed

lemma le_encode_byte: "le_encode 1 (unat b) = [b :: byte_t]"
  by (simp add: word_unat_eq_iff unsigned_less [of b, simplified])

lemma byte_boolean: "unat (b :: byte_t) < 2 \<longleftrightarrow> b = 0 \<or> b = 1"
  by (auto simp: word_unat_eq_iff)



end
