(* ===== verification/TaskExecutor.thy ===== *)
theory TaskExecutor
  imports Gicame_Prelude
begin

text \<open>
  \<^verbatim>\<open>src/headers/concurrency/TaskExecutor.hpp\<close> and \<^verbatim>\<open>src/src/concurrency/TaskExecutor.cpp\<close>: a worker
  thread, the threads that call it, one mutex and two condition variables. A critical
  section is one step; waiting on a condition variable blocks the thread until a
  notification makes it ready to evaluate its predicate again. \<open>notify_one\<close> wakes one of
  the waiting threads, whichever the scheduler picks.
\<close>

section \<open>The object\<close>

datatype CompletionState = NOT_DONE | DONE | DONE_WITH_ERRORS

text \<open>What the call of a task does; a \<^verbatim>\<open>std::function\<close> may be empty.\<close>

datatype outcome = Returns | Throws_std string | Throws_other

type_synonym job = "nat \<times> outcome"

record TaskExecutor =
  task :: "job option"
  taskAvailable :: bool
  stopFlag :: bool
  taskCompletionState :: CompletionState
  lastTaskException :: "string option"

definition TaskExecutor_new :: TaskExecutor where
  "TaskExecutor_new = \<lparr>task = None, taskAvailable = False, stopFlag = False,
     taskCompletionState = NOT_DONE, lastTaskException = None\<rparr>"

text \<open>\<open>lastTaskException\<close> is a \<^verbatim>\<open>std::optional<std::exception>\<close>: assigning an exception to it keeps
  only the base class object, whose message is that of \<^verbatim>\<open>std::exception\<close>.\<close>

definition sliced :: "string \<Rightarrow> string" where
  "sliced what = ''std::exception''"

definition getLastTaskException :: "TaskExecutor \<Rightarrow> string option" where
  "getLastTaskException ex = lastTaskException ex"

definition take_task :: "TaskExecutor \<Rightarrow> job option \<times> TaskExecutor" where
  "take_task ex = (task ex, ex\<lparr>task := None, taskAvailable := False, taskCompletionState := NOT_DONE, lastTaskException := None\<rparr>)"

definition record_outcome :: "outcome \<Rightarrow> TaskExecutor \<Rightarrow> TaskExecutor" where
  "record_outcome oc ex = (case oc of
     Returns \<Rightarrow> ex\<lparr>taskCompletionState := DONE\<rparr>
   | Throws_std what \<Rightarrow> ex\<lparr>taskCompletionState := DONE_WITH_ERRORS, lastTaskException := Some (sliced what)\<rparr>
   | Throws_other \<Rightarrow> ex\<lparr>taskCompletionState := DONE_WITH_ERRORS\<rparr>)"

definition put_task :: "job option \<Rightarrow> TaskExecutor \<Rightarrow> TaskExecutor" where
  "put_task t ex = ex\<lparr>task := t, taskAvailable := True, taskCompletionState := NOT_DONE\<rparr>"

section \<open>The threads\<close>

datatype wpc = W_Check | W_Wait | W_Run job | W_Done outcome | W_NotifyDone | W_Exit

datatype call = Submit "job option" | WaitDone | Destroy

datatype cpc = Ready | S_Wait | S_Notify | C_Wait | D_Notify | D_Join

record client =
  c_pc :: cpc
  c_calls :: "call list"

text \<open>
  The whole: besides the object and the threads, what has been submitted, the tasks run
  and the results returned, each in order.
\<close>

record system =
  exec :: TaskExecutor
  worker :: wpc
  clients :: "client list"
  submitted :: "job list"
  executed :: "job list"
  results :: "(nat \<times> CompletionState) list"

definition system_new :: "call list list \<Rightarrow> system" where
  "system_new css = \<lparr>exec = TaskExecutor_new, worker = W_Check,
     clients = map (\<lambda>cs. \<lparr>c_pc = Ready, c_calls = cs\<rparr>) css, submitted = [], executed = [], results = []\<rparr>"

definition goto :: "nat \<Rightarrow> cpc \<Rightarrow> system \<Rightarrow> system" where
  "goto i p s = s\<lparr>clients := (clients s)[i := (clients s ! i)\<lparr>c_pc := p\<rparr>]\<rparr>"

definition return_to :: "nat \<Rightarrow> cpc \<Rightarrow> system \<Rightarrow> system" where
  "return_to i p s = s\<lparr>clients := (clients s)[i := \<lparr>c_pc = p, c_calls = tl (c_calls (clients s ! i))\<rparr>]\<rparr>"

definition waits_at :: "cpc \<Rightarrow> system \<Rightarrow> nat \<Rightarrow> bool" where
  "waits_at p s i \<longleftrightarrow> i < length (clients s) \<and> c_pc (clients s ! i) = p"

definition someone_at :: "cpc \<Rightarrow> system \<Rightarrow> bool" where
  "someone_at p s = list_ex (\<lambda>c. c_pc c = p) (clients s)"

text \<open>\<^verbatim>\<open>cvTaskDone.notify_one()\<close> waking client \<open>k\<close>, or nobody when nobody waits.\<close>

definition notify_done :: "nat \<Rightarrow> system \<Rightarrow> system option" where
  "notify_done k s =
     (if waits_at C_Wait s k then Some (goto k Ready s)
      else if someone_at C_Wait s then None else Some s)"

text \<open>
  \<^verbatim>\<open>cvTaskAvailable.notify_one()\<close>: on this condition variable the worker waits (\<open>None\<close>) and so
  do the callers of \<open>submitVoidTask\<close> (\<open>Some j\<close>).
\<close>

definition notify_available :: "nat option \<Rightarrow> system \<Rightarrow> system option" where
  "notify_available who s = (case who of
     None \<Rightarrow> if worker s = W_Wait then Some (s\<lparr>worker := W_Check\<rparr>)
             else if someone_at S_Wait s then None else Some s
   | Some j \<Rightarrow> if waits_at S_Wait s j then Some (goto j Ready s) else None)"

definition notify_all_available :: "system \<Rightarrow> system" where
  "notify_all_available s = s\<lparr>worker := (if worker s = W_Wait then W_Check else worker s),
     clients := map (\<lambda>c. if c_pc c = S_Wait then c\<lparr>c_pc := Ready\<rparr> else c) (clients s)\<rparr>"

text \<open>\<open>workerThreadBody\<close>.\<close>

definition worker_step :: "nat \<Rightarrow> system \<Rightarrow> system option" where
  "worker_step k s = (case worker s of
     W_Check \<Rightarrow>
       if \<not> (taskAvailable (exec s) \<or> stopFlag (exec s)) then Some (s\<lparr>worker := W_Wait\<rparr>)
       else if stopFlag (exec s) then Some (s\<lparr>worker := W_Exit\<rparr>)
       else (case take_task (exec s) of (t, ex') \<Rightarrow>
         Some (s\<lparr>exec := ex', worker := (case t of Some j \<Rightarrow> W_Run j | None \<Rightarrow> W_Check)\<rparr>))
   | W_Wait \<Rightarrow> None
   | W_Run j \<Rightarrow> Some (s\<lparr>executed := executed s @ [j], worker := W_Done (snd j)\<rparr>)
   | W_Done oc \<Rightarrow> Some (s\<lparr>exec := record_outcome oc (exec s), worker := W_NotifyDone\<rparr>)
   | W_NotifyDone \<Rightarrow> notify_done k (s\<lparr>worker := W_Check\<rparr>)
   | W_Exit \<Rightarrow> None)"

definition submitVoidTask :: "nat \<Rightarrow> job option \<Rightarrow> system \<Rightarrow> system" where
  "submitVoidTask i t s =
     (if taskAvailable (exec s) then goto i S_Wait s
      else return_to i S_Notify (s\<lparr>exec := put_task t (exec s),
        submitted := submitted s @ (case t of Some j \<Rightarrow> [j] | None \<Rightarrow> [])\<rparr>))"

definition waitForTaskCompletion :: "nat \<Rightarrow> system \<Rightarrow> system" where
  "waitForTaskCompletion i s =
     (if taskCompletionState (exec s) \<noteq> NOT_DONE
      then return_to i Ready (s\<lparr>results := results s @ [(i, taskCompletionState (exec s))]\<rparr>)
      else goto i C_Wait s)"

definition TaskExecutor_destroy :: "nat \<Rightarrow> system \<Rightarrow> system" where
  "TaskExecutor_destroy i s = goto i D_Notify (s\<lparr>exec := (exec s)\<lparr>stopFlag := True\<rparr>\<rparr>)"

definition client_step :: "nat \<Rightarrow> nat option \<Rightarrow> system \<Rightarrow> system option" where
  "client_step i who s =
     (if i < length (clients s) then
        (case c_pc (clients s ! i) of
           Ready \<Rightarrow> (case c_calls (clients s ! i) of
               [] \<Rightarrow> None
             | Submit t # _ \<Rightarrow> Some (submitVoidTask i t s)
             | WaitDone # _ \<Rightarrow> Some (waitForTaskCompletion i s)
             | Destroy # _ \<Rightarrow> Some (TaskExecutor_destroy i s))
         | S_Wait \<Rightarrow> None
         | C_Wait \<Rightarrow> None
         | S_Notify \<Rightarrow> notify_available who (goto i Ready s)
         | D_Notify \<Rightarrow> Some (goto i D_Join (notify_all_available s))
         | D_Join \<Rightarrow> if worker s = W_Exit then Some (return_to i Ready s) else None)
      else None)"

datatype actor = Worker nat | Client nat "nat option"

definition te_step :: "actor \<Rightarrow> system \<Rightarrow> system option" where
  "te_step a s = (case a of Worker k \<Rightarrow> worker_step k s | Client i who \<Rightarrow> client_step i who s)"

fun te_run :: "actor list \<Rightarrow> system \<Rightarrow> system option" where
  "te_run [] s = Some s"
| "te_run (a # as) s = Option.bind (te_step a s) (te_run as)"

inductive te_reach :: "system \<Rightarrow> system \<Rightarrow> bool" for s0 where
  te_start: "te_reach s0 s0"
| te_next: "te_reach s0 s \<Longrightarrow> te_step a s = Some s' \<Longrightarrow> te_reach s0 s'"

inductive_cases te_reach_cases: "te_reach s0 s"

section \<open>Every task is run once, in order\<close>

definition queue_inv :: "system \<Rightarrow> bool" where
  "queue_inv s \<longleftrightarrow> submitted s = executed s @ (case worker s of W_Run j \<Rightarrow> [j] | _ \<Rightarrow> []) @
     (if taskAvailable (exec s) then (case task (exec s) of Some j \<Rightarrow> [j] | None \<Rightarrow> []) else [])"

lemma thread_fields [simp]:
  "exec (goto i p s) = exec s" "worker (goto i p s) = worker s" "submitted (goto i p s) = submitted s"
  "executed (goto i p s) = executed s" "results (goto i p s) = results s"
  "exec (return_to i p s) = exec s" "worker (return_to i p s) = worker s" "submitted (return_to i p s) = submitted s"
  "executed (return_to i p s) = executed s" "results (return_to i p s) = results s"
  by (simp_all add: goto_def return_to_def)

lemma notify_done_cases:
  assumes "notify_done k s = Some s'"
  shows "s' = s \<or> s' = goto k Ready s"
  using assms by (auto simp: notify_done_def split: if_splits)

lemma notify_available_cases:
  assumes "notify_available who s = Some s'"
  shows "s' = s \<or> (\<exists>j. s' = goto j Ready s) \<or> (worker s = W_Wait \<and> s' = s\<lparr>worker := W_Check\<rparr>)"
  using assms by (auto simp: notify_available_def split: if_splits option.splits)

lemma queue_inv_cong:
  "submitted s' = submitted s \<Longrightarrow> executed s' = executed s \<Longrightarrow> exec s' = exec s \<Longrightarrow>
   (worker s' = worker s \<or> (\<nexists>j. worker s = W_Run j) \<and> (\<nexists>j. worker s' = W_Run j)) \<Longrightarrow> queue_inv s \<Longrightarrow> queue_inv s'"
  by (auto simp: queue_inv_def split: wpc.splits)

lemma worker_step_queue:
  assumes "queue_inv s" "worker_step k s = Some s'"
  shows "queue_inv s'"
proof (cases "worker s")
  case W_Check
  then show ?thesis
    using assms by (auto simp: worker_step_def queue_inv_def take_task_def split: if_splits option.splits)
next
  case (W_Run j)
  then show ?thesis
    using assms by (simp add: worker_step_def queue_inv_def) auto
next
  case (W_Done oc)
  then show ?thesis
    using assms by (auto simp: worker_step_def queue_inv_def record_outcome_def split: outcome.splits)
next
  case W_NotifyDone
  then show ?thesis
    using assms notify_done_cases [of k "s\<lparr>worker := W_Check\<rparr>" s']
    by (intro queue_inv_cong [of s' s]) (auto simp: worker_step_def)
qed (use assms in \<open>auto simp: worker_step_def\<close>)

lemma client_call_queue:
  assumes "queue_inv s"
  shows "queue_inv (submitVoidTask i t s)" "queue_inv (waitForTaskCompletion i s)" "queue_inv (TaskExecutor_destroy i s)"
  using assms
  by (auto simp: queue_inv_def submitVoidTask_def waitForTaskCompletion_def TaskExecutor_destroy_def put_task_def split: option.splits)

lemma client_step_queue:
  assumes "queue_inv s" "client_step i who s = Some s'"
  shows "queue_inv s'"
proof (cases "c_pc (clients s ! i)")
  case Ready
  then show ?thesis
    using assms client_call_queue [OF assms(1)] by (auto simp: client_step_def split: if_splits list.splits call.splits)
next
  case S_Notify
  then have "notify_available who (goto i Ready s) = Some s'"
    using assms(2) by (simp add: client_step_def split: if_splits)
  from notify_available_cases [OF this]
  have "submitted s' = submitted s \<and> executed s' = executed s \<and> exec s' = exec s \<and>
      (worker s' = worker s \<or> worker s = W_Wait \<and> worker s' = W_Check)"
    by (elim disjE exE conjE) simp_all
  then show ?thesis
    using assms(1) by (intro queue_inv_cong [of s' s]) auto
next
  case D_Notify
  then show ?thesis
    using assms by (intro queue_inv_cong [of s' s]) (auto simp: client_step_def notify_all_available_def split: if_splits)
next
  case D_Join
  then show ?thesis
    using assms by (intro queue_inv_cong [of s' s]) (auto simp: client_step_def split: if_splits)
qed (use assms in \<open>auto simp: client_step_def split: if_splits\<close>)

lemma te_step_queue: "queue_inv s \<Longrightarrow> te_step a s = Some s' \<Longrightarrow> queue_inv s'"
  by (cases a) (simp_all add: te_step_def, erule (1) worker_step_queue, erule (1) client_step_queue)

lemma te_reach_queue:
  assumes "te_reach (system_new css) s"
  shows "queue_inv s"
  using assms
proof (induction rule: te_reach.induct)
  case te_start
  then show ?case by (simp add: queue_inv_def system_new_def TaskExecutor_new_def)
qed (rule te_step_queue)

section \<open>A caller that waits for each of its tasks\<close>

definition state_of :: "job \<Rightarrow> CompletionState" where
  "state_of j = (if snd j = Returns then DONE else DONE_WITH_ERRORS)"

definition one_by_one :: "job list \<Rightarrow> call list" where
  "one_by_one js = concat (map (\<lambda>j. [Submit (Some j), WaitDone]) js)"

lemma one_by_one_simps [simp]: "one_by_one [] = []" "one_by_one (j # js) = Submit (Some j) # WaitDone # one_by_one js"
  by (simp_all add: one_by_one_def)

text \<open>
  The states of such a system: the tasks \<open>past\<close> are over and \<open>rest\<close> are to come. Between two
  tasks, or with the task \<open>j\<close> posted, running, finished or recorded.
\<close>

datatype phase = Between | Posted job | Running job | Finished job | Recorded job

fun phase_ok :: "job list \<Rightarrow> job list \<Rightarrow> phase \<Rightarrow> system \<Rightarrow> bool" where
  "phase_ok past rest Between s \<longleftrightarrow>
     clients s = [\<lparr>c_pc = Ready, c_calls = one_by_one rest\<rparr>] \<and> \<not> taskAvailable (exec s) \<and>
     worker s \<in> {W_Check, W_Wait, W_NotifyDone} \<and> executed s = past"
| "phase_ok past rest (Posted j) s \<longleftrightarrow>
     (\<exists>p. clients s = [\<lparr>c_pc = p, c_calls = WaitDone # one_by_one rest\<rparr>] \<and> p \<in> {S_Notify, Ready, C_Wait} \<and>
        (worker s \<in> {W_Check, W_NotifyDone} \<or> worker s = W_Wait \<and> p = S_Notify)) \<and>
     taskAvailable (exec s) \<and> task (exec s) = Some j \<and> taskCompletionState (exec s) = NOT_DONE \<and> executed s = past"
| "phase_ok past rest (Running j) s \<longleftrightarrow>
     (\<exists>p. clients s = [\<lparr>c_pc = p, c_calls = WaitDone # one_by_one rest\<rparr>] \<and> p \<in> {S_Notify, Ready, C_Wait}) \<and>
     \<not> taskAvailable (exec s) \<and> taskCompletionState (exec s) = NOT_DONE \<and> worker s = W_Run j \<and> executed s = past"
| "phase_ok past rest (Finished j) s \<longleftrightarrow>
     (\<exists>p. clients s = [\<lparr>c_pc = p, c_calls = WaitDone # one_by_one rest\<rparr>] \<and> p \<in> {S_Notify, Ready, C_Wait}) \<and>
     \<not> taskAvailable (exec s) \<and> taskCompletionState (exec s) = NOT_DONE \<and> worker s = W_Done (snd j) \<and> executed s = past @ [j]"
| "phase_ok past rest (Recorded j) s \<longleftrightarrow>
     (\<exists>p. clients s = [\<lparr>c_pc = p, c_calls = WaitDone # one_by_one rest\<rparr>] \<and>
        (worker s = W_NotifyDone \<and> p \<in> {S_Notify, Ready, C_Wait} \<or> worker s \<in> {W_Check, W_Wait} \<and> p \<in> {S_Notify, Ready})) \<and>
     \<not> taskAvailable (exec s) \<and> taskCompletionState (exec s) = state_of j \<and> executed s = past @ [j]"

definition wait_inv :: "job list \<Rightarrow> job list \<Rightarrow> phase \<Rightarrow> system \<Rightarrow> bool" where
  "wait_inv past rest ph s \<longleftrightarrow> phase_ok past rest ph s \<and> \<not> stopFlag (exec s) \<and>
     results s = map (\<lambda>j. (0, state_of j)) past"

definition phase_jobs :: "phase \<Rightarrow> job list" where
  "phase_jobs ph = (case ph of Between \<Rightarrow> [] | Posted j \<Rightarrow> [j] | Running j \<Rightarrow> [j] | Finished j \<Rightarrow> [j] | Recorded j \<Rightarrow> [j])"

text \<open>Every step goes down in this measure.\<close>

fun work_left :: "phase \<Rightarrow> nat" where
  "work_left Between = 0" | "work_left (Posted j) = 40" | "work_left (Running j) = 30"
| "work_left (Finished j) = 26" | "work_left (Recorded j) = 10"

definition worker_weight :: "wpc \<Rightarrow> nat" where
  "worker_weight w = (case w of W_Wait \<Rightarrow> 0 | W_Check \<Rightarrow> 3 | W_NotifyDone \<Rightarrow> 6 | _ \<Rightarrow> 0)"

definition client_weight :: "cpc \<Rightarrow> nat" where
  "client_weight p = (case p of S_Notify \<Rightarrow> 9 | Ready \<Rightarrow> 2 | _ \<Rightarrow> 1)"

definition te_measure :: "job list \<Rightarrow> phase \<Rightarrow> system \<Rightarrow> nat" where
  "te_measure rest ph s = 100 * length rest + work_left ph + worker_weight (worker s) + client_weight (c_pc (clients s ! 0))"

lemmas one_client_defs = te_step_def worker_step_def client_step_def submitVoidTask_def waitForTaskCompletion_def
  TaskExecutor_destroy_def take_task_def put_task_def record_outcome_def goto_def return_to_def notify_done_def
  notify_available_def waits_at_def someone_at_def wait_inv_def phase_jobs_def te_measure_def worker_weight_def
  client_weight_def

lemma state_of_done [simp]: "state_of j \<noteq> NOT_DONE"
  by (simp add: state_of_def)

lemma step_Between:
  assumes "wait_inv past rest Between s" "te_step a s = Some s'"
  shows "wait_inv past rest Between s' \<and> te_measure rest Between s' < te_measure rest Between s \<or>
    (\<exists>j js. rest = j # js \<and> wait_inv past js (Posted j) s' \<and> te_measure js (Posted j) s' < te_measure rest Between s)"
proof (cases a)
  case (Worker k)
  then show ?thesis
    using assms by (auto simp: one_client_defs split: if_splits)
next
  case (Client i who)
  then show ?thesis
    using assms by (cases rest) (auto simp: one_client_defs split: if_splits)
qed

lemma step_Posted:
  assumes "wait_inv past rest (Posted j) s" "te_step a s = Some s'"
  shows "\<exists>ph\<in>{Posted j, Running j}. wait_inv past rest ph s' \<and> te_measure rest ph s' < te_measure rest (Posted j) s"
proof (cases a)
  case (Worker k)
  then show ?thesis
    using assms by (auto simp: one_client_defs split: if_splits)
next
  case (Client i who)
  then show ?thesis
    using assms by (cases "c_pc (clients s ! 0)"; cases "worker s"; cases who)
      (simp_all add: one_client_defs split: if_splits, auto)
qed

lemma step_Running:
  assumes "wait_inv past rest (Running j) s" "te_step a s = Some s'"
  shows "\<exists>ph\<in>{Running j, Finished j}. wait_inv past rest ph s' \<and> te_measure rest ph s' < te_measure rest (Running j) s"
proof (cases a)
  case (Worker k)
  then show ?thesis
    using assms by (auto simp: one_client_defs split: if_splits)
next
  case (Client i who)
  then show ?thesis
    using assms by (auto simp: one_client_defs split: if_splits option.splits)
qed

lemma step_Finished:
  assumes "wait_inv past rest (Finished j) s" "te_step a s = Some s'"
  shows "\<exists>ph\<in>{Finished j, Recorded j}. wait_inv past rest ph s' \<and> te_measure rest ph s' < te_measure rest (Finished j) s"
proof (cases a)
  case (Worker k)
  then show ?thesis
    using assms by (cases "snd j") (auto simp: one_client_defs state_of_def split: if_splits)
next
  case (Client i who)
  then show ?thesis
    using assms by (auto simp: one_client_defs split: if_splits option.splits)
qed

lemma step_Recorded:
  assumes "wait_inv past rest (Recorded j) s" "te_step a s = Some s'"
  shows "wait_inv past rest (Recorded j) s' \<and> te_measure rest (Recorded j) s' < te_measure rest (Recorded j) s \<or>
    wait_inv (past @ [j]) rest Between s' \<and> te_measure rest Between s' < te_measure rest (Recorded j) s"
proof (cases a)
  case (Worker k)
  then show ?thesis
    using assms by (auto simp: one_client_defs split: if_splits)
next
  case (Client i who)
  then have i: "i = 0"
    using assms by (auto simp: te_step_def client_step_def wait_inv_def split: if_splits)
  obtain p where c: "clients s = [\<lparr>c_pc = p, c_calls = WaitDone # one_by_one rest\<rparr>]"
    and rest: "\<not> taskAvailable (exec s)" "taskCompletionState (exec s) = state_of j" "executed s = past @ [j]"
      "\<not> stopFlag (exec s)" "results s = map (\<lambda>j. (0, state_of j)) past"
    and w: "worker s = W_NotifyDone \<and> p \<in> {S_Notify, Ready, C_Wait} \<or> worker s \<in> {W_Check, W_Wait} \<and> p \<in> {S_Notify, Ready}"
    using assms(1) by (auto simp: wait_inv_def)
  consider "p = Ready" | "p = S_Notify" | "p = C_Wait"
    using w by auto
  then show ?thesis
  proof cases
    case 1
    then have "s' = waitForTaskCompletion 0 s"
      using assms(2) Client i c by (simp add: te_step_def client_step_def)
    then show ?thesis
      using w rest c 1 by (auto simp: waitForTaskCompletion_def return_to_def wait_inv_def te_measure_def client_weight_def)
  next
    case 2
    then show ?thesis
      using assms(2) Client i c w rest by (cases who)
        (auto simp: one_client_defs split: if_splits)
  next
    case 3
    then show ?thesis
      using assms(2) Client i c by (simp add: te_step_def client_step_def)
  qed
qed

lemma phase_jobs_simps [simp]:
  "phase_jobs Between = []" "phase_jobs (Posted j) = [j]" "phase_jobs (Running j) = [j]"
  "phase_jobs (Finished j) = [j]" "phase_jobs (Recorded j) = [j]"
  by (simp_all add: phase_jobs_def)

lemma next_state:
  assumes "wait_inv past' rest' ph' s' \<and> te_measure rest' ph' s' < m" "past' @ phase_jobs ph' @ rest' = jobs"
  shows "\<exists>past' rest' ph'. past' @ phase_jobs ph' @ rest' = jobs \<and> wait_inv past' rest' ph' s' \<and> te_measure rest' ph' s' < m"
  using assms by blast

lemma wait_step:
  assumes "wait_inv past rest ph s" "te_step a s = Some s'"
  shows "\<exists>past' rest' ph'. past' @ phase_jobs ph' @ rest' = past @ phase_jobs ph @ rest \<and> wait_inv past' rest' ph' s' \<and>
    te_measure rest' ph' s' < te_measure rest ph s"
proof (cases ph)
  case Between
  from step_Between [OF assms(1) [unfolded Between] assms(2)] show ?thesis
    unfolding Between by (elim disjE exE conjE) (rule next_state, rule conjI, assumption, assumption, simp)+
next
  case (Posted j)
  from step_Posted [OF assms(1) [unfolded Posted] assms(2)] obtain ph' where
    "ph' \<in> {Posted j, Running j}" "wait_inv past rest ph' s' \<and> te_measure rest ph' s' < te_measure rest (Posted j) s"
    by blast
  then show ?thesis
    using next_state [of past rest ph' s'] by (auto simp: Posted)
next
  case (Running j)
  from step_Running [OF assms(1) [unfolded Running] assms(2)] obtain ph' where
    "ph' \<in> {Running j, Finished j}" "wait_inv past rest ph' s' \<and> te_measure rest ph' s' < te_measure rest (Running j) s"
    by blast
  then show ?thesis
    using next_state [of past rest ph' s'] by (auto simp: Running)
next
  case (Finished j)
  from step_Finished [OF assms(1) [unfolded Finished] assms(2)] obtain ph' where
    "ph' \<in> {Finished j, Recorded j}" "wait_inv past rest ph' s' \<and> te_measure rest ph' s' < te_measure rest (Finished j) s"
    by blast
  then show ?thesis
    using next_state [of past rest ph' s'] by (auto simp: Finished)
next
  case (Recorded j)
  from step_Recorded [OF assms(1) [unfolded Recorded] assms(2)] show ?thesis
    unfolding Recorded by (elim disjE) (rule next_state, assumption, simp)+
qed

lemma wait_run:
  assumes "te_run as s = Some s'" "wait_inv past rest ph s"
  shows "\<exists>past' rest' ph'. past' @ phase_jobs ph' @ rest' = past @ phase_jobs ph @ rest \<and> wait_inv past' rest' ph' s' \<and>
    length as + te_measure rest' ph' s' \<le> te_measure rest ph s"
  using assms
proof (induction as arbitrary: s past rest ph)
  case Nil
  then show ?case by auto
next
  case (Cons a as)
  then obtain s1 where s1: "te_step a s = Some s1" "te_run as s1 = Some s'"
    by (auto simp: bind_eq_Some_conv)
  from wait_step [OF Cons.prems(2) s1(1)] obtain p1 r1 ph1 where 1:
    "p1 @ phase_jobs ph1 @ r1 = past @ phase_jobs ph @ rest" "wait_inv p1 r1 ph1 s1" "te_measure r1 ph1 s1 < te_measure rest ph s"
    by blast
  from Cons.IH [OF s1(2) 1(2)] obtain p2 r2 ph2 where
    "p2 @ phase_jobs ph2 @ r2 = p1 @ phase_jobs ph1 @ r1" "wait_inv p2 r2 ph2 s'"
    "length as + te_measure r2 ph2 s' \<le> te_measure r1 ph1 s1"
    by blast
  with 1 show ?case
    by (intro exI [of _ p2] exI [of _ r2] exI [of _ ph2]) simp
qed

text \<open>Only when everything has been done is there nothing left to do.\<close>

lemma wait_progress:
  assumes "wait_inv past rest ph s" "te_step (Worker 0) s = None" "te_step (Client 0 None) s = None"
  shows "ph = Between \<and> rest = []"
proof (cases ph)
  case Between
  then show ?thesis
    using assms by (cases rest) (auto simp: wait_inv_def te_step_def client_step_def)
next
  case (Posted j)
  then show ?thesis
    using assms by (auto simp: one_client_defs split: if_splits)
next
  case (Recorded j)
  then show ?thesis
    using assms by (auto simp: one_client_defs split: if_splits)
qed (use assms in \<open>auto simp: wait_inv_def te_step_def worker_step_def\<close>)

lemma wait_start: "wait_inv [] js Between (system_new [one_by_one js])"
  by (simp add: wait_inv_def system_new_def TaskExecutor_new_def)

section \<open>Properties\<close>

text \<open>C14: a caller that waits for each task gets each task's outcome, and the conversation
  always ends. For any list of tasks, submitted and awaited one by one, and every schedule
  of the two threads: the schedule has at most 100 steps per task, the results returned so
  far are the outcomes of the first tasks in order, and a state in which no thread can
  move has every task run exactly once, in order, and every outcome returned.\<close>

theorem TaskExecutor_one_by_one:
  assumes "te_run as (system_new [one_by_one js]) = Some s"
  shows "length as \<le> 100 * length js + 5 \<and> (\<exists>k. results s = map (\<lambda>j. (0, state_of j)) (take k js)) \<and>
    ((\<forall>a. te_step a s = None) \<longrightarrow> executed s = js \<and> results s = map (\<lambda>j. (0, state_of j)) js)"
proof -
  from wait_run [OF assms wait_start] obtain past rest ph where
    1: "past @ phase_jobs ph @ rest = js" "wait_inv past rest ph s"
      "length as + te_measure rest ph s \<le> te_measure js Between (system_new [one_by_one js])"
    by (auto simp: phase_jobs_def)
  have "te_measure js Between (system_new [one_by_one js]) = 100 * length js + 5"
    by (simp add: te_measure_def system_new_def worker_weight_def client_weight_def)
  moreover have "results s = map (\<lambda>j. (0, state_of j)) (take (length past) js)"
    using 1 by (auto simp: wait_inv_def)
  moreover have "executed s = js \<and> results s = map (\<lambda>j. (0, state_of j)) js" if "\<forall>a. te_step a s = None"
    using wait_progress [OF 1(2)] that 1(1,2) by (auto simp: wait_inv_def phase_jobs_def)
  ultimately show ?thesis
    using 1(3) by auto
qed

theorem TaskExecutor_one_by_one_witness:
  "\<exists>s. te_run [Worker 0, Client 0 None, Client 0 None, Client 0 None, Worker 0, Worker 0, Worker 0, Worker 0, Client 0 None, Worker 0]
      (system_new [one_by_one [(7, Throws_other)]]) = Some s \<and> results s = [(0, DONE_WITH_ERRORS)] \<and> executed s = [(7, Throws_other)]"
proof -
  let ?as = "[Worker 0, Client 0 None, Client 0 None, Client 0 None, Worker 0, Worker 0, Worker 0, Worker 0, Client 0 None, Worker 0]"
  let ?s0 = "system_new [one_by_one [(7, Throws_other)]]"
  define s where "s = the (te_run ?as ?s0)"
  have run: "te_run ?as ?s0 = Some s" and w: "worker s = W_Wait" and c: "clients s = [\<lparr>c_pc = Ready, c_calls = []\<rparr>]"
    unfolding s_def by code_simp+
  have "te_step a s = None" for a
    by (cases a) (simp_all add: te_step_def worker_step_def client_step_def w c)
  then show ?thesis
    using TaskExecutor_one_by_one [OF run] run by (simp add: state_of_def)
qed

text \<open>C15: no task is lost, repeated or reordered. With any number of threads calling
  \<open>submitVoidTask\<close>, in every reachable state the tasks whose submission has gone through are,
  in their order, those that were run, the one running, and the one waiting to be taken.\<close>

theorem TaskExecutor_exactly_once:
  assumes "te_reach (system_new css) s"
  shows "submitted s = executed s @ (case worker s of W_Run j \<Rightarrow> [j] | _ \<Rightarrow> []) @
    (if taskAvailable (exec s) then (case task (exec s) of Some j \<Rightarrow> [j] | None \<Rightarrow> []) else [])"
  using te_reach_queue [OF assms] by (simp add: queue_inv_def)

lemma te_run_reach:
  assumes "te_run as s = Some s'" "te_reach s0 s"
  shows "te_reach s0 s'"
  using assms by (induction as arbitrary: s) (auto simp: bind_eq_Some_conv intro: te_next)

theorem TaskExecutor_exactly_once_witness:
  "submitted (the (te_run [Client 0 None, Client 0 None, Worker 0, Client 1 None] (system_new [[Submit (Some (1, Returns))], [Submit (Some (2, Returns))]]))) =
    [(1, Returns), (2, Returns)]"
proof -
  let ?s0 = "system_new [[Submit (Some (1, Returns))], [Submit (Some (2, Returns))]]"
  let ?as = "[Client 0 None, Client 0 None, Worker 0, Client 1 None]"
  define s where "s = the (te_run ?as ?s0)"
  have run: "te_run ?as ?s0 = Some s" and w: "worker s = W_Run (1, Returns)" and e: "executed s = []"
    and ex: "taskAvailable (exec s)" "task (exec s) = Some (2, Returns)"
    unfolding s_def by code_simp+
  from TaskExecutor_exactly_once [OF te_run_reach [OF run te_start]] show ?thesis
    unfolding s_def [symmetric] by (simp add: w e ex)
qed

text \<open>C16: a third submission can hang forever. When the worker takes a task it does not
  notify \<open>cvTaskAvailable\<close>, on which a caller waits for the slot to be free: after two
  submissions while the worker is busy, the caller of the third one and the worker can end
  up waiting for each other, with the slot free and the task never run.\<close>

theorem TaskExecutor_submit_hangs:
  "\<exists>as s. te_run as (system_new [[Submit (Some a), Submit (Some b), Submit (Some c)]]) = Some s \<and>
     (\<nexists>x s'. te_step x s = Some s') \<and> \<not> taskAvailable (exec s) \<and> executed s = [a, b] \<and> submitted s = [a, b]"
proof -
  let ?s0 = "system_new [[Submit (Some a), Submit (Some b), Submit (Some c)]]"
  let ?as = "[Client 0 None, Client 0 None, Worker 0, Client 0 None, Client 0 None, Client 0 None,
    Worker 0, Worker 0, Worker 0, Worker 0, Worker 0, Worker 0, Worker 0, Worker 0]"
  obtain s where run: "te_run ?as ?s0 = Some s" and w: "worker s = W_Wait"
    and c: "clients s = [\<lparr>c_pc = S_Wait, c_calls = [Submit (Some c)]\<rparr>]"
    and rest: "\<not> taskAvailable (exec s)" "executed s = [a, b]" "submitted s = [a, b]"
    by (cases "snd a"; cases "snd b") (simp_all add: one_client_defs system_new_def TaskExecutor_new_def bind_eq_Some_conv)
  have "te_step x s = None" for x
    by (cases x) (simp_all add: te_step_def worker_step_def client_step_def w c)
  with run rest show ?thesis
    by (intro exI [of _ ?as] exI [of _ s]) auto
qed

text \<open>\<open>waitForTaskCompletion\<close> can report on the wrong task. After two submissions it may
  return the completion of the first one while the second one, submitted last, has not
  been run.\<close>

theorem TaskExecutor_wait_reports_previous:
  "\<exists>as s. te_run as (system_new [[Submit (Some (1, Returns)), Submit (Some (2, oc)), WaitDone]]) = Some s \<and>
     results s = [(0, DONE)] \<and> executed s = [(1, Returns)] \<and> submitted s = [(1, Returns), (2, oc)]"
  by (intro exI [of _ "[Client 0 None, Client 0 None, Worker 0, Client 0 None, Client 0 None,
      Worker 0, Worker 0, Client 0 None]"])
    (simp add: one_client_defs system_new_def TaskExecutor_new_def)

text \<open>waiting for an empty task hangs. The worker takes an empty \<^verbatim>\<open>std::function\<close> without
  setting a completion state or notifying anybody.\<close>

theorem TaskExecutor_empty_task_hangs:
  "\<exists>as s. te_run as (system_new [[Submit None, WaitDone]]) = Some s \<and> (\<nexists>x s'. te_step x s = Some s') \<and> results s = []"
proof -
  let ?as = "[Client 0 None, Client 0 None, Worker 0, Worker 0, Client 0 None]"
  let ?s0 = "system_new [[Submit None, WaitDone]]"
  obtain s where run: "te_run ?as ?s0 = Some s" and w: "worker s = W_Wait"
    and c: "clients s = [\<lparr>c_pc = C_Wait, c_calls = [WaitDone]\<rparr>]" and r: "results s = []"
    by (simp add: one_client_defs system_new_def TaskExecutor_new_def)
  have "te_step x s = None" for x
    by (cases x) (simp_all add: te_step_def worker_step_def client_step_def w c)
  with run r show ?thesis
    by (intro exI [of _ ?as] exI [of _ s]) auto
qed

end
