(* ===== verification/TaskFuture.thy ===== *)
theory TaskFuture
  imports TaskExecutor
begin

text \<open>
  \<open>TaskExecutor::submitTask\<close> (\<^verbatim>\<open>src/headers/concurrency/TaskExecutor.hpp\<close>): a task with a result.
  The closure that calls the task and fulfils the promise is a local variable of the
  call; what is handed to \<open>submitVoidTask\<close> only refers to it.
\<close>

text \<open>What the given function does: give a value, or throw.\<close>

datatype 'r body = Value 'r | Fails outcome

text \<open>The local closure: its outcome as a task and the value the future gets.\<close>

definition taskToSumbit :: "'r body \<Rightarrow> outcome \<times> 'r option" where
  "taskToSumbit newTask = (case newTask of Value v \<Rightarrow> (Returns, Some v) | Fails oc \<Rightarrow> (oc, None))"

definition submitTask :: "nat \<Rightarrow> nat \<Rightarrow> 'r body \<Rightarrow> system \<Rightarrow> system" where
  "submitTask i n newTask s = submitVoidTask i (Some (n, fst (taskToSumbit newTask))) s"

text \<open>After the task was put in place, the call of client \<open>i\<close> lasts until it has notified the
  worker. The worker's call of the reference is defined as long as it does.\<close>

definition call_submitted :: "nat \<Rightarrow> 'r body \<Rightarrow> system \<Rightarrow> (outcome \<times> 'r option) result" where
  "call_submitted i newTask s =
     (if c_pc (clients s ! i) = S_Notify then Inr (taskToSumbit newTask)
      else Inl (Undefined_behaviour ''taskToSumbit: object destroyed''))"

text \<open>An executor with one caller, which submits one task.\<close>

definition one_caller :: "nat \<Rightarrow> 'r body \<Rightarrow> system" where
  "one_caller n newTask = system_new [[Submit (Some (n, fst (taskToSumbit newTask)))]]"

section \<open>Properties\<close>

text \<open>\<open>submitTask\<close> leaves a dangling reference. Whatever the task is, a caller that submits it
  to an idle executor returns before the worker gets to it, and the worker then calls a closure
  whose frame is gone; only when the worker was already on its way to look for a task can
  the call happen in time.\<close>

theorem submitTask_dangling:
  "\<exists>s1 s2. te_run [Worker 0] (one_caller n newTask) = Some s1 \<and> worker s1 = W_Wait \<and>
    te_run [Client 0 None, Worker 0] (submitTask 0 n newTask s1) = Some s2 \<and> te_reach (one_caller n newTask) s2 \<and>
    worker s2 = W_Run (n, fst (taskToSumbit newTask)) \<and>
    call_submitted 0 newTask s2 = Inl (Undefined_behaviour ''taskToSumbit: object destroyed'')"
proof -
  define s0 where "s0 = one_caller n newTask"
  define s1 where "s1 = s0\<lparr>worker := W_Wait\<rparr>"
  have s1: "te_run [Worker 0] s0 = Some s1"
    by (simp add: s0_def one_caller_def s1_def te_step_def worker_step_def system_new_def TaskExecutor_new_def)
  define s2 where "s2 = the (te_run [Client 0 None, Worker 0] (submitTask 0 n newTask s1))"
  note defs = s0_def one_caller_def s1_def system_new_def TaskExecutor_new_def submitTask_def submitVoidTask_def put_task_def return_to_def goto_def
    te_step_def client_step_def notify_available_def worker_step_def take_task_def
  have s2: "te_run [Client 0 None, Worker 0] (submitTask 0 n newTask s1) = Some s2"
    "worker s2 = W_Run (n, fst (taskToSumbit newTask))" "c_pc (clients s2 ! 0) = Ready"
    by (simp_all add: s2_def defs)
  have "te_step (Client 0 None) s1 = Some (submitTask 0 n newTask s1)"
    by (simp add: s0_def one_caller_def s1_def system_new_def te_step_def client_step_def submitTask_def)
  then have "te_run [Worker 0, Client 0 None, Client 0 None, Worker 0] s0 = Some s2"
    using s1 s2(1) by (auto simp: Option.bind_eq_Some_conv)
  then have "te_reach s0 s2"
    by (rule te_run_reach [OF _ te_start])
  then show ?thesis
    using s1 s2 by (auto simp: call_submitted_def s1_def s0_def [symmetric])
qed

end
