(* ===== verification/Addresses.thy ===== *)
theory Addresses
  imports LittleEndian
begin

text \<open>
  \<^verbatim>\<open>src/headers/network/NetworkDefinitions.h\<close> and \<^verbatim>\<open>src/src/network/NetworkDefinitions.cpp\<close>:
  internet and hardware addresses. An IPv4 address is a 32-bit word whose bytes in memory
  are its octets from left to right. The conversions to and from text of the C library
  (\<^verbatim>\<open>inet_pton\<close>, \<^verbatim>\<open>inet_ntop\<close>) are the parameters \<open>inet_api\<close>.
\<close>

datatype InternetProtocolVersion = IPv4_version | IPv6_version

datatype SocketStatus = CONNECTED | CLOSED | SS_ERROR

type_synonym IPv4NetMask = uint32

definition NETMASK_32BIT :: IPv4NetMask where "NETMASK_32BIT = 0xFFFFFFFF"
definition NETMASK_24BIT :: IPv4NetMask where "NETMASK_24BIT = 0x00FFFFFF"
definition NETMASK_16BIT :: IPv4NetMask where "NETMASK_16BIT = 0x0000FFFF"
definition NETMASK_8BIT :: IPv4NetMask where "NETMASK_8BIT = 0x000000FF"

record IPv4 = ipv4_value :: uint32

record IPv6 = ipv6_value :: "byte_t list"

record MacAddress = mac_value :: uint64

record inet_api =
  inet_pton4 :: "string \<Rightarrow> uint32 option"
  inet_pton6 :: "string \<Rightarrow> byte_t list option"
  inet_ntop4 :: "uint32 \<Rightarrow> string"
  inet_ntop6 :: "byte_t list \<Rightarrow> string"

section \<open>IPv4\<close>

text \<open>The member is not initialised and the result of \<^verbatim>\<open>inet_pton\<close> is not looked at: for text
  that is not an address the value is what the memory held, \<open>garbage\<close>.\<close>

definition IPv4_of_string :: "inet_api \<Rightarrow> uint32 \<Rightarrow> string \<Rightarrow> IPv4" where
  "IPv4_of_string api garbage s =
     \<lparr>ipv4_value = (case inet_pton4 api s of Some v \<Rightarrow> v | None \<Rightarrow> garbage)\<rparr>"

definition IPv4_toString :: "inet_api \<Rightarrow> IPv4 \<Rightarrow> string" where
  "IPv4_toString api ip = inet_ntop4 api (ipv4_value ip)"

definition toInAddr :: "IPv4 \<Rightarrow> uint32" where
  "toInAddr ip = ipv4_value ip"

definition matchSubnet :: "IPv4 \<Rightarrow> IPv4 \<Rightarrow> IPv4NetMask \<Rightarrow> bool" where
  "matchSubnet ip subnet netmask \<longleftrightarrow> (ipv4_value ip AND netmask) = (ipv4_value subnet AND netmask)"

definition getSubnet :: "IPv4 \<Rightarrow> IPv4NetMask \<Rightarrow> IPv4" where
  "getSubnet ip netmask = \<lparr>ipv4_value = ipv4_value ip AND netmask\<rparr>"

definition broadcastAddress :: "IPv4 \<Rightarrow> IPv4NetMask \<Rightarrow> IPv4" where
  "broadcastAddress ip netmask = \<lparr>ipv4_value = ipv4_value ip OR NOT netmask\<rparr>"

definition isBroadcastAddress :: "IPv4 \<Rightarrow> IPv4NetMask \<Rightarrow> bool" where
  "isBroadcastAddress ip netmask \<longleftrightarrow> (ipv4_value ip AND NOT netmask) = NOT netmask"

definition IPv4_eq :: "IPv4 \<Rightarrow> IPv4 \<Rightarrow> bool" where
  "IPv4_eq ip other \<longleftrightarrow> ipv4_value ip = ipv4_value other"

definition IPv4_neq :: "IPv4 \<Rightarrow> IPv4 \<Rightarrow> bool" where
  "IPv4_neq ip other \<longleftrightarrow> ipv4_value ip \<noteq> ipv4_value other"

section \<open>IPv6\<close>

definition IPv6_of_string :: "inet_api \<Rightarrow> byte_t list \<Rightarrow> string \<Rightarrow> IPv6" where
  "IPv6_of_string api garbage s =
     \<lparr>ipv6_value = (case inet_pton6 api s of Some v \<Rightarrow> v | None \<Rightarrow> garbage)\<rparr>"

definition IPv6_toString :: "inet_api \<Rightarrow> IPv6 \<Rightarrow> string" where
  "IPv6_toString api ip = inet_ntop6 api (ipv6_value ip)"

definition toIn6Addr :: "IPv6 \<Rightarrow> byte_t list" where
  "toIn6Addr ip = ipv6_value ip"

definition IPv6_eq :: "IPv6 \<Rightarrow> IPv6 \<Rightarrow> bool" where
  "IPv6_eq ip other \<longleftrightarrow> ipv6_value ip = ipv6_value other"

definition IPv6_neq :: "IPv6 \<Rightarrow> IPv6 \<Rightarrow> bool" where
  "IPv6_neq ip other \<longleftrightarrow> ipv6_value ip \<noteq> ipv6_value other"

text \<open>\<open>fromIPv4\<close>: the loop clears the bytes from the fifth on, the first four are copied.\<close>

fun clear_from :: "nat \<Rightarrow> nat \<Rightarrow> byte_t list \<Rightarrow> byte_t list" where
  "clear_from i 0 v = v"
| "clear_from i (Suc n) v = clear_from (Suc i) n (v[i := 0])"

definition fromIPv4 :: "IPv4 \<Rightarrow> IPv6" where
  "fromIPv4 ip = \<lparr>ipv6_value = blit (clear_from 4 12 (replicate 16 0)) 0 (bytes4 (ipv4_value ip))\<rparr>"

section \<open>Hardware addresses\<close>

definition hex_digit :: "nat \<Rightarrow> char" where
  "hex_digit n = ''0123456789abcdef'' ! n"

text \<open>A byte through \<^verbatim>\<open>std::hex << std::setfill('0') << std::setw(2)\<close>.\<close>

definition hex2 :: "nat \<Rightarrow> string" where
  "hex2 n = [hex_digit (n div 16), hex_digit (n mod 16)]"

fun mac_octets :: "nat \<Rightarrow> uint64 \<Rightarrow> string" where
  "mac_octets 0 tempValue = hex2 (unat (tempValue AND 0xFF))"
| "mac_octets (Suc n) tempValue = hex2 (unat (tempValue AND 0xFF)) @ '':'' @ mac_octets n (drop_bit 8 tempValue)"

definition MacAddress_toString :: "MacAddress \<Rightarrow> string" where
  "MacAddress_toString m = mac_octets 5 (mac_value m)"

definition MacAddress_eq :: "MacAddress \<Rightarrow> MacAddress \<Rightarrow> bool" where
  "MacAddress_eq m other \<longleftrightarrow> mac_value m = mac_value other"

definition MacAddress_neq :: "MacAddress \<Rightarrow> MacAddress \<Rightarrow> bool" where
  "MacAddress_neq m other \<longleftrightarrow> mac_value m \<noteq> mac_value other"

section \<open>Octets and subnets\<close>

lemma take_le_encode: "k \<le> n \<Longrightarrow> take k (le_encode n v) = le_encode k v"
proof (induction k arbitrary: n v)
  case (Suc k)
  then obtain m where "n = Suc m" "k \<le> m"
    by (cases n) auto
  with Suc.IH [of m] show ?case by simp
qed simp

lemma le_encode_eq_iff: "le_encode k v = le_encode k w \<longleftrightarrow> v mod 256 ^ k = w mod 256 ^ k"
proof
  assume "le_encode k v = le_encode k w"
  then show "v mod 256 ^ k = w mod 256 ^ k"
    by (metis le_decode_encode)
next
  have "le_encode k v = le_encode k (v mod 256 ^ k)" for v
  proof (induction k arbitrary: v)
    case (Suc k)
    have "v mod (256 * 256 ^ k) mod 256 = v mod 256" "v mod (256 * 256 ^ k) div 256 = v div 256 mod 256 ^ k"
      by (simp_all add: mod_mult2_eq)
    with Suc [of "v div 256"] show ?case
      by simp
  qed simp
  then show "v mod 256 ^ k = w mod 256 ^ k \<Longrightarrow> le_encode k v = le_encode k w"
    by metis
qed

lemma and_mask_octets:
  assumes "k \<le> 4"
  shows "(a AND mask (8 * k)) = (b AND mask (8 * k) :: uint32) \<longleftrightarrow> take k (bytes4 a) = take k (bytes4 b)"
proof -
  have "(2::nat) ^ (8 * k) = 256 ^ k"
    by (simp add: power_mult)
  then have "unat (take_bit (8 * k) x) = unat x mod 256 ^ k" for x :: uint32
    by (simp only: unsigned_take_bit_eq, simp only: take_bit_eq_mod)
  then have "(a AND mask (8 * k)) = (b AND mask (8 * k)) \<longleftrightarrow> unat a mod 256 ^ k = unat b mod 256 ^ k"
    by (simp add: take_bit_eq_mask [symmetric] word_unat_eq_iff)
  then show ?thesis
    using assms by (simp add: bytes4_def take_le_encode le_encode_eq_iff)
qed

text \<open>The masks by the number of octets they keep.\<close>

definition octets_mask :: "nat \<Rightarrow> IPv4NetMask" where
  "octets_mask k = [0, NETMASK_8BIT, NETMASK_16BIT, NETMASK_24BIT, NETMASK_32BIT] ! k"

lemma octets_mask_mask: "k \<le> 4 \<Longrightarrow> octets_mask k = mask (8 * k)"
proof -
  assume "k \<le> 4"
  then have "k = 0 \<or> k = 1 \<or> k = 2 \<or> k = 3 \<or> k = 4" by auto
  then show ?thesis
    by (auto simp: octets_mask_def NETMASK_8BIT_def NETMASK_16BIT_def NETMASK_24BIT_def NETMASK_32BIT_def mask_eq_exp_minus_1)
qed

lemma hex_digit_inj: "m < 16 \<Longrightarrow> n < 16 \<Longrightarrow> hex_digit m = hex_digit n \<longleftrightarrow> m = n"
proof -
  have "distinct ''0123456789abcdef''" "length ''0123456789abcdef'' = 16"
    by simp_all
  then show "m < 16 \<Longrightarrow> n < 16 \<Longrightarrow> ?thesis"
    unfolding hex_digit_def by (metis nth_eq_iff_index_eq)
qed

lemma hex2_inj: "m < 256 \<Longrightarrow> n < 256 \<Longrightarrow> hex2 m = hex2 n \<longleftrightarrow> m = n"
proof -
  assume mn: "m < 256" "n < 256"
  then have "m div 16 < 16" "n div 16 < 16" by auto
  then have "hex2 m = hex2 n \<longleftrightarrow> m div 16 = n div 16 \<and> m mod 16 = n mod 16"
    by (simp add: hex2_def hex_digit_inj)
  then show ?thesis
    by (metis div_mod_decomp)
qed

lemma low_byte: "unat (v AND 0xFF :: uint64) = unat v mod 256"
proof -
  have "v AND 0xFF = take_bit 8 v"
    by (simp add: take_bit_eq_mask mask_eq_exp_minus_1)
  then have "unat (v AND 0xFF) = take_bit 8 (unat v)"
    by (simp only: unsigned_take_bit_eq)
  then show ?thesis
    by (simp add: take_bit_eq_mod)
qed

lemma mac_octets_inj: "mac_octets n v = mac_octets n w \<longleftrightarrow> unat v mod 256 ^ Suc n = unat w mod 256 ^ Suc n"
proof (induction n arbitrary: v w)
  case 0
  then show ?case
    by (simp add: low_byte hex2_inj)
next
  case (Suc n)
  have low: "hex2 (unat v mod 256) = hex2 (unat w mod 256) \<longleftrightarrow> unat v mod 256 = unat w mod 256"
    by (simp add: hex2_inj)
  have shift: "unat (drop_bit 8 x) = unat x div 256" for x :: uint64
  proof -
    have "unat (drop_bit 8 x) = drop_bit 8 (take_bit LENGTH(64) (unat x))"
      by (simp only: unsigned_drop_bit_eq)
    also have "\<dots> = unat x div 256"
      using unsigned_less [of x] by (simp add: drop_bit_eq_div take_bit_nat_eq_self)
    finally show ?thesis .
  qed
  have split: "x mod 256 ^ Suc (Suc n) = x mod 256 + 256 * (x div 256 mod 256 ^ Suc n)" for x :: nat
    using mod_mult2_eq [of x 256 "256 ^ Suc n"] by (simp only: power_Suc ac_simps)
  have "mac_octets (Suc n) v = mac_octets (Suc n) w \<longleftrightarrow>
      unat v mod 256 = unat w mod 256 \<and> unat v div 256 mod 256 ^ Suc n = unat w div 256 mod 256 ^ Suc n"
    using Suc.IH [of "drop_bit 8 v" "drop_bit 8 w"] low by (simp add: low_byte shift hex2_def del: power_Suc) blast
  also have "\<dots> \<longleftrightarrow> unat v mod 256 ^ Suc (Suc n) = unat w mod 256 ^ Suc (Suc n)"
    unfolding split by (metis (no_types, lifting) add_diff_cancel_left' mod_less_divisor mod_mult_self2 mod_mod_trivial
        nonzero_mult_div_cancel_left zero_less_numeral zero_neq_numeral)
  finally show ?case .
qed

section \<open>Properties\<close>

text \<open>a subnet is the addresses with the same leading octets. For the masks of the
  header, which keep \<open>k\<close> octets, \<open>matchSubnet\<close> holds exactly when the first \<open>k\<close> octets
  agree, and agrees with comparing the subnets; the broadcast address lies in the subnet,
  and is the only address of the subnet that is recognised as one.\<close>

theorem IPv4_subnets:
  assumes "k \<le> 4"
  shows "(matchSubnet a b (octets_mask k) \<longleftrightarrow> take k (bytes4 (ipv4_value a)) = take k (bytes4 (ipv4_value b))) \<and>
    (matchSubnet a b m \<longleftrightarrow> IPv4_eq (getSubnet a m) (getSubnet b m)) \<and>
    matchSubnet (broadcastAddress a m) a m \<and>
    (matchSubnet b a m \<longrightarrow> (isBroadcastAddress b m \<longleftrightarrow> IPv4_eq b (broadcastAddress a m)))"
proof -
  have bc: "(b AND NOT m) = NOT m \<longleftrightarrow> b = (a OR NOT m)" if "(b AND m) = (a AND m)" for a b m :: uint32
  proof
    assume *: "(b AND NOT m) = NOT m"
    have "b = (b AND m) OR (b AND NOT m)"
      by (intro bit_word_eqI) (auto simp: bit_simps)
    also have "\<dots> = (a OR NOT m)"
      unfolding that * by (intro bit_word_eqI) (auto simp: bit_simps)
    finally show "b = (a OR NOT m)" .
  next
    assume "b = (a OR NOT m)"
    then show "(b AND NOT m) = NOT m"
      by (intro bit_word_eqI) (auto simp: bit_simps)
  qed
  have "((a OR NOT m) AND m) = (a AND m)" for a m :: uint32
    by (intro bit_word_eqI) (auto simp: bit_simps)
  then show ?thesis
    using and_mask_octets [OF assms, of "ipv4_value a" "ipv4_value b"] bc
    by (auto simp: matchSubnet_def octets_mask_mask [OF assms] getSubnet_def IPv4_eq_def broadcastAddress_def isBroadcastAddress_def)
qed

theorem IPv4_subnets_witness:
  "matchSubnet \<lparr>ipv4_value = 0x0501A8C0\<rparr> \<lparr>ipv4_value = 0x0701A8C0\<rparr> (octets_mask 3) \<and>
   isBroadcastAddress \<lparr>ipv4_value = 0xFF01A8C0\<rparr> NETMASK_24BIT"
proof -
  have "matchSubnet \<lparr>ipv4_value = 0xFF01A8C0\<rparr> \<lparr>ipv4_value = 0x0701A8C0\<rparr> NETMASK_24BIT"
    "IPv4_eq \<lparr>ipv4_value = 0xFF01A8C0\<rparr> (broadcastAddress \<lparr>ipv4_value = 0x0701A8C0\<rparr> NETMASK_24BIT)"
    "take 3 (bytes4 0x0501A8C0) = take 3 (bytes4 0x0701A8C0)"
    by (simp_all add: matchSubnet_def IPv4_eq_def broadcastAddress_def NETMASK_24BIT_def bytes4_def take_le_encode le_encode_eq_iff)
  then show ?thesis
    using IPv4_subnets [of 3 "\<lparr>ipv4_value = 0x0501A8C0\<rparr>" "\<lparr>ipv4_value = 0x0701A8C0\<rparr>" NETMASK_24BIT]
      IPv4_subnets [of 3 "\<lparr>ipv4_value = 0x0701A8C0\<rparr>" "\<lparr>ipv4_value = 0xFF01A8C0\<rparr>" NETMASK_24BIT]
    by simp
qed

text \<open>the text of a hardware address determines its 48 bits, and only those.\<close>

theorem MacAddress_toString_injective:
  "MacAddress_toString a = MacAddress_toString b \<longleftrightarrow> unat (mac_value a) mod 2 ^ 48 = unat (mac_value b) mod 2 ^ 48"
  using mac_octets_inj [of 5 "mac_value a" "mac_value b"] by (simp add: MacAddress_toString_def)

end
