(* ===== verification/Sockets.thy ===== *)
theory Sockets
  imports Addresses DataTransfer
begin

text \<open>
  TCP sockets: \<^verbatim>\<open>TcpSocket\<close>, \<^verbatim>\<open>TcpListeningSocket\<close> and \<^verbatim>\<open>NetworkUtility\<close> of
  \<^verbatim>\<open>src/headers/network/\<close> and \<^verbatim>\<open>src/src/network/\<close>. The socket calls of the operating system are
  the record \<open>net_api\<close> of functions on its state \<open>'o\<close>; an operation answers its return value
  or exception together with the object and the operating system as they are left.
\<close>

section \<open>The operating system\<close>

datatype family = AF_INET | AF_INET6

datatype sockaddr = Sockaddr_in family uint16 uint32 | Sockaddr_in6 family uint16 "byte_t list"

definition htons :: "uint16 \<Rightarrow> uint16" where
  "htons p = push_bit 8 p OR drop_bit 8 p"

definition INT_MAX :: nat where "INT_MAX = 2 ^ 31 - 1"

definition SOL_SOCKET :: int where "SOL_SOCKET = 1"

definition SO_ERROR :: int where "SO_ERROR = 4"

definition INADDR_ANY :: uint32 where "INADDR_ANY = 0"

definition in6addr_any :: "byte_t list" where "in6addr_any = replicate 16 0"

text \<open>
  \<open>sys_getsockopt\<close> answers its result and, when it has written the option, the option's
  value; \<open>indeterminate\<close> is what an uninitialised variable holds.
\<close>

record 'o net_api =
  sys_socket :: "family \<Rightarrow> 'o \<Rightarrow> int \<times> 'o"
  sys_connect :: "int \<Rightarrow> sockaddr \<Rightarrow> 'o \<Rightarrow> int \<times> 'o"
  sys_bind :: "int \<Rightarrow> sockaddr \<Rightarrow> 'o \<Rightarrow> int \<times> 'o"
  sys_listen :: "int \<Rightarrow> uint16 \<Rightarrow> 'o \<Rightarrow> int \<times> 'o"
  sys_accept :: "int \<Rightarrow> 'o \<Rightarrow> int \<times> 'o"
  sys_send :: "int \<Rightarrow> byte_t list \<Rightarrow> 'o \<Rightarrow> int \<times> 'o"
  sys_recv :: "int \<Rightarrow> size_t \<Rightarrow> bool \<Rightarrow> 'o \<Rightarrow> int \<times> byte_t list \<times> 'o"
  sys_close :: "int \<Rightarrow> 'o \<Rightarrow> 'o"
  sys_getsockopt :: "int \<Rightarrow> int \<Rightarrow> int \<Rightarrow> 'o \<Rightarrow> int \<times> int option"
  sys_setsockopt :: "int \<Rightarrow> int \<Rightarrow> int \<Rightarrow> byte_t list \<Rightarrow> 'o \<Rightarrow> int \<times> 'o"
  sys_getpeername :: "int \<Rightarrow> 'o \<Rightarrow> int \<times> uint32"
  indeterminate :: int

section \<open>Connected sockets\<close>

record TcpSocket =
  sockfd :: int
  socketStatus :: SocketStatus
  sin_family :: family
  flagReceptionBlocking :: bool

definition family_of :: "InternetProtocolVersion \<Rightarrow> family" where
  "family_of ipv = (if ipv = IPv4_version then AF_INET else AF_INET6)"

definition TcpSocket_private :: "int \<Rightarrow> SocketStatus \<Rightarrow> family \<Rightarrow> TcpSocket" where
  "TcpSocket_private fd st fam = \<lparr>sockfd = fd, socketStatus = st, sin_family = fam, flagReceptionBlocking = False\<rparr>"

definition TcpSocket_new :: "'o net_api \<Rightarrow> InternetProtocolVersion \<Rightarrow> 'o \<Rightarrow> TcpSocket result \<times> 'o" where
  "TcpSocket_new api ipv os =
     (case sys_socket api (family_of ipv) os of (fd, os') \<Rightarrow>
        (if fd < 0 then Inl (RUNTIME_ERROR ''TcpSocket'' ''Invalid sockfd'')
         else Inr \<lparr>sockfd = fd, socketStatus = CLOSED, sin_family = family_of ipv, flagReceptionBlocking = False\<rparr>, os'))"

text \<open>Moving: the new object and what is left of the old one.\<close>

definition TcpSocket_move :: "TcpSocket \<Rightarrow> TcpSocket \<times> TcpSocket" where
  "TcpSocket_move other =
     (\<lparr>sockfd = sockfd other, socketStatus = socketStatus other, sin_family = sin_family other,
       flagReceptionBlocking = flagReceptionBlocking other\<rparr>,
      other\<lparr>sockfd := 0\<rparr>)"

definition fromSockfd :: "int \<Rightarrow> SocketStatus \<Rightarrow> family \<Rightarrow> TcpSocket result" where
  "fromSockfd fd st fam =
     (if fd < 0 then Inl (RUNTIME_ERROR ''fromSockfd'' ''Invalid sockfd'') else Inr (TcpSocket_private fd st fam))"

definition getSockOptions :: "'o net_api \<Rightarrow> int \<Rightarrow> int \<Rightarrow> int \<Rightarrow> TcpSocket \<Rightarrow> 'o \<Rightarrow> bool \<times> int" where
  "getSockOptions api level optname outValue s os =
     (case sys_getsockopt api (sockfd s) level optname os of (success, v) \<Rightarrow>
        (success = 0, case v of Some x \<Rightarrow> x | None \<Rightarrow> outValue))"

definition setSockOptions :: "'o net_api \<Rightarrow> int \<Rightarrow> int \<Rightarrow> byte_t list \<Rightarrow> TcpSocket \<Rightarrow> 'o \<Rightarrow> bool \<times> 'o" where
  "setSockOptions api level optname inValue s os =
     (case sys_setsockopt api (sockfd s) level optname inValue os of (success, os') \<Rightarrow> (success = 0, os'))"

definition TcpSocket_isConnected :: "'o net_api \<Rightarrow> TcpSocket \<Rightarrow> 'o \<Rightarrow> bool" where
  "TcpSocket_isConnected api s os =
     (if socketStatus s \<noteq> CONNECTED then False
      else (case getSockOptions api SOL_SOCKET SO_ERROR (indeterminate api) s os of (_, errorCode) \<Rightarrow> errorCode \<ge> 0))"

definition getSocketStatus :: "TcpSocket \<Rightarrow> SocketStatus" where
  "getSocketStatus s = socketStatus s"

definition already_connected :: exn where
  "already_connected = RUNTIME_ERROR ''connectTo'' ''Already connected socket''"

definition connect_addr :: "'o net_api \<Rightarrow> sockaddr \<Rightarrow> TcpSocket \<Rightarrow> 'o \<Rightarrow> bool result \<times> TcpSocket \<times> 'o" where
  "connect_addr api addr s os =
     (case sys_connect api (sockfd s) addr os of (connectionStatus, os') \<Rightarrow>
        let s' = s\<lparr>socketStatus := (if connectionStatus = 0 then CONNECTED else SS_ERROR)\<rparr>
        in (Inr (TcpSocket_isConnected api s' os'), s', os'))"

definition connectTo_string ::
    "'o net_api \<Rightarrow> inet_api \<Rightarrow> uint32 \<Rightarrow> byte_t list \<Rightarrow> string \<Rightarrow> uint16 \<Rightarrow> TcpSocket \<Rightarrow> 'o
     \<Rightarrow> bool result \<times> TcpSocket \<times> 'o" where
  "connectTo_string api inet garbage4 garbage6 ip port s os =
     (if TcpSocket_isConnected api s os then (Inl already_connected, s, os)
      else if sin_family s = AF_INET
        then connect_addr api (Sockaddr_in AF_INET (htons port) (toInAddr (IPv4_of_string inet garbage4 ip))) s os
        else connect_addr api (Sockaddr_in6 (sin_family s) (htons port) (toIn6Addr (IPv6_of_string inet garbage6 ip))) s os)"

definition connectTo_IPv4 :: "'o net_api \<Rightarrow> IPv4 \<Rightarrow> uint16 \<Rightarrow> TcpSocket \<Rightarrow> 'o \<Rightarrow> bool result \<times> TcpSocket \<times> 'o" where
  "connectTo_IPv4 api ip port s os =
     (if TcpSocket_isConnected api s os then (Inl already_connected, s, os)
      else if sin_family s \<noteq> AF_INET
        then (Inl (RUNTIME_ERROR ''connectTo'' ''Trying to connect to a IPv4 using a IPv6 socket''), s, os)
      else connect_addr api (Sockaddr_in (sin_family s) (htons port) (toInAddr ip)) s os)"

definition connectTo_IPv6 :: "'o net_api \<Rightarrow> IPv6 \<Rightarrow> uint16 \<Rightarrow> TcpSocket \<Rightarrow> 'o \<Rightarrow> bool result \<times> TcpSocket \<times> 'o" where
  "connectTo_IPv6 api ip port s os =
     (if TcpSocket_isConnected api s os then (Inl already_connected, s, os)
      else if sin_family s \<noteq> AF_INET6
        then (Inl (RUNTIME_ERROR ''connectTo'' ''Trying to connect to a IPv6 using a IPv4 socket''), s, os)
      else connect_addr api (Sockaddr_in6 (sin_family s) (htons port) (toIn6Addr ip)) s os)"

definition not_connected :: "string \<Rightarrow> exn" where
  "not_connected fn = RUNTIME_ERROR fn ''It is impossible to send something using a non connected socket''"

definition TcpSocket_send :: "'o net_api \<Rightarrow> byte_t list \<Rightarrow> TcpSocket \<Rightarrow> 'o \<Rightarrow> size_t result \<times> TcpSocket \<times> 'o" where
  "TcpSocket_send api buffer s os =
     (if length buffer > INT_MAX then (Inl (RUNTIME_ERROR ''send'' ''Size too big''), s, os)
      else if \<not> TcpSocket_isConnected api s os then (Inl (not_connected ''send''), s, os)
      else case sys_send api (sockfd s) buffer os of (actuallySent, os') \<Rightarrow>
        if actuallySent < 0
        then (Inl (RUNTIME_ERROR ''send'' ''Error sending socket data''), s\<lparr>socketStatus := SS_ERROR\<rparr>, os')
        else (Inr (of_int actuallySent), s, os'))"

definition TcpSocket_receive ::
    "'o net_api \<Rightarrow> size_t \<Rightarrow> TcpSocket \<Rightarrow> 'o \<Rightarrow> (size_t \<times> byte_t list) result \<times> TcpSocket \<times> 'o" where
  "TcpSocket_receive api n s os =
     (if unat n > INT_MAX then (Inl (RUNTIME_ERROR ''receive'' ''Receiving too much''), s, os)
      else if \<not> TcpSocket_isConnected api s os then (Inl (not_connected ''receive''), s, os)
      else case sys_recv api (sockfd s) n (flagReceptionBlocking s) os of (actuallyReceived, bs, os') \<Rightarrow>
        if actuallyReceived < 0
        then (Inl (RUNTIME_ERROR ''receive'' ''Error receiving socket data''), s\<lparr>socketStatus := SS_ERROR\<rparr>, os')
        else (Inr (of_int actuallyReceived, bs), s, os'))"

definition TcpSocket_close :: "'o net_api \<Rightarrow> TcpSocket \<Rightarrow> 'o \<Rightarrow> TcpSocket \<times> 'o" where
  "TcpSocket_close api s os =
     (if sockfd s > 0 then (s\<lparr>sockfd := 0, socketStatus := CLOSED\<rparr>, sys_close api (sockfd s) os)
      else (s\<lparr>socketStatus := CLOSED\<rparr>, os))"

definition TcpSocket_destroy :: "'o net_api \<Rightarrow> TcpSocket \<Rightarrow> 'o \<Rightarrow> 'o" where
  "TcpSocket_destroy api s os = snd (TcpSocket_close api s os)"

definition getPeerIPv4 :: "'o net_api \<Rightarrow> TcpSocket \<Rightarrow> 'o \<Rightarrow> IPv4 result" where
  "getPeerIPv4 api s os =
     (if sin_family s = AF_INET
      then case sys_getpeername api (sockfd s) os of (r, addr) \<Rightarrow>
        if r < 0 then Inl (RUNTIME_ERROR ''getPeerIPv4'' ''Error in getpeername(...)'') else Inr \<lparr>ipv4_value = addr\<rparr>
      else Inl (RUNTIME_ERROR ''getPeerIPv4'' ''Socket is IPv6''))"

definition setReceptionBlocking :: "bool \<Rightarrow> TcpSocket \<Rightarrow> TcpSocket" where
  "setReceptionBlocking rb s = s\<lparr>flagReceptionBlocking := rb\<rparr>"

section \<open>Listening sockets\<close>

record TcpListeningSocket =
  l_sockfd :: int
  listening :: bool
  l_sin_family :: family

definition DEFAULT_BACKLOG :: uint16 where "DEFAULT_BACKLOG = 100"

definition TcpListeningSocket_new :: "InternetProtocolVersion \<Rightarrow> TcpListeningSocket" where
  "TcpListeningSocket_new ipv = \<lparr>l_sockfd = 0, listening = False, l_sin_family = family_of ipv\<rparr>"

definition any_addr :: "family \<Rightarrow> uint16 \<Rightarrow> sockaddr" where
  "any_addr fam port =
     (if fam = AF_INET then Sockaddr_in AF_INET (htons port) INADDR_ANY
      else Sockaddr_in6 AF_INET6 (htons port) in6addr_any)"

definition listenTo ::
    "'o net_api \<Rightarrow> uint16 \<Rightarrow> uint16 \<Rightarrow> TcpListeningSocket \<Rightarrow> 'o \<Rightarrow> bool result \<times> TcpListeningSocket \<times> 'o" where
  "listenTo api port backlog l os =
     (if listening l then (Inl (RUNTIME_ERROR ''listenTo'' ''Socket already in listening state''), l, os)
      else case sys_socket api (l_sin_family l) os of (fd, os1) \<Rightarrow>
        let l1 = l\<lparr>l_sockfd := fd\<rparr> in
        if fd < 0 then (Inl (RUNTIME_ERROR ''listenTo'' ''socket(...) failed''), l1, os1)
        else case sys_bind api fd (any_addr (l_sin_family l) port) os1 of (errorCode, os2) \<Rightarrow>
          if errorCode < 0 then (Inl (RUNTIME_ERROR ''listenTo'' ''bind(...) failed''), l1, sys_close api fd os2)
          else case sys_listen api fd backlog os2 of (errorCode', os3) \<Rightarrow>
            if errorCode' < 0 then (Inl (RUNTIME_ERROR ''listenTo'' ''listen(...) failed''), l1, sys_close api fd os3)
            else (Inr True, l1\<lparr>listening := True\<rparr>, os3))"

definition acceptRequest :: "'o net_api \<Rightarrow> TcpListeningSocket \<Rightarrow> 'o \<Rightarrow> TcpSocket result \<times> 'o" where
  "acceptRequest api l os =
     (case sys_accept api (l_sockfd l) os of (newsockfd, os') \<Rightarrow>
        (if newsockfd < 0 then Inl (RUNTIME_ERROR ''acceptRequest'' ''accept(...) failed'')
         else fromSockfd newsockfd CONNECTED (l_sin_family l), os'))"

definition TcpListeningSocket_close :: "'o net_api \<Rightarrow> TcpListeningSocket \<Rightarrow> 'o \<Rightarrow> TcpListeningSocket \<times> 'o" where
  "TcpListeningSocket_close api l os =
     (if l_sockfd l > 0 then (l\<lparr>l_sockfd := 0, listening := False\<rparr>, sys_close api (l_sockfd l) os)
      else (l\<lparr>listening := False\<rparr>, os))"

definition TcpListeningSocket_destroy :: "'o net_api \<Rightarrow> TcpListeningSocket \<Rightarrow> 'o \<Rightarrow> 'o" where
  "TcpListeningSocket_destroy api l os = snd (TcpListeningSocket_close api l os)"

section \<open>Windows\<close>

text \<open>
  \<open>startWsaIfNeeded\<close> on the flag \<^verbatim>\<open>wsaStarted\<close>: its result and the flag it leaves. The text of an
  error code is the argument \<open>show_code\<close>.
\<close>

definition startWsaIfNeeded :: "('o \<Rightarrow> int \<times> 'o) \<Rightarrow> (int \<Rightarrow> string) \<Rightarrow> bool \<Rightarrow> 'o \<Rightarrow> unit result \<times> bool \<times> 'o" where
  "startWsaIfNeeded sys_startup show_code wsaStarted os =
     (if \<not> wsaStarted then
        (case sys_startup os of (errorCode, os') \<Rightarrow>
           (if errorCode \<noteq> 0
            then Inl (RUNTIME_ERROR ''startWsaIfNeeded'' (''WSAStartup(...) failed, result is '' @ show_code errorCode))
            else Inr (), wsaStarted, os'))
      else (Inr (), wsaStarted, os))"

text \<open>
  The address information of \<open>getaddrinfo\<close> is a block that has to be freed; a socket is an
  unsigned number, all ones when invalid.
\<close>

record 'o wsa_api =
  wsa_startup :: "'o \<Rightarrow> int \<times> 'o"
  wsa_cleanup :: "'o \<Rightarrow> 'o"
  wsa_getaddrinfo :: "family \<Rightarrow> uint16 \<Rightarrow> 'o \<Rightarrow> int \<times> 'o"
  wsa_freeaddrinfo :: "'o \<Rightarrow> 'o"
  wsa_socket :: "family \<Rightarrow> 'o \<Rightarrow> uint64 \<times> 'o"
  wsa_bind :: "uint64 \<Rightarrow> 'o \<Rightarrow> int \<times> 'o"
  wsa_listen :: "uint64 \<Rightarrow> uint16 \<Rightarrow> 'o \<Rightarrow> int \<times> 'o"
  wsa_closesocket :: "uint64 \<Rightarrow> 'o \<Rightarrow> 'o"

definition INVALID_SOCKET :: uint64 where "INVALID_SOCKET = - 1"

definition SOCKET_ERROR :: int where "SOCKET_ERROR = - 1"

record win_listening =
  wl_sockfd :: uint64
  wl_listening :: bool
  wl_family :: family

definition win_listenTo ::
    "'o wsa_api \<Rightarrow> (int \<Rightarrow> string) \<Rightarrow> bool \<Rightarrow> uint16 \<Rightarrow> uint16 \<Rightarrow> win_listening \<Rightarrow> 'o \<Rightarrow> bool result \<times> win_listening \<times> 'o" where
  "win_listenTo api show_code wsaStarted port backlog l os =
     (if wl_listening l then (Inl (RUNTIME_ERROR ''listenTo'' ''Socket already in listening state''), l, os)
      else case startWsaIfNeeded (wsa_startup api) show_code wsaStarted os of
        (Inl e, _, os1) \<Rightarrow> (Inl e, l, os1)
      | (Inr _, _, os1) \<Rightarrow>
        (case wsa_getaddrinfo api (wl_family l) port os1 of (errorCode, os2) \<Rightarrow>
          if errorCode \<noteq> 0 then (Inl (RUNTIME_ERROR ''listenTo'' ''getaddrinfo(...) failed''), l, os2)
          else case wsa_socket api (wl_family l) os2 of (fd, os3) \<Rightarrow>
            let l1 = l\<lparr>wl_sockfd := fd\<rparr> in
            if fd = INVALID_SOCKET
            then (Inl (RUNTIME_ERROR ''listenTo'' ''socket(...) failed''), l1, wsa_cleanup api (wsa_freeaddrinfo api os3))
            else case wsa_bind api fd os3 of (errorCode1, os4) \<Rightarrow>
              if errorCode1 = SOCKET_ERROR
              then (Inl (RUNTIME_ERROR ''listenTo'' ''bind(...) failed''), l1,
                wsa_cleanup api (wsa_closesocket api fd (wsa_freeaddrinfo api os4)))
              else case wsa_listen api fd backlog (wsa_freeaddrinfo api os4) of (errorCode2, os5) \<Rightarrow>
                if errorCode2 = SOCKET_ERROR
                then (Inl (RUNTIME_ERROR ''listenTo'' ''listen(...) failed''), l1, wsa_cleanup api (wsa_closesocket api fd os5))
                else (Inr True, l1\<lparr>wl_listening := True\<rparr>, os5)))"

section \<open>Descriptors\<close>

lemma TcpSocket_newD:
  assumes "TcpSocket_new api ipv os = (Inr s, os1)"
  shows "sys_socket api (family_of ipv) os = (sockfd s, os1)" "0 \<le> sockfd s"
proof -
  obtain fd os' where so: "sys_socket api (family_of ipv) os = (fd, os')" by fastforce
  have "\<not> fd < 0"
    using assms by (cases "fd < 0") (simp_all add: TcpSocket_new_def so)
  moreover have "s = \<lparr>sockfd = fd, socketStatus = CLOSED, sin_family = family_of ipv, flagReceptionBlocking = False\<rparr>" "os1 = os'"
    using assms calculation by (simp_all add: TcpSocket_new_def so)
  ultimately show "sys_socket api (family_of ipv) os = (sockfd s, os1)" "0 \<le> sockfd s"
    by (simp_all add: so)
qed

datatype tcp_call =
    Connect_string inet_api uint32 "byte_t list" string uint16
  | Connect_IPv4 IPv4 uint16
  | Connect_IPv6 IPv6 uint16
  | Send "byte_t list"
  | Receive size_t
  | Set_blocking bool
  | Set_option int int "byte_t list"
  | Close

text \<open>What a call leaves, whether it returns or throws.\<close>

definition tcp_step :: "'o net_api \<Rightarrow> tcp_call \<Rightarrow> TcpSocket \<times> 'o \<Rightarrow> TcpSocket \<times> 'o" where
  "tcp_step api c = (\<lambda>(s, os). case c of
     Connect_string inet g4 g6 ip port \<Rightarrow> snd (connectTo_string api inet g4 g6 ip port s os)
   | Connect_IPv4 ip port \<Rightarrow> snd (connectTo_IPv4 api ip port s os)
   | Connect_IPv6 ip port \<Rightarrow> snd (connectTo_IPv6 api ip port s os)
   | Send bs \<Rightarrow> snd (TcpSocket_send api bs s os)
   | Receive n \<Rightarrow> snd (TcpSocket_receive api n s os)
   | Set_blocking rb \<Rightarrow> (setReceptionBlocking rb s, os)
   | Set_option level optname v \<Rightarrow> (s, snd (setSockOptions api level optname v s os))
   | Close \<Rightarrow> TcpSocket_close api s os)"

definition tcp_steps :: "'o net_api \<Rightarrow> tcp_call list \<Rightarrow> TcpSocket \<times> 'o \<Rightarrow> TcpSocket \<times> 'o" where
  "tcp_steps api cs st = fold (tcp_step api) cs st"

text \<open>What is left of a descriptor that a socket object was to close: nothing, unless it is 0.\<close>

definition never_closed :: "int \<Rightarrow> int set" where
  "never_closed fd = (if fd = 0 then {0} else {})"

text \<open>
  The contract of the operating system's descriptors, with \<open>open_fds\<close> the open ones: a new
  one was not open before. \<open>bad_closes\<close> counts the calls of \<^verbatim>\<open>close\<close> that fail because their descriptor is not open.
\<close>

locale descriptors =
  fixes api :: "'o net_api" and open_fds :: "'o \<Rightarrow> int set" and bad_closes :: "'o \<Rightarrow> nat"
  assumes socket_fds: "sys_socket api fam os = (fd, os') \<Longrightarrow> bad_closes os' = bad_closes os \<and>
      (fd < 0 \<and> open_fds os' = open_fds os \<or> 0 \<le> fd \<and> fd \<notin> open_fds os \<and> open_fds os' = insert fd (open_fds os))"
    and accept_fds: "sys_accept api lfd os = (fd, os') \<Longrightarrow> bad_closes os' = bad_closes os \<and>
      (fd < 0 \<and> open_fds os' = open_fds os \<or> 0 \<le> fd \<and> fd \<notin> open_fds os \<and> open_fds os' = insert fd (open_fds os))"
    and close_fds: "open_fds (sys_close api fd os) = open_fds os - {fd}"
      "bad_closes (sys_close api fd os) = (if fd \<in> open_fds os then bad_closes os else bad_closes os + 1)"
    and connect_fds: "open_fds (snd (sys_connect api fd addr os)) = open_fds os" "bad_closes (snd (sys_connect api fd addr os)) = bad_closes os"
    and bind_fds: "open_fds (snd (sys_bind api fd addr os)) = open_fds os" "bad_closes (snd (sys_bind api fd addr os)) = bad_closes os"
    and listen_fds: "open_fds (snd (sys_listen api fd backlog os)) = open_fds os" "bad_closes (snd (sys_listen api fd backlog os)) = bad_closes os"
    and send_fds: "open_fds (snd (sys_send api fd bs os)) = open_fds os" "bad_closes (snd (sys_send api fd bs os)) = bad_closes os"
    and recv_fds: "open_fds (snd (snd (sys_recv api fd n rb os))) = open_fds os" "bad_closes (snd (snd (sys_recv api fd n rb os))) = bad_closes os"
    and setsockopt_fds: "open_fds (snd (sys_setsockopt api fd level optname v os)) = open_fds os"
      "bad_closes (snd (sys_setsockopt api fd level optname v os)) = bad_closes os"
begin

text \<open>A socket that owns the descriptor it was made with, or has closed it; 0 is never closed.\<close>

definition owns :: "int \<Rightarrow> int set \<Rightarrow> nat \<Rightarrow> TcpSocket \<times> 'o \<Rightarrow> bool" where
  "owns fd fds k = (\<lambda>(s, os). bad_closes os = k \<and>
     (sockfd s = fd \<and> 0 < fd \<and> fd \<notin> fds \<and> open_fds os = insert fd fds \<or>
      sockfd s = 0 \<and> open_fds os = fds \<union> never_closed fd))"

lemma connect_addr_owns: "owns fd fds k (s, os) \<Longrightarrow> owns fd fds k (snd (connect_addr api addr s os))"
  by (simp add: owns_def connect_addr_def Let_def case_prod_beta connect_fds)

lemma close_owns:
  assumes "owns fd fds k (s, os)"
  shows "owns fd fds k (TcpSocket_close api s os)"
proof (cases "0 < sockfd s")
  case True
  then have "sockfd s = fd" "0 < fd" "fd \<notin> fds" "open_fds os = insert fd fds" "bad_closes os = k" "never_closed fd = {}"
    using assms by (auto simp: owns_def never_closed_def)
  then show ?thesis
    by (simp add: owns_def TcpSocket_close_def close_fds)
next
  case False
  then show ?thesis
    using assms by (simp add: owns_def TcpSocket_close_def)
qed

lemma tcp_step_owns:
  assumes "owns fd fds k st"
  shows "owns fd fds k (tcp_step api c st)"
proof -
  obtain s os where st: "st = (s, os)" by (cases st)
  show ?thesis
  proof (cases c)
    case (Send bs)
    then show ?thesis
      using assms by (simp add: st tcp_step_def TcpSocket_send_def owns_def case_prod_beta send_fds)
  next
    case (Receive n)
    then show ?thesis
      using assms by (simp add: st tcp_step_def TcpSocket_receive_def owns_def case_prod_beta recv_fds)
  next
    case (Set_option level optname v)
    then show ?thesis
      using assms by (simp add: st tcp_step_def setSockOptions_def owns_def case_prod_beta setsockopt_fds)
  next
    case Close
    then show ?thesis
      using close_owns assms by (simp add: st tcp_step_def)
  next
    case (Set_blocking rb)
    then show ?thesis
      using assms by (simp add: st tcp_step_def setReceptionBlocking_def owns_def)
  qed (use assms in \<open>simp_all add: st tcp_step_def connectTo_string_def connectTo_IPv4_def connectTo_IPv6_def connect_addr_owns\<close>)
qed

lemma tcp_steps_owns: "owns fd fds k st \<Longrightarrow> owns fd fds k (tcp_steps api cs st)"
  unfolding tcp_steps_def by (induction cs arbitrary: st) (simp_all add: tcp_step_owns)

lemma no_leak:
  assumes "TcpSocket_new api ipv os = (Inr s, os1)" "tcp_steps api cs (s, os1) = (s2, os2)"
  shows "open_fds (TcpSocket_destroy api s2 os2) = open_fds os \<union> never_closed (sockfd s)"
    and "bad_closes (TcpSocket_destroy api s2 os2) = bad_closes os"
proof -
  have "owns (sockfd s) (open_fds os) (bad_closes os) (s, os1)"
    using socket_fds [OF TcpSocket_newD(1) [OF assms(1)]] TcpSocket_newD(2) [OF assms(1)] by (auto simp: owns_def never_closed_def)
  then have "owns (sockfd s) (open_fds os) (bad_closes os) (s2, os2)"
    using tcp_steps_owns assms(2) by metis
  then show "open_fds (TcpSocket_destroy api s2 os2) = open_fds os \<union> never_closed (sockfd s)"
    "bad_closes (TcpSocket_destroy api s2 os2) = bad_closes os"
    by (auto simp: owns_def TcpSocket_destroy_def TcpSocket_close_def close_fds never_closed_def split: if_splits)
qed

text \<open>After a failed \<open>bind\<close> the descriptor is closed, but the object still refers to it.\<close>

lemma listenTo_bind_fails:
  assumes "\<not> listening l" "sys_socket api (l_sin_family l) os = (fd, os1)" "0 < fd"
    and "sys_bind api fd (any_addr (l_sin_family l) port) os1 = (e, os2)" "e < 0"
  shows "\<exists>os'. listenTo api port backlog l os =
      (Inl (RUNTIME_ERROR ''listenTo'' ''bind(...) failed''), l\<lparr>l_sockfd := fd\<rparr>, os') \<and> open_fds os' = open_fds os"
  using assms socket_fds [OF assms(2)] bind_fds [of fd "any_addr (l_sin_family l) port" os1]
  by (auto simp: listenTo_def Let_def close_fds)

text \<open>A socket that listens has opened one descriptor.\<close>

lemma listenTo_opens:
  assumes "listenTo api port backlog l os = (Inr b, l', os')"
  shows "0 \<le> l_sockfd l'" "l_sockfd l' \<notin> open_fds os" "open_fds os' = insert (l_sockfd l') (open_fds os)" "bad_closes os' = bad_closes os"
proof -
  obtain fd os1 where so: "sys_socket api (l_sin_family l) os = (fd, os1)" by fastforce
  obtain e2 os2 where bi: "sys_bind api fd (any_addr (l_sin_family l) port) os1 = (e2, os2)" by fastforce
  obtain e3 os3 where li: "sys_listen api fd backlog os2 = (e3, os3)" by fastforce
  have "l_sockfd l' = fd" "os' = os3" "\<not> fd < 0"
    using assms by (auto simp: listenTo_def so bi li Let_def split: if_splits)
  then show "0 \<le> l_sockfd l'" "l_sockfd l' \<notin> open_fds os" "open_fds os' = insert (l_sockfd l') (open_fds os)" "bad_closes os' = bad_closes os"
    using socket_fds [OF so] bind_fds [of fd "any_addr (l_sin_family l) port" os1] listen_fds [of fd backlog os2] by (auto simp: bi li)
qed

end

section \<open>An operating system\<close>

text \<open>Descriptors are handed out lowest first and \<open>ebadf\<close> counts the closes of others than open ones; binding may fail. Of
  one connection there are the bytes that arrive, until the peer has closed its side, those that were sent, and the most that the next calls
  transfer; after these the calls transfer all they can.\<close>

record plain_os =
  fd_table :: "int list"
  ebadf :: nat
  bind_fails :: bool
  incoming :: "byte_t list"
  outgoing :: "byte_t list"
  chunks :: "nat list"

definition transfer :: "plain_os \<Rightarrow> nat \<Rightarrow> nat" where
  "transfer os n = (case chunks os of [] \<Rightarrow> n | k # _ \<Rightarrow> min n (max 1 k))"

definition lowest_fd :: "int list \<Rightarrow> int" where
  "lowest_fd fds = hd (filter (\<lambda>i. i \<notin> set fds) (map int [0..<Suc (length fds)]))"

lemma lowest_fd_fresh: "lowest_fd fds \<notin> set fds" "0 \<le> lowest_fd fds"
proof -
  let ?f = "filter (\<lambda>i. i \<notin> set fds) (map int [0..<Suc (length fds)])"
  have "?f \<noteq> []"
  proof
    assume "?f = []"
    then have "\<forall>i\<in>set (map int [0..<Suc (length fds)]). i \<in> set fds"
      by (simp only: filter_empty_conv not_not)
    then have "int ` {0..<Suc (length fds)} \<subseteq> set fds"
      by (simp only: set_map set_upt subset_iff) blast
    then have "card (int ` {0..<Suc (length fds)}) \<le> length fds"
      by (meson List.finite_set card_length card_mono le_trans)
    then show False
      by (simp add: card_image)
  qed
  then have "lowest_fd fds \<in> set ?f"
    unfolding lowest_fd_def by (rule hd_in_set)
  then have "lowest_fd fds \<in> int ` {0..<Suc (length fds)} \<and> lowest_fd fds \<notin> set fds"
    unfolding set_filter set_map set_upt by blast
  then show "lowest_fd fds \<notin> set fds" "0 \<le> lowest_fd fds"
    by auto
qed

definition plain_net :: "plain_os net_api" where
  "plain_net =
     \<lparr>sys_socket = (\<lambda>fam os. (lowest_fd (fd_table os), os\<lparr>fd_table := lowest_fd (fd_table os) # fd_table os\<rparr>)),
      sys_connect = (\<lambda>fd addr os. (0, os)),
      sys_bind = (\<lambda>fd addr os. (if bind_fails os then - 1 else 0, os)),
      sys_listen = (\<lambda>fd backlog os. (0, os)),
      sys_accept = (\<lambda>fd os. (lowest_fd (fd_table os), os\<lparr>fd_table := lowest_fd (fd_table os) # fd_table os\<rparr>)),
      sys_send = (\<lambda>fd bs os. let k = transfer os (length bs) in
        (int k, os\<lparr>outgoing := outgoing os @ take k bs, chunks := tl (chunks os)\<rparr>)),
      sys_recv = (\<lambda>fd n rb os. let k = transfer os (min (unat n) (length (incoming os))) in
        (int k, take k (incoming os), os\<lparr>incoming := drop k (incoming os), chunks := tl (chunks os)\<rparr>)),
      sys_close = (\<lambda>fd os. if fd \<in> set (fd_table os) then os\<lparr>fd_table := removeAll fd (fd_table os)\<rparr> else os\<lparr>ebadf := ebadf os + 1\<rparr>),
      sys_getsockopt = (\<lambda>fd level optname os. (0, Some 0)),
      sys_setsockopt = (\<lambda>fd level optname v os. (0, os)),
      sys_getpeername = (\<lambda>fd os. (0, 0x0100007F)),
      indeterminate = 0\<rparr>"

interpretation plain: descriptors plain_net "\<lambda>os. set (fd_table os)" ebadf
  by unfold_locales (auto simp: plain_net_def Let_def lowest_fd_fresh)

text \<open>The start of a process: the standard descriptors, perhaps, and a connection that transfers whole messages.\<close>

definition plain_process :: "int list \<Rightarrow> byte_t list \<Rightarrow> plain_os" where
  "plain_process fds bs = \<lparr>fd_table = fds, ebadf = 0, bind_fails = False, incoming = bs, outgoing = [], chunks = []\<rparr>"

section \<open>The socket as a data exchanger\<close>

definition tcp_exchanger :: "'o net_api \<Rightarrow> (TcpSocket \<times> 'o) IDataExchanger" where
  "tcp_exchanger api =
     \<lparr>ex_send = (\<lambda>bs (s, os). case TcpSocket_send api bs s os of (r, st) \<Rightarrow> bind_result r (\<lambda>k. Inr (k, st))),
      ex_receive = (\<lambda>n (s, os). case TcpSocket_receive api n s os of (r, st) \<Rightarrow> bind_result r (\<lambda>(k, bs). Inr (k, bs, st))),
      isSenderConnected = (\<lambda>(s, os). TcpSocket_isConnected api s os),
      isReceiverConnected = (\<lambda>(s, os). TcpSocket_isConnected api s os)\<rparr>"

section \<open>Properties\<close>

text \<open>C28: a socket object closes its descriptor exactly once, unless it is 0. Whatever calls are made
  on a constructed socket, failing ones and repeated closes included, after its destruction exactly the
  descriptors that were open before its construction are open, and no call of \<^verbatim>\<open>close\<close> was made on a descriptor that was not open. The
  exception is a socket whose descriptor is 0, as in a process that has closed its standard input: that one stays open for good.\<close>

theorem TcpSocket_no_leak:
  assumes "descriptors api open_fds bad_closes"
    and "TcpSocket_new api ipv os = (Inr s, os1)" "tcp_steps api cs (s, os1) = (s2, os2)"
  shows "open_fds (TcpSocket_destroy api s2 os2) = open_fds os \<union> never_closed (sockfd s) \<and>
    bad_closes (TcpSocket_destroy api s2 os2) = bad_closes os"
  using descriptors.no_leak [OF assms] by blast

theorem TcpSocket_no_leak_witness:
  "(\<exists>s os1 s2 os2. TcpSocket_new plain_net IPv4_version (plain_process [0, 1, 2] [7]) = (Inr s, os1) \<and>
     tcp_steps plain_net [Connect_IPv4 \<lparr>ipv4_value = 0\<rparr> 80, Receive 1, Close, Send [1], Close] (s, os1) = (s2, os2) \<and>
     3 \<in> set (fd_table os1) \<and> set (fd_table (TcpSocket_destroy plain_net s2 os2)) = {0, 1, 2} \<and> ebadf (TcpSocket_destroy plain_net s2 os2) = 0) \<and>
   (\<exists>s os1 s2 os2. TcpSocket_new plain_net IPv4_version (plain_process [1, 2] [7]) = (Inr s, os1) \<and>
     tcp_steps plain_net [Close] (s, os1) = (s2, os2) \<and> set (fd_table (TcpSocket_destroy plain_net s2 os2)) = {0, 1, 2})"
proof (intro conjI)
  let ?s = "\<lambda>fd. \<lparr>sockfd = fd, socketStatus = CLOSED, sin_family = AF_INET, flagReceptionBlocking = False\<rparr>"
  have new: "TcpSocket_new plain_net IPv4_version (plain_process [0, 1, 2] [7]) = (Inr (?s 3), plain_process [3, 0, 1, 2] [7])"
    "TcpSocket_new plain_net IPv4_version (plain_process [1, 2] [7]) = (Inr (?s 0), plain_process [0, 1, 2] [7])"
    by (simp_all add: TcpSocket_new_def plain_net_def lowest_fd_def plain_process_def family_of_def upt_rec)
  let ?cs = "[Connect_IPv4 \<lparr>ipv4_value = 0\<rparr> 80, Receive 1, Close, Send [1], Close]"
  obtain s2 os2 where cs: "tcp_steps plain_net ?cs (?s 3, plain_process [3, 0, 1, 2] [7]) = (s2, os2)" by fastforce
  show "\<exists>s os1 s2 os2. TcpSocket_new plain_net IPv4_version (plain_process [0, 1, 2] [7]) = (Inr s, os1) \<and>
     tcp_steps plain_net ?cs (s, os1) = (s2, os2) \<and>
     3 \<in> set (fd_table os1) \<and> set (fd_table (TcpSocket_destroy plain_net s2 os2)) = {0, 1, 2} \<and> ebadf (TcpSocket_destroy plain_net s2 os2) = 0"
    using TcpSocket_no_leak [OF plain.descriptors_axioms new(1) cs] new(1) cs by (auto simp: plain_process_def never_closed_def)
  obtain s3 os3 where cl: "tcp_steps plain_net [Close] (?s 0, plain_process [0, 1, 2] [7]) = (s3, os3)" by fastforce
  show "\<exists>s os1 s2 os2. TcpSocket_new plain_net IPv4_version (plain_process [1, 2] [7]) = (Inr s, os1) \<and>
     tcp_steps plain_net [Close] (s, os1) = (s2, os2) \<and> set (fd_table (TcpSocket_destroy plain_net s2 os2)) = {0, 1, 2}"
    using TcpSocket_no_leak [OF plain.descriptors_axioms new(2) cl] new(2) cl by (auto simp: plain_process_def never_closed_def)
qed

text \<open>after a failed \<open>listenTo\<close> the object closes a descriptor it no longer owns. When
  \<open>bind\<close> fails the descriptor is closed but \<open>sockfd\<close> keeps its number: a socket that is
  opened afterwards and is given that number is closed by the destructor of the
  listening socket, although it belongs to somebody else.\<close>

theorem TcpListeningSocket_closes_foreign_descriptor:
  assumes "descriptors api open_fds bad_closes" "\<not> listening l"
    and "sys_socket api (l_sin_family l) os = (fd, os1)" "0 < fd"
    and "sys_bind api fd (any_addr (l_sin_family l) port) os1 = (e, os2)" "e < 0"
    and "listenTo api port backlog l os = (r, l', os3)" "TcpSocket_new api ipv os3 = (Inr s, os4)" "sockfd s = fd"
  shows "(\<exists>msg. r = Inl (Runtime_error msg)) \<and> sockfd s \<in> open_fds os4 \<and> sockfd s \<notin> open_fds (TcpListeningSocket_destroy api l' os4)"
proof -
  have l': "l' = l\<lparr>l_sockfd := fd\<rparr>" "open_fds os3 = open_fds os" "r = Inl (RUNTIME_ERROR ''listenTo'' ''bind(...) failed'')"
    using descriptors.listenTo_bind_fails [OF assms(1-6), of backlog] assms(7) by auto
  have "fd \<in> open_fds os4"
    using descriptors.socket_fds [OF assms(1) TcpSocket_newD(1) [OF assms(8)]] assms(4,9) l'(2)
    by auto
  then show ?thesis
    using assms(4,9) l' descriptors.close_fds [OF assms(1)]
    by (auto simp: TcpListeningSocket_destroy_def TcpListeningSocket_close_def RUNTIME_ERROR_def)
qed

theorem TcpListeningSocket_closes_foreign_descriptor_witness:
  "let os = (plain_process [0, 1, 2] [])\<lparr>bind_fails := True\<rparr>;
       (r, l', os3) = listenTo plain_net 80 DEFAULT_BACKLOG (TcpListeningSocket_new IPv4_version) os;
       (s, os4) = TcpSocket_new plain_net IPv4_version os3
   in (\<exists>msg. r = Inl (Runtime_error msg)) \<and> 3 \<in> set (fd_table os4) \<and> 3 \<notin> set (fd_table (TcpListeningSocket_destroy plain_net l' os4))"
proof -
  let ?os = "(plain_process [0, 1, 2] [])\<lparr>bind_fails := True\<rparr>"
  let ?l = "TcpListeningSocket_new IPv4_version"
  let ?r = "Inl (RUNTIME_ERROR ''listenTo'' ''bind(...) failed'') :: bool result"
  define s where "s = \<lparr>sockfd = 3, socketStatus = CLOSED, sin_family = AF_INET, flagReceptionBlocking = False\<rparr>"
  define os1 where "os1 = ?os\<lparr>fd_table := [3, 0, 1, 2]\<rparr>"
  have sock: "sys_socket plain_net fam ?os = (3, os1)" for fam
    by (simp add: plain_net_def lowest_fd_def os1_def plain_process_def upt_rec)
  have bnd: "sys_bind plain_net 3 addr os1 = (- 1, os1)" for addr
    by (simp add: plain_net_def os1_def plain_process_def)
  have lst: "listenTo plain_net 80 DEFAULT_BACKLOG ?l ?os = (?r, ?l\<lparr>l_sockfd := 3\<rparr>, ?os)"
    using sock bnd by (simp add: listenTo_def TcpListeningSocket_new_def) (simp add: plain_net_def os1_def plain_process_def)
  have new: "TcpSocket_new plain_net IPv4_version ?os = (Inr s, os1)"
    using sock by (simp add: TcpSocket_new_def s_def family_of_def)
  have nl: "\<not> listening ?l" by (simp add: TcpListeningSocket_new_def)
  from TcpListeningSocket_closes_foreign_descriptor [OF plain.descriptors_axioms nl sock _ bnd _ lst new]
  show ?thesis
    unfolding Let_def lst new prod.case by (simp add: s_def)
qed

text \<open>a connection closed by the peer still counts as connected, and receiving an object
  from it never returns. Once \<^verbatim>\<open>recv\<close> reports the end of the stream by returning 0, \<open>receive\<close>
  returns 0 without a change of state, \<open>isConnected\<close> stays true (\<^verbatim>\<open>SO_ERROR\<close> is never
  negative), and \<open>receiveObject\<close> over the socket loops.\<close>

theorem TcpSocket_end_of_stream:
  assumes "socketStatus s = CONNECTED" "length garbage = 8"
    and "\<And>level optname. \<exists>e\<ge>0. sys_getsockopt api (sockfd s) level optname os = (0, Some e)"
    and "\<And>n. sys_recv api (sockfd s) n (flagReceptionBlocking s) os = (0, [], os)"
  shows "TcpSocket_isConnected api s os \<and> (unat n \<le> INT_MAX \<longrightarrow> TcpSocket_receive api n s os = (Inr (0, []), s, os)) \<and>
    receiveObject (tcp_exchanger api) garbage buffer bufferSize (s, os) = None"
proof -
  have con: "TcpSocket_isConnected api s os"
    using assms(1) assms(3) [of SOL_SOCKET SO_ERROR] by (auto simp: TcpSocket_isConnected_def getSockOptions_def)
  have rcv: "TcpSocket_receive api n s os = (Inr (0, []), s, os)" if "unat n \<le> INT_MAX" for n
    using that con assms(4) by (simp add: TcpSocket_receive_def)
  have "receive_loop (tcp_exchanger api) garbage 8 0 (s, os) = None"
  proof (rule receive_loop_hangs_at)
    show "ex_receive (tcp_exchanger api) (8 - 0) (s, os) = Inr (0, [], (s, os))"
      using rcv [of 8] by (simp add: tcp_exchanger_def INT_MAX_def)
  qed (use assms(2) in simp_all)
  then show ?thesis
    using con rcv by (simp add: receiveObject_def receive_sized_def)
qed

theorem TcpSocket_end_of_stream_witness:
  "receiveObject (tcp_exchanger plain_net) (replicate 8 0) [0] 1
     (\<lparr>sockfd = 3, socketStatus = CONNECTED, sin_family = AF_INET, flagReceptionBlocking = True\<rparr>,
      plain_process [0, 1, 2, 3] []) = None"
  using TcpSocket_end_of_stream [of "\<lparr>sockfd = 3, socketStatus = CONNECTED, sin_family = AF_INET, flagReceptionBlocking = True\<rparr>"
      "replicate 8 0" plain_net "plain_process [0, 1, 2, 3] []"]
  by (simp add: plain_net_def plain_process_def transfer_def)

end
