(* ===== verification/NamedPipe.thy ===== *)
theory NamedPipe
  imports DataTransfer Numbers
begin

text \<open>
  \<^verbatim>\<open>src/headers/os/NamedPipe.h\<close> and \<^verbatim>\<open>src/src/os/NamedPipe.cpp\<close>, on POSIX and on Windows, with the
  system's calls as parameters. An operation answers its return value or exception
  together with the pipe and the system as they are left.
\<close>

datatype pipe_state = DISCONNECTED | CREATED | PIPE_CONNECTED

definition getFullName :: "string \<Rightarrow> string" where
  "getFullName nm = ''/tmp/GicamePipe-'' @ nm"

definition win_getFullName :: "string \<Rightarrow> string" where
  "win_getFullName nm = [CHR 0x5C, CHR 0x5C, CHR ''.'', CHR 0x5C] @ ''pipe'' @ [CHR 0x5C] @ ''GicamePipe-'' @ nm"

definition pipe_not_connected :: "string \<Rightarrow> exn" where
  "pipe_not_connected fn = RUNTIME_ERROR fn ''Pipe not connected''"

definition unlink_connected :: exn where
  "unlink_connected = RUNTIME_ERROR ''unlink'' ''NamedPipe cannot be unlinked if connected''"

section \<open>POSIX\<close>

record NamedPipe =
  pipe_fd :: int
  fullName :: string
  pstate :: pipe_state

record 'o pipe_api =
  sys_mkfifo :: "string \<Rightarrow> 'o \<Rightarrow> int \<times> 'o"
  sys_open :: "string \<Rightarrow> 'o \<Rightarrow> int \<times> 'o"
  sys_write :: "int \<Rightarrow> byte_t list \<Rightarrow> 'o \<Rightarrow> int \<times> 'o"
  sys_read :: "int \<Rightarrow> size_t \<Rightarrow> 'o \<Rightarrow> int \<times> byte_t list \<times> 'o"
  sys_pclose :: "int \<Rightarrow> 'o \<Rightarrow> 'o"
  sys_unlink :: "string \<Rightarrow> 'o \<Rightarrow> 'o"

definition NamedPipe_new :: "string \<Rightarrow> NamedPipe" where
  "NamedPipe_new nm = \<lparr>pipe_fd = - 1, fullName = getFullName nm, pstate = DISCONNECTED\<rparr>"

definition pipe_close :: "'o pipe_api \<Rightarrow> NamedPipe \<Rightarrow> 'o \<Rightarrow> NamedPipe \<times> 'o" where
  "pipe_close api p os =
     (p\<lparr>pipe_fd := - 1, pstate := DISCONNECTED\<rparr>, if pipe_fd p \<ge> 0 then sys_pclose api (pipe_fd p) os else os)"

definition NamedPipe_destroy :: "'o pipe_api \<Rightarrow> NamedPipe \<Rightarrow> 'o \<Rightarrow> 'o" where
  "NamedPipe_destroy api p os = snd (pipe_close api p os)"

definition pipe_create :: "'o pipe_api \<Rightarrow> size_t \<Rightarrow> NamedPipe \<Rightarrow> 'o \<Rightarrow> bool \<times> NamedPipe \<times> 'o" where
  "pipe_create api bufSize p os =
     (case sys_mkfifo api (fullName p) os of (retCode, os1) \<Rightarrow>
        if retCode \<noteq> 0 then (False, pipe_close api p os1) else (True, p\<lparr>pstate := CREATED\<rparr>, os1))"

definition pipe_open :: "'o pipe_api \<Rightarrow> NamedPipe \<Rightarrow> 'o \<Rightarrow> bool \<times> NamedPipe \<times> 'o" where
  "pipe_open api p os =
     (if pstate p = PIPE_CONNECTED then (True, p, os)
      else case sys_open api (fullName p) os of (fd, os1) \<Rightarrow>
        if fd < 0 then (False, pipe_close api (p\<lparr>pipe_fd := fd\<rparr>) os1)
        else (True, p\<lparr>pipe_fd := fd, pstate := PIPE_CONNECTED\<rparr>, os1))"

definition pipe_send :: "'o pipe_api \<Rightarrow> byte_t list \<Rightarrow> NamedPipe \<Rightarrow> 'o \<Rightarrow> size_t result \<times> NamedPipe \<times> 'o" where
  "pipe_send api buffer p os =
     (if pstate p \<noteq> PIPE_CONNECTED then (Inl (pipe_not_connected ''send''), p, os)
      else case sys_write api (pipe_fd p) buffer os of (writtenByteCount, os1) \<Rightarrow>
        if writtenByteCount < 0 then (Inr (- 1), pipe_close api p os1)
        else (bind_result (safeNumericCast SIZE_T INT64 writtenByteCount) (\<lambda>v. Inr (of_int v)), p, os1))"

definition pipe_receive ::
    "'o pipe_api \<Rightarrow> size_t \<Rightarrow> NamedPipe \<Rightarrow> 'o \<Rightarrow> (size_t \<times> byte_t list) result \<times> NamedPipe \<times> 'o" where
  "pipe_receive api n p os =
     (if pstate p \<noteq> PIPE_CONNECTED then (Inl (pipe_not_connected ''receive''), p, os)
      else case sys_read api (pipe_fd p) n os of (readByteCount, bs, os1) \<Rightarrow>
        if readByteCount < 0 then (Inr (- 1, []), pipe_close api p os1)
        else (bind_result (safeNumericCast SIZE_T INT64 readByteCount) (\<lambda>v. Inr (of_int v, bs)), p, os1))"

definition pipe_isSenderConnected :: "NamedPipe \<Rightarrow> bool" where
  "pipe_isSenderConnected p \<longleftrightarrow> pstate p = PIPE_CONNECTED"

definition pipe_isReceiverConnected :: "NamedPipe \<Rightarrow> bool" where
  "pipe_isReceiverConnected p \<longleftrightarrow> pstate p = PIPE_CONNECTED"

definition pipe_unlink :: "'o pipe_api \<Rightarrow> NamedPipe \<Rightarrow> 'o \<Rightarrow> unit result \<times> NamedPipe \<times> 'o" where
  "pipe_unlink api p os =
     (if pstate p = PIPE_CONNECTED then (Inl unlink_connected, p, os)
      else case (if pstate p \<noteq> DISCONNECTED then pipe_close api p os else (p, os)) of (p', os') \<Rightarrow>
        (Inr (), p', sys_unlink api (fullName p') os'))"

section \<open>Windows\<close>

text \<open>\<open>None\<close> is \<^verbatim>\<open>INVALID_HANDLE_VALUE\<close>.\<close>

record 'h win_pipe =
  pipe_handle :: "'h option"
  win_fullName :: string
  win_pstate :: pipe_state

record ('h, 'o) win_pipe_api =
  CreateNamedPipeA :: "string \<Rightarrow> int \<Rightarrow> 'o \<Rightarrow> 'h option \<times> 'o"
  SetNamedPipeHandleState :: "'h \<Rightarrow> 'o \<Rightarrow> bool \<times> 'o"
  CreateFileA :: "string \<Rightarrow> 'o \<Rightarrow> 'h option \<times> 'o"
  ConnectNamedPipe :: "'h \<Rightarrow> 'o \<Rightarrow> bool \<times> 'o"
  WriteFile :: "'h \<Rightarrow> byte_t list \<Rightarrow> 'o \<Rightarrow> bool \<times> uint32 \<times> 'o"
  ReadFile :: "'h \<Rightarrow> int \<Rightarrow> 'o \<Rightarrow> bool \<times> byte_t list \<times> 'o"
  CloseHandle :: "'h \<Rightarrow> 'o \<Rightarrow> 'o"
  DeleteFileA :: "string \<Rightarrow> 'o \<Rightarrow> 'o"

definition win_NamedPipe_new :: "string \<Rightarrow> 'h win_pipe" where
  "win_NamedPipe_new nm = \<lparr>pipe_handle = None, win_fullName = win_getFullName nm, win_pstate = DISCONNECTED\<rparr>"

definition win_pipe_close :: "('h, 'o) win_pipe_api \<Rightarrow> 'h win_pipe \<Rightarrow> 'o \<Rightarrow> 'h win_pipe \<times> 'o" where
  "win_pipe_close api p os = (case pipe_handle p of
     None \<Rightarrow> (p, os)
   | Some h \<Rightarrow> (p\<lparr>pipe_handle := None, win_pstate := DISCONNECTED\<rparr>, CloseHandle api h os))"

text \<open>Message mode on the pipe's handle, or the pipe is closed.\<close>

definition message_mode :: "('h, 'o) win_pipe_api \<Rightarrow> pipe_state \<Rightarrow> 'h \<Rightarrow> 'h win_pipe \<Rightarrow> 'o \<Rightarrow> bool \<times> 'h win_pipe \<times> 'o" where
  "message_mode api st h p os = (case SetNamedPipeHandleState api h os of (success, os1) \<Rightarrow>
     if \<not> success then (False, win_pipe_close api p os1) else (True, p\<lparr>win_pstate := st\<rparr>, os1))"

definition win_pipe_create :: "('h, 'o) win_pipe_api \<Rightarrow> size_t \<Rightarrow> 'h win_pipe \<Rightarrow> 'o \<Rightarrow> bool result \<times> 'h win_pipe \<times> 'o" where
  "win_pipe_create api bufSize p os = (case safeNumericCast DWORD SIZE_T (uint bufSize) of
     Inl e \<Rightarrow> (Inl e, p, os)
   | Inr dwBufferSize \<Rightarrow> (case CreateNamedPipeA api (win_fullName p) dwBufferSize os of
       (None, os1) \<Rightarrow> (Inr False, p\<lparr>pipe_handle := None\<rparr>, os1)
     | (Some h, os1) \<Rightarrow> (case message_mode api CREATED h (p\<lparr>pipe_handle := Some h\<rparr>) os1 of (ok, st) \<Rightarrow> (Inr ok, st))))"

definition win_pipe_open :: "('h, 'o) win_pipe_api \<Rightarrow> 'h win_pipe \<Rightarrow> 'o \<Rightarrow> bool result \<times> 'h win_pipe \<times> 'o" where
  "win_pipe_open api p os = (case win_pstate p of
     PIPE_CONNECTED \<Rightarrow> (Inr True, p, os)
   | DISCONNECTED \<Rightarrow> (case CreateFileA api (win_fullName p) os of
       (None, os1) \<Rightarrow> (Inr False, p\<lparr>pipe_handle := None\<rparr>, os1)
     | (Some h, os1) \<Rightarrow> (case message_mode api PIPE_CONNECTED h (p\<lparr>pipe_handle := Some h\<rparr>) os1 of (ok, st) \<Rightarrow> (Inr ok, st)))
   | CREATED \<Rightarrow> (case pipe_handle p of
       None \<Rightarrow> (Inr False, win_pipe_close api p os)
     | Some h \<Rightarrow> (case ConnectNamedPipe api h os of (success, os1) \<Rightarrow>
         if \<not> success then (Inr False, win_pipe_close api p os1)
         else (Inr True, p\<lparr>win_pstate := PIPE_CONNECTED\<rparr>, os1))))"

text \<open>The calls on an invalid handle fail without effect.\<close>

definition win_pipe_send :: "('h, 'o) win_pipe_api \<Rightarrow> byte_t list \<Rightarrow> 'h win_pipe \<Rightarrow> 'o \<Rightarrow> size_t result \<times> 'h win_pipe \<times> 'o" where
  "win_pipe_send api buffer p os =
     (if win_pstate p \<noteq> PIPE_CONNECTED then (Inl (pipe_not_connected ''send''), p, os)
      else case safeNumericCast DWORD SIZE_T (int (length buffer)) of
        Inl e \<Rightarrow> (Inl e, p, os)
      | Inr dwSize \<Rightarrow> (case pipe_handle p of
          None \<Rightarrow> (Inr 0, win_pipe_close api p os)
        | Some h \<Rightarrow> (case WriteFile api h buffer os of (success, written, os1) \<Rightarrow>
            (bind_result (safeNumericCast SIZE_T DWORD (uint written)) (\<lambda>v. Inr (of_int v)),
             if success then (p, os1) else win_pipe_close api p os1))))"

definition win_pipe_receive ::
    "('h, 'o) win_pipe_api \<Rightarrow> size_t \<Rightarrow> 'h win_pipe \<Rightarrow> 'o \<Rightarrow> (size_t \<times> byte_t list) result \<times> 'h win_pipe \<times> 'o" where
  "win_pipe_receive api n p os =
     (if win_pstate p \<noteq> PIPE_CONNECTED then (Inl (pipe_not_connected ''receive''), p, os)
      else case safeNumericCast DWORD SIZE_T (uint n) of
        Inl e \<Rightarrow> (Inl e, p, os)
      | Inr dwSize \<Rightarrow> (case pipe_handle p of
          None \<Rightarrow> (Inr (0, []), win_pipe_close api p os)
        | Some h \<Rightarrow> (case ReadFile api h dwSize os of (success, bs, os1) \<Rightarrow>
            (bind_result (safeNumericCast SIZE_T DWORD (int (length bs))) (\<lambda>v. Inr (of_int v, bs)),
             if success then (p, os1) else win_pipe_close api p os1))))"

definition win_pipe_unlink :: "('h, 'o) win_pipe_api \<Rightarrow> 'h win_pipe \<Rightarrow> 'o \<Rightarrow> unit result \<times> 'h win_pipe \<times> 'o" where
  "win_pipe_unlink api p os =
     (if win_pstate p = PIPE_CONNECTED then (Inl unlink_connected, p, os)
      else case (if win_pstate p \<noteq> DISCONNECTED then win_pipe_close api p os else (p, os)) of (p', os') \<Rightarrow>
        (Inr (), p', DeleteFileA api (win_fullName p') os'))"

section \<open>Descriptors of a pipe\<close>

datatype pipe_call = PCreate size_t | POpen | PSend "byte_t list" | PReceive size_t | PClose | PUnlink

definition pipe_step :: "'o pipe_api \<Rightarrow> pipe_call \<Rightarrow> NamedPipe \<times> 'o \<Rightarrow> NamedPipe \<times> 'o" where
  "pipe_step api c = (\<lambda>(p, os). case c of
     PCreate n \<Rightarrow> snd (pipe_create api n p os)
   | POpen \<Rightarrow> snd (pipe_open api p os)
   | PSend bs \<Rightarrow> snd (pipe_send api bs p os)
   | PReceive n \<Rightarrow> snd (pipe_receive api n p os)
   | PClose \<Rightarrow> pipe_close api p os
   | PUnlink \<Rightarrow> snd (pipe_unlink api p os))"

text \<open>Calls in which \<open>create\<close> is not made on a connected pipe.\<close>

definition is_create :: "pipe_call \<Rightarrow> bool" where
  "is_create c = (case c of PCreate _ \<Rightarrow> True | _ \<Rightarrow> False)"

fun pipe_steps :: "'o pipe_api \<Rightarrow> pipe_call list \<Rightarrow> NamedPipe \<times> 'o \<Rightarrow> (NamedPipe \<times> 'o) option" where
  "pipe_steps api [] st = Some st"
| "pipe_steps api (c # cs) st =
     (if is_create c \<and> pstate (fst st) = PIPE_CONNECTED then None
      else pipe_steps api cs (pipe_step api c st))"

locale pipe_descriptors =
  fixes api :: "'o pipe_api" and open_fds :: "'o \<Rightarrow> int set"
  assumes open_new: "0 \<le> fst (sys_open api nm os) \<Longrightarrow> fst (sys_open api nm os) \<notin> open_fds os \<and>
      open_fds (snd (sys_open api nm os)) = insert (fst (sys_open api nm os)) (open_fds os)"
    and open_fails: "fst (sys_open api nm os) < 0 \<Longrightarrow> open_fds (snd (sys_open api nm os)) = open_fds os"
    and close_keeps: "open_fds (sys_pclose api fd os) = open_fds os - {fd}"
    and mkfifo_keeps: "open_fds (snd (sys_mkfifo api nm os)) = open_fds os"
    and write_keeps: "open_fds (snd (sys_write api fd bs os)) = open_fds os"
    and read_keeps: "open_fds (snd (snd (sys_read api fd n os))) = open_fds os"
    and unlink_keeps: "open_fds (sys_unlink api nm os) = open_fds os"
begin

text \<open>The state says whether a descriptor is held, and \<open>fds\<close> are the others.\<close>

definition pipe_owns :: "int set \<Rightarrow> NamedPipe \<times> 'o \<Rightarrow> bool" where
  "pipe_owns fds = (\<lambda>(p, os).
     (if pstate p = PIPE_CONNECTED then 0 \<le> pipe_fd p \<and> pipe_fd p \<notin> fds \<and> open_fds os = insert (pipe_fd p) fds
      else pipe_fd p < 0 \<and> open_fds os = fds))"

lemma close_owns: "pipe_owns fds (p, os) \<Longrightarrow> pipe_owns fds (pipe_close api p os)"
  by (auto simp: pipe_owns_def pipe_close_def close_keeps split: if_splits)

lemma keep_owns: "pipe_owns fds (p, os) \<Longrightarrow> open_fds os' = open_fds os \<Longrightarrow> pipe_owns fds (p, os')"
  by (simp add: pipe_owns_def)

lemma pipe_step_owns:
  assumes "pipe_owns fds (p, os)" "\<not> (is_create c \<and> pstate p = PIPE_CONNECTED)"
  shows "pipe_owns fds (pipe_step api c (p, os))"
proof (cases c)
  case (PCreate n)
  have kept: "pipe_owns fds (p, snd (sys_mkfifo api (fullName p) os))"
    by (rule keep_owns [OF assms(1) mkfifo_keeps])
  with PCreate assms(2) show ?thesis
    using close_owns [OF kept] by (auto simp: is_create_def pipe_step_def pipe_create_def case_prod_beta pipe_owns_def)
next
  case POpen
  show ?thesis
    using assms(1) open_new [of "fullName p" os] open_fails [of "fullName p" os]
    by (auto simp: POpen pipe_step_def pipe_open_def case_prod_beta pipe_owns_def pipe_close_def)
next
  case (PSend bs)
  have kept: "pipe_owns fds (p, snd (sys_write api (pipe_fd p) bs os))"
    by (rule keep_owns [OF assms(1) write_keeps])
  with PSend assms(1) show ?thesis
    using close_owns [OF kept] by (simp add: pipe_step_def pipe_send_def case_prod_beta)
next
  case (PReceive n)
  have kept: "pipe_owns fds (p, snd (snd (sys_read api (pipe_fd p) n os)))"
    by (rule keep_owns [OF assms(1) read_keeps])
  with PReceive assms(1) show ?thesis
    using close_owns [OF kept] by (simp add: pipe_step_def pipe_receive_def case_prod_beta)
next
  case PClose
  then show ?thesis
    using close_owns [OF assms(1)] by (simp add: pipe_step_def)
next
  case PUnlink
  then show ?thesis
    using assms(1) by (auto simp: pipe_step_def pipe_unlink_def pipe_close_def pipe_owns_def unlink_keeps)
qed

lemma pipe_steps_owns:
  assumes "pipe_steps api cs st = Some st'" "pipe_owns fds st"
  shows "pipe_owns fds st'"
  using assms
proof (induction cs arbitrary: st)
  case (Cons c cs)
  then show ?case
    using pipe_step_owns [of fds "fst st" "snd st" c] by (auto split: if_splits)
qed simp

lemma pipe_no_leak:
  assumes "pipe_steps api cs (NamedPipe_new nm, os) = Some (p, os')"
  shows "open_fds (NamedPipe_destroy api p os') = open_fds os"
proof -
  have "pipe_owns (open_fds os) (NamedPipe_new nm, os)"
    by (simp add: pipe_owns_def NamedPipe_new_def)
  from pipe_steps_owns [OF assms this] show ?thesis
    by (auto simp: pipe_owns_def NamedPipe_destroy_def pipe_close_def close_keeps split: if_splits)
qed

end

section \<open>A system with named pipes\<close>

text \<open>The pipes that exist, the open descriptors and what a pipe holds.\<close>

record plain_pipes =
  fifos :: "string list"
  pipe_fds :: "int list"
  in_pipe :: "byte_t list"
  broken :: bool

definition new_fd :: "int list \<Rightarrow> int" where
  "new_fd fds = foldr max fds 2 + 1"

lemma new_fd_fresh: "new_fd fds \<notin> set fds" "\<not> new_fd fds < 0"
proof -
  have "x \<in> set fds \<Longrightarrow> x < foldr max fds 2 + 1" for x
    by (induction fds) (auto simp: max_def)
  then show "new_fd fds \<notin> set fds"
    unfolding new_fd_def by blast
  have "2 \<le> foldr max fds (2 :: int)"
    by (induction fds) auto
  then show "\<not> new_fd fds < 0"
    by (simp add: new_fd_def)
qed

definition plain_pipe_api :: "plain_pipes pipe_api" where
  "plain_pipe_api =
     \<lparr>sys_mkfifo = (\<lambda>nm os. if nm \<in> set (fifos os) then (- 1, os) else (0, os\<lparr>fifos := nm # fifos os\<rparr>)),
      sys_open = (\<lambda>nm os. if nm \<in> set (fifos os)
        then (new_fd (pipe_fds os), os\<lparr>pipe_fds := new_fd (pipe_fds os) # pipe_fds os\<rparr>) else (- 1, os)),
      sys_write = (\<lambda>fd bs os. if broken os then (- 1, os) else (int (length bs), os\<lparr>in_pipe := in_pipe os @ bs\<rparr>)),
      sys_read = (\<lambda>fd n os. if broken os then (- 1, [], os) else (int (length (take (unat n) (in_pipe os))),
        take (unat n) (in_pipe os), os\<lparr>in_pipe := drop (unat n) (in_pipe os)\<rparr>)),
      sys_pclose = (\<lambda>fd os. os\<lparr>pipe_fds := removeAll fd (pipe_fds os)\<rparr>),
      sys_unlink = (\<lambda>nm os. os\<lparr>fifos := removeAll nm (fifos os)\<rparr>)\<rparr>"

interpretation pipes: pipe_descriptors plain_pipe_api "\<lambda>os. set (pipe_fds os)"
  by unfold_locales (auto simp: plain_pipe_api_def new_fd_fresh split: if_splits)

definition pipe_exchanger :: "'o pipe_api \<Rightarrow> (NamedPipe \<times> 'o) IDataExchanger" where
  "pipe_exchanger api =
     \<lparr>ex_send = (\<lambda>bs (p, os). case pipe_send api bs p os of (r, st) \<Rightarrow> bind_result r (\<lambda>k. Inr (k, st))),
      ex_receive = (\<lambda>n (p, os). case pipe_receive api n p os of (r, st) \<Rightarrow> bind_result r (\<lambda>(k, bs). Inr (k, bs, st))),
      isSenderConnected = (\<lambda>(p, os). pipe_isSenderConnected p),
      isReceiverConnected = (\<lambda>(p, os). pipe_isReceiverConnected p)\<rparr>"

section \<open>Properties\<close>

text \<open>a named pipe leaks no descriptor. Whatever calls are made on a pipe, failing ones
  included, except \<open>create\<close> on a connected one, after its destruction exactly the
  descriptors that were open before are open.\<close>

theorem NamedPipe_no_leak:
  assumes "pipe_descriptors api open_fds" "pipe_steps api cs (NamedPipe_new nm, os) = Some (p, os')"
  shows "open_fds (NamedPipe_destroy api p os') = open_fds os"
  by (rule pipe_descriptors.pipe_no_leak [OF assms])

theorem NamedPipe_no_leak_witness:
  "\<exists>p os'. pipe_steps plain_pipe_api [PCreate 10, POpen, PSend [1, 2], PReceive 1, POpen]
      (NamedPipe_new ''x'', \<lparr>fifos = [], pipe_fds = [0, 1, 2], in_pipe = [], broken = False\<rparr>) = Some (p, os') \<and>
    set (pipe_fds (NamedPipe_destroy plain_pipe_api p os')) = {0, 1, 2}"
proof -
  let ?os = "\<lparr>fifos = [], pipe_fds = [0, 1, 2], in_pipe = [], broken = False\<rparr>"
  let ?cs = "[PCreate 10, POpen, PSend [1, 2], PReceive 1, POpen]"
  have "\<not> Option.is_none (pipe_steps plain_pipe_api ?cs (NamedPipe_new ''x'', ?os))"
    by code_simp
  then obtain p os' where run: "pipe_steps plain_pipe_api ?cs (NamedPipe_new ''x'', ?os) = Some (p, os')"
    by (cases "pipe_steps plain_pipe_api ?cs (NamedPipe_new ''x'', ?os)") auto
  from NamedPipe_no_leak [OF pipes.pipe_descriptors_axioms run] run show ?thesis
    by auto
qed

text \<open>a failed read is taken for data. \<open>receive\<close> reports an error of the system by
  returning \<^verbatim>\<open>~size_t(0)\<close>, which the loop of \<open>receiveObject\<close> takes for enough bytes: the size of
  the object is then whatever the uninitialised variable held, and decides whether the
  caller sees a wrong size or a lost connection.\<close>

theorem NamedPipe_error_taken_for_data:
  assumes "pstate p = PIPE_CONNECTED" "sys_read api (pipe_fd p) 8 os = (r, bs, os')" "r < 0" "length garbage = 8"
  shows "pipe_receive api 8 p os = (Inr (- 1, []), pipe_close api p os') \<and>
    receiveObject (pipe_exchanger api) garbage buffer bufferSize (p, os) =
      Some (Inl (if word8 garbage > bufferSize then RUNTIME_ERROR ''receiveObject'' ''Incoming object size greater then buffer size''
        else pipe_not_connected ''receive''))"
proof -
  have rc: "pipe_receive api 8 p os = (Inr (- 1, []), pipe_close api p os')"
    using assms by (simp add: pipe_receive_def)
  have "\<not> (- 1 :: size_t) < 8"
    by (simp add: not_less)
  then have "receive_loop (pipe_exchanger api) garbage 8 0 (p, os) = Some (Inr (garbage, pipe_close api p os'))"
    using rc assms(4) by (subst receive_loop.simps) (simp add: pipe_exchanger_def memcpy_to_def blit_def)
  moreover have "receive_loop (pipe_exchanger api) b n 0 (pipe_close api p os') = Some (Inl (pipe_not_connected ''receive''))" for b n
    by (subst receive_loop.simps) (simp add: pipe_exchanger_def pipe_receive_def pipe_close_def)
  ultimately show ?thesis
    using rc by (simp add: receiveObject_def receive_sized_def)
qed

theorem NamedPipe_error_taken_for_data_witness:
  "receiveObject (pipe_exchanger plain_pipe_api) [5, 0, 0, 0, 0, 0, 0, 0] [0] 1
     (\<lparr>pipe_fd = 3, fullName = ''x'', pstate = PIPE_CONNECTED\<rparr>,
      \<lparr>fifos = [''x''], pipe_fds = [0, 1, 2, 3], in_pipe = [], broken = True\<rparr>) =
   Some (Inl (RUNTIME_ERROR ''receiveObject'' ''Incoming object size greater then buffer size''))"
  using NamedPipe_error_taken_for_data [of "\<lparr>pipe_fd = 3, fullName = ''x'', pstate = PIPE_CONNECTED\<rparr>" plain_pipe_api
      "\<lparr>fifos = [''x''], pipe_fds = [0, 1, 2, 3], in_pipe = [], broken = True\<rparr>" "- 1" "[]"
      "\<lparr>fifos = [''x''], pipe_fds = [0, 1, 2, 3], in_pipe = [], broken = True\<rparr>" "[5, 0, 0, 0, 0, 0, 0, 0]"]
  by (simp add: plain_pipe_api_def word8_def)

end
