(* ===== verification/Serial.thy ===== *)
theory Serial
  imports Numbers
begin

text \<open>
  \<^verbatim>\<open>src/headers/device/Serial.h\<close> and \<^verbatim>\<open>src/src/device/Serial.cpp\<close>: serial ports. The
  implementation exists for Windows only; elsewhere every operation on the port throws
  (\<open>nyi\<close>). The system's calls are parameters; an operation answers its return value or
  exception together with the object and the system as they are left.
\<close>

section \<open>The object\<close>

text \<open>A handle is \<^verbatim>\<open>NULL\<close>, \<^verbatim>\<open>INVALID_HANDLE_VALUE\<close> or valid.\<close>

datatype 'h handle = Null_handle | Invalid_handle | Valid_handle 'h

definition P_NOPARITY :: uint32 where "P_NOPARITY = 0"
definition P_ODDPARITY :: uint32 where "P_ODDPARITY = 1"
definition P_EVENPARITY :: uint32 where "P_EVENPARITY = 2"
definition P_MARKPARITY :: uint32 where "P_MARKPARITY = 3"
definition P_SPACEPARITY :: uint32 where "P_SPACEPARITY = 4"
definition SB_ONESTOPBIT :: uint32 where "SB_ONESTOPBIT = 0"
definition SB_ONE5STOPBITS :: uint32 where "SB_ONE5STOPBITS = 1"
definition SB_TWOSTOPBITS :: uint32 where "SB_TWOSTOPBITS = 2"

record 'h Serial =
  port_handle :: "'h handle"
  comIndex :: uint32
  boud :: uint32
  byteSize :: uint32
  parity :: uint32
  stopBitsMode :: uint32
  blockingRecpt :: bool

record SerialPort =
  port_name :: string
  port_index :: uint32

text \<open>The fields of the device control block that are set.\<close>

record dcb =
  BaudRate :: int
  ByteSize :: int
  Parity :: int
  StopBits :: int
  fDtrControl :: bool
  fRtsControl :: bool
  fOutxCtsFlow :: bool
  fOutxDsrFlow :: bool

record ('h, 'o) serial_api =
  ser_CreateFileA :: "string \<Rightarrow> 'o \<Rightarrow> 'h handle \<times> 'o"
  GetCommState :: "'h handle \<Rightarrow> 'o \<Rightarrow> dcb option"
  SetCommState :: "'h handle \<Rightarrow> dcb \<Rightarrow> 'o \<Rightarrow> bool \<times> 'o"
  ser_WriteFile :: "'h handle \<Rightarrow> byte_t list \<Rightarrow> 'o \<Rightarrow> uint32 \<times> 'o"
  ser_ReadFile :: "'h handle \<Rightarrow> int \<Rightarrow> 'o \<Rightarrow> bool \<times> byte_t list \<times> 'o"
  PurgeComm :: "'h handle \<Rightarrow> bool \<Rightarrow> bool \<Rightarrow> 'o \<Rightarrow> 'o"
  FlushFileBuffers :: "'h handle \<Rightarrow> 'o \<Rightarrow> 'o"
  ser_CloseHandle :: "'h handle \<Rightarrow> 'o \<Rightarrow> 'o"
  QueryDosDeviceA :: "string \<Rightarrow> 'o \<Rightarrow> string option \<times> bool"

definition nyi :: "string \<Rightarrow> exn" where
  "nyi fn = Runtime_error (''Gicame::Device::Serial::'' @ fn @ ''(...): not yet implemented'')"

definition Serial_new :: "uint32 \<Rightarrow> uint32 \<Rightarrow> uint32 \<Rightarrow> uint32 \<Rightarrow> uint32 \<Rightarrow> 'h Serial" where
  "Serial_new ci bd bs pa sb = \<lparr>port_handle = Null_handle, comIndex = ci, boud = bd, byteSize = bs, parity = pa,
     stopBitsMode = sb, blockingRecpt = False\<rparr>"

definition serial_close :: "('h, 'o) serial_api \<Rightarrow> 'h Serial \<Rightarrow> 'o \<Rightarrow> 'h Serial \<times> 'o" where
  "serial_close api s os =
     (s\<lparr>port_handle := Null_handle\<rparr>,
      if port_handle s \<noteq> Null_handle \<and> port_handle s \<noteq> Invalid_handle then ser_CloseHandle api (port_handle s) os else os)"

definition UINT32 :: int_type where "UINT32 = \<lparr>is_signed = False, width = 32\<rparr>"

definition BYTE :: int_type where "BYTE = UINT8"

text \<open>The settings of the port; the conversions may throw.\<close>

definition configured :: "'h Serial \<Rightarrow> dcb \<Rightarrow> dcb result" where
  "configured s dcb =
     bind_result (safeNumericCast DWORD UINT32 (uint (boud s))) (\<lambda>br.
     bind_result (safeNumericCast BYTE UINT32 (uint (byteSize s))) (\<lambda>bs.
     bind_result (safeNumericCast BYTE UINT32 (uint (parity s))) (\<lambda>pa.
     bind_result (safeNumericCast BYTE UINT32 (uint (stopBitsMode s))) (\<lambda>sb.
       Inr (dcb\<lparr>BaudRate := br, ByteSize := bs, Parity := pa, StopBits := sb,
         fDtrControl := True, fRtsControl := True, fOutxCtsFlow := False, fOutxDsrFlow := False\<rparr>)))))"

definition portName :: "uint32 \<Rightarrow> string" where
  "portName ci = [CHR 0x5C, CHR 0x5C, CHR ''.'', CHR 0x5C] @ ''COM'' @ decimal (unat ci)"

definition serial_open :: "('h, 'o) serial_api \<Rightarrow> 'h Serial \<Rightarrow> 'o \<Rightarrow> bool result \<times> 'h Serial \<times> 'o" where
  "serial_open api s os =
     (if port_handle s \<noteq> Null_handle
      then (Inl (RUNTIME_ERROR ''open'' ''Trying to open an already open serial connection''), s, os)
      else case ser_CreateFileA api (portName (comIndex s)) os of (h, os1) \<Rightarrow>
        let s1 = s\<lparr>port_handle := h\<rparr> in
        if h = Invalid_handle then (Inr False, serial_close api s1 os1)
        else case GetCommState api h os1 of
          None \<Rightarrow> (Inr False, serial_close api s1 os1)
        | Some dcb \<Rightarrow> (case configured s dcb of
            Inl e \<Rightarrow> (Inl e, s1, os1)
          | Inr dcb' \<Rightarrow> (case SetCommState api h dcb' os1 of (ok, os2) \<Rightarrow>
              if ok then (Inr True, s1, os2) else (Inr False, serial_close api s1 os2))))"

definition serial_isReceiverConnected :: "'h Serial \<Rightarrow> bool" where
  "serial_isReceiverConnected s \<longleftrightarrow> port_handle s \<noteq> Null_handle"

definition serial_isSenderConnected :: "'h Serial \<Rightarrow> bool" where
  "serial_isSenderConnected s \<longleftrightarrow> port_handle s \<noteq> Null_handle"

definition serial_send :: "('h, 'o) serial_api \<Rightarrow> byte_t list \<Rightarrow> 'h Serial \<Rightarrow> 'o \<Rightarrow> size_t result \<times> 'o" where
  "serial_send api buffer s os = (case safeNumericCast DWORD SIZE_T (int (length buffer)) of
     Inl e \<Rightarrow> (Inl e, os)
   | Inr dwSize \<Rightarrow> (case ser_WriteFile api (port_handle s) buffer os of (written, os1) \<Rightarrow>
       (bind_result (safeNumericCast SIZE_T DWORD (uint written)) (\<lambda>v. Inr (of_int v)), os1)))"

text \<open>\<open>receive\<close>: the bytes read so far, in the order they were put into the buffer.\<close>

partial_function (option) receive_port ::
    "('h, 'o) serial_api \<Rightarrow> 'h Serial \<Rightarrow> byte_t list \<Rightarrow> size_t \<Rightarrow> 'o \<Rightarrow> (byte_t list result \<times> size_t \<times> 'o) option" where
  "receive_port api s got stillToRead os =
     (if stillToRead = 0 then Some (Inr got, 0, os)
      else case safeNumericCast DWORD SIZE_T (uint stillToRead) of
        Inl e \<Rightarrow> Some (Inl e, stillToRead, os)
      | Inr dwSize \<Rightarrow> (case ser_ReadFile api (port_handle s) dwSize os of (success, bs, os1) \<Rightarrow>
          if \<not> success \<or> bs = [] then
            (if blockingRecpt s then receive_port api s got stillToRead os1 else Some (Inr got, stillToRead, os1))
          else receive_port api s (got @ bs) (stillToRead - of_nat (length bs)) os1))"

definition serial_receive :: "('h, 'o) serial_api \<Rightarrow> size_t \<Rightarrow> 'h Serial \<Rightarrow> 'o \<Rightarrow> ((size_t \<times> byte_t list) result \<times> 'o) option" where
  "serial_receive api n s os = map_option (\<lambda>(r, stillToRead, os').
     (bind_result r (\<lambda>bs. Inr (n - stillToRead, bs)), os')) (receive_port api s [] n os)"

definition serial_clear :: "('h, 'o) serial_api \<Rightarrow> bool \<Rightarrow> bool \<Rightarrow> 'h Serial \<Rightarrow> 'o \<Rightarrow> 'o" where
  "serial_clear api rx tx s os =
     (if port_handle s = Null_handle \<or> port_handle s = Invalid_handle then os else PurgeComm api (port_handle s) rx tx os)"

definition serial_flush :: "('h, 'o) serial_api \<Rightarrow> 'h Serial \<Rightarrow> 'o \<Rightarrow> 'o" where
  "serial_flush api s os = FlushFileBuffers api (port_handle s) os"

definition serial_setReceptionBlocking :: "bool \<Rightarrow> 'h Serial \<Rightarrow> 'h Serial" where
  "serial_setReceptionBlocking rb s = s\<lparr>blockingRecpt := rb\<rparr>"

text \<open>\<open>QueryDosDeviceA\<close> answers the device's path, if any, and whether the last error of the
  thread is \<^verbatim>\<open>ERROR_INSUFFICIENT_BUFFER\<close>.\<close>

fun enumerate_from :: "('h, 'o) serial_api \<Rightarrow> 'o \<Rightarrow> nat \<Rightarrow> nat \<Rightarrow> SerialPort list \<Rightarrow> SerialPort list result" where
  "enumerate_from api os i 0 result = Inr result"
| "enumerate_from api os i (Suc n) result =
     (case QueryDosDeviceA api (''COM'' @ decimal i) os of (out, insufficient) \<Rightarrow>
        if insufficient then Inl (RUNTIME_ERROR ''enumerateSerialPorts'' ''insufficient buffer'')
        else enumerate_from api os (Suc i) n
          (case out of Some path \<Rightarrow> result @ [\<lparr>port_name = path, port_index = of_nat i\<rparr>] | None \<Rightarrow> result))"

definition enumerateSerialPorts :: "('h, 'o) serial_api \<Rightarrow> 'o \<Rightarrow> SerialPort list result" where
  "enumerateSerialPorts api os = enumerate_from api os 0 255 []"

section \<open>POSIX\<close>

definition posix_serial_open :: "'h Serial \<Rightarrow> bool result" where
  "posix_serial_open s = Inl (nyi ''open'')"

definition posix_serial_send :: "byte_t list \<Rightarrow> 'h Serial \<Rightarrow> size_t result" where
  "posix_serial_send bs s = Inl (nyi ''send'')"

definition posix_serial_receive :: "size_t \<Rightarrow> 'h Serial \<Rightarrow> size_t result" where
  "posix_serial_receive n s = Inl (nyi ''receive'')"

definition posix_serial_clear :: "bool \<Rightarrow> bool \<Rightarrow> 'h Serial \<Rightarrow> unit result" where
  "posix_serial_clear rx tx s = Inl (nyi ''clear'')"

definition posix_serial_flush :: "'h Serial \<Rightarrow> unit result" where
  "posix_serial_flush s = Inl (nyi ''flush'')"

definition posix_serial_close :: "'h Serial \<Rightarrow> unit result" where
  "posix_serial_close s = Inl (nyi ''close'')"

definition posix_enumerateSerialPorts :: "SerialPort list result" where
  "posix_enumerateSerialPorts = Inl (nyi ''enumerateSerialPorts'')"

section \<open>Receiving\<close>

text \<open>
  The contract of the device behind a handle, with \<open>inc\<close> the bytes it will deliver: a read
  delivers the next ones, at most as many as asked for, and some when there are any.
\<close>

locale serial_line =
  fixes api :: "('h, 'o) serial_api" and h :: "'h handle" and inc :: "'o \<Rightarrow> byte_t list"
  assumes read_next: "ser_ReadFile api h k os = (ok, bs, os') \<Longrightarrow> 0 < k \<Longrightarrow>
      int (length bs) \<le> k \<and> (ok \<longrightarrow> bs = take (length bs) (inc os)) \<and> inc os' = (if ok then drop (length bs) (inc os) else inc os) \<and>
      (inc os \<noteq> [] \<longrightarrow> ok \<and> bs \<noteq> []) \<and> (inc os = [] \<longrightarrow> bs = [])"
begin

lemma cast_ok:
  assumes "unat n < 2 ^ 32"
  shows "safeNumericCast DWORD SIZE_T (uint (n :: size_t)) = Inr (uint n)"
proof -
  have "int (unat n) < 2 ^ 32"
    using assms by (metis of_nat_less_iff of_nat_numeral of_nat_power)
  then have "uint n < 2 ^ 32"
    by simp
  then show ?thesis
    by (simp add: safeNumericCast_def DWORD_def SIZE_T_def UINT64_def max_of_def static_cast_def)
qed

text \<open>A read: nothing when nothing is there, otherwise some of the next bytes.\<close>

lemma read_cases:
  assumes "n \<noteq> (0 :: size_t)"
  obtains (none) ok os1 where "ser_ReadFile api h (uint n) os = (ok, [], os1)" "inc os = []" "inc os1 = []"
  | (some) bs os1 where "ser_ReadFile api h (uint n) os = (True, bs, os1)" "bs \<noteq> []" "length bs \<le> unat n"
      "bs = take (length bs) (inc os)" "inc os1 = drop (length bs) (inc os)" "length bs \<le> length (inc os)"
proof -
  obtain ok bs os1 where rd: "ser_ReadFile api h (uint n) os = (ok, bs, os1)"
    by (metis prod_cases3)
  have "0 < unat n"
    using assms by (simp add: unat_gt_0)
  then have "0 < int (unat n)"
    by linarith
  then have "0 < uint n"
    by simp
  note law = read_next [OF rd this]
  then have len: "int (length bs) \<le> int (unat n)"
    by simp
  show thesis
  proof (cases "inc os = []")
    case True
    then show thesis
      using none rd law by simp
  next
    case False
    then have "ok" "bs \<noteq> []" "bs = take (length bs) (inc os)" "inc os1 = drop (length bs) (inc os)"
      using law by (blast, blast, blast, simp)
    moreover from this(3) have "length bs \<le> length (inc os)"
      by (metis length_take min.cobounded1)
    ultimately show thesis
      using some rd len by simp
  qed
qed

lemma receive_port_ok:
  assumes "port_handle s = h" "unat n < 2 ^ 32" "blockingRecpt s \<Longrightarrow> unat n \<le> length (inc os)"
  shows "\<exists>os'. receive_port api s got n os =
      Some (Inr (got @ take (unat n) (inc os)), n - of_nat (min (unat n) (length (inc os))), os') \<and> inc os' = drop (unat n) (inc os)"
  using assms
proof (induction "unat n" arbitrary: n got os rule: less_induct)
  case less
  show ?case
  proof (cases "n = 0")
    case True
    then show ?thesis
      by (subst receive_port.simps) simp
  next
    case False
    then show ?thesis
    proof (cases rule: read_cases [where os = os])
      case (none ok os1)
      then have "\<not> blockingRecpt s"
        using less.prems(3) False by (auto simp: unat_eq_0)
      then show ?thesis
        using none False less.prems(1,2) by (subst receive_port.simps) (simp add: cast_ok)
    next
      case (some bs os1)
      let ?m = "n - of_nat (length bs) :: size_t"
      have "unat (of_nat (length bs) :: size_t) = length bs"
        using some(3) by (intro unat_of_nat_size le_less_trans [OF _ unat_lt_size])
      then have um: "unat ?m = unat n - length bs"
        using some(3) by (simp add: unat_minus_le)
      have dec: "unat ?m < unat n"
        using um some(2,3) by (cases bs) auto
      have "unat ?m < 2 ^ 32" "blockingRecpt s \<Longrightarrow> unat ?m \<le> length (inc os1)"
        using less.prems um some(5) by auto
      then obtain os' where IH: "receive_port api s (got @ bs) ?m os1 =
          Some (Inr ((got @ bs) @ take (unat ?m) (inc os1)), ?m - of_nat (min (unat ?m) (length (inc os1))), os')"
        "inc os' = drop (unat ?m) (inc os1)"
        using less.hyps [OF dec less.prems(1), of os1 "got @ bs"] by blast
      have step: "receive_port api s got n os = receive_port api s (got @ bs) ?m os1"
        using False some(1,2) less.prems(1,2) by (subst receive_port.simps) (simp add: cast_ok)
      have all: "bs @ take (unat ?m) (inc os1) = take (unat n) (inc os)"
        unfolding um some(5) using some(3,4) by (metis le_add_diff_inverse take_add)
      have "min (unat n) (length (inc os)) = length bs + min (unat ?m) (length (inc os1))"
        using some(3,6) um some(5) by auto
      then show ?thesis
        using IH all some(3) by (simp add: step um some(5))
    qed
  qed
qed

end

text \<open>A line that delivers what has arrived, at most three bytes at a time.\<close>

definition plain_line :: "(unit, byte_t list) serial_api" where
  "plain_line =
     \<lparr>ser_CreateFileA = (\<lambda>nm os. (Valid_handle (), os)),
      GetCommState = (\<lambda>h os. Some \<lparr>BaudRate = 0, ByteSize = 0, Parity = 0, StopBits = 0, fDtrControl = False,
        fRtsControl = False, fOutxCtsFlow = True, fOutxDsrFlow = True\<rparr>),
      SetCommState = (\<lambda>h dcb os. (True, os)),
      ser_WriteFile = (\<lambda>h bs os. (of_nat (length bs), os)),
      ser_ReadFile = (\<lambda>h k os. let j = min (length os) (min 3 (nat k)) in (True, take j os, drop j os)),
      PurgeComm = (\<lambda>h rx tx os. if rx then [] else os),
      FlushFileBuffers = (\<lambda>h os. os),
      ser_CloseHandle = (\<lambda>h os. os),
      QueryDosDeviceA = (\<lambda>nm os. (None, False))\<rparr>"

interpretation line: serial_line plain_line h "\<lambda>os. os" for h
  by unfold_locales (auto simp: plain_line_def Let_def)

section \<open>Properties\<close>

text \<open>a serial port delivers what has arrived, in order and completely. Over a device
  that keeps its contract, \<open>receive\<close> of less than 4 GiB returns: it gives exactly the next
  bytes of the line, all that were asked for, or all that have arrived when reception
  does not block, reports their number, and leaves the rest.\<close>

theorem Serial_receive_complete:
  assumes "serial_line api (port_handle s) inc" "unat n < 2 ^ 32" "blockingRecpt s \<Longrightarrow> unat n \<le> length (inc os)"
  shows "\<exists>os'. serial_receive api n s os =
      Some (Inr (of_nat (min (unat n) (length (inc os))), take (unat n) (inc os)), os') \<and> inc os' = drop (unat n) (inc os)"
proof -
  obtain os' where "receive_port api s [] n os =
      Some (Inr (take (unat n) (inc os)), n - of_nat (min (unat n) (length (inc os))), os')" "inc os' = drop (unat n) (inc os)"
    using serial_line.receive_port_ok [OF assms(1) refl assms(2,3), of "[]"] by auto
  then show ?thesis
    by (simp add: serial_receive_def)
qed

theorem Serial_receive_complete_witness:
  "\<exists>os'. serial_receive plain_line 10 (Serial_new 3 9600 8 0 0 \<lparr>port_handle := Valid_handle ()\<rparr>) [1, 2, 3, 4, 5] =
     Some (Inr (5, [1, 2, 3, 4, 5]), os') \<and> os' = []"
  using Serial_receive_complete [OF line.serial_line_axioms, of 10 "Serial_new 3 9600 8 0 0 \<lparr>port_handle := Valid_handle ()\<rparr>" "[1, 2, 3, 4, 5]"]
  by (simp add: Serial_new_def)

text \<open>\<open>open\<close> can throw and leave the port open and unconfigured. A setting that does not
  fit into the device control block makes the checked conversion throw after the handle
  was opened: it is neither closed nor configured, and the port reports to be connected.\<close>

theorem Serial_open_throws_connected:
  assumes "port_handle s = Null_handle" "byteSize s > 255"
    and "ser_CreateFileA api (portName (comIndex s)) os = (Valid_handle h, os1)" "GetCommState api (Valid_handle h) os1 = Some dcb"
  shows "\<exists>e. serial_open api s os = (Inl e, s\<lparr>port_handle := Valid_handle h\<rparr>, os1) \<and>
    serial_isReceiverConnected (s\<lparr>port_handle := Valid_handle h\<rparr>)"
proof -
  have "255 < uint (byteSize s)"
    using assms(2) by (simp add: word_less_def)
  then have "\<exists>e. configured s dcb = Inl e"
    by (simp add: configured_def safeNumericCast_def BYTE_def UINT8_def UINT32_def DWORD_def max_of_def static_cast_def)
  then show ?thesis
    using assms by (auto simp: serial_open_def serial_isReceiverConnected_def)
qed

theorem Serial_open_throws_connected_witness:
  "\<exists>e. serial_open plain_line (Serial_new 3 9600 256 0 0) [] =
     (Inl e, (Serial_new 3 9600 256 0 0)\<lparr>port_handle := Valid_handle ()\<rparr>, []) \<and>
    serial_isReceiverConnected ((Serial_new 3 9600 256 0 0)\<lparr>port_handle := Valid_handle ()\<rparr>)"
  by (rule Serial_open_throws_connected) (simp_all add: Serial_new_def plain_line_def)

end
