(* ===== verification/OsUtilities.thy ===== *)
theory OsUtilities
  imports Gicame_Prelude
begin

text \<open>
  \<^verbatim>\<open>src/headers/os/DynLibraryHandler.h\<close>, \<^verbatim>\<open>src/src/os/DynLibraryHandler.cpp\<close>: a dynamic
  library held for the life of an object; \<^verbatim>\<open>src/src/os/ErrorHandling.cpp\<close>: the last error;
  \<^verbatim>\<open>src/headers/io/Io.h\<close>: whole files. The dynamic loader and the table of error messages
  are parameters.
\<close>

section \<open>Dynamic libraries\<close>

record 'h DynLibraryHandler =
  nativeHandle :: "'h option"

record ('h, 'a, 'o) loader_api =
  dlopen :: "string \<Rightarrow> 'o \<Rightarrow> 'h option \<times> 'o"
  dlclose :: "'h \<Rightarrow> 'o \<Rightarrow> 'o"
  dlsym :: "'h \<Rightarrow> string \<Rightarrow> 'o \<Rightarrow> 'a option"

definition xLibraryNotLoaded :: exn where
  "xLibraryNotLoaded = RUNTIME_ERROR ''xLibraryNotLoaded'' ''Library not loaded''"

definition unload :: "('h, 'a, 'o) loader_api \<Rightarrow> 'h DynLibraryHandler \<Rightarrow> 'o \<Rightarrow> 'h DynLibraryHandler \<times> 'o" where
  "unload api l os = (l\<lparr>nativeHandle := None\<rparr>, case nativeHandle l of Some h \<Rightarrow> dlclose api h os | None \<Rightarrow> os)"

definition DynLibraryHandler_destroy :: "('h, 'a, 'o) loader_api \<Rightarrow> 'h DynLibraryHandler \<Rightarrow> 'o \<Rightarrow> 'o" where
  "DynLibraryHandler_destroy api l os = snd (unload api l os)"

definition load_library :: "('h, 'a, 'o) loader_api \<Rightarrow> string \<Rightarrow> 'o \<Rightarrow> 'h DynLibraryHandler result \<times> 'o" where
  "load_library api modulePath os = (case dlopen api modulePath os of
     (None, os1) \<Rightarrow> (Inl (RUNTIME_ERROR ''load'' ''Unable to load library''), os1)
   | (Some h, os1) \<Rightarrow> (Inr \<lparr>nativeHandle = Some h\<rparr>, os1))"

text \<open>An absent symbol is a null pointer, not an error.\<close>

definition getSymbolAddress :: "('h, 'a, 'o) loader_api \<Rightarrow> string \<Rightarrow> 'h DynLibraryHandler \<Rightarrow> 'o \<Rightarrow> 'a option result" where
  "getSymbolAddress api symbolName l os = (case nativeHandle l of
     None \<Rightarrow> Inl xLibraryNotLoaded
   | Some h \<Rightarrow> Inr (dlsym api h symbolName os))"

text \<open>
  The contract of the loader, with \<open>refs\<close> the references the process holds: opening a
  library adds one to its handle, closing takes one away, and its symbols can be found as
  long as one is left.
\<close>

locale loader =
  fixes api :: "('h, 'a, 'o) loader_api" and refs :: "'o \<Rightarrow> 'h \<Rightarrow> nat" and symbols :: "'h \<Rightarrow> string \<rightharpoonup> 'a"
  assumes open_none: "dlopen api p os = (None, os1) \<Longrightarrow> refs os1 = refs os"
    and open_some: "dlopen api p os = (Some h, os1) \<Longrightarrow> refs os1 = (refs os)(h := refs os h + 1)"
    and close_one: "0 < refs os h \<Longrightarrow> refs (dlclose api h os) = (refs os)(h := refs os h - 1)"
    and find_symbol: "0 < refs os h \<Longrightarrow> dlsym api h n os = symbols h n"
begin

lemma load_refs:
  assumes "load_library api p os = (Inr l, os1)"
  obtains h where "nativeHandle l = Some h" "refs os1 = (refs os)(h := refs os h + 1)"
  using assms open_some by (auto simp: load_library_def split: prod.splits option.splits)

lemma load_failed: "load_library api p os = (Inl e, os1) \<Longrightarrow> refs os1 = refs os"
  using open_none by (auto simp: load_library_def split: prod.splits option.splits)

lemma destroy_refs:
  "nativeHandle l = Some h \<Longrightarrow> 0 < refs os h \<Longrightarrow> refs (DynLibraryHandler_destroy api l os) = (refs os)(h := refs os h - 1)"
  by (simp add: DynLibraryHandler_destroy_def unload_def close_one)

lemma symbol_found: "nativeHandle l = Some h \<Longrightarrow> 0 < refs os h \<Longrightarrow> getSymbolAddress api n l os = Inr (symbols h n)"
  by (simp add: getSymbolAddress_def find_symbol)

end

text \<open>A loader that counts the references to one library, \<open>''m''\<close>.\<close>

definition counting_loader :: "(unit, nat, nat) loader_api" where
  "counting_loader =
     \<lparr>dlopen = (\<lambda>p os. if p = ''m'' then (Some (), os + 1) else (None, os)),
      dlclose = (\<lambda>h os. os - 1),
      dlsym = (\<lambda>h n os. if 0 < os \<and> n = ''f'' then Some 7 else None)\<rparr>"

interpretation counted: loader counting_loader "\<lambda>os h. os" "\<lambda>h n. if n = ''f'' then Some 7 else None"
  by unfold_locales (auto simp: counting_loader_def fun_eq_iff split: if_splits)

section \<open>The last error\<close>

text \<open>POSIX: \<open>errno\<close> and its message. Windows: the message the system formats, if any.\<close>

definition getLastCode :: "int \<Rightarrow> int" where
  "getLastCode errno = errno"

definition getLastErrorAsString :: "(int \<Rightarrow> string) \<Rightarrow> int \<Rightarrow> string" where
  "getLastErrorAsString strerror errno = strerror errno"

definition win_getLastErrorAsString :: "(int \<Rightarrow> string option) \<Rightarrow> int \<Rightarrow> string" where
  "win_getLastErrorAsString FormatMessageA WSAGetLastError =
     (case FormatMessageA WSAGetLastError of None \<Rightarrow> ''Unknown error'' | Some s \<Rightarrow> s)"

section \<open>Files\<close>

text \<open>
  The part of the file system that is used: the files' contents and which paths may be
  opened for reading and for writing. The handler of an error either throws or returns.
\<close>

record file_system =
  files :: "string \<rightharpoonup> byte_t list"
  may_read :: "string \<Rightarrow> bool"
  may_write :: "string \<Rightarrow> bool"

type_synonym IoErrorEventHandler = "string \<Rightarrow> unit result"

definition standardIoErrorEventHandler :: IoErrorEventHandler where
  "standardIoErrorEventHandler filePath = Inl (RUNTIME_ERROR ''standardIoErrorEventHandler'' (''Gicame::IO IO error on file'' @ filePath))"

definition open_in :: "string \<Rightarrow> file_system \<Rightarrow> byte_t list option" where
  "open_in p fs = (if may_read fs p then files fs p else None)"

text \<open>\<open>tellg\<close> of a stream that is not open is -1.\<close>

definition fileSize :: "string \<Rightarrow> file_system \<Rightarrow> size_t" where
  "fileSize filePath fs = (case open_in filePath fs of Some bs \<Rightarrow> of_nat (length bs) | None \<Rightarrow> - 1)"

definition readFileContent :: "IoErrorEventHandler \<Rightarrow> string \<Rightarrow> file_system \<Rightarrow> byte_t list result" where
  "readFileContent ioErrorEventHandler filePath fs = (case open_in filePath fs of
     None \<Rightarrow> bind_result (ioErrorEventHandler filePath) (\<lambda>_. Inr [])
   | Some bs \<Rightarrow> let sz = of_nat (length bs) :: size_t in Inr (take (unat sz) bs))"

text \<open>Opening for output creates or truncates the file; writing to a stream that is not
  open does nothing.\<close>

definition writeFileContent :: "IoErrorEventHandler \<Rightarrow> string \<Rightarrow> byte_t list \<Rightarrow> file_system \<Rightarrow> unit result \<times> file_system" where
  "writeFileContent ioErrorEventHandler filePath content fs =
     (if may_write fs filePath then (Inr (), fs\<lparr>files := (files fs)(filePath \<mapsto> content)\<rparr>)
      else (ioErrorEventHandler filePath, fs))"

section \<open>Properties\<close>

text \<open>libraries are held exactly as long as their handlers. Over a loader that counts
  references, a library loaded twice, even under two paths, is released once by each of the
  handlers, in either order: after the first destruction the other handler still finds
  every symbol of its library, and after both the loader's references are what they were.\<close>

theorem DynLibraryHandler_no_leak:
  assumes "loader api refs symbols" "load_library api p os = (Inr l1, os1)" "load_library api q os1 = (Inr l2, os2)"
  shows "\<exists>h2. nativeHandle l2 = Some h2 \<and>
      getSymbolAddress api n l2 (DynLibraryHandler_destroy api l1 os2) = Inr (symbols h2 n) \<and>
      refs (DynLibraryHandler_destroy api l2 (DynLibraryHandler_destroy api l1 os2)) = refs os \<and>
      refs (DynLibraryHandler_destroy api l1 (DynLibraryHandler_destroy api l2 os2)) = refs os"
proof -
  obtain h1 where h1: "nativeHandle l1 = Some h1" "refs os1 = (refs os)(h1 := refs os h1 + 1)"
    using loader.load_refs [OF assms(1,2)] .
  obtain h2 where h2: "nativeHandle l2 = Some h2" "refs os2 = (refs os1)(h2 := refs os1 h2 + 1)"
    using loader.load_refs [OF assms(1,3)] .
  have pos: "0 < refs os2 h1" "0 < refs os2 h2"
    using h1 h2 by auto
  note destroyed = loader.destroy_refs [OF assms(1)]
  note one = destroyed [OF h1(1) pos(1)] destroyed [OF h2(1) pos(2)]
  have left: "0 < refs (DynLibraryHandler_destroy api l1 os2) h2" "0 < refs (DynLibraryHandler_destroy api l2 os2) h1"
    by (simp_all add: one h1 h2)
  have "refs (DynLibraryHandler_destroy api l2 (DynLibraryHandler_destroy api l1 os2)) = refs os"
    "refs (DynLibraryHandler_destroy api l1 (DynLibraryHandler_destroy api l2 os2)) = refs os"
    by (auto simp: destroyed [OF h2(1) left(1)] destroyed [OF h1(1) left(2)] one h1 h2)
  then show ?thesis
    using h2 loader.symbol_found [OF assms(1) h2(1) left(1)] by simp
qed

theorem DynLibraryHandler_no_leak_witness:
  "\<exists>h2. nativeHandle \<lparr>nativeHandle = Some ()\<rparr> = Some h2 \<and>
      getSymbolAddress counting_loader ''f'' \<lparr>nativeHandle = Some ()\<rparr> (DynLibraryHandler_destroy counting_loader \<lparr>nativeHandle = Some ()\<rparr> 2) = Inr (Some 7)"
  using DynLibraryHandler_no_leak [OF counted.loader_axioms, of "''m''" 0 "\<lparr>nativeHandle = Some ()\<rparr>" 1 "''m''" "\<lparr>nativeHandle = Some ()\<rparr>" 2 "''f''"]
  by (simp add: load_library_def counting_loader_def)

text \<open>a file that was written reads back as the content given, whatever it held before,
  and no other file changes; when it cannot be opened for writing and the error handler returns
  instead of throwing, \<open>writeFileContent\<close> returns normally and nothing was written.\<close>

theorem file_roundtrip:
  assumes "length content < 2 ^ 64" "may_read fs p"
  shows "case writeFileContent eh p content fs of (r, fs') \<Rightarrow>
     (if may_write fs p
      then r = Inr () \<and> readFileContent eh' p fs' = Inr content \<and> fileSize p fs' = of_nat (length content)
      else r = eh p \<and> fs' = fs) \<and>
     (\<forall>q. q \<noteq> p \<longrightarrow> readFileContent eh' q fs' = readFileContent eh' q fs \<and> fileSize q fs' = fileSize q fs)"
  using assms by (auto simp: writeFileContent_def readFileContent_def open_in_def fileSize_def unat_of_nat_size Let_def)

theorem file_roundtrip_witness:
  "case writeFileContent standardIoErrorEventHandler ''a'' [1, 2, 3] \<lparr>files = [''a'' \<mapsto> [9]], may_read = (\<lambda>_. True), may_write = (\<lambda>_. True)\<rparr>
     of (r, fs') \<Rightarrow> r = Inr () \<and> readFileContent standardIoErrorEventHandler ''a'' fs' = Inr [1, 2, 3]"
  using file_roundtrip [of "[1, 2, 3]" "\<lparr>files = [''a'' \<mapsto> [9]], may_read = (\<lambda>_. True), may_write = (\<lambda>_. True)\<rparr>" "''a''"
      standardIoErrorEventHandler standardIoErrorEventHandler]
  by auto

end
