(* ===== verification/Encryption.thy ===== *)
theory Encryption
  imports SharedMemory
begin

text \<open>
  \<^verbatim>\<open>src/headers/crypto/encryption/\<close>, \<^verbatim>\<open>src/src/crypto/encryption/\<close> and
  \<^verbatim>\<open>src/src/crypto/key/SymmetricKey.cpp\<close>: symmetric keys and the block ciphers. OpenSSL is a
  parameter: a cipher context is a value of type \<open>'c\<close>, the library's heap one of type
  \<open>'o\<close>. Output goes to memory of a known extent, and writing past it is undefined behaviour.
\<close>

section \<open>Algorithms and keys\<close>

datatype EncryptionAlgorithm = AES_128_CBC | AES_256_CBC | AES_128_ECB | AES_256_ECB

fun enc_keySize :: "EncryptionAlgorithm \<Rightarrow> size_t" where
  "enc_keySize AES_128_CBC = 16"
| "enc_keySize AES_256_CBC = 32"
| "enc_keySize AES_128_ECB = 16"
| "enc_keySize AES_256_ECB = 32"

fun blockSize :: "EncryptionAlgorithm \<Rightarrow> size_t" where
  "blockSize AES_128_CBC = 16"
| "blockSize AES_256_CBC = 32"
| "blockSize AES_128_ECB = 16"
| "blockSize AES_256_ECB = 32"

definition chipertextSize :: "EncryptionAlgorithm \<Rightarrow> size_t \<Rightarrow> size_t result" where
  "chipertextSize a plaintextSize =
     (let bs = blockSize a; rem = plaintextSize mod bs;
          cts = if rem \<noteq> 0 then plaintextSize + (bs - rem) else plaintextSize in
      if plaintextSize > cts then Inl (RUNTIME_ERROR ''chipertextSize'' ''Overflow: plaintextSize too large'')
      else Inr cts)"

record SymmetricKey =
  buffPtr :: "byte_t list"
  keySize :: size_t

definition createSymmetricKey :: "byte_t list \<Rightarrow> size_t \<Rightarrow> SymmetricKey result" where
  "createSymmetricKey keyBuffer algKeySize =
     (if of_nat (length keyBuffer) < algKeySize then Inl (RUNTIME_ERROR ''createSymmetricKey'' ''keyBuffer too short'')
      else bind_result (memcpy (replicate (unat algKeySize) 0) 0 keyBuffer 0 (unat algKeySize)) (\<lambda>copy.
        Inr \<lparr>buffPtr = copy, keySize = algKeySize\<rparr>))"

definition createSymmetricKeyTakeOwnership :: "byte_t list \<Rightarrow> size_t \<Rightarrow> SymmetricKey result" where
  "createSymmetricKeyTakeOwnership keyBuffer algKeySize =
     (if of_nat (length keyBuffer) < algKeySize
      then Inl (RUNTIME_ERROR ''createSymmetricKeyTakeOwnership'' ''keyBuffer too short'')
      else Inr \<lparr>buffPtr = keyBuffer, keySize = algKeySize\<rparr>)"

text \<open>The deleter of the shared buffer: what the memory holds when it is given back.\<close>

definition key_deleter :: "SymmetricKey \<Rightarrow> byte_t list result" where
  "key_deleter k = eraseMemory (buffPtr k) 0 (unat (keySize k))"

section \<open>Cipher contexts\<close>

text \<open>An update or a final call answers the bytes it wrote, or fails, and leaves the context
  changed.\<close>

record ('c, 'o) cipher_api =
  EVP_CIPHER_CTX_new :: "'o \<Rightarrow> 'c option \<times> 'o"
  EVP_CIPHER_CTX_free :: "'c \<Rightarrow> 'o \<Rightarrow> 'o"
  EVP_EncryptInit :: "'c \<Rightarrow> EncryptionAlgorithm \<Rightarrow> byte_t list \<Rightarrow> byte_t list \<Rightarrow> 'c option"
  EVP_EncryptUpdate :: "'c \<Rightarrow> byte_t list \<Rightarrow> byte_t list option \<times> 'c"
  EVP_EncryptFinal :: "'c \<Rightarrow> byte_t list option \<times> 'c"
  EVP_DecryptInit :: "'c \<Rightarrow> EncryptionAlgorithm \<Rightarrow> byte_t list \<Rightarrow> byte_t list \<Rightarrow> 'c option"
  EVP_DecryptUpdate :: "'c \<Rightarrow> byte_t list \<Rightarrow> byte_t list option \<times> 'c"
  EVP_DecryptFinal :: "'c \<Rightarrow> byte_t list option \<times> 'c"

definition MAX_SHOT_SIZE :: nat where
  "MAX_SHOT_SIZE = 2147483647"

text \<open>The loop of both \<open>update\<close> functions. The output pointer moves on by the number of
  bytes read, not of bytes written.\<close>

function update_loop :: "('c \<Rightarrow> byte_t list \<Rightarrow> byte_t list option \<times> 'c) \<Rightarrow> string \<Rightarrow> byte_t list \<Rightarrow> nat \<Rightarrow> byte_t list \<Rightarrow> size_t \<Rightarrow> 'c
    \<Rightarrow> (size_t \<times> byte_t list) result \<times> 'c" where
  "update_loop upd msg source outPtr out shotLen c =
     (if source = [] then (Inr (shotLen, out), c)
      else case upd c (take (min MAX_SHOT_SIZE (length source)) source) of
        (None, c') \<Rightarrow> (Inl (RUNTIME_ERROR ''update'' msg), c')
      | (Some w, c') \<Rightarrow> (case memcpy_to out outPtr w of
          Inl e \<Rightarrow> (Inl e, c')
        | Inr out' \<Rightarrow> update_loop upd msg (drop (min MAX_SHOT_SIZE (length source)) source)
            (outPtr + min MAX_SHOT_SIZE (length source)) out' (shotLen + of_nat (length w)) c'))"
  by pat_completeness auto

termination update_loop
  by (relation "measure (\<lambda>(upd, msg, source, outPtr, out, shotLen, c). length source)") (auto simp: MAX_SHOT_SIZE_def)

declare update_loop.simps [simp del]

definition ctx_is_NULL :: exn where
  "ctx_is_NULL = RUNTIME_ERROR ''update'' ''ctx is NULL. finalized() already called?''"

section \<open>Encryptor\<close>

record 'c Encryptor =
  enc_key :: SymmetricKey
  enc_ctx :: "'c option"
  ciphertextLen :: size_t
  enc_algorithm :: EncryptionAlgorithm

definition Encryptor_new :: "('c, 'o) cipher_api \<Rightarrow> SymmetricKey \<Rightarrow> EncryptionAlgorithm \<Rightarrow> byte_t list \<Rightarrow> 'o \<Rightarrow> 'c Encryptor result \<times> 'o" where
  "Encryptor_new api key a iv os =
     (if enc_keySize a \<noteq> keySize key then (Inl (RUNTIME_ERROR ''Encryptor'' ''key length is not correct''), os)
      else case EVP_CIPHER_CTX_new api os of
        (None, os1) \<Rightarrow> (Inl (RUNTIME_ERROR ''Encryptor'' ''EVP_CIPHER_CTX_new() failed''), os1)
      | (Some c, os1) \<Rightarrow> (case EVP_EncryptInit api c a (buffPtr key) iv of
          None \<Rightarrow> (Inl (RUNTIME_ERROR ''Encryptor'' ''EVP_EncryptInit() failed''), EVP_CIPHER_CTX_free api c os1)
        | Some c' \<Rightarrow> (Inr \<lparr>enc_key = key, enc_ctx = Some c', ciphertextLen = 0, enc_algorithm = a\<rparr>, os1)))"

definition Encryptor_destroy :: "('c, 'o) cipher_api \<Rightarrow> 'c Encryptor \<Rightarrow> 'o \<Rightarrow> 'o" where
  "Encryptor_destroy api e os = (case enc_ctx e of Some c \<Rightarrow> EVP_CIPHER_CTX_free api c os | None \<Rightarrow> os)"

definition Encryptor_update :: "('c, 'o) cipher_api \<Rightarrow> byte_t list \<Rightarrow> byte_t list \<Rightarrow> 'c Encryptor \<Rightarrow> (size_t \<times> byte_t list) result \<times> 'c Encryptor" where
  "Encryptor_update api source out e = (case enc_ctx e of
     None \<Rightarrow> (Inl ctx_is_NULL, e)
   | Some c \<Rightarrow> (case update_loop (EVP_EncryptUpdate api) ''EVP_EncryptUpdate failed'' source 0 out 0 c of
       (Inl x, c') \<Rightarrow> (Inl x, e\<lparr>enc_ctx := Some c'\<rparr>)
     | (Inr (shotLen, out'), c') \<Rightarrow>
         (Inr (shotLen, out'), e\<lparr>enc_ctx := Some c', ciphertextLen := ciphertextLen e + shotLen\<rparr>)))"

definition resize :: "nat \<Rightarrow> byte_t list \<Rightarrow> byte_t list" where
  "resize n bs = take n bs @ replicate (n - length bs) 0"

definition Encryptor_update_vec :: "('c, 'o) cipher_api \<Rightarrow> byte_t list \<Rightarrow> 'c Encryptor \<Rightarrow> byte_t list result \<times> 'c Encryptor" where
  "Encryptor_update_vec api source e = (case Encryptor_update api source (replicate (length source) 0) e of
     (r, e') \<Rightarrow> (bind_result r (\<lambda>(shotLen, out). Inr (resize (unat shotLen) out)), e'))"

text \<open>\<open>finalize\<close> writes at the offset \<open>off\<close> of \<open>out\<close>.\<close>

definition Encryptor_finalize :: "('c, 'o) cipher_api \<Rightarrow> byte_t list \<Rightarrow> nat \<Rightarrow> 'c Encryptor \<Rightarrow> 'o
    \<Rightarrow> (size_t \<times> byte_t list) result \<times> 'c Encryptor \<times> 'o" where
  "Encryptor_finalize api out off e os = (case enc_ctx e of
     None \<Rightarrow> (Inl ctx_is_NULL, e, os)
   | Some c \<Rightarrow> (case EVP_EncryptFinal api c of
       (None, c') \<Rightarrow> (Inl (RUNTIME_ERROR ''finalize'' ''EVP_EncryptFinal failed''), e\<lparr>enc_ctx := Some c'\<rparr>, os)
     | (Some w, c') \<Rightarrow> (case memcpy_to out off w of
         Inl x \<Rightarrow> (Inl x, e\<lparr>enc_ctx := Some c'\<rparr>, os)
       | Inr out' \<Rightarrow> (Inr (of_nat (length w), out'),
           e\<lparr>enc_ctx := None, ciphertextLen := ciphertextLen e + of_nat (length w)\<rparr>, EVP_CIPHER_CTX_free api c' os))))"

definition Encryptor_finalize_vec :: "('c, 'o) cipher_api \<Rightarrow> 'c Encryptor \<Rightarrow> 'o \<Rightarrow> byte_t list result \<times> 'c Encryptor \<times> 'o" where
  "Encryptor_finalize_vec api e os =
     (case Encryptor_finalize api (replicate (unat (blockSize (enc_algorithm e))) 0) 0 e os of (r, e', os') \<Rightarrow>
       (bind_result r (\<lambda>(paddingLen, out). Inr (if length out > unat paddingLen then resize (unat paddingLen) out else out)), e', os'))"

definition getCiphertextLen :: "'c Encryptor \<Rightarrow> size_t" where
  "getCiphertextLen e = ciphertextLen e"

text \<open>The static functions: the encryptor is a local object, destroyed on every way out.\<close>

definition Encryptor_encrypt :: "('c, 'o) cipher_api \<Rightarrow> SymmetricKey \<Rightarrow> EncryptionAlgorithm \<Rightarrow> byte_t list \<Rightarrow> byte_t list \<Rightarrow> byte_t list \<Rightarrow> 'o
    \<Rightarrow> (size_t \<times> byte_t list) result \<times> 'o" where
  "Encryptor_encrypt api key a iv source dest os = (case Encryptor_new api key a iv os of
     (Inl x, os1) \<Rightarrow> (Inl x, os1)
   | (Inr e, os1) \<Rightarrow> (case Encryptor_update api source dest e of
       (Inl x, e1) \<Rightarrow> (Inl x, Encryptor_destroy api e1 os1)
     | (Inr (shotLen, dest1), e1) \<Rightarrow> (case Encryptor_finalize api dest1 (unat shotLen) e1 os1 of
         (r, e2, os2) \<Rightarrow> (bind_result r (\<lambda>(paddingLen, dest2). Inr (shotLen + paddingLen, dest2)), Encryptor_destroy api e2 os2))))"

definition Encryptor_encrypt_vec :: "('c, 'o) cipher_api \<Rightarrow> SymmetricKey \<Rightarrow> EncryptionAlgorithm \<Rightarrow> byte_t list \<Rightarrow> byte_t list \<Rightarrow> 'o
    \<Rightarrow> byte_t list result \<times> 'o" where
  "Encryptor_encrypt_vec api key a iv source os = (case Encryptor_new api key a iv os of
     (Inl x, os1) \<Rightarrow> (Inl x, os1)
   | (Inr e, os1) \<Rightarrow> (case Encryptor_update_vec api source e of
       (Inl x, e1) \<Rightarrow> (Inl x, Encryptor_destroy api e1 os1)
     | (Inr result, e1) \<Rightarrow> (case Encryptor_finalize_vec api e1 os1 of
         (r, e2, os2) \<Rightarrow> (bind_result r (\<lambda>resultFinal. Inr (result @ resultFinal)), Encryptor_destroy api e2 os2))))"

section \<open>Decryptor\<close>

record 'c Decryptor =
  dec_key :: SymmetricKey
  dec_ctx :: "'c option"
  plaintextLen :: size_t
  dec_algorithm :: EncryptionAlgorithm

definition Decryptor_new :: "('c, 'o) cipher_api \<Rightarrow> SymmetricKey \<Rightarrow> EncryptionAlgorithm \<Rightarrow> byte_t list \<Rightarrow> 'o \<Rightarrow> 'c Decryptor result \<times> 'o" where
  "Decryptor_new api key a iv os =
     (if enc_keySize a \<noteq> keySize key then (Inl (RUNTIME_ERROR ''Decryptor'' ''key length is not correct''), os)
      else case EVP_CIPHER_CTX_new api os of
        (None, os1) \<Rightarrow> (Inl (RUNTIME_ERROR ''Decryptor'' ''EVP_CIPHER_CTX_new() failed''), os1)
      | (Some c, os1) \<Rightarrow> (case EVP_DecryptInit api c a (buffPtr key) iv of
          None \<Rightarrow> (Inl (RUNTIME_ERROR ''Decryptor'' ''EVP_DecryptInit() failed''), EVP_CIPHER_CTX_free api c os1)
        | Some c' \<Rightarrow> (Inr \<lparr>dec_key = key, dec_ctx = Some c', plaintextLen = 0, dec_algorithm = a\<rparr>, os1)))"

definition Decryptor_destroy :: "('c, 'o) cipher_api \<Rightarrow> 'c Decryptor \<Rightarrow> 'o \<Rightarrow> 'o" where
  "Decryptor_destroy api d os = (case dec_ctx d of Some c \<Rightarrow> EVP_CIPHER_CTX_free api c os | None \<Rightarrow> os)"

definition Decryptor_update :: "('c, 'o) cipher_api \<Rightarrow> byte_t list \<Rightarrow> byte_t list \<Rightarrow> 'c Decryptor \<Rightarrow> (size_t \<times> byte_t list) result \<times> 'c Decryptor" where
  "Decryptor_update api source out d = (case dec_ctx d of
     None \<Rightarrow> (Inl ctx_is_NULL, d)
   | Some c \<Rightarrow> (case update_loop (EVP_DecryptUpdate api) ''EVP_DecryptUpdate failed'' source 0 out 0 c of
       (Inl x, c') \<Rightarrow> (Inl x, d\<lparr>dec_ctx := Some c'\<rparr>)
     | (Inr (shotLen, out'), c') \<Rightarrow>
         (Inr (shotLen, out'), d\<lparr>dec_ctx := Some c', plaintextLen := plaintextLen d + shotLen\<rparr>)))"

definition Decryptor_update_vec :: "('c, 'o) cipher_api \<Rightarrow> byte_t list \<Rightarrow> 'c Decryptor \<Rightarrow> byte_t list result \<times> 'c Decryptor" where
  "Decryptor_update_vec api source d =
     (let plaintext = replicate (unat (of_nat (length source) + 16 :: size_t)) 0 in
      case Decryptor_update api source plaintext d of (r, d') \<Rightarrow>
        (bind_result r (\<lambda>(len, out). Inr (if unat len < length out then resize (unat len) out else out)), d'))"

definition Decryptor_finalize :: "('c, 'o) cipher_api \<Rightarrow> byte_t list \<Rightarrow> nat \<Rightarrow> 'c Decryptor \<Rightarrow> 'o
    \<Rightarrow> (size_t \<times> byte_t list) result \<times> 'c Decryptor \<times> 'o" where
  "Decryptor_finalize api out off d os = (case dec_ctx d of
     None \<Rightarrow> (Inl ctx_is_NULL, d, os)
   | Some c \<Rightarrow> (case EVP_DecryptFinal api c of
       (None, c') \<Rightarrow> (Inl (RUNTIME_ERROR ''finalize'' ''EVP_DecryptFinal() failed''), d\<lparr>dec_ctx := Some c'\<rparr>, os)
     | (Some w, c') \<Rightarrow> (case memcpy_to out off w of
         Inl x \<Rightarrow> (Inl x, d\<lparr>dec_ctx := Some c'\<rparr>, os)
       | Inr out' \<Rightarrow> (Inr (of_nat (length w), out'),
           d\<lparr>dec_ctx := None, plaintextLen := plaintextLen d + of_nat (length w)\<rparr>, EVP_CIPHER_CTX_free api c' os))))"

definition Decryptor_finalize_vec :: "('c, 'o) cipher_api \<Rightarrow> 'c Decryptor \<Rightarrow> 'o \<Rightarrow> byte_t list result \<times> 'c Decryptor \<times> 'o" where
  "Decryptor_finalize_vec api d os =
     (case Decryptor_finalize api (replicate (unat (blockSize (dec_algorithm d))) 0) 0 d os of (r, d', os') \<Rightarrow>
       (bind_result r (\<lambda>(lastLen, out). Inr (if length out > unat lastLen then resize (unat lastLen) out else out)), d', os'))"

definition getPlaintextLen :: "'c Decryptor \<Rightarrow> size_t" where
  "getPlaintextLen d = plaintextLen d"

definition Decryptor_decrypt :: "('c, 'o) cipher_api \<Rightarrow> SymmetricKey \<Rightarrow> EncryptionAlgorithm \<Rightarrow> byte_t list \<Rightarrow> byte_t list \<Rightarrow> byte_t list \<Rightarrow> 'o
    \<Rightarrow> (size_t \<times> byte_t list) result \<times> 'o" where
  "Decryptor_decrypt api key a iv source dest os = (case Decryptor_new api key a iv os of
     (Inl x, os1) \<Rightarrow> (Inl x, os1)
   | (Inr d, os1) \<Rightarrow> (case Decryptor_update api source dest d of
       (Inl x, d1) \<Rightarrow> (Inl x, Decryptor_destroy api d1 os1)
     | (Inr (len, dest1), d1) \<Rightarrow> (case Decryptor_finalize api dest1 (unat len) d1 os1 of
         (r, d2, os2) \<Rightarrow> (bind_result r (\<lambda>(lastLen, dest2). Inr (len + lastLen, dest2)), Decryptor_destroy api d2 os2))))"

definition Decryptor_decrypt_vec :: "('c, 'o) cipher_api \<Rightarrow> SymmetricKey \<Rightarrow> EncryptionAlgorithm \<Rightarrow> byte_t list \<Rightarrow> byte_t list \<Rightarrow> 'o
    \<Rightarrow> byte_t list result \<times> 'o" where
  "Decryptor_decrypt_vec api key a iv source os =
     (case Decryptor_decrypt api key a iv source (replicate (length source) 0) os of (r, os') \<Rightarrow>
       (bind_result r (\<lambda>(len, dest). Inr (resize (unat len) dest)), os'))"

section \<open>Sizes\<close>

lemma createSymmetricKey_ok:
  assumes "createSymmetricKey keyBuffer n = Inr key" "length keyBuffer < 2 ^ 64"
  shows "keySize key = n \<and> buffPtr key = take (unat n) keyBuffer \<and> unat n \<le> length keyBuffer \<and> length (buffPtr key) = unat n"
proof -
  have "unat n \<le> length keyBuffer"
    using assms by (simp add: createSymmetricKey_def word_nat not_less split: if_splits)
  then show ?thesis
    using assms(1) by (auto simp: createSymmetricKey_def memcpy_ok blit_def split: if_splits)
qed

lemma unat_blockSize: "unat (blockSize a) = 16 \<or> unat (blockSize a) = 32"
  by (cases a) simp_all

lemma chipertextSize_value:
  assumes "length source \<le> MAX_SHOT_SIZE" "chipertextSize a (of_nat (length source)) = Inr n"
  shows "unat n = (if length source mod unat (blockSize a) = 0 then length source
      else length source + (unat (blockSize a) - length source mod unat (blockSize a)))"
proof -
  let ?l = "of_nat (length source) :: size_t" and ?b = "unat (blockSize a)"
  have l: "unat ?l = length source"
    using assms(1) by (simp add: unat_of_nat_size MAX_SHOT_SIZE_def)
  have m: "unat (?l mod blockSize a) = length source mod ?b"
    by (simp add: unat_mod l)
  have z: "?l mod blockSize a = 0 \<longleftrightarrow> length source mod ?b = 0"
    by (simp add: m flip: unat_eq_0)
  have "length source mod ?b \<le> ?b" "?b \<le> 32"
    using unat_blockSize [of a] by auto
  then have "unat (?l + (blockSize a - ?l mod blockSize a)) = length source + (?b - length source mod ?b)"
    using assms(1) by (simp add: unat_plus_lt unat_minus_le m l MAX_SHOT_SIZE_def)
  then show ?thesis
    using assms(2) l z by (auto simp: chipertextSize_def Let_def split: if_splits)
qed

section \<open>Contexts are not leaked\<close>

text \<open>The contract of the allocator, with \<open>live\<close> the number of contexts in use.\<close>

definition held :: "'c option \<Rightarrow> nat" where
  "held ctx = (case ctx of None \<Rightarrow> 0 | Some _ \<Rightarrow> 1)"

lemma held_simps [simp]: "held None = 0" "held (Some c) = 1"
  by (simp_all add: held_def)

locale evp_contexts =
  fixes api :: "('c, 'o) cipher_api" and live :: "'o \<Rightarrow> nat"
  assumes new_context: "EVP_CIPHER_CTX_new api os = (c, os') \<Longrightarrow> live os' = live os + held c"
    and free_context: "live (EVP_CIPHER_CTX_free api cx os) = live os - 1"
begin

lemma Encryptor_new_live:
  "Encryptor_new api key a iv os = (r, os') \<Longrightarrow>
    live os' = live os + (case r of Inl _ \<Rightarrow> 0 | Inr e \<Rightarrow> held (enc_ctx e)) \<and> (\<forall>e. r = Inr e \<longrightarrow> held (enc_ctx e) = 1)"
  using new_context by (auto simp: Encryptor_new_def free_context split: if_splits prod.splits option.splits)

lemma Decryptor_new_live:
  "Decryptor_new api key a iv os = (r, os') \<Longrightarrow>
    live os' = live os + (case r of Inl _ \<Rightarrow> 0 | Inr d \<Rightarrow> held (dec_ctx d)) \<and> (\<forall>d. r = Inr d \<longrightarrow> held (dec_ctx d) = 1)"
  using new_context by (auto simp: Decryptor_new_def free_context split: if_splits prod.splits option.splits)

lemma destroy_live:
  "live (Encryptor_destroy api e os) = live os - held (enc_ctx e)"
  "live (Decryptor_destroy api d os) = live os - held (dec_ctx d)"
  by (simp_all add: Encryptor_destroy_def Decryptor_destroy_def free_context split: option.splits)

lemma update_held:
  "Encryptor_update api src out e = (r, e') \<Longrightarrow> held (enc_ctx e') = held (enc_ctx e)"
  "Decryptor_update api src out d = (r', d') \<Longrightarrow> held (dec_ctx d') = held (dec_ctx d)"
  by (auto simp: Encryptor_update_def Decryptor_update_def split: option.splits prod.splits sum.splits)

lemma finalize_live:
  "Encryptor_finalize api out off e os = (r, e', os') \<Longrightarrow> held (enc_ctx e) \<le> live os \<Longrightarrow>
    live os' + held (enc_ctx e) = live os + held (enc_ctx e')"
  "Decryptor_finalize api out off d os = (r', d', os') \<Longrightarrow> held (dec_ctx d) \<le> live os \<Longrightarrow>
    live os' + held (dec_ctx d) = live os + held (dec_ctx d')"
  by (auto simp: Encryptor_finalize_def Decryptor_finalize_def free_context split: option.splits prod.splits sum.splits)

lemma encrypt_live: "live (snd (Encryptor_encrypt api key a iv src dest os)) = live os"
proof -
  obtain r os1 where new: "Encryptor_new api key a iv os = (r, os1)" by fastforce
  show ?thesis
  proof (cases r)
    case (Inl x)
    then show ?thesis using new Encryptor_new_live [OF new] by (simp add: Encryptor_encrypt_def)
  next
    case (Inr e)
    obtain u e1 where up: "Encryptor_update api src dest e = (u, e1)" by fastforce
    obtain f e2 os2 where fin: "Encryptor_finalize api (snd (projr u)) (unat (fst (projr u))) e1 os1 = (f, e2, os2)"
      by (metis prod_cases3)
    have "held (enc_ctx e1) = 1" "live os1 = live os + 1"
      using update_held(1) [OF up] Encryptor_new_live [OF new] Inr by auto
    then show ?thesis
      using new up fin Inr finalize_live(1) [OF fin]
      by (cases u) (simp_all add: Encryptor_encrypt_def destroy_live case_prod_beta)
  qed
qed

lemma encrypt_vec_live: "live (snd (Encryptor_encrypt_vec api key a iv src os)) = live os"
proof -
  obtain r os1 where new: "Encryptor_new api key a iv os = (r, os1)" by fastforce
  show ?thesis
  proof (cases r)
    case (Inl x)
    then show ?thesis using new Encryptor_new_live [OF new] by (simp add: Encryptor_encrypt_vec_def)
  next
    case (Inr e)
    obtain u e1 where up: "Encryptor_update api src (replicate (length src) 0) e = (u, e1)" by fastforce
    let ?b = "replicate (unat (blockSize (enc_algorithm e1))) 0"
    obtain f e2 os2 where fin: "Encryptor_finalize api ?b 0 e1 os1 = (f, e2, os2)"
      by (metis prod_cases3)
    have "held (enc_ctx e1) = 1" "live os1 = live os + 1"
      using update_held(1) [OF up] Encryptor_new_live [OF new] Inr by auto
    then show ?thesis
      using new up fin Inr finalize_live(1) [OF fin]
      by (cases u) (simp_all add: Encryptor_encrypt_vec_def Encryptor_update_vec_def Encryptor_finalize_vec_def destroy_live case_prod_beta)
  qed
qed

lemma decrypt_live: "live (snd (Decryptor_decrypt api key a iv src dest os)) = live os"
proof -
  obtain r os1 where new: "Decryptor_new api key a iv os = (r, os1)" by fastforce
  show ?thesis
  proof (cases r)
    case (Inl x)
    then show ?thesis using new Decryptor_new_live [OF new] by (simp add: Decryptor_decrypt_def)
  next
    case (Inr d)
    obtain u d1 where up: "Decryptor_update api src dest d = (u, d1)" by fastforce
    obtain f d2 os2 where fin: "Decryptor_finalize api (snd (projr u)) (unat (fst (projr u))) d1 os1 = (f, d2, os2)"
      by (metis prod_cases3)
    have "held (dec_ctx d1) = 1" "live os1 = live os + 1"
      using update_held(2) [OF up] Decryptor_new_live [OF new] Inr by auto
    then show ?thesis
      using new up fin Inr finalize_live(2) [OF fin]
      by (cases u) (simp_all add: Decryptor_decrypt_def destroy_live case_prod_beta)
  qed
qed

end

section \<open>The cipher\<close>

text \<open>The part of a message that fills whole blocks, and the part of a ciphertext whose
  plaintext is not held back.\<close>

definition whole :: "byte_t list \<Rightarrow> nat" where
  "whole m = 16 * (length m div 16)"

definition released :: "byte_t list \<Rightarrow> nat" where
  "released m = 16 * ((length m - 1) div 16)"

text \<open>
  The contract of the AES ciphers with padding. \<open>E\<close> is the ciphertext of a message, one
  padded block longer than its whole blocks, which depend on the message up to them only;
  \<open>R\<close> is its inverse. A context knows its direction, algorithm, key, initial vector and
  what it was fed: encrypting, it writes every block that is complete; decrypting, it
  holds the last one back for the final call, which takes the padding off.
\<close>

locale evp_cipher = evp_contexts api live
  for api :: "('c, 'o) cipher_api" and live :: "'o \<Rightarrow> nat" +
  fixes fed :: "'c \<Rightarrow> (bool \<times> EncryptionAlgorithm \<times> byte_t list \<times> byte_t list \<times> byte_t list) option"
    and E R :: "EncryptionAlgorithm \<Rightarrow> byte_t list \<Rightarrow> byte_t list \<Rightarrow> byte_t list \<Rightarrow> byte_t list"
  assumes length_E: "length (E a k iv m) = whole m + 16"
    and E_prefix: "take (whole m) (E a k iv (m @ d)) = take (whole m) (E a k iv m)"
    and R_E: "take (whole m) (R a k iv (E a k iv m)) = take (whole m) m"
    and length_R: "length (R a k iv m) = whole m"
    and new_ok: "fst (EVP_CIPHER_CTX_new api os) \<noteq> None"
    and enc_init: "length k = unat (enc_keySize a) \<Longrightarrow> length iv = 16 \<Longrightarrow>
      \<exists>c'. EVP_EncryptInit api c a k iv = Some c' \<and> fed c' = Some (True, a, k, iv, [])"
    and dec_init: "length k = unat (enc_keySize a) \<Longrightarrow> length iv = 16 \<Longrightarrow>
      \<exists>c'. EVP_DecryptInit api c a k iv = Some c' \<and> fed c' = Some (False, a, k, iv, [])"
    and enc_update: "fed c = Some (True, a, k, iv, m) \<Longrightarrow> d \<noteq> [] \<Longrightarrow> length d \<le> MAX_SHOT_SIZE \<Longrightarrow>
      \<exists>c'. EVP_EncryptUpdate api c d = (Some (drop (whole m) (take (whole (m @ d)) (E a k iv (m @ d)))), c') \<and>
        fed c' = Some (True, a, k, iv, m @ d)"
    and enc_final: "fed c = Some (True, a, k, iv, m) \<Longrightarrow> \<exists>c'. EVP_EncryptFinal api c = (Some (drop (whole m) (E a k iv m)), c')"
    and dec_update: "fed c = Some (False, a, k, iv, m) \<Longrightarrow> d \<noteq> [] \<Longrightarrow> length d \<le> MAX_SHOT_SIZE \<Longrightarrow>
      \<exists>c'. EVP_DecryptUpdate api c d = (Some (drop (released m) (take (released (m @ d)) (R a k iv (m @ d)))), c') \<and>
        fed c' = Some (False, a, k, iv, m @ d)"
    and dec_final: "fed c = Some (False, a, k, iv, E a k iv m) \<Longrightarrow>
      \<exists>c'. EVP_DecryptFinal api c = (Some (drop (whole m) m), c')"

text \<open>What a context that was fed \<open>m\<close> writes when it is fed \<open>d\<close>.\<close>

definition next_blocks :: "(EncryptionAlgorithm \<Rightarrow> byte_t list \<Rightarrow> byte_t list \<Rightarrow> byte_t list \<Rightarrow> byte_t list) \<Rightarrow>
    EncryptionAlgorithm \<Rightarrow> byte_t list \<Rightarrow> byte_t list \<Rightarrow> byte_t list \<Rightarrow> byte_t list \<Rightarrow> byte_t list" where
  "next_blocks E a k iv m d = drop (whole m) (take (whole (m @ d)) (E a k iv (m @ d)))"

text \<open>One shot of the loop.\<close>

lemma update_loop_one:
  assumes "source \<noteq> []" "length source \<le> MAX_SHOT_SIZE" "upd c source = (Some w, c')"
  shows "update_loop upd msg source 0 out 0 c =
    (if length w \<le> length out then (Inr (of_nat (length w), blit out 0 w), c')
     else (Inl (Undefined_behaviour ''memcpy: write out of bounds''), c'))"
proof -
  have "update_loop upd msg [] k out' n c' = (Inr (n, out'), c')" for k out' n
    by (simp add: update_loop.simps)
  then show ?thesis
    using assms by (subst update_loop.simps) (simp add: memcpy_to_def)
qed

lemma whole_le: "whole m \<le> length m" "length m < whole m + 16"
  by (simp_all add: whole_def)

lemma released_padded: "length c = whole m + 16 \<Longrightarrow> released c = whole m"
  by (simp add: released_def whole_def)

lemma padded_fits:
  assumes "length m mod unat (blockSize a) \<noteq> 0"
  shows "whole m + 16 \<le> length m + (unat (blockSize a) - length m mod unat (blockSize a))"
proof (rule disjE [OF unat_blockSize [of a]])
  assume b: "unat (blockSize a) = 16"
  have "length m = 16 * (length m div 16) + length m mod 16" "length m mod 16 < 16"
    by simp_all
  then show ?thesis
    unfolding b whole_def by linarith
next
  assume b: "unat (blockSize a) = 32"
  have m: "length m = 32 * (length m div 32) + length m mod 32" "length m mod 32 < 32"
    by simp_all
  then have "length m < 32 * (length m div 32) + 32"
    by linarith
  then have "length m < (2 * (length m div 32) + 2) * 16"
    by (simp add: distrib_right)
  then have "length m div 16 < 2 * (length m div 32) + 2"
    by (rule less_mult_imp_div_less)
  then show ?thesis
    unfolding b whole_def using m by linarith
qed

lemma blit_all: "length w = length buf \<Longrightarrow> blit buf 0 w = w"
  by (simp add: blit_def)

lemma resize_blit: "length w \<le> length buf \<Longrightarrow> resize (length w) (blit buf 0 w) = w"
  by (simp add: resize_def blit_def)

abbreviation OUT_OF_BOUNDS :: exn where
  "OUT_OF_BOUNDS \<equiv> Undefined_behaviour ''memcpy: write out of bounds''"

context evp_cipher
begin

lemma length_next_blocks: "length (next_blocks E a k iv m d) = whole (m @ d) - whole m"
  by (simp add: next_blocks_def length_E)

lemma Encryptor_new_ok:
  assumes "keySize key = enc_keySize a" "length (buffPtr key) = unat (keySize key)" "length iv = 16"
  obtains c os1 where "Encryptor_new api key a iv os =
      (Inr \<lparr>enc_key = key, enc_ctx = Some c, ciphertextLen = 0, enc_algorithm = a\<rparr>, os1)"
    "fed c = Some (True, a, buffPtr key, iv, [])"
proof -
  obtain c0 os1 where "EVP_CIPHER_CTX_new api os = (Some c0, os1)"
    using new_ok [of os] by (metis option.exhaust prod.collapse)
  moreover obtain c where "EVP_EncryptInit api c0 a (buffPtr key) iv = Some c" "fed c = Some (True, a, buffPtr key, iv, [])"
    using enc_init [of "buffPtr key" a iv c0] assms by auto
  ultimately show thesis
    using assms(1) that by (simp add: Encryptor_new_def)
qed

lemma Decryptor_new_ok:
  assumes "keySize key = enc_keySize a" "length (buffPtr key) = unat (keySize key)" "length iv = 16"
  obtains c os1 where "Decryptor_new api key a iv os =
      (Inr \<lparr>dec_key = key, dec_ctx = Some c, plaintextLen = 0, dec_algorithm = a\<rparr>, os1)"
    "fed c = Some (False, a, buffPtr key, iv, [])"
proof -
  obtain c0 os1 where "EVP_CIPHER_CTX_new api os = (Some c0, os1)"
    using new_ok [of os] by (metis option.exhaust prod.collapse)
  moreover obtain c where "EVP_DecryptInit api c0 a (buffPtr key) iv = Some c" "fed c = Some (False, a, buffPtr key, iv, [])"
    using dec_init [of "buffPtr key" a iv c0] assms by auto
  ultimately show thesis
    using assms(1) that by (simp add: Decryptor_new_def)
qed

lemma Encryptor_update_ok:
  assumes "enc_ctx e = Some c" "fed c = Some (True, a, k, iv, m)" "length d \<le> MAX_SHOT_SIZE"
  obtains c' where "fed c' = Some (True, a, k, iv, m @ d)"
    "Encryptor_update api d out e =
      (if whole (m @ d) - whole m \<le> length out
       then (Inr (of_nat (whole (m @ d) - whole m), blit out 0 (next_blocks E a k iv m d)),
         e\<lparr>enc_ctx := Some c', ciphertextLen := ciphertextLen e + of_nat (whole (m @ d) - whole m)\<rparr>)
       else (Inl OUT_OF_BOUNDS, e\<lparr>enc_ctx := Some c'\<rparr>))"
proof (cases "d = []")
  case True
  have none: "next_blocks E a k iv m [] = []"
    using length_next_blocks [of a k iv m "[]"] by simp
  have "Encryptor_update api d out e = (Inr (0, out), e\<lparr>enc_ctx := Some c\<rparr>)"
    using assms(1) True by (simp add: Encryptor_update_def update_loop.simps)
  then show thesis
    using that [of c] assms True by (simp add: none blit_def)
next
  case False
  obtain c' where c': "EVP_EncryptUpdate api c d = (Some (next_blocks E a k iv m d), c')" "fed c' = Some (True, a, k, iv, m @ d)"
    using enc_update [OF assms(2) False assms(3)] by (auto simp: next_blocks_def)
  show thesis
    using that [OF c'(2)] assms(1)
    by (simp add: Encryptor_update_def update_loop_one [where upd = "EVP_EncryptUpdate api", OF False assms(3) c'(1)] length_next_blocks)
qed

lemma Encryptor_finalize_ok:
  assumes "enc_ctx e = Some c" "fed c = Some (True, a, k, iv, m)"
  obtains c' where "Encryptor_finalize api out off e os =
      (if off + 16 \<le> length out
       then (Inr (16, blit out off (drop (whole m) (E a k iv m))),
         e\<lparr>enc_ctx := None, ciphertextLen := ciphertextLen e + 16\<rparr>, EVP_CIPHER_CTX_free api c' os)
       else (Inl OUT_OF_BOUNDS, e\<lparr>enc_ctx := Some c'\<rparr>, os))"
proof -
  obtain c' where "EVP_EncryptFinal api c = (Some (drop (whole m) (E a k iv m)), c')"
    using enc_final [OF assms(2)] by blast
  then show thesis
    using that [of c'] assms(1) by (simp add: Encryptor_finalize_def memcpy_to_def length_E)
qed

lemma Encryptor_finalize_fst:
  assumes "enc_ctx e = Some c" "fed c = Some (True, a, k, iv, m)"
  shows "fst (Encryptor_finalize api out off e os) =
    (if off + 16 \<le> length out then Inr (16, blit out off (drop (whole m) (E a k iv m))) else Inl OUT_OF_BOUNDS)"
  by (rule Encryptor_finalize_ok [OF assms, of out off os]) simp

lemma Encryptor_update_vec_ok:
  assumes "enc_ctx e = Some c" "fed c = Some (True, a, k, iv, m)" "length d \<le> MAX_SHOT_SIZE"
  obtains c' n where "fed c' = Some (True, a, k, iv, m @ d)"
    "Encryptor_update_vec api d e =
      (if whole (m @ d) - whole m \<le> length d
       then (Inr (next_blocks E a k iv m d), e\<lparr>enc_ctx := Some c', ciphertextLen := n\<rparr>)
       else (Inl OUT_OF_BOUNDS, e\<lparr>enc_ctx := Some c'\<rparr>))"
proof -
  obtain c' where c': "fed c' = Some (True, a, k, iv, m @ d)" "Encryptor_update api d (replicate (length d) 0) e =
      (if whole (m @ d) - whole m \<le> length d
       then (Inr (of_nat (whole (m @ d) - whole m), blit (replicate (length d) 0) 0 (next_blocks E a k iv m d)),
         e\<lparr>enc_ctx := Some c', ciphertextLen := ciphertextLen e + of_nat (whole (m @ d) - whole m)\<rparr>)
       else (Inl OUT_OF_BOUNDS, e\<lparr>enc_ctx := Some c'\<rparr>))"
    using Encryptor_update_ok [OF assms, of "replicate (length d) 0"] by auto
  show thesis
  proof (cases "whole (m @ d) - whole m \<le> length d")
    case True
    then have "unat (of_nat (whole (m @ d) - whole m) :: size_t) = length (next_blocks E a k iv m d)"
      using assms(3) by (simp add: length_next_blocks unat_of_nat_size MAX_SHOT_SIZE_def)
    then show thesis
      using that [OF c'(1)] c'(2) True resize_blit [of "next_blocks E a k iv m d" "replicate (length d) 0"]
      by (simp add: Encryptor_update_vec_def length_next_blocks)
  next
    case False
    then show thesis
      using that [OF c'(1)] c'(2) by (simp add: Encryptor_update_vec_def)
  qed
qed

lemma Encryptor_finalize_vec_ok:
  assumes "enc_ctx e = Some c" "fed c = Some (True, a, k, iv, m)"
  obtains e' os' where "Encryptor_finalize_vec api e os = (Inr (drop (whole m) (E a k iv m)), e', os')"
proof -
  let ?b = "replicate (unat (blockSize (enc_algorithm e))) (0 :: byte_t)"
  have b: "16 \<le> length ?b"
    by (cases "enc_algorithm e") simp_all
  obtain c' where "Encryptor_finalize api ?b 0 e os =
      (Inr (16, blit ?b 0 (drop (whole m) (E a k iv m))),
         e\<lparr>enc_ctx := None, ciphertextLen := ciphertextLen e + 16\<rparr>, EVP_CIPHER_CTX_free api c' os)"
    using Encryptor_finalize_ok [OF assms, of ?b 0 os] b by (metis add_0)
  moreover have "length (drop (whole m) (E a k iv m)) = 16"
    by (simp add: length_E)
  ultimately show thesis
    using that b resize_blit [of "drop (whole m) (E a k iv m)" ?b] blit_all [of "drop (whole m) (E a k iv m)" ?b]
    by (auto simp: Encryptor_finalize_vec_def)
qed

lemma encrypt_vec_ok:
  assumes "keySize key = enc_keySize a" "length (buffPtr key) = unat (keySize key)" "length iv = 16" "length d \<le> MAX_SHOT_SIZE"
  obtains os' where "Encryptor_encrypt_vec api key a iv d os = (Inr (E a (buffPtr key) iv d), os')"
proof -
  obtain c os1 where new: "Encryptor_new api key a iv os =
      (Inr \<lparr>enc_key = key, enc_ctx = Some c, ciphertextLen = 0, enc_algorithm = a\<rparr>, os1)" "fed c = Some (True, a, buffPtr key, iv, [])"
    using Encryptor_new_ok [OF assms(1-3)] .
  let ?e = "\<lparr>enc_key = key, enc_ctx = Some c, ciphertextLen = 0, enc_algorithm = a\<rparr>"
  have "whole ([] @ d) - whole [] \<le> length d"
    using whole_le(1) [of d] by simp
  then obtain c' n where up: "fed c' = Some (True, a, buffPtr key, iv, d)"
    "Encryptor_update_vec api d ?e = (Inr (next_blocks E a (buffPtr key) iv [] d), ?e\<lparr>enc_ctx := Some c', ciphertextLen := n\<rparr>)"
    using Encryptor_update_vec_ok [of ?e c, OF _ new(2) assms(4)] by auto
  obtain e2 os2 where fin: "Encryptor_finalize_vec api (?e\<lparr>enc_ctx := Some c', ciphertextLen := n\<rparr>) os1 =
      (Inr (drop (whole d) (E a (buffPtr key) iv d)), e2, os2)"
    using Encryptor_finalize_vec_ok [of "?e\<lparr>enc_ctx := Some c', ciphertextLen := n\<rparr>" c', OF _ up(1)] by auto
  have "next_blocks E a (buffPtr key) iv [] d @ drop (whole d) (E a (buffPtr key) iv d) = E a (buffPtr key) iv d"
    by (simp add: next_blocks_def whole_def [of "[]"])
  then show thesis
    using that new(1) up(2) fin by (simp add: Encryptor_encrypt_vec_def)
qed

lemma decrypt_vec_ok:
  assumes "keySize key = enc_keySize a" "length (buffPtr key) = unat (keySize key)" "length iv = 16"
    "length m + 16 \<le> MAX_SHOT_SIZE"
  obtains os' where "Decryptor_decrypt_vec api key a iv (E a (buffPtr key) iv m) os = (Inr m, os')"
proof -
  let ?k = "buffPtr key" and ?c = "E a (buffPtr key) iv m"
  let ?u = "take (whole m) m" and ?z = "replicate (length ?c) (0 :: byte_t)"
  obtain c os1 where new: "Decryptor_new api key a iv os =
      (Inr \<lparr>dec_key = key, dec_ctx = Some c, plaintextLen = 0, dec_algorithm = a\<rparr>, os1)" "fed c = Some (False, a, ?k, iv, [])"
    using Decryptor_new_ok [OF assms(1-3)] .
  let ?d = "\<lparr>dec_key = key, dec_ctx = Some c, plaintextLen = 0, dec_algorithm = a\<rparr>"
  have lc: "length ?c = whole m + 16" "?c \<noteq> []" "length ?c \<le> MAX_SHOT_SIZE"
    using length_E [of a ?k iv m] assms(4) whole_le(1) [of m] by auto
  have "drop (released []) (take (released ([] @ ?c)) (R a ?k iv ([] @ ?c))) = ?u"
    using released_padded [OF lc(1)] R_E by (simp add: released_def [of "[]"])
  then obtain c' where c': "EVP_DecryptUpdate api c ?c = (Some ?u, c')" "fed c' = Some (False, a, ?k, iv, ?c)"
    using dec_update [OF new(2) lc(2,3)] by auto
  obtain c2 where c2: "EVP_DecryptFinal api c' = (Some (drop (whole m) m), c2)"
    using dec_final [OF c'(2)] by blast
  have lu: "length ?u = whole m" "length m \<le> length ?c"
    using whole_le [of m] lc(1) by auto
  have u: "unat (of_nat (whole m) :: size_t) = whole m" "unat (of_nat (whole m) + of_nat (length m - whole m) :: size_t) = length m"
    using whole_le(1) [of m] assms(4) by (simp_all add: unat_of_nat_size MAX_SHOT_SIZE_def flip: of_nat_add)
  have "Decryptor_update api ?c ?z ?d = (Inr (of_nat (whole m), blit ?z 0 ?u), ?d\<lparr>dec_ctx := Some c', plaintextLen := of_nat (whole m)\<rparr>)"
    using lu(1) lc(1) by (simp add: Decryptor_update_def update_loop_one [where upd = "EVP_DecryptUpdate api", OF lc(2,3) c'(1)])
  moreover have "blit (blit ?z 0 ?u) (whole m) (drop (whole m) m) = blit ?z 0 m"
    using blit_append [of 0 ?u "drop (whole m) m" ?z] lu by simp
  ultimately have "fst (Decryptor_decrypt api key a iv ?c ?z os) =
      Inr (of_nat (whole m) + of_nat (length m - whole m), blit ?z 0 m)"
    using lu whole_le [of m] by (simp add: Decryptor_decrypt_def new(1) Decryptor_finalize_def c2 u memcpy_to_def lc(1) case_prod_beta)
  then show thesis
    using that resize_blit [of m ?z] lu(2) u(2)
    by (auto simp: Decryptor_decrypt_vec_def case_prod_beta)
qed

lemma encrypt_ok:
  assumes "keySize key = enc_keySize a" "length (buffPtr key) = unat (keySize key)" "length iv = 16" "length d \<le> MAX_SHOT_SIZE"
    "whole d \<le> length dest"
  shows "fst (Encryptor_encrypt api key a iv d dest os) =
    (if whole d + 16 \<le> length dest then Inr (of_nat (whole d + 16), blit dest 0 (E a (buffPtr key) iv d)) else Inl OUT_OF_BOUNDS)"
proof -
  let ?k = "buffPtr key" and ?w = "next_blocks E a (buffPtr key) iv [] d"
  obtain c os1 where new: "Encryptor_new api key a iv os =
      (Inr \<lparr>enc_key = key, enc_ctx = Some c, ciphertextLen = 0, enc_algorithm = a\<rparr>, os1)" "fed c = Some (True, a, ?k, iv, [])"
    using Encryptor_new_ok [OF assms(1-3)] .
  let ?e = "\<lparr>enc_key = key, enc_ctx = Some c, ciphertextLen = 0, enc_algorithm = a\<rparr>"
  have w0: "whole [] = 0"
    by (simp add: whole_def)
  obtain c' where up: "fed c' = Some (True, a, ?k, iv, d)"
    "Encryptor_update api d dest ?e = (Inr (of_nat (whole d), blit dest 0 ?w), ?e\<lparr>enc_ctx := Some c', ciphertextLen := of_nat (whole d)\<rparr>)"
    using Encryptor_update_ok [of ?e c, OF _ new(2) assms(4), of dest] assms(5) by (auto simp: w0)
  have u: "unat (of_nat (whole d) :: size_t) = whole d"
    using whole_le(1) [of d] assms(4) by (simp add: unat_of_nat_size MAX_SHOT_SIZE_def)
  have lw: "length ?w = whole d" "?w @ drop (whole d) (E a ?k iv d) = E a ?k iv d"
    by (simp_all add: w0 next_blocks_def length_E)
  have fin: "fst (Encryptor_finalize api (blit dest 0 ?w) (whole d) (?e\<lparr>enc_ctx := Some c', ciphertextLen := of_nat (whole d)\<rparr>) os1) =
      (if whole d + 16 \<le> length (blit dest 0 ?w) then Inr (16, blit (blit dest 0 ?w) (whole d) (drop (whole d) (E a ?k iv d)))
       else Inl OUT_OF_BOUNDS)"
    by (rule Encryptor_finalize_fst [OF _ up(1)]) simp
  have "blit (blit dest 0 ?w) (whole d) (drop (whole d) (E a ?k iv d)) = blit dest 0 (E a ?k iv d)" if "whole d + 16 \<le> length dest"
    using blit_append [of 0 ?w "drop (whole d) (E a ?k iv d)" dest] that lw by (simp add: length_E)
  then show ?thesis
    using new(1) up(2) fin lw(1) assms(5) by (simp add: Encryptor_encrypt_def u case_prod_beta)
qed

end

section \<open>A cipher that only pads\<close>

text \<open>The instance the contracts are checked on: every block encrypts to itself, the padding
  is that of the standard, and the heap counts the contexts.\<close>

definition pad :: "byte_t list \<Rightarrow> byte_t list" where
  "pad m = m @ replicate (16 - length m mod 16) (of_nat (16 - length m mod 16))"

type_synonym pad_ctx = "(bool \<times> EncryptionAlgorithm \<times> byte_t list \<times> byte_t list \<times> byte_t list) option"

definition feed :: "byte_t list \<Rightarrow> pad_ctx \<Rightarrow> pad_ctx" where
  "feed d c = map_option (\<lambda>(dir, a, k, iv, m). (dir, a, k, iv, m @ d)) c"

definition fed_bytes :: "pad_ctx \<Rightarrow> byte_t list" where
  "fed_bytes c = (case c of None \<Rightarrow> [] | Some (dir, a, k, iv, m) \<Rightarrow> m)"

definition unpad :: "byte_t list \<Rightarrow> byte_t list" where
  "unpad m = take (length m - unat (last m)) m"

definition padding_cipher :: "(pad_ctx, nat) cipher_api" where
  "padding_cipher =
     \<lparr>EVP_CIPHER_CTX_new = (\<lambda>os. (Some None, os + 1)),
      EVP_CIPHER_CTX_free = (\<lambda>c os. os - 1),
      EVP_EncryptInit = (\<lambda>c a k iv. Some (Some (True, a, k, iv, []))),
      EVP_EncryptUpdate = (\<lambda>c d. let m = fed_bytes c in (Some (drop (whole m) (take (whole (m @ d)) (m @ d))), feed d c)),
      EVP_EncryptFinal = (\<lambda>c. let m = fed_bytes c in (Some (drop (whole m) (pad m)), c)),
      EVP_DecryptInit = (\<lambda>c a k iv. Some (Some (False, a, k, iv, []))),
      EVP_DecryptUpdate = (\<lambda>c d. let m = fed_bytes c in (Some (drop (released m) (take (released (m @ d)) (m @ d))), feed d c)),
      EVP_DecryptFinal = (\<lambda>c. let m = fed_bytes c in (Some (drop (released m) (unpad m)), c))\<rparr>"

lemma length_pad: "length (pad m) = whole m + 16"
  by (simp add: pad_def whole_def) presburger

lemma whole_pad: "whole (pad m) = whole m + 16"
  by (simp add: whole_def [of "pad m"] length_pad) (simp add: whole_def)

lemma take_pad: "k \<le> length m \<Longrightarrow> take k (pad m) = take k m"
  by (simp add: pad_def)

lemma unpad_pad: "unpad (pad m) = m"
proof -
  have "unat (of_nat (16 - length m mod 16) :: byte_t) = 16 - length m mod 16"
    by (subst unat_of_nat) (simp del: of_nat_diff)
  moreover have "last (pad m) = of_nat (16 - length m mod 16)"
    by (simp add: pad_def)
  ultimately show ?thesis
    by (simp add: unpad_def) (simp add: pad_def)
qed

lemma whole_append_le: "whole m \<le> whole (m @ d)"
  by (simp add: whole_def div_le_mono)

lemma released_le: "released m \<le> whole m"
  by (simp add: released_def whole_def div_le_mono)

interpretation padding: evp_cipher padding_cipher "\<lambda>os. os" "\<lambda>c. c" "\<lambda>a k iv. pad" "\<lambda>a k iv m. take (whole m) m"
proof (unfold_locales, goal_cases)
  case (4 m a k iv d)
  then show ?case
    using whole_le(1) [of m] by (simp add: take_pad)
next
  case (5 m a k iv)
  then show ?case
    using whole_le(1) [of m] whole_pad [of m] by (simp add: take_pad min_def)
next
  case (6 a k iv m)
  then show ?case
    using whole_le(1) [of m] by simp
next
  case (10 c a k iv m d)
  then show ?case
    using whole_le(1) [of "m @ d"] by (simp add: padding_cipher_def fed_bytes_def feed_def take_pad)
next
  case (12 c a k iv m d)
  then show ?case
    using released_le [of "m @ d"] by (simp add: padding_cipher_def fed_bytes_def feed_def min_def)
next
  case (13 c a k iv m)
  then show ?case
    using released_padded [OF length_pad] by (simp add: padding_cipher_def fed_bytes_def unpad_pad)
qed (use whole_le in \<open>auto simp: padding_cipher_def length_pad take_pad fed_bytes_def whole_append_le min_def\<close>)

section \<open>Properties\<close>

text \<open>no cipher context is leaked and none is freed twice. Whatever OpenSSL's cipher
  functions answer, failures included, each of the four static functions gives back on
  every way out exactly the contexts it took: the number in use is what it was before.\<close>

theorem cipher_contexts_balanced:
  assumes "evp_contexts api live"
  shows "live (snd (Encryptor_encrypt api key a iv source dest os)) = live os \<and>
    live (snd (Encryptor_encrypt_vec api key a iv source os)) = live os \<and>
    live (snd (Decryptor_decrypt api key a iv source dest os)) = live os \<and>
    live (snd (Decryptor_decrypt_vec api key a iv source os)) = live os"
  using evp_contexts.encrypt_live [OF assms] evp_contexts.encrypt_vec_live [OF assms] evp_contexts.decrypt_live [OF assms]
  by (simp add: Decryptor_decrypt_vec_def case_prod_beta)

theorem cipher_contexts_balanced_witness:
  "snd (Encryptor_encrypt_vec padding_cipher \<lparr>buffPtr = replicate 16 7, keySize = 16\<rparr> AES_128_ECB (replicate 16 0) [1, 2, 3] 5) = 5 \<and>
   snd (Encryptor_encrypt padding_cipher \<lparr>buffPtr = replicate 16 7, keySize = 16\<rparr> AES_128_ECB (replicate 16 0) [1, 2, 3] [] 5) = 5"
  using cipher_contexts_balanced [OF padding.evp_contexts_axioms] by blast

text \<open>C24: what was encrypted decrypts to itself. Over AES as OpenSSL documents it, with a
  key of the algorithm's size and a message of less than 2 GiB, the one-shot \<open>encrypt\<close> returns a
  ciphertext of the whole blocks and one padding block, without writing past any buffer,
  and the one-shot \<open>decrypt\<close> of it returns the message.\<close>

theorem encrypt_decrypt_roundtrip:
  assumes "evp_cipher api live fed E R" "createSymmetricKey keyBuffer (enc_keySize a) = Inr key" "length iv = 16"
    "length keyBuffer < 2 ^ 64" "length source + 16 \<le> MAX_SHOT_SIZE"
  shows "\<exists>ct os1 os2. Encryptor_encrypt_vec api key a iv source os = (Inr ct, os1) \<and>
    length ct = 16 * (length source div 16) + 16 \<and> Decryptor_decrypt_vec api key a iv ct os1 = (Inr source, os2)"
proof -
  have key: "keySize key = enc_keySize a" "length (buffPtr key) = unat (keySize key)"
    using createSymmetricKey_ok [OF assms(2,4)] by simp_all
  obtain os1 where "Encryptor_encrypt_vec api key a iv source os = (Inr (E a (buffPtr key) iv source), os1)"
    using evp_cipher.encrypt_vec_ok [OF assms(1) key assms(3)] assms(5) by (metis add_leD1)
  moreover obtain os2 where "Decryptor_decrypt_vec api key a iv (E a (buffPtr key) iv source) os1 = (Inr source, os2)"
    using evp_cipher.decrypt_vec_ok [OF assms(1) key assms(3,5)] by metis
  ultimately show ?thesis
    using evp_cipher.length_E [OF assms(1)] by (auto simp: whole_def)
qed

theorem encrypt_decrypt_roundtrip_witness:
  "\<exists>ct os1 os2. Encryptor_encrypt_vec padding_cipher \<lparr>buffPtr = replicate 32 7, keySize = 32\<rparr> AES_256_CBC (replicate 16 0) [1, 2, 3] 0 = (Inr ct, os1) \<and>
    length ct = 16 * (length [1 :: byte_t, 2, 3] div 16) + 16 \<and>
    Decryptor_decrypt_vec padding_cipher \<lparr>buffPtr = replicate 32 7, keySize = 32\<rparr> AES_256_CBC (replicate 16 0) ct os1 = (Inr [1, 2, 3], os2)"
  by (rule encrypt_decrypt_roundtrip [OF padding.evp_cipher_axioms, where keyBuffer = "replicate 40 7"])
    (simp_all add: createSymmetricKey_def memcpy_def memcpy_from_def memcpy_to_def blit_def MAX_SHOT_SIZE_def)

text \<open>\<open>chipertextSize\<close> is too small exactly for the messages that end on a block.
  Encrypting into memory of the size it computes writes past its end if and only if the length
  of the message is a multiple of \<open>blockSize\<close>, where a whole block of padding is added;
  otherwise the ciphertext and its length are the right ones.\<close>

theorem chipertextSize_too_small:
  assumes "evp_cipher api live fed E R" "keySize key = enc_keySize a" "length (buffPtr key) = unat (keySize key)" "length iv = 16"
    "length source \<le> MAX_SHOT_SIZE" "chipertextSize a (of_nat (length source)) = Inr n" "length dest = unat n"
  shows "fst (Encryptor_encrypt api key a iv source dest os) =
    (if length source mod unat (blockSize a) = 0 then Inl (Undefined_behaviour ''memcpy: write out of bounds'')
     else Inr (of_nat (whole source + 16), blit dest 0 (E a (buffPtr key) iv source)))"
proof -
  have n: "unat n = (if length source mod unat (blockSize a) = 0 then length source
      else length source + (unat (blockSize a) - length source mod unat (blockSize a)))"
    by (rule chipertextSize_value [OF assms(5,6)])
  then have "whole source \<le> length dest" "whole source + 16 \<le> length dest \<longleftrightarrow> length source mod unat (blockSize a) \<noteq> 0"
    using assms(7) padded_fits [of source a] whole_le [of source] by auto
  then show ?thesis
    using evp_cipher.encrypt_ok [OF assms(1-5), of dest os] by auto
qed

theorem chipertextSize_too_small_witness:
  "fst (Encryptor_encrypt padding_cipher \<lparr>buffPtr = replicate 16 7, keySize = 16\<rparr> AES_128_CBC (replicate 16 0) (replicate 16 1)
     (replicate 16 0) 0) = Inl (Undefined_behaviour ''memcpy: write out of bounds'')"
  using chipertextSize_too_small [OF padding.evp_cipher_axioms, of "\<lparr>buffPtr = replicate 16 7, keySize = 16\<rparr>" AES_128_CBC
      "replicate 16 0" "replicate 16 1" 16 "replicate 16 0" 0]
  by (simp add: chipertextSize_def MAX_SHOT_SIZE_def Let_def)

text \<open>the \<open>update\<close> that returns a vector overflows it when an earlier call left a partial
  block. Its vector is as long as the input; the blocks that become complete are written,
  and they fit if and only if what was left over from before plus the input has no more than
  the input's length in whole blocks. When they fit, exactly the next part of the ciphertext
  is returned.\<close>

theorem Encryptor_update_vec_exact:
  assumes "evp_cipher api live fed E R" "enc_ctx e = Some c" "fed c = Some (True, a, k, iv, m)" "length d \<le> MAX_SHOT_SIZE"
  shows "fst (Encryptor_update_vec api d e) =
    (if 16 * ((length m mod 16 + length d) div 16) \<le> length d then Inr (next_blocks E a k iv m d)
     else Inl (Undefined_behaviour ''memcpy: write out of bounds''))"
proof -
  have "(16 * (length m div 16) + (length m mod 16 + length d)) div 16 = length m div 16 + (length m mod 16 + length d) div 16"
    by (simp only: div_mult_self4)
  then have "whole (m @ d) - whole m = 16 * ((length m mod 16 + length d) div 16)"
    by (simp add: whole_def)
  moreover have "fst (Encryptor_update_vec api d e) =
      (if whole (m @ d) - whole m \<le> length d then Inr (next_blocks E a k iv m d) else Inl OUT_OF_BOUNDS)"
    by (rule evp_cipher.Encryptor_update_vec_ok [OF assms]) simp
  ultimately show ?thesis
    by simp
qed

theorem Encryptor_update_vec_exact_witness:
  "fst (Encryptor_update_vec padding_cipher [7] \<lparr>enc_key = \<lparr>buffPtr = replicate 16 7, keySize = 16\<rparr>,
      enc_ctx = Some (Some (True, AES_128_CBC, replicate 16 7, replicate 16 0, replicate 15 1)), ciphertextLen = 0,
      enc_algorithm = AES_128_CBC\<rparr>) = Inl (Undefined_behaviour ''memcpy: write out of bounds'')"
  using Encryptor_update_vec_exact [OF padding.evp_cipher_axioms, of _ _ AES_128_CBC "replicate 16 7" "replicate 16 0" "replicate 15 1" "[7]"]
  by (simp add: MAX_SHOT_SIZE_def)

end
