(* ===== verification/Digests.thy ===== *)
theory Digests
  imports Encryption Numbers LittleEndian
begin

text \<open>
  \<^verbatim>\<open>src/headers/crypto/hash/\<close>, \<^verbatim>\<open>src/src/crypto/hash/\<close> and
  \<^verbatim>\<open>src/src/crypto/random/Random.cpp\<close>: digests, keyed digests and random bytes, over OpenSSL's
  contexts as parameters.
\<close>

section \<open>Algorithms\<close>

datatype HashAlgorithm = MD5 | SHA1 | SHA224 | SHA256 | SHA384 | SHA512 | RIPEMD160

fun hashSize :: "HashAlgorithm \<Rightarrow> size_t" where
  "hashSize MD5 = 16"
| "hashSize SHA1 = 20"
| "hashSize SHA224 = 28"
| "hashSize SHA256 = 32"
| "hashSize SHA384 = 48"
| "hashSize SHA512 = 64"
| "hashSize RIPEMD160 = 20"

definition hash_keySize :: "HashAlgorithm \<Rightarrow> size_t" where
  "hash_keySize a = hashSize a"

section \<open>Contexts\<close>

record ('c, 'o) digest_api =
  EVP_MD_CTX_create :: "'o \<Rightarrow> 'c option \<times> 'o"
  EVP_MD_CTX_destroy :: "'c \<Rightarrow> 'o \<Rightarrow> 'o"
  EVP_DigestInit_ex :: "'c \<Rightarrow> HashAlgorithm \<Rightarrow> bool \<times> 'c"
  EVP_DigestUpdate :: "'c \<Rightarrow> byte_t list \<Rightarrow> bool \<times> 'c"
  EVP_DigestFinal_ex :: "'c \<Rightarrow> byte_t list option \<times> 'c"

record ('c, 'o) hmac_api =
  HMAC_CTX_new :: "'o \<Rightarrow> 'c option \<times> 'o"
  HMAC_CTX_free :: "'c \<Rightarrow> 'o \<Rightarrow> 'o"
  HMAC_Init_ex :: "'c \<Rightarrow> byte_t list \<Rightarrow> HashAlgorithm \<Rightarrow> bool \<times> 'c"
  HMAC_Update :: "'c \<Rightarrow> byte_t list \<Rightarrow> bool \<times> 'c"
  HMAC_Final :: "'c \<Rightarrow> byte_t list option \<times> 'c"

section \<open>HashCalculator\<close>

text \<open>\<open>hash\<close> into memory, then into a vector.\<close>

definition HashCalculator_hash :: "('c, 'o) digest_api \<Rightarrow> HashAlgorithm \<Rightarrow> byte_t list \<Rightarrow> byte_t list \<Rightarrow> 'o \<Rightarrow> (size_t \<times> byte_t list) result \<times> 'o" where
  "HashCalculator_hash api a source out os = (case EVP_MD_CTX_create api os of
     (None, os1) \<Rightarrow> (Inl (RUNTIME_ERROR ''hash'' ''failed EVP_MD_CTX_create()''), os1)
   | (Some c, os1) \<Rightarrow> (case EVP_DigestInit_ex api c a of (ok, c1) \<Rightarrow>
       if \<not> ok then (Inl (RUNTIME_ERROR ''hash'' ''failed EVP_DigestInit_ex()''), EVP_MD_CTX_destroy api c1 os1)
       else case EVP_DigestUpdate api c1 source of (ok, c2) \<Rightarrow>
         if \<not> ok then (Inl (RUNTIME_ERROR ''hash'' ''failed EVP_DigestUpdate()''), EVP_MD_CTX_destroy api c2 os1)
         else case EVP_DigestFinal_ex api c2 of
           (None, c3) \<Rightarrow> (Inl (RUNTIME_ERROR ''hash'' ''failed EVP_DigestFinal_ex()''), EVP_MD_CTX_destroy api c3 os1)
         | (Some w, c3) \<Rightarrow> (case memcpy_to out 0 w of
             Inl e \<Rightarrow> (Inl e, os1)
           | Inr out' \<Rightarrow> (Inr (of_nat (length w), out'), EVP_MD_CTX_destroy api c3 os1))))"

definition HashCalculator_hash_vec :: "('c, 'o) digest_api \<Rightarrow> HashAlgorithm \<Rightarrow> byte_t list \<Rightarrow> 'o \<Rightarrow> byte_t list result \<times> 'o" where
  "HashCalculator_hash_vec api a source os =
     (case HashCalculator_hash api a source (replicate (unat (hashSize a)) 0) os of (r, os') \<Rightarrow>
       (bind_result r (\<lambda>(n, digest). Inr digest), os'))"

section \<open>HmacCalculator\<close>

record 'c HmacCalculator =
  hmac_key :: SymmetricKey
  hmac_hashAlgorithm :: HashAlgorithm
  hmac_ctx :: "'c option"

definition HmacCalculator_new :: "('c, 'o) hmac_api \<Rightarrow> SymmetricKey \<Rightarrow> HashAlgorithm \<Rightarrow> 'o \<Rightarrow> 'c HmacCalculator result \<times> 'o" where
  "HmacCalculator_new api key a os =
     (if hash_keySize a \<noteq> keySize key
      then (Inl (RUNTIME_ERROR ''HmacCalculator'' ''Key length is not correct for this hashAlgorithm''), os)
      else case HMAC_CTX_new api os of
        (None, os1) \<Rightarrow> (Inl (RUNTIME_ERROR ''HmacCalculator'' ''Failed HMAC_CTX_new()''), os1)
      | (Some c, os1) \<Rightarrow> (case safeNumericCast INT32 SIZE_T (uint (keySize key)) of
          Inl e \<Rightarrow> (Inl e, os1)
        | Inr keyLen \<Rightarrow> (case HMAC_Init_ex api c (take (nat keyLen) (buffPtr key)) a of (ok, c') \<Rightarrow>
            if ok then (Inr \<lparr>hmac_key = key, hmac_hashAlgorithm = a, hmac_ctx = Some c'\<rparr>, os1)
            else (Inl (RUNTIME_ERROR ''HmacCalculator'' ''Failed HMAC_Init_ex()''), HMAC_CTX_free api c' os1))))"

definition HmacCalculator_destroy :: "('c, 'o) hmac_api \<Rightarrow> 'c HmacCalculator \<Rightarrow> 'o \<Rightarrow> 'o" where
  "HmacCalculator_destroy api h os = (case hmac_ctx h of Some c \<Rightarrow> HMAC_CTX_free api c os | None \<Rightarrow> os)"

definition HmacCalculator_update :: "('c, 'o) hmac_api \<Rightarrow> byte_t list \<Rightarrow> 'c HmacCalculator \<Rightarrow> unit result \<times> 'c HmacCalculator" where
  "HmacCalculator_update api source h = (case hmac_ctx h of
     None \<Rightarrow> (Inl (RUNTIME_ERROR ''update'' ''ctx is NULL''), h)
   | Some c \<Rightarrow>
       if length source > 2147483647 then (Inl (RUNTIME_ERROR ''update'' ''Source size too big''), h)
       else case HMAC_Update api c source of (ok, c') \<Rightarrow>
         (if ok then Inr () else Inl (RUNTIME_ERROR ''update'' ''Failed HMAC_Update()''), h\<lparr>hmac_ctx := Some c'\<rparr>))"

definition HmacCalculator_finalize :: "('c, 'o) hmac_api \<Rightarrow> byte_t list \<Rightarrow> 'c HmacCalculator \<Rightarrow> 'o
    \<Rightarrow> (size_t \<times> byte_t list) result \<times> 'c HmacCalculator \<times> 'o" where
  "HmacCalculator_finalize api dest h os = (case hmac_ctx h of
     None \<Rightarrow> (Inl (RUNTIME_ERROR ''finalize'' ''ctx is NULL''), h, os)
   | Some c \<Rightarrow> (case HMAC_Final api c of
       (None, c') \<Rightarrow> (Inl (RUNTIME_ERROR ''finalize'' ''Failed HMAC_Final()''), h\<lparr>hmac_ctx := Some c'\<rparr>, os)
     | (Some w, c') \<Rightarrow> (case memcpy_to dest 0 w of
         Inl e \<Rightarrow> (Inl e, h\<lparr>hmac_ctx := Some c'\<rparr>, os)
       | Inr dest' \<Rightarrow>
           if of_nat (length w) \<noteq> hashSize (hmac_hashAlgorithm h)
           then (Inl (RUNTIME_ERROR ''finalize'' ''Unexpected hashSize''), h\<lparr>hmac_ctx := Some c'\<rparr>, os)
           else (Inr (of_nat (length w), dest'), h\<lparr>hmac_ctx := None\<rparr>, HMAC_CTX_free api c' os))))"

definition HmacCalculator_finalize_vec :: "('c, 'o) hmac_api \<Rightarrow> 'c HmacCalculator \<Rightarrow> 'o \<Rightarrow> byte_t list result \<times> 'c HmacCalculator \<times> 'o" where
  "HmacCalculator_finalize_vec api h os =
     (case HmacCalculator_finalize api (replicate (unat (hashSize (hmac_hashAlgorithm h))) 0) h os of (r, h', os') \<Rightarrow>
       (bind_result r (\<lambda>(n, res). Inr res), h', os'))"

definition HmacCalculator_hmac_vec :: "('c, 'o) hmac_api \<Rightarrow> SymmetricKey \<Rightarrow> HashAlgorithm \<Rightarrow> byte_t list \<Rightarrow> 'o \<Rightarrow> byte_t list result \<times> 'o" where
  "HmacCalculator_hmac_vec api key a source os = (case HmacCalculator_new api key a os of
     (Inl e, os1) \<Rightarrow> (Inl e, os1)
   | (Inr h, os1) \<Rightarrow> (case HmacCalculator_update api source h of
       (Inl e, h1) \<Rightarrow> (Inl e, HmacCalculator_destroy api h1 os1)
     | (Inr _, h1) \<Rightarrow> (case HmacCalculator_finalize_vec api h1 os1 of (r, h2, os2) \<Rightarrow> (r, HmacCalculator_destroy api h2 os2))))"

definition HmacCalculator_hmac :: "('c, 'o) hmac_api \<Rightarrow> SymmetricKey \<Rightarrow> HashAlgorithm \<Rightarrow> byte_t list \<Rightarrow> byte_t list \<Rightarrow> 'o
    \<Rightarrow> (size_t \<times> byte_t list) result \<times> 'o" where
  "HmacCalculator_hmac api key a source out os = (case HmacCalculator_new api key a os of
     (Inl e, os1) \<Rightarrow> (Inl e, os1)
   | (Inr h, os1) \<Rightarrow> (case HmacCalculator_update api source h of
       (Inl e, h1) \<Rightarrow> (Inl e, HmacCalculator_destroy api h1 os1)
     | (Inr _, h1) \<Rightarrow> (case HmacCalculator_finalize api out h1 os1 of (r, h2, os2) \<Rightarrow> (r, HmacCalculator_destroy api h2 os2))))"

text \<open>A client's sequence of updates; the first exception ends it.\<close>

fun HmacCalculator_updates :: "('c, 'o) hmac_api \<Rightarrow> byte_t list list \<Rightarrow> 'c HmacCalculator \<Rightarrow> unit result \<times> 'c HmacCalculator" where
  "HmacCalculator_updates api [] h = (Inr (), h)"
| "HmacCalculator_updates api (s # ss) h = (case HmacCalculator_update api s h of
     (Inl e, h') \<Rightarrow> (Inl e, h')
   | (Inr _, h') \<Rightarrow> HmacCalculator_updates api ss h')"

section \<open>Random bytes\<close>

text \<open>\<open>RAND_bytes\<close> answers the bytes when it succeeds; the loop repeats it until it does.\<close>

partial_function (option) rand_loop :: "(nat \<Rightarrow> 'o \<Rightarrow> byte_t list option \<times> 'o) \<Rightarrow> nat \<Rightarrow> 'o \<Rightarrow> (byte_t list \<times> 'o) option" where
  "rand_loop RAND_bytes n os = (case RAND_bytes n os of
     (Some bs, os') \<Rightarrow> Some (bs, os')
   | (None, os') \<Rightarrow> rand_loop RAND_bytes n os')"

definition getRandomBytes :: "(nat \<Rightarrow> 'o \<Rightarrow> byte_t list option \<times> 'o) \<Rightarrow> size_t \<Rightarrow> 'o \<Rightarrow> (byte_t list \<times> 'o) result option" where
  "getRandomBytes RAND_bytes sz os = (case safeNumericCast INT32 SIZE_T (uint sz) of
     Inl e \<Rightarrow> Some (Inl e)
   | Inr n \<Rightarrow> map_option Inr (rand_loop RAND_bytes (nat n) os))"

text \<open>\<open>getRandom\<close> for a type of \<open>sizeof_T\<close> bytes: the bytes read as a value of it.\<close>

definition getRandom :: "(nat \<Rightarrow> 'o \<Rightarrow> byte_t list option \<times> 'o) \<Rightarrow> size_t \<Rightarrow> 'o \<Rightarrow> (nat \<times> 'o) result option" where
  "getRandom RAND_bytes sizeof_T os = map_option (map_sum id (\<lambda>(bs, os'). (le_decode bs, os'))) (getRandomBytes RAND_bytes sizeof_T os)"

section \<open>The contracts\<close>

text \<open>The digest of a message and the keyed digest of one, computed piece by piece.\<close>

locale digests =
  fixes api :: "('c, 'o) digest_api" and live :: "'o \<Rightarrow> nat" and H :: "HashAlgorithm \<Rightarrow> byte_t list \<Rightarrow> byte_t list"
    and seen :: "'c \<Rightarrow> (HashAlgorithm \<times> byte_t list) option"
  assumes length_H: "length (H a m) = unat (hashSize a)"
    and md_create: "EVP_MD_CTX_create api os = (co, os') \<Longrightarrow> live os' = live os + held co"
    and md_destroy: "live (EVP_MD_CTX_destroy api c os) = live os - 1"
    and md_init: "EVP_DigestInit_ex api c a = (True, c') \<Longrightarrow> seen c' = Some (a, [])"
    and md_update: "EVP_DigestUpdate api c d = (True, c') \<Longrightarrow> seen c = Some (a, m) \<Longrightarrow> seen c' = Some (a, m @ d)"
    and md_final: "EVP_DigestFinal_ex api c = (Some w, c') \<Longrightarrow> seen c = Some (a, m) \<Longrightarrow> w = H a m"
begin

lemma hash_result:
  assumes "HashCalculator_hash_vec api a m os = (r, os')"
  shows "live os' = live os \<and> (case r of Inr d \<Rightarrow> d = H a m | Inl e \<Rightarrow> (\<exists>msg. e = RUNTIME_ERROR ''hash'' msg))"
proof -
  obtain co os1 where new: "EVP_MD_CTX_create api os = (co, os1)" by fastforce
  note live1 = md_create [OF new]
  show ?thesis
  proof (cases co)
    case None
    then show ?thesis
      using assms new live1 by (auto simp: HashCalculator_hash_vec_def HashCalculator_hash_def)
  next
    case (Some c)
    obtain ok1 c1 where i: "EVP_DigestInit_ex api c a = (ok1, c1)" by fastforce
    obtain ok2 c2 where u: "EVP_DigestUpdate api c1 m = (ok2, c2)" by fastforce
    obtain wo c3 where f: "EVP_DigestFinal_ex api c2 = (wo, c3)" by fastforce
    have w: "w = H a m" if "ok1" "ok2" "wo = Some w" for w
      using md_final [of c2 w c3 a m] md_update [of c1 m c2 a "[]"] md_init [of c a c1] i u f that by simp
    then show ?thesis
      using assms new Some live1 i u f
      by (cases wo) (auto simp: HashCalculator_hash_vec_def HashCalculator_hash_def md_destroy memcpy_to_def length_H blit_def split: if_splits)
  qed
qed

end

locale hmacs =
  fixes api :: "('c, 'o) hmac_api" and live :: "'o \<Rightarrow> nat"
    and M :: "HashAlgorithm \<Rightarrow> byte_t list \<Rightarrow> byte_t list \<Rightarrow> byte_t list"
    and seen :: "'c \<Rightarrow> (HashAlgorithm \<times> byte_t list \<times> byte_t list) option"
  assumes length_M: "length (M a k m) = unat (hashSize a)"
    and mac_new: "\<exists>c os'. HMAC_CTX_new api os = (Some c, os') \<and> live os' = live os + 1"
    and mac_free: "live (HMAC_CTX_free api c os) = live os - 1"
    and mac_init: "\<exists>c'. HMAC_Init_ex api c k a = (True, c') \<and> seen c' = Some (a, k, [])"
    and mac_update: "seen c = Some (a, k, m) \<Longrightarrow> \<exists>c'. HMAC_Update api c d = (True, c') \<and> seen c' = Some (a, k, m @ d)"
    and mac_final: "seen c = Some (a, k, m) \<Longrightarrow> \<exists>c'. HMAC_Final api c = (Some (M a k m), c')"
begin

lemma new_ok:
  assumes "keySize key = hashSize a" "length (buffPtr key) = unat (keySize key)"
  obtains c os1 where "HmacCalculator_new api key a os = (Inr \<lparr>hmac_key = key, hmac_hashAlgorithm = a, hmac_ctx = Some c\<rparr>, os1)"
    "seen c = Some (a, buffPtr key, [])" "live os1 = live os + 1"
proof -
  obtain c0 os1 where new: "HMAC_CTX_new api os = (Some c0, os1)" "live os1 = live os + 1"
    using mac_new by blast
  obtain c where c: "HMAC_Init_ex api c0 (buffPtr key) a = (True, c)" "seen c = Some (a, buffPtr key, [])"
    using mac_init by blast
  have "safeNumericCast INT32 SIZE_T (uint (hashSize a)) = Inr (uint (hashSize a))"
    by (cases a) (simp_all add: safeNumericCast_def INT32_def SIZE_T_def UINT64_def max_of_def static_cast_def maxOf_def)
  then show thesis
    using that [OF _ c(2) new(2)] assms new(1) c(1) by (simp add: HmacCalculator_new_def hash_keySize_def)
qed

lemma updates_ok:
  assumes "hmac_ctx h = Some c" "seen c = Some (a, k, m)" "\<forall>s \<in> set ss. length s \<le> 2147483647"
  shows "\<exists>c'. HmacCalculator_updates api ss h = (Inr (), h\<lparr>hmac_ctx := Some c'\<rparr>) \<and> seen c' = Some (a, k, m @ concat ss)"
  using assms
proof (induction ss arbitrary: h c m)
  case Nil
  then show ?case
    by (intro exI [of _ c]) (simp add: HmacCalculator.surjective)
next
  case (Cons s ss)
  obtain c1 where c1: "HMAC_Update api c s = (True, c1)" "seen c1 = Some (a, k, m @ s)"
    using mac_update [OF Cons.prems(2)] by blast
  then show ?case
    using Cons.prems Cons.IH [of "h\<lparr>hmac_ctx := Some c1\<rparr>" c1 "m @ s"] by (simp add: HmacCalculator_update_def)
qed

lemma finalize_ok:
  assumes "hmac_ctx h = Some c" "seen c = Some (a, k, m)" "hmac_hashAlgorithm h = a"
  shows "\<exists>c'. HmacCalculator_finalize_vec api h os = (Inr (M a k m), h\<lparr>hmac_ctx := None\<rparr>, HMAC_CTX_free api c' os)"
proof -
  obtain c' where "HMAC_Final api c = (Some (M a k m), c')"
    using mac_final [OF assms(2)] by blast
  then show ?thesis
    using assms by (auto simp: HmacCalculator_finalize_vec_def HmacCalculator_finalize_def memcpy_to_def length_M blit_def)
qed

end

text \<open>The instances the contracts are checked on: a digest that truncates or pads the message,
  one that also prepends the key.\<close>

type_synonym trunc_ctx = "(HashAlgorithm \<times> byte_t list \<times> byte_t list) option"

definition trunc_hash :: "HashAlgorithm \<Rightarrow> byte_t list \<Rightarrow> byte_t list" where
  "trunc_hash a m = resize (unat (hashSize a)) m"

definition trunc_hmac :: "HashAlgorithm \<Rightarrow> byte_t list \<Rightarrow> byte_t list \<Rightarrow> byte_t list" where
  "trunc_hmac a k m = trunc_hash a (m @ k)"

definition trunc_feed :: "byte_t list \<Rightarrow> trunc_ctx \<Rightarrow> trunc_ctx" where
  "trunc_feed d c = map_option (\<lambda>(a, k, m). (a, k, m @ d)) c"

definition trunc_digest :: "(trunc_ctx, nat) digest_api" where
  "trunc_digest =
     \<lparr>EVP_MD_CTX_create = (\<lambda>os. (Some None, os + 1)),
      EVP_MD_CTX_destroy = (\<lambda>c os. os - 1),
      EVP_DigestInit_ex = (\<lambda>c a. (True, Some (a, [], []))),
      EVP_DigestUpdate = (\<lambda>c d. (True, trunc_feed d c)),
      EVP_DigestFinal_ex = (\<lambda>c. (map_option (\<lambda>(a, k, m). trunc_hash a m) c, c))\<rparr>"

definition trunc_mac :: "(trunc_ctx, nat) hmac_api" where
  "trunc_mac =
     \<lparr>HMAC_CTX_new = (\<lambda>os. (Some None, os + 1)),
      HMAC_CTX_free = (\<lambda>c os. os - 1),
      HMAC_Init_ex = (\<lambda>c k a. (True, Some (a, k, []))),
      HMAC_Update = (\<lambda>c d. (True, trunc_feed d c)),
      HMAC_Final = (\<lambda>c. (map_option (\<lambda>(a, k, m). trunc_hmac a k m) c, c))\<rparr>"

lemma length_resize [simp]: "length (resize n bs) = n"
  by (simp add: resize_def)

interpretation trunc: digests trunc_digest "\<lambda>os. os" trunc_hash "\<lambda>c. map_option (\<lambda>(a, k, m). (a, m)) c"
  by unfold_locales (auto simp: trunc_digest_def trunc_hash_def trunc_feed_def)

interpretation trunc_keyed: hmacs trunc_mac "\<lambda>os. os" trunc_hmac "\<lambda>c. c"
  by unfold_locales (auto simp: trunc_mac_def trunc_hmac_def trunc_hash_def trunc_feed_def)

section \<open>Repeating until it succeeds\<close>

text \<open>The system as the \<open>i\<close>-th call of the loop finds it.\<close>

definition rand_state :: "(nat \<Rightarrow> 'o \<Rightarrow> byte_t list option \<times> 'o) \<Rightarrow> nat \<Rightarrow> nat \<Rightarrow> 'o \<Rightarrow> 'o" where
  "rand_state RAND_bytes n i os = ((\<lambda>s. snd (RAND_bytes n s)) ^^ i) os"

lemma rand_state_simps [simp]:
  "rand_state R n 0 os = os" "rand_state R n (Suc i) os = rand_state R n i (snd (R n os))"
  by (simp_all only: rand_state_def funpow_Suc_right funpow.simps(1) id_apply comp_apply)

lemma rand_loop_succeeds:
  "\<forall>j < i. fst (R n (rand_state R n j os)) = None \<Longrightarrow> R n (rand_state R n i os) = (Some bs, os') \<Longrightarrow>
    rand_loop R n os = Some (bs, os')"
proof (induction i arbitrary: os)
  case 0
  then show ?case
    by (simp add: rand_loop.simps [of R n os])
next
  case (Suc i)
  have "fst (R n os) = None"
    using Suc.prems(1) by (metis rand_state_simps(1) zero_less_Suc)
  moreover have "rand_loop R n (snd (R n os)) = Some (bs, os')"
    using Suc.IH [of "snd (R n os)"] Suc.prems by fastforce
  ultimately show ?case
    by (subst rand_loop.simps) (simp add: prod.case_eq_if)
qed

lemma rand_loop_returned:
  "rand_loop R n os = Some (bs, os') \<Longrightarrow> \<exists>i. fst (R n (rand_state R n i os)) \<noteq> None"
proof (rule rand_loop.raw_induct [where P = "\<lambda>R n os p. \<exists>i. fst (R n (rand_state R n i os)) \<noteq> None"])
  fix loop :: "(nat \<Rightarrow> 'a \<Rightarrow> byte_t list option \<times> 'a) \<Rightarrow> nat \<Rightarrow> 'a \<Rightarrow> (byte_t list \<times> 'a) option"
    and Q n os p
  assume IH: "\<And>Q n os p. loop Q n os = Some p \<Longrightarrow> \<exists>i. fst (Q n (rand_state Q n i os)) \<noteq> None"
    and eq: "(case Q n os of (None, os') \<Rightarrow> loop Q n os' | (Some bs, os') \<Rightarrow> Some (bs, os')) = Some p"
  show "\<exists>i. fst (Q n (rand_state Q n i os)) \<noteq> None"
  proof (cases "fst (Q n os)")
    case None
    then obtain i where "fst (Q n (rand_state Q n i (snd (Q n os)))) \<noteq> None"
      using IH [of Q n "snd (Q n os)" p] eq by (auto simp: prod.case_eq_if)
    then show ?thesis
      by (intro exI [of _ "Suc i"]) simp
  next
    case (Some w)
    then show ?thesis
      by (intro exI [of _ 0]) simp
  qed
qed

lemma getRandomBytes_cast:
  "getRandomBytes R sz os =
    (if unat sz < 2 ^ 31 then map_option Inr (rand_loop R (unat sz) os) else Some (Inl (cast_error ''original too big'')))"
proof -
  have b: "int (unat sz) < 2 ^ 31 \<longleftrightarrow> unat sz < 2 ^ 31"
    by (metis of_nat_less_iff of_nat_numeral of_nat_power)
  have "uint sz < 2 ^ 31 \<longleftrightarrow> unat sz < 2 ^ 31" "nat (uint sz) = unat sz"
    using b by simp_all
  moreover have "uint sz < 2 ^ LENGTH(64)"
    by (rule unsigned_less)
  ultimately show ?thesis
    by (auto simp: getRandomBytes_def safeNumericCast_def INT32_def SIZE_T_def UINT64_def max_of_def static_cast_def maxOf_def)
qed

text \<open>Every value of a type can be drawn: the bytes of \<open>v\<close> give \<open>v\<close>.\<close>

lemma getRandom_surjective:
  assumes "v < 256 ^ unat sz" "unat sz < 2 ^ 31" "R (unat sz) os = (Some (le_encode (unat sz) v), os')"
  shows "getRandom R sz os = Some (Inr (v, os'))"
  using assms by (simp add: getRandom_def getRandomBytes_cast rand_loop.simps le_roundtrip)

section \<open>Properties\<close>

text \<open>\<open>hash\<close> returns the digest or throws, and leaks nothing. Whatever calls fail, a
  vector that is returned is the digest of the whole source, never a partial or unwritten one, and
  no context stays allocated.\<close>

theorem HashCalculator_hash_correct:
  assumes "digests api live H seen"
  shows "case HashCalculator_hash_vec api a m os of (r, os') \<Rightarrow>
    live os' = live os \<and> (case r of Inr d \<Rightarrow> d = H a m | Inl e \<Rightarrow> (\<exists>msg. e = RUNTIME_ERROR ''hash'' msg))"
  using digests.hash_result [OF assms, of a m os] by (cases "HashCalculator_hash_vec api a m os") simp

theorem HashCalculator_hash_correct_witness:
  "case HashCalculator_hash_vec trunc_digest MD5 [1, 2, 3] 0 of (r, os') \<Rightarrow>
    os' = 0 \<and> (case r of Inr d \<Rightarrow> d = trunc_hash MD5 [1, 2, 3] | Inl e \<Rightarrow> (\<exists>msg. e = RUNTIME_ERROR ''hash'' msg))"
  by (rule HashCalculator_hash_correct [OF trunc.digests_axioms])

text \<open>the keyed digest does not depend on how the message is cut. A calculator that is
  given a message in any pieces of at most 2 GiB gives the keyed digest of their
  concatenation, the same as the one-shot \<open>hmac\<close> where that accepts it; the context is freed
  exactly once, and afterwards every \<open>update\<close> and \<open>finalize\<close> throws.\<close>

theorem HmacCalculator_chunks:
  assumes "hmacs api live M seen" "createSymmetricKey keyBuffer (hash_keySize a) = Inr key" "length keyBuffer < 2 ^ 64"
    "\<forall>s \<in> set ss. length s \<le> 2147483647"
  shows "\<exists>h os1 h1 h2 os2. HmacCalculator_new api key a os = (Inr h, os1) \<and> HmacCalculator_updates api ss h = (Inr (), h1) \<and>
    HmacCalculator_finalize_vec api h1 os1 = (Inr (M a (buffPtr key) (concat ss)), h2, os2) \<and> live os2 = live os \<and>
    (\<forall>s. \<not> is_ok (fst (HmacCalculator_update api s h2))) \<and> (\<forall>d. \<not> is_ok (fst (HmacCalculator_finalize api d h2 os2))) \<and>
    (length (concat ss) \<le> 2147483647 \<longrightarrow> fst (HmacCalculator_hmac_vec api key a (concat ss) os) = Inr (M a (buffPtr key) (concat ss)))"
proof -
  have key: "keySize key = hashSize a" "length (buffPtr key) = unat (keySize key)"
    using createSymmetricKey_ok [OF assms(2,3)] by (simp_all add: hash_keySize_def)
  obtain c os1 where new: "HmacCalculator_new api key a os = (Inr \<lparr>hmac_key = key, hmac_hashAlgorithm = a, hmac_ctx = Some c\<rparr>, os1)"
    "seen c = Some (a, buffPtr key, [])" "live os1 = live os + 1"
    using hmacs.new_ok [OF assms(1) key] .
  let ?h = "\<lambda>c. \<lparr>hmac_key = key, hmac_hashAlgorithm = a, hmac_ctx = c\<rparr>"
  obtain c1 where c1: "HmacCalculator_updates api ss (?h (Some c)) = (Inr (), ?h (Some c1))" "seen c1 = Some (a, buffPtr key, concat ss)"
    using hmacs.updates_ok [OF assms(1) _ new(2) assms(4), of "?h (Some c)"] by auto
  obtain c2 where c2: "HmacCalculator_finalize_vec api (?h (Some c1)) os1 =
      (Inr (M a (buffPtr key) (concat ss)), ?h None, HMAC_CTX_free api c2 os1)"
    using hmacs.finalize_ok [OF assms(1) _ c1(2), of "?h (Some c1)" os1] by auto
  have one: "fst (HmacCalculator_hmac_vec api key a (concat ss) os) = Inr (M a (buffPtr key) (concat ss))"
    if small: "length (concat ss) \<le> 2147483647"
  proof -
    obtain c3 where c3: "HmacCalculator_updates api [concat ss] (?h (Some c)) = (Inr (), ?h (Some c3))"
      "seen c3 = Some (a, buffPtr key, concat ss)"
      using hmacs.updates_ok [OF assms(1) _ new(2), of "?h (Some c)" "[concat ss]"] small by (auto simp del: length_concat HmacCalculator_updates.simps)
    obtain c4 where "HmacCalculator_finalize_vec api (?h (Some c3)) os1 =
        (Inr (M a (buffPtr key) (concat ss)), ?h None, HMAC_CTX_free api c4 os1)"
      using hmacs.finalize_ok [OF assms(1) _ c3(2), of "?h (Some c3)" os1] by auto
    then show ?thesis
      using new(1) c3(1) by (auto simp: HmacCalculator_hmac_vec_def split: prod.splits sum.splits)
  qed
  have "live (HMAC_CTX_free api c2 os1) = live os"
    using new(3) hmacs.mac_free [OF assms(1)] by simp
  moreover have "\<not> is_ok (fst (HmacCalculator_update api s (?h None)))" "\<not> is_ok (fst (HmacCalculator_finalize api d (?h None) o'))" for s d o'
    by (simp_all add: HmacCalculator_update_def HmacCalculator_finalize_def)
  ultimately show ?thesis
    using new(1) c1(1) c2 one by blast
qed

theorem HmacCalculator_chunks_witness:
  "\<exists>h os1 h1 h2 os2. HmacCalculator_new trunc_mac \<lparr>buffPtr = replicate 16 7, keySize = 16\<rparr> MD5 0 = (Inr h, os1) \<and>
    HmacCalculator_updates trunc_mac [[1], [2, 3]] h = (Inr (), h1) \<and>
    HmacCalculator_finalize_vec trunc_mac h1 os1 = (Inr (trunc_hmac MD5 (replicate 16 7) [1, 2, 3]), h2, os2)"
proof -
  have "createSymmetricKey (replicate 16 7) (hash_keySize MD5) = Inr \<lparr>buffPtr = replicate 16 7, keySize = 16\<rparr>"
    by (simp add: createSymmetricKey_def hash_keySize_def memcpy_def memcpy_from_def memcpy_to_def blit_def)
  from HmacCalculator_chunks [OF trunc_keyed.hmacs_axioms this, of "[[1], [2, 3]]" 0]
  show ?thesis by auto
qed

text \<open>\<open>getRandomBytes\<close> returns exactly when the generator recovers. For a size an
  \<open>int\<close> can hold it gives the bytes of the first successful call, however many fail before it,
  and never returns when all of them fail; a larger size throws before any call.\<close>

theorem getRandomBytes_returns:
  "(unat sz < 2 ^ 31 \<longrightarrow>
      (\<forall>i bs os'. (\<forall>j < i. fst (R (unat sz) (rand_state R (unat sz) j os)) = None) \<and> R (unat sz) (rand_state R (unat sz) i os) = (Some bs, os') \<longrightarrow>
        getRandomBytes R sz os = Some (Inr (bs, os'))) \<and>
      (getRandomBytes R sz os = None \<longleftrightarrow> (\<forall>i. fst (R (unat sz) (rand_state R (unat sz) i os)) = None))) \<and>
   (2 ^ 31 \<le> unat sz \<longrightarrow> (\<exists>msg. getRandomBytes R sz os = Some (Inl (cast_error msg))))"
proof -
  let ?n = "unat sz"
  have cast: "getRandomBytes R sz os =
      (if ?n < 2 ^ 31 then map_option Inr (rand_loop R ?n os) else Some (Inl (cast_error ''original too big'')))"
    by (rule getRandomBytes_cast)
  have "rand_loop R ?n os = None \<longleftrightarrow> (\<forall>i. fst (R ?n (rand_state R ?n i os)) = None)"
  proof
    assume none: "rand_loop R ?n os = None"
    show "\<forall>i. fst (R ?n (rand_state R ?n i os)) = None"
    proof (rule ccontr)
      assume "\<not> ?thesis"
      then obtain i where "fst (R ?n (rand_state R ?n i os)) \<noteq> None" "\<forall>j < i. fst (R ?n (rand_state R ?n j os)) = None"
        using exists_least_iff [of "\<lambda>i. fst (R ?n (rand_state R ?n i os)) \<noteq> None"] by auto
      then show False
        using none rand_loop_succeeds [of i R ?n os] by (cases "R ?n (rand_state R ?n i os)") auto
    qed
  next
    assume "\<forall>i. fst (R ?n (rand_state R ?n i os)) = None"
    then show "rand_loop R ?n os = None"
      using rand_loop_returned [of R ?n os] by (cases "rand_loop R ?n os") auto
  qed
  then show ?thesis
    using rand_loop_succeeds [of _ R ?n os] by (auto simp: cast)
qed

definition flaky_rand :: "nat \<Rightarrow> nat \<Rightarrow> byte_t list option \<times> nat" where
  "flaky_rand n os = (if os < 3 then (None, os + 1) else (Some (replicate n 9), os))"

theorem getRandomBytes_returns_witness:
  "getRandomBytes flaky_rand 2 0 = Some (Inr ([9, 9], 3))"
proof -
  have "rand_state flaky_rand n j 0 = j" if "j \<le> 3" for j n
    using that by (induction j) (simp_all add: rand_state_def flaky_rand_def)
  then have "\<forall>j < 3. fst (flaky_rand 2 (rand_state flaky_rand 2 j 0)) = None"
    "flaky_rand 2 (rand_state flaky_rand 2 3 0) = (Some [9, 9], 3)"
    by (simp_all add: flaky_rand_def numeral_2_eq_2)
  moreover have "unat (2 :: size_t) = 2" "(2 :: nat) < 2 ^ 31"
    by simp_all
  ultimately show ?thesis
    using getRandomBytes_returns [of 2 flaky_rand 0] by metis
qed

end
