(* ===== verification/DiffieHellman.thy ===== *)
theory DiffieHellman
  imports Digests
begin

text \<open>
  \<^verbatim>\<open>src/headers/crypto/dh/DiffieHellman.h\<close> and \<^verbatim>\<open>src/src/crypto/dh/DiffieHellman.cpp\<close>: key
  agreement. OpenSSL's \<^verbatim>\<open>DH\<close> objects are pointers of type \<open>'p\<close> into its heap \<open>'o\<close>, and using one
  that is not allocated is undefined behaviour; big numbers are values of type \<open>'n\<close>.
\<close>

section \<open>The object\<close>

record 'p DiffieHellman =
  dh :: "'p option"

record ('p, 'n, 'o) dh_api =
  DH_allocated :: "'p \<Rightarrow> 'o \<Rightarrow> bool"
  DH_new :: "'o \<Rightarrow> 'p option \<times> 'o"
  DH_free :: "'p \<Rightarrow> 'o \<Rightarrow> 'o"
  DH_set0_pqg :: "'p \<Rightarrow> 'n \<Rightarrow> 'n \<Rightarrow> 'o \<Rightarrow> bool \<times> 'o"
  DH_check :: "'p \<Rightarrow> 'o \<Rightarrow> bool"
  DH_generate_key :: "'p \<Rightarrow> 'o \<Rightarrow> bool \<times> 'o"
  DH_size :: "'p \<Rightarrow> 'o \<Rightarrow> nat"
  DH_get0_key :: "'p \<Rightarrow> 'o \<Rightarrow> 'n option"
  DH_compute_key :: "'p \<Rightarrow> 'n \<Rightarrow> 'o \<Rightarrow> byte_t list option"
  BN_bin2bn :: "byte_t list \<Rightarrow> 'n option"
  BN_bn2bin :: "'n \<Rightarrow> byte_t list"

definition DANGLING :: exn where
  "DANGLING = Undefined_behaviour ''DH: object not allocated''"

definition DiffieHellman_new :: "'p DiffieHellman" where
  "DiffieHellman_new = \<lparr>dh = None\<rparr>"

definition DiffieHellman_destroy :: "('p, 'n, 'o) dh_api \<Rightarrow> 'p DiffieHellman \<Rightarrow> 'o \<Rightarrow> 'o result" where
  "DiffieHellman_destroy api d os = (case dh d of
     None \<Rightarrow> Inr os
   | Some p \<Rightarrow> if DH_allocated api p os then Inr (DH_free api p os) else Inl DANGLING)"

text \<open>The part of \<open>createSession\<close> after \<open>DH_new\<close>; the big numbers are made before the check of
  either, and the object is freed but kept in \<open>dh\<close> when one of them or the parameters are refused.\<close>

definition set_parameters :: "('p, 'n, 'o) dh_api \<Rightarrow> byte_t list \<Rightarrow> byte_t list \<Rightarrow> 'p \<Rightarrow> 'o \<Rightarrow> unit result \<times> 'o" where
  "set_parameters api generator primeModulus p os =
     (case safeNumericCast INT32 SIZE_T (int (length primeModulus)) of Inl e \<Rightarrow> (Inl e, os) | Inr _ \<Rightarrow>
      case safeNumericCast INT32 SIZE_T (int (length generator)) of Inl e \<Rightarrow> (Inl e, os) | Inr _ \<Rightarrow>
      let invalid = Inl (RUNTIME_ERROR ''createSession'' ''Invalid DiffieHellman parameters'') in
      case (BN_bin2bn api primeModulus, BN_bin2bn api generator) of
        (Some pBn, Some gBn) \<Rightarrow> (case DH_set0_pqg api p pBn gBn os of (ok, os1) \<Rightarrow>
          if \<not> ok then (invalid, DH_free api p os1)
          else if \<not> DH_check api p os1 then (invalid, os1)
          else (Inr (), snd (DH_generate_key api p os1)))
      | _ \<Rightarrow> (invalid, DH_free api p os))"

definition createSession :: "('p, 'n, 'o) dh_api \<Rightarrow> byte_t list \<Rightarrow> byte_t list \<Rightarrow> 'p DiffieHellman \<Rightarrow> 'o
    \<Rightarrow> unit result \<times> 'p DiffieHellman \<times> 'o" where
  "createSession api generator primeModulus d os = (case DiffieHellman_destroy api d os of
     Inl e \<Rightarrow> (Inl e, d, os)
   | Inr os1 \<Rightarrow> (case DH_new api os1 of
       (None, os2) \<Rightarrow> (Inl (RUNTIME_ERROR ''createSession'' ''DH_new(...) failed''), d\<lparr>dh := None\<rparr>, os2)
     | (Some p, os2) \<Rightarrow> (case set_parameters api generator primeModulus p os2 of (r, os3) \<Rightarrow> (r, d\<lparr>dh := Some p\<rparr>, os3))))"

definition getSize :: "('p, 'n, 'o) dh_api \<Rightarrow> 'p DiffieHellman \<Rightarrow> 'o \<Rightarrow> size_t result" where
  "getSize api d os = (case dh d of
     None \<Rightarrow> Inr 0
   | Some p \<Rightarrow> if DH_allocated api p os then Inr (of_nat (DH_size api p os)) else Inl DANGLING)"

definition getPublicComponent :: "('p, 'n, 'o) dh_api \<Rightarrow> 'p DiffieHellman \<Rightarrow> 'o \<Rightarrow> byte_t list result" where
  "getPublicComponent api d os = (case dh d of
     None \<Rightarrow> Inl (Undefined_behaviour ''DH_get0_key: null pointer'')
   | Some p \<Rightarrow>
       if \<not> DH_allocated api p os then Inl DANGLING
       else case DH_get0_key api p os of
         None \<Rightarrow> Inl (Undefined_behaviour ''BN_num_bytes: null pointer'')
       | Some pubKeyBn \<Rightarrow> Inr (BN_bn2bin api pubKeyBn))"

text \<open>A failure of \<open>DH_compute_key\<close> is the size -1, which no vector can have.\<close>

definition computeSharedSecret :: "('p, 'n, 'o) dh_api \<Rightarrow> byte_t list \<Rightarrow> 'p DiffieHellman \<Rightarrow> 'o \<Rightarrow> byte_t list result" where
  "computeSharedSecret api other d os =
     (case safeNumericCast INT32 SIZE_T (int (length other)) of Inl e \<Rightarrow> Inl e | Inr _ \<Rightarrow>
      case dh d of
        None \<Rightarrow> Inl (Undefined_behaviour ''DH_size: null pointer'')
      | Some p \<Rightarrow>
          if \<not> DH_allocated api p os then Inl DANGLING
          else case BN_bin2bn api other of
            None \<Rightarrow> Inl (Undefined_behaviour ''DH_compute_key: null pointer'')
          | Some otherBn \<Rightarrow> (case DH_compute_key api p otherBn os of
              None \<Rightarrow> Inl Length_error
            | Some w \<Rightarrow> if length w \<le> DH_size api p os then Inr w else Inl (Undefined_behaviour ''DH_compute_key: write out of bounds'')))"

definition computeSharedSecret_hashed :: "('p, 'n, 'o) dh_api \<Rightarrow> ('c, 'h) digest_api \<Rightarrow> byte_t list \<Rightarrow> HashAlgorithm \<Rightarrow> 'p DiffieHellman \<Rightarrow> 'o \<Rightarrow> 'h
    \<Rightarrow> byte_t list result \<times> 'h" where
  "computeSharedSecret_hashed api digest other a d os hs = (case computeSharedSecret api other d os of
     Inl e \<Rightarrow> (Inl e, hs)
   | Inr sharedSecret \<Rightarrow> HashCalculator_hash_vec digest a sharedSecret hs)"

section \<open>The library's contract\<close>

definition be_nat :: "byte_t list \<Rightarrow> nat" where
  "be_nat bs = foldl (\<lambda>n b. 256 * n + unat b) 0 bs"

text \<open>
  \<open>objs\<close> is the generator, the modulus and, once it was generated, the private exponent
  of each allocated object; \<open>num\<close> the value of a big number and \<open>enc\<close> the encoding of a
  shared secret. The conversions accept every byte string.
\<close>

locale dh_library =
  fixes api :: "('p, 'n, 'o) dh_api" and objs :: "'o \<Rightarrow> 'p \<rightharpoonup> nat \<times> nat \<times> nat option"
    and num :: "'n \<Rightarrow> nat" and enc :: "nat \<Rightarrow> byte_t list"
  assumes alloc: "DH_allocated api p os \<longleftrightarrow> objs os p \<noteq> None"
    and new_obj: "DH_new api os = (Some p, os') \<Longrightarrow> objs os p = None \<and> objs os' = (objs os)(p \<mapsto> (0, 0, None))"
    and free_obj: "objs (DH_free api p os) = (objs os)(p := None)"
    and set_obj: "DH_set0_pqg api p m g os = (ok, os') \<Longrightarrow> objs os p \<noteq> None \<Longrightarrow>
      objs os' = (if ok then (objs os)(p \<mapsto> (num g, num m, None)) else objs os)"
    and generate: "objs os p = Some (g', m', xo) \<Longrightarrow>
      \<exists>y. objs (snd (DH_generate_key api p os)) = (objs os)(p \<mapsto> (g', m', y))"
    and public: "DH_get0_key api p os = Some n \<Longrightarrow> objs os p = Some (g', m', Some x) \<Longrightarrow> num n = g' ^ x mod m'"
    and public_none: "objs os p = Some (g', m', None) \<Longrightarrow> DH_get0_key api p os = None"
    and shared: "DH_compute_key api p n os = Some w \<Longrightarrow> objs os p = Some (g', m', Some x) \<Longrightarrow> w = enc (num n ^ x mod m')"
    and to_bytes: "be_nat (BN_bn2bin api n) = num n"
    and from_bytes: "BN_bin2bn api bs = Some n \<Longrightarrow> num n = be_nat bs"
begin

lemma createSession_objs:
  assumes "createSession api gb mb DiffieHellman_new os = (Inr (), d, os')"
  obtains p x where "dh d = Some p" "objs os p = None" "objs os' = (objs os)(p \<mapsto> (be_nat gb, be_nat mb, x))"
proof -
  obtain p os2 where new: "DH_new api os = (Some p, os2)" and d: "dh d = Some p" and r: "set_parameters api gb mb p os2 = (Inr (), os')"
    using assms by (auto simp: createSession_def DiffieHellman_destroy_def DiffieHellman_new_def split: prod.splits option.splits)
  note o2 = new_obj [OF new]
  obtain m g os3 where bn: "BN_bin2bn api mb = Some m" "BN_bin2bn api gb = Some g" "DH_set0_pqg api p m g os2 = (True, os3)"
    "os' = snd (DH_generate_key api p os3)"
    using r by (auto simp: set_parameters_def Let_def split: sum.splits option.splits prod.splits if_splits)
  have o3: "objs os3 = (objs os)(p \<mapsto> (be_nat gb, be_nat mb, None))"
    using set_obj [OF bn(3)] o2 from_bytes [OF bn(1)] from_bytes [OF bn(2)] by simp
  then obtain x where "objs os' = (objs os3)(p \<mapsto> (be_nat gb, be_nat mb, x))"
    using generate [of os3 p] bn(4) by fastforce
  then show thesis
    using that d o2 o3 by simp
qed

lemma public_value:
  assumes "getPublicComponent api d os = Inr pub" "dh d = Some p" "objs os p = Some (g, m, xo)"
  obtains x where "xo = Some x" "be_nat pub = g ^ x mod m"
proof (cases xo)
  case None
  then show thesis
    using assms public_none by (auto simp: getPublicComponent_def split: if_splits option.splits)
next
  case (Some x)
  obtain n where n: "DH_get0_key api p os = Some n" "pub = BN_bn2bin api n"
    using assms by (auto simp: getPublicComponent_def split: if_splits option.splits)
  have "be_nat pub = g ^ x mod m"
    using public [OF n(1)] assms(3) Some to_bytes n(2) by simp
  then show thesis
    using that Some by blast
qed

lemma secret_value:
  assumes "computeSharedSecret api other d os = Inr w" "dh d = Some p" "objs os p = Some (g, m, Some x)"
  shows "w = enc (be_nat other ^ x mod m)"
proof -
  obtain n where "BN_bin2bn api other = Some n" "DH_compute_key api p n os = Some w"
    using assms by (auto simp: computeSharedSecret_def split: sum.splits option.splits if_splits)
  then show ?thesis
    using shared assms(3) from_bytes by (metis)
qed

lemma refused_dangling:
  assumes "DH_new api os = (Some p, os1)" "length gb < 2 ^ 31" "length mb < 2 ^ 31"
    and "case (BN_bin2bn api mb, BN_bin2bn api gb) of (Some m, Some g) \<Rightarrow> \<not> fst (DH_set0_pqg api p m g os1) | _ \<Rightarrow> True"
  obtains e os' where "createSession api gb mb DiffieHellman_new os = (Inl (RUNTIME_ERROR ''createSession'' e), \<lparr>dh = Some p\<rparr>, os')" "objs os' p = None"
proof -
  have small: "safeNumericCast INT32 SIZE_T (int n) = Inr (int n)" if "n < 2 ^ 31" for n
    using that by (simp add: safeNumericCast_def INT32_def SIZE_T_def UINT64_def max_of_def static_cast_def maxOf_def)
  obtain os' where "set_parameters api gb mb p os1 = (Inl (RUNTIME_ERROR ''createSession'' ''Invalid DiffieHellman parameters''), os')" "objs os' p = None"
    using assms(2-4) by (auto simp: set_parameters_def small free_obj Let_def case_prod_beta split: option.splits)
  then show thesis
    using that assms(1) by (simp add: createSession_def DiffieHellman_destroy_def DiffieHellman_new_def)
qed

end

section \<open>A library of small objects\<close>

fun nat_be :: "nat \<Rightarrow> byte_t list" where
  "nat_be n = (if n = 0 then [] else nat_be (n div 256) @ [of_nat (n mod 256)])"

declare nat_be.simps [simp del]

lemma be_nat_be: "be_nat (nat_be n) = n"
proof (induction n rule: nat_be.induct)
  case (1 n)
  have "unat (of_nat (n mod 256) :: byte_t) = n mod 256"
    by (simp add: unat_of_nat)
  then show ?case
    using 1 by (subst nat_be.simps) (simp add: be_nat_def)
qed

type_synonym small_heap = "(nat \<times> nat \<times> nat option) option list"

definition small_objs :: "small_heap \<Rightarrow> nat \<rightharpoonup> nat \<times> nat \<times> nat option" where
  "small_objs os p = (if p < length os then os ! p else None)"

definition small_dh :: "(nat, nat, small_heap) dh_api" where
  "small_dh =
     \<lparr>DH_allocated = (\<lambda>p os. small_objs os p \<noteq> None),
      DH_new = (\<lambda>os. (Some (length os), os @ [Some (0, 0, None)])),
      DH_free = (\<lambda>p os. os[p := None]),
      DH_set0_pqg = (\<lambda>p m g os. if m = 0 then (False, os) else (True, os[p := Some (g, m, None)])),
      DH_check = (\<lambda>p os. True),
      DH_generate_key = (\<lambda>p os. (True, case small_objs os p of Some (g, m, x) \<Rightarrow> os[p := Some (g, m, Some (p + 2))] | None \<Rightarrow> os)),
      DH_size = (\<lambda>p os. 64),
      DH_get0_key = (\<lambda>p os. case small_objs os p of Some (g, m, Some x) \<Rightarrow> Some (g ^ x mod m) | _ \<Rightarrow> None),
      DH_compute_key = (\<lambda>p n os. case small_objs os p of Some (g, m, Some x) \<Rightarrow> Some (nat_be (n ^ x mod m)) | _ \<Rightarrow> None),
      BN_bin2bn = (\<lambda>bs. Some (be_nat bs)),
      BN_bn2bin = nat_be\<rparr>"

lemma small_objs_update: "small_objs (os[p := v]) = (if p < length os then (small_objs os)(p := v) else small_objs os)"
  by (auto simp: small_objs_def fun_eq_iff)

interpretation small: dh_library small_dh small_objs "\<lambda>n. n" nat_be
proof (unfold_locales, goal_cases)
  case (2 os p os')
  then show ?case
    by (auto simp: small_dh_def small_objs_def fun_eq_iff nth_append less_Suc_eq)
next
  case (3 p os)
  then show ?case
    by (auto simp: small_dh_def small_objs_update small_objs_def fun_eq_iff)
next
  case (4 p m g os ok os')
  then show ?case
    by (auto simp: small_dh_def small_objs_update small_objs_def split: if_splits)
next
  case (5 os p g' m' xo)
  then show ?case
    by (auto simp: small_dh_def small_objs_update small_objs_def split: if_splits)
qed (auto simp: small_dh_def be_nat_be)

section \<open>Properties\<close>

text \<open>C25: both sides of the exchange get the same secret. Two sessions created over the same
  parameters that exchange their public components, as bytes, compute the same shared
  secret, and the same digest of it.\<close>

theorem DiffieHellman_agreement:
  assumes "dh_library api objs num enc"
    "createSession api gb mb DiffieHellman_new os = (Inr (), a, os1)" "createSession api gb mb DiffieHellman_new os1 = (Inr (), b, os2)"
    "getPublicComponent api a os2 = Inr pa" "getPublicComponent api b os2 = Inr pb"
    "computeSharedSecret api pb a os2 = Inr wa" "computeSharedSecret api pa b os2 = Inr wb"
  shows "wa = wb \<and> computeSharedSecret_hashed api digest pb h a os2 hs = computeSharedSecret_hashed api digest pa h b os2 hs"
proof -
  note lib = assms(1)
  obtain p x where A: "dh a = Some p" "objs os1 = (objs os)(p \<mapsto> (be_nat gb, be_nat mb, x))"
    using dh_library.createSession_objs [OF lib assms(2)] .
  obtain q y where B: "dh b = Some q" "objs os1 q = None" "objs os2 = (objs os1)(q \<mapsto> (be_nat gb, be_nat mb, y))"
    using dh_library.createSession_objs [OF lib assms(3)] .
  have objs: "objs os2 p = Some (be_nat gb, be_nat mb, x)" "objs os2 q = Some (be_nat gb, be_nat mb, y)"
    using A B by auto
  obtain x' where x: "x = Some x'" "be_nat pa = be_nat gb ^ x' mod be_nat mb"
    using dh_library.public_value [OF lib assms(4) A(1) objs(1)] .
  obtain y' where y: "y = Some y'" "be_nat pb = be_nat gb ^ y' mod be_nat mb"
    using dh_library.public_value [OF lib assms(5) B(1) objs(2)] .
  have "wa = enc (be_nat pb ^ x' mod be_nat mb)" "wb = enc (be_nat pa ^ y' mod be_nat mb)"
    using dh_library.secret_value [OF lib assms(6) A(1)] dh_library.secret_value [OF lib assms(7) B(1)] objs x(1) y(1) by simp_all
  then have "wa = wb"
    by (simp add: x(2) y(2) power_mod mult.commute flip: power_mult)
  then show ?thesis
    using assms(6,7) by (simp add: computeSharedSecret_hashed_def)
qed

theorem DiffieHellman_agreement_witness:
  "[8 :: byte_t] = [8] \<and> computeSharedSecret_hashed small_dh trunc_digest [10] MD5 \<lparr>dh = Some 0\<rparr> [Some (5, 23, Some 2), Some (5, 23, Some 3)] 0 =
     computeSharedSecret_hashed small_dh trunc_digest [2] MD5 \<lparr>dh = Some 1\<rparr> [Some (5, 23, Some 2), Some (5, 23, Some 3)] 0"
proof (rule DiffieHellman_agreement [OF small.dh_library_axioms])
  show "createSession small_dh [5] [23] DiffieHellman_new [] = (Inr (), \<lparr>dh = Some 0\<rparr>, [Some (5, 23, Some 2)])"
    "createSession small_dh [5] [23] DiffieHellman_new [Some (5, 23, Some 2)] =
      (Inr (), \<lparr>dh = Some 1\<rparr>, [Some (5, 23, Some 2), Some (5, 23, Some 3)])"
    by code_simp+
  show "getPublicComponent small_dh \<lparr>dh = Some 0\<rparr> [Some (5, 23, Some 2), Some (5, 23, Some 3)] = Inr [2]"
    "getPublicComponent small_dh \<lparr>dh = Some 1\<rparr> [Some (5, 23, Some 2), Some (5, 23, Some 3)] = Inr [10]"
    "computeSharedSecret small_dh [10] \<lparr>dh = Some 0\<rparr> [Some (5, 23, Some 2), Some (5, 23, Some 3)] = Inr [8]"
    "computeSharedSecret small_dh [2] \<lparr>dh = Some 1\<rparr> [Some (5, 23, Some 2), Some (5, 23, Some 3)] = Inr [8]"
    by code_simp+
qed

text \<open>C26: refused parameters leave a dangling pointer. When a big number cannot be made or
  the library refuses the parameters, \<open>createSession\<close> frees the object, keeps the pointer and
  throws; the destructor of the session, or a second attempt, then frees it again, which is
  undefined behaviour.\<close>

theorem DiffieHellman_refused_double_free:
  assumes "dh_library api objs num enc" "DH_new api os = (Some p, os1)" "length gb < 2 ^ 31" "length mb < 2 ^ 31"
    and "case (BN_bin2bn api mb, BN_bin2bn api gb) of (Some m, Some g) \<Rightarrow> \<not> fst (DH_set0_pqg api p m g os1) | _ \<Rightarrow> True"
  shows "\<exists>e d os'. createSession api gb mb DiffieHellman_new os = (Inl (RUNTIME_ERROR ''createSession'' e), d, os') \<and>
    DiffieHellman_destroy api d os' = Inl DANGLING \<and> createSession api gb' mb' d os' = (Inl DANGLING, d, os')"
proof -
  obtain e os' where "createSession api gb mb DiffieHellman_new os = (Inl (RUNTIME_ERROR ''createSession'' e), \<lparr>dh = Some p\<rparr>, os')" "objs os' p = None"
    using dh_library.refused_dangling [OF assms] .
  moreover have "\<not> DH_allocated api p os'"
    using dh_library.alloc [OF assms(1)] \<open>objs os' p = None\<close> by simp
  ultimately show ?thesis
    by (auto simp: DiffieHellman_destroy_def createSession_def)
qed

theorem DiffieHellman_refused_double_free_witness:
  "\<exists>e d os'. createSession small_dh [5] [0] DiffieHellman_new [] = (Inl (RUNTIME_ERROR ''createSession'' e), d, os') \<and>
    DiffieHellman_destroy small_dh d os' = Inl DANGLING \<and> createSession small_dh [5] [23] d os' = (Inl DANGLING, d, os')"
  by (rule DiffieHellman_refused_double_free [OF small.dh_library_axioms, of _ 0 "[Some (0, 0, None)]"])
    (simp_all add: small_dh_def be_nat_def)

end
