(* ===== verification/Certificates.thy ===== *)
theory Certificates
  imports Digests OsUtilities
begin

text \<open>
  Asymmetric keys (\<^verbatim>\<open>src/src/crypto/key/EvpKey.cpp\<close>), signatures (\<^verbatim>\<open>src/src/crypto/ds/\<close>) and
  certificates (\<^verbatim>\<open>src/src/crypto/certificate/\<close>). OpenSSL is a parameter: keys are values of
  type \<open>'k\<close>, digest contexts of type \<open>'c\<close>, certificates pointers \<open>'x\<close> and names pointers \<open>'m\<close> into its
  heap \<open>'o\<close>.
\<close>

definition PEM_MAX_SIZE :: nat where
  "PEM_MAX_SIZE = 2147483647"

section \<open>EvpKey\<close>

text \<open>Reading and writing PEM. A writer answers whether it succeeded and what it wrote.\<close>

record ('k, 'o) pem_api =
  BIO_new :: "'o \<Rightarrow> bool \<times> 'o"
  BIO_new_mem_buf :: "byte_t list \<Rightarrow> 'o \<Rightarrow> bool \<times> 'o"
  BIO_free :: "'o \<Rightarrow> 'o"
  PEM_write_PUBKEY :: "'k \<Rightarrow> bool \<times> byte_t list"
  PEM_write_PrivateKey :: "'k \<Rightarrow> bool \<times> byte_t list"
  PEM_read_PUBKEY :: "byte_t list \<Rightarrow> 'k option"
  PEM_read_PrivateKey :: "byte_t list \<Rightarrow> 'k option"
  EVP_PKEY_size :: "'k \<Rightarrow> nat"
  EVP_PKEY_new :: "'k option"

record 'k EvpKey =
  sp :: 'k

definition bioToByteVector :: "byte_t list \<Rightarrow> byte_t list" where
  "bioToByteVector bufMem = bufMem"

definition keyToPem :: "('k, 'o) pem_api \<Rightarrow> string \<Rightarrow> ('k \<Rightarrow> bool \<times> byte_t list) \<Rightarrow> 'k EvpKey \<Rightarrow> 'o \<Rightarrow> byte_t list result \<times> 'o" where
  "keyToPem api fn write k os = (case BIO_new api os of (ok, os1) \<Rightarrow>
     if \<not> ok then (Inl (RUNTIME_ERROR fn ''unable to allocate bio''), os1)
     else case write (sp k) of (ok, bio) \<Rightarrow>
       if \<not> ok then (Inl (RUNTIME_ERROR fn ''unable to write key''), BIO_free api os1)
       else (Inr (bioToByteVector bio), BIO_free api os1))"

definition publicKeyToPem :: "('k, 'o) pem_api \<Rightarrow> 'k EvpKey \<Rightarrow> 'o \<Rightarrow> byte_t list result \<times> 'o" where
  "publicKeyToPem api = keyToPem api ''publicKeyToPem'' (PEM_write_PUBKEY api)"

definition privateKeyToPem :: "('k, 'o) pem_api \<Rightarrow> 'k EvpKey \<Rightarrow> 'o \<Rightarrow> byte_t list result \<times> 'o" where
  "privateKeyToPem api = keyToPem api ''privateKeyToPem'' (PEM_write_PrivateKey api)"

definition keySaveToPemFile :: "string \<Rightarrow> ('k \<Rightarrow> bool \<times> byte_t list) \<Rightarrow> string \<Rightarrow> 'k EvpKey \<Rightarrow> file_system \<Rightarrow> unit result \<times> file_system" where
  "keySaveToPemFile fn write path k fs =
     (if \<not> may_write fs path then (Inl (RUNTIME_ERROR fn ''unable to open key file''), fs)
      else case write (sp k) of (ok, bs) \<Rightarrow>
        (if ok then Inr () else Inl (RUNTIME_ERROR fn ''unable to write key file''),
         fs\<lparr>files := (files fs)(path \<mapsto> bs)\<rparr>))"

definition publicKeySaveToPemFile :: "('k, 'o) pem_api \<Rightarrow> string \<Rightarrow> 'k EvpKey \<Rightarrow> file_system \<Rightarrow> unit result \<times> file_system" where
  "publicKeySaveToPemFile api = keySaveToPemFile ''publicKeySaveToPemFile'' (PEM_write_PUBKEY api)"

definition privateKeySaveToPemFile :: "('k, 'o) pem_api \<Rightarrow> string \<Rightarrow> 'k EvpKey \<Rightarrow> file_system \<Rightarrow> unit result \<times> file_system" where
  "privateKeySaveToPemFile api = keySaveToPemFile ''privateKeySaveToPemFile'' (PEM_write_PrivateKey api)"

definition maxOutputBufferSize :: "('k, 'o) pem_api \<Rightarrow> 'k EvpKey \<Rightarrow> size_t" where
  "maxOutputBufferSize api k = of_nat (EVP_PKEY_size api (sp k))"

definition fromOpenSslEvpKey :: "'k option \<Rightarrow> 'k EvpKey result" where
  "fromOpenSslEvpKey k = (case k of None \<Rightarrow> Inl (RUNTIME_ERROR ''fromOpenSslEvpKey'' ''evpKeyLegacy is NULL'') | Some p \<Rightarrow> Inr \<lparr>sp = p\<rparr>)"

definition newEmptyEvpKey :: "('k, 'o) pem_api \<Rightarrow> 'k EvpKey result" where
  "newEmptyEvpKey api = fromOpenSslEvpKey (EVP_PKEY_new api)"

definition fromKeyPem :: "('k, 'o) pem_api \<Rightarrow> string \<Rightarrow> (byte_t list \<Rightarrow> 'k option) \<Rightarrow> byte_t list \<Rightarrow> 'o \<Rightarrow> 'k EvpKey result \<times> 'o" where
  "fromKeyPem api fn read data os =
     (if length data > PEM_MAX_SIZE \<or> length data = 0 then (Inl (RUNTIME_ERROR fn ''invalid size''), os)
      else case BIO_new_mem_buf api data os of (ok, os1) \<Rightarrow>
        if \<not> ok then (Inl (RUNTIME_ERROR fn ''unable to allocate bio''), os1)
        else case read data of
          None \<Rightarrow> (Inl (RUNTIME_ERROR fn ''unable to generate EVP_PKEY from bio''), BIO_free api os1)
        | Some evp \<Rightarrow> (fromOpenSslEvpKey (Some evp), BIO_free api os1))"

definition fromPublicKeyPem :: "('k, 'o) pem_api \<Rightarrow> byte_t list \<Rightarrow> 'o \<Rightarrow> 'k EvpKey result \<times> 'o" where
  "fromPublicKeyPem api = fromKeyPem api ''fromPublicKeyPem'' (PEM_read_PUBKEY api)"

definition fromPrivateKeyPem :: "('k, 'o) pem_api \<Rightarrow> byte_t list \<Rightarrow> 'o \<Rightarrow> 'k EvpKey result \<times> 'o" where
  "fromPrivateKeyPem api = fromKeyPem api ''fromPrivateKeyPem'' (PEM_read_PrivateKey api)"

text \<open>The string overloads pass the terminating zero along.\<close>

definition fromPublicKeyPem_string :: "('k, 'o) pem_api \<Rightarrow> byte_t list \<Rightarrow> 'o \<Rightarrow> 'k EvpKey result \<times> 'o" where
  "fromPublicKeyPem_string api data = fromPublicKeyPem api (data @ [0])"

definition fromPrivateKeyPem_string :: "('k, 'o) pem_api \<Rightarrow> byte_t list \<Rightarrow> 'o \<Rightarrow> 'k EvpKey result \<times> 'o" where
  "fromPrivateKeyPem_string api data = fromPrivateKeyPem api (data @ [0])"

definition fromPublicKeyPemFile :: "('k, 'o) pem_api \<Rightarrow> string \<Rightarrow> file_system \<Rightarrow> 'o \<Rightarrow> 'k EvpKey result \<times> 'o" where
  "fromPublicKeyPemFile api path fs os = (case readFileContent standardIoErrorEventHandler path fs of
     Inl e \<Rightarrow> (Inl e, os) | Inr data \<Rightarrow> fromPublicKeyPem api data os)"

definition fromPrivateKeyPemFile :: "('k, 'o) pem_api \<Rightarrow> string \<Rightarrow> file_system \<Rightarrow> 'o \<Rightarrow> 'k EvpKey result \<times> 'o" where
  "fromPrivateKeyPemFile api path fs os = (case readFileContent standardIoErrorEventHandler path fs of
     Inl e \<Rightarrow> (Inl e, os) | Inr data \<Rightarrow> fromPrivateKeyPem api data os)"

section \<open>Signer and Verifier\<close>

record ('c, 'k, 'o) sign_api =
  sig_CTX_create :: "'o \<Rightarrow> 'c option \<times> 'o"
  sig_CTX_destroy :: "'c \<Rightarrow> 'o \<Rightarrow> 'o"
  EVP_SignInit :: "'c \<Rightarrow> HashAlgorithm \<Rightarrow> bool \<times> 'c"
  EVP_SignUpdate :: "'c \<Rightarrow> byte_t list \<Rightarrow> bool \<times> 'c"
  EVP_SignFinal :: "'c \<Rightarrow> 'k \<Rightarrow> byte_t list option \<times> 'c"
  EVP_VerifyInit :: "'c \<Rightarrow> HashAlgorithm \<Rightarrow> bool \<times> 'c"
  EVP_VerifyUpdate :: "'c \<Rightarrow> byte_t list \<Rightarrow> bool \<times> 'c"
  EVP_VerifyFinal :: "'c \<Rightarrow> byte_t list \<Rightarrow> 'k \<Rightarrow> int \<times> 'c"
  sig_PKEY_size :: "'k \<Rightarrow> nat"

record 'c Signer =
  sig_ctx :: 'c

definition Signer_new :: "('c, 'k, 'o) sign_api \<Rightarrow> 'o \<Rightarrow> 'c Signer result \<times> 'o" where
  "Signer_new api os = (case sig_CTX_create api os of
     (None, os1) \<Rightarrow> (Inl (RUNTIME_ERROR ''Signer'' ''EVP_MD_CTX_create failed''), os1)
   | (Some c, os1) \<Rightarrow> (case EVP_SignInit api c SHA256 of (ok, c1) \<Rightarrow>
       if ok then (Inr \<lparr>sig_ctx = c1\<rparr>, os1)
       else (Inl (RUNTIME_ERROR ''Signer'' ''EVP_SignInit failed''), sig_CTX_destroy api c1 os1)))"

definition Signer_destroy :: "('c, 'k, 'o) sign_api \<Rightarrow> 'c Signer \<Rightarrow> 'o \<Rightarrow> 'o" where
  "Signer_destroy api s os = sig_CTX_destroy api (sig_ctx s) os"

definition Signer_update :: "('c, 'k, 'o) sign_api \<Rightarrow> byte_t list \<Rightarrow> 'c Signer \<Rightarrow> unit result \<times> 'c Signer" where
  "Signer_update api source s = (case EVP_SignUpdate api (sig_ctx s) source of (ok, c1) \<Rightarrow>
     (if ok then Inr () else Inl (RUNTIME_ERROR ''update'' ''EVP_SignUpdate failed''), \<lparr>sig_ctx = c1\<rparr>))"

text \<open>\<open>finalize\<close> into memory and into a vector of the key's maximal output.\<close>

definition Signer_finalize :: "('c, 'k, 'o) sign_api \<Rightarrow> 'k EvpKey \<Rightarrow> byte_t list \<Rightarrow> 'c Signer \<Rightarrow> (size_t \<times> byte_t list) result \<times> 'c Signer" where
  "Signer_finalize api privKey outSign s = (case EVP_SignFinal api (sig_ctx s) (sp privKey) of
     (None, c1) \<Rightarrow> (Inl (RUNTIME_ERROR ''finalize'' ''EVP_SignFinal failed''), \<lparr>sig_ctx = c1\<rparr>)
   | (Some w, c1) \<Rightarrow> (bind_result (memcpy_to outSign 0 w) (\<lambda>out. Inr (of_nat (length w), out)), \<lparr>sig_ctx = c1\<rparr>))"

definition Signer_finalize_vec :: "('c, 'k, 'o) sign_api \<Rightarrow> 'k EvpKey \<Rightarrow> 'c Signer \<Rightarrow> byte_t list result \<times> 'c Signer" where
  "Signer_finalize_vec api privKey s =
     (case safeNumericCast DWORD SIZE_T (int (sig_PKEY_size api (sp privKey))) of
        Inl e \<Rightarrow> (Inl e, s)
      | Inr n \<Rightarrow> (case Signer_finalize api privKey (replicate (nat n) 0) s of (r, s1) \<Rightarrow>
          (bind_result r (\<lambda>(n, dest). Inr (resize (unat n) dest)), s1)))"

definition Signer_sign_vec :: "('c, 'k, 'o) sign_api \<Rightarrow> 'k EvpKey \<Rightarrow> byte_t list \<Rightarrow> 'o \<Rightarrow> byte_t list result \<times> 'o" where
  "Signer_sign_vec api privKey source os = (case Signer_new api os of
     (Inl e, os1) \<Rightarrow> (Inl e, os1)
   | (Inr s, os1) \<Rightarrow> (case Signer_update api source s of
       (Inl e, s1) \<Rightarrow> (Inl e, Signer_destroy api s1 os1)
     | (Inr _, s1) \<Rightarrow> (case Signer_finalize_vec api privKey s1 of (r, s2) \<Rightarrow> (r, Signer_destroy api s2 os1))))"

definition Signer_sign :: "('c, 'k, 'o) sign_api \<Rightarrow> 'k EvpKey \<Rightarrow> byte_t list \<Rightarrow> byte_t list \<Rightarrow> 'o \<Rightarrow> (size_t \<times> byte_t list) result \<times> 'o" where
  "Signer_sign api privKey source dest os = (case Signer_new api os of
     (Inl e, os1) \<Rightarrow> (Inl e, os1)
   | (Inr s, os1) \<Rightarrow> (case Signer_update api source s of
       (Inl e, s1) \<Rightarrow> (Inl e, Signer_destroy api s1 os1)
     | (Inr _, s1) \<Rightarrow> (case Signer_finalize api privKey dest s1 of (r, s2) \<Rightarrow> (r, Signer_destroy api s2 os1))))"

record 'c Verifier =
  ver_ctx :: 'c

definition Verifier_new :: "('c, 'k, 'o) sign_api \<Rightarrow> 'o \<Rightarrow> 'c Verifier result \<times> 'o" where
  "Verifier_new api os = (case sig_CTX_create api os of
     (None, os1) \<Rightarrow> (Inl (RUNTIME_ERROR ''Verifier'' ''EVP_MD_CTX_create failed''), os1)
   | (Some c, os1) \<Rightarrow> (case EVP_VerifyInit api c SHA256 of (ok, c1) \<Rightarrow>
       if ok then (Inr \<lparr>ver_ctx = c1\<rparr>, os1)
       else (Inl (RUNTIME_ERROR ''Verifier'' ''EVP_VerifyInit failed''), sig_CTX_destroy api c1 os1)))"

definition Verifier_destroy :: "('c, 'k, 'o) sign_api \<Rightarrow> 'c Verifier \<Rightarrow> 'o \<Rightarrow> 'o" where
  "Verifier_destroy api v os = sig_CTX_destroy api (ver_ctx v) os"

definition Verifier_update :: "('c, 'k, 'o) sign_api \<Rightarrow> byte_t list \<Rightarrow> 'c Verifier \<Rightarrow> unit result \<times> 'c Verifier" where
  "Verifier_update api source v = (case EVP_VerifyUpdate api (ver_ctx v) source of (ok, c1) \<Rightarrow>
     (if ok then Inr () else Inl (RUNTIME_ERROR ''update'' ''EVP_VerifyUpdate failed''), \<lparr>ver_ctx = c1\<rparr>))"

definition Verifier_finalize :: "('c, 'k, 'o) sign_api \<Rightarrow> 'k EvpKey \<Rightarrow> byte_t list \<Rightarrow> 'c Verifier \<Rightarrow> bool result \<times> 'c Verifier" where
  "Verifier_finalize api pubKey sign v = (case safeNumericCast DWORD SIZE_T (int (length sign)) of
     Inl e \<Rightarrow> (Inl e, v)
   | Inr n \<Rightarrow> (case EVP_VerifyFinal api (ver_ctx v) sign (sp pubKey) of (ret, c1) \<Rightarrow> (Inr (ret = 1), \<lparr>ver_ctx = c1\<rparr>)))"

definition Verifier_verify :: "('c, 'k, 'o) sign_api \<Rightarrow> 'k EvpKey \<Rightarrow> byte_t list \<Rightarrow> byte_t list \<Rightarrow> 'o \<Rightarrow> bool result \<times> 'o" where
  "Verifier_verify api pubKey source sign os = (case Verifier_new api os of
     (Inl e, os1) \<Rightarrow> (Inl e, os1)
   | (Inr v, os1) \<Rightarrow> (case Verifier_update api source v of
       (Inl e, v1) \<Rightarrow> (Inl e, Verifier_destroy api v1 os1)
     | (Inr _, v1) \<Rightarrow> (case Verifier_finalize api pubKey sign v1 of (r, v2) \<Rightarrow> (r, Verifier_destroy api v2 os1))))"

section \<open>X509Certificate\<close>

record ('x, 'm, 'k, 'o) x509_api =
  X509_new :: "'o \<Rightarrow> 'x option \<times> 'o"
  i2d_X509 :: "'x \<Rightarrow> 'o \<Rightarrow> byte_t list option"
  d2i_X509 :: "byte_t list \<Rightarrow> 'o \<Rightarrow> 'x option \<times> 'o"
  PEM_write_X509 :: "'x \<Rightarrow> 'o \<Rightarrow> byte_t list option"
  PEM_read_X509 :: "byte_t list \<Rightarrow> 'o \<Rightarrow> 'x option \<times> 'o"
  x509_BIO_new :: "'o \<Rightarrow> bool \<times> 'o"
  x509_BIO_new_mem_buf :: "byte_t list \<Rightarrow> 'o \<Rightarrow> bool \<times> 'o"
  x509_BIO_free :: "'o \<Rightarrow> 'o"
  X509_get_pubkey :: "'x \<Rightarrow> 'o \<Rightarrow> 'k option"
  X509_sign :: "'x \<Rightarrow> 'k \<Rightarrow> HashAlgorithm \<Rightarrow> 'o \<Rightarrow> bool \<times> 'o"
  X509_NAME_new :: "'o \<Rightarrow> 'm option \<times> 'o"
  X509_NAME_add_entry_by_txt :: "'m \<Rightarrow> string \<Rightarrow> string \<Rightarrow> 'o \<Rightarrow> bool \<times> 'o"
  X509_NAME_oneline :: "'m \<Rightarrow> 'o \<Rightarrow> string option"
  X509_get_subject_name :: "'x \<Rightarrow> 'o \<Rightarrow> 'm option"
  X509_set_subject_name :: "'x \<Rightarrow> 'm \<Rightarrow> 'o \<Rightarrow> bool \<times> 'o"
  X509_get_issuer_name :: "'x \<Rightarrow> 'o \<Rightarrow> 'm option"
  X509_set_issuer_name :: "'x \<Rightarrow> 'm \<Rightarrow> 'o \<Rightarrow> bool \<times> 'o"

record 'x X509Certificate =
  cert_ptr :: 'x

definition toDer :: "('x, 'm, 'k, 'o) x509_api \<Rightarrow> 'x X509Certificate \<Rightarrow> 'o \<Rightarrow> byte_t list result" where
  "toDer api c os = (case i2d_X509 api (cert_ptr c) os of
     None \<Rightarrow> Inl (RUNTIME_ERROR ''toDer'' ''i2d_X509 failed'')
   | Some buf \<Rightarrow> Inr buf)"

definition toPem :: "('x, 'm, 'k, 'o) x509_api \<Rightarrow> 'x X509Certificate \<Rightarrow> 'o \<Rightarrow> byte_t list result \<times> 'o" where
  "toPem api c os = (case x509_BIO_new api os of (ok, os1) \<Rightarrow>
     if \<not> ok then (Inl (RUNTIME_ERROR ''toPem'' ''unable to allocate bio''), os1)
     else case PEM_write_X509 api (cert_ptr c) os1 of
       None \<Rightarrow> (Inl (RUNTIME_ERROR ''toPem'' ''unable to write certificate to bio''), x509_BIO_free api os1)
     | Some bio \<Rightarrow> (Inr (bioToByteVector bio), x509_BIO_free api os1))"

definition getPublicKey :: "('x, 'm, 'k, 'o) x509_api \<Rightarrow> 'x X509Certificate \<Rightarrow> 'o \<Rightarrow> 'k EvpKey result" where
  "getPublicKey api c os = (case X509_get_pubkey api (cert_ptr c) os of
     None \<Rightarrow> Inl (RUNTIME_ERROR ''getPublicKey'' ''X509_get_pubkey failed. Malformed certificate?'')
   | Some pubKey \<Rightarrow> fromOpenSslEvpKey (Some pubKey))"

definition X509Certificate_sign :: "('x, 'm, 'k, 'o) x509_api \<Rightarrow> 'k EvpKey \<Rightarrow> 'x X509Certificate \<Rightarrow> 'o \<Rightarrow> unit result \<times> 'o" where
  "X509Certificate_sign api privKey c os = (case X509_sign api (cert_ptr c) (sp privKey) SHA1 os of (ok, os1) \<Rightarrow>
     (if ok then Inr () else Inl (RUNTIME_ERROR ''sign'' ''X509_sign failed''), os1))"

text \<open>The subject's and the issuer's name are read and written by the same steps.\<close>

definition name_oneline :: "('x, 'm, 'k, 'o) x509_api \<Rightarrow> string \<Rightarrow> string \<Rightarrow> 'm option \<Rightarrow> 'o \<Rightarrow> string result" where
  "name_oneline api fn msg x509Name os = (case x509Name of
     None \<Rightarrow> Inl (RUNTIME_ERROR fn msg)
   | Some m \<Rightarrow> (case X509_NAME_oneline api m os of
       None \<Rightarrow> Inl (RUNTIME_ERROR fn ''X509_NAME_oneline failed'')
     | Some str \<Rightarrow> Inr str))"

definition store_name :: "('x, 'm, 'k, 'o) x509_api \<Rightarrow> ('m \<Rightarrow> 'o \<Rightarrow> bool \<times> 'o) \<Rightarrow> string \<Rightarrow> string \<Rightarrow> string \<Rightarrow> string \<Rightarrow> 'm \<Rightarrow> 'o \<Rightarrow> unit result \<times> 'o" where
  "store_name api set_name fn msg field val m os = (case X509_NAME_add_entry_by_txt api m field val os of (ok, os1) \<Rightarrow>
     if \<not> ok then (Inl (RUNTIME_ERROR fn ''X509_NAME_add_entry_by_txt failed''), os1)
     else case set_name m os1 of (ok, os2) \<Rightarrow> (if ok then Inr () else Inl (RUNTIME_ERROR fn msg), os2))"

definition set_name :: "('x, 'm, 'k, 'o) x509_api \<Rightarrow> ('m \<Rightarrow> 'o \<Rightarrow> bool \<times> 'o) \<Rightarrow> string \<Rightarrow> string \<Rightarrow> string \<Rightarrow> string \<Rightarrow> 'o \<Rightarrow> unit result \<times> 'o" where
  "set_name api setter fn msg field val os = (case X509_NAME_new api os of
     (None, os1) \<Rightarrow> (Inl (RUNTIME_ERROR fn ''X509_NAME_new failed''), os1)
   | (Some m, os1) \<Rightarrow> store_name api setter fn msg field val m os1)"

definition getSubjectName :: "('x, 'm, 'k, 'o) x509_api \<Rightarrow> 'x X509Certificate \<Rightarrow> 'o \<Rightarrow> string result" where
  "getSubjectName api c os = name_oneline api ''getSubjectName'' ''X509_get_subject_name failed. Malformed certificate?''
     (X509_get_subject_name api (cert_ptr c) os) os"

definition setSubjectName :: "('x, 'm, 'k, 'o) x509_api \<Rightarrow> string \<Rightarrow> string \<Rightarrow> 'x X509Certificate \<Rightarrow> 'o \<Rightarrow> unit result \<times> 'o" where
  "setSubjectName api field val c os =
     set_name api (X509_set_subject_name api (cert_ptr c)) ''setSubjectName'' ''X509_set_subject_name failed'' field val os"

definition addSubjectName :: "('x, 'm, 'k, 'o) x509_api \<Rightarrow> string \<Rightarrow> string \<Rightarrow> 'x X509Certificate \<Rightarrow> 'o \<Rightarrow> unit result \<times> 'o" where
  "addSubjectName api field val c os = (case X509_get_subject_name api (cert_ptr c) os of
     None \<Rightarrow> (Inl (RUNTIME_ERROR ''addSubjectName'' ''X509_get_subject_name failed''), os)
   | Some m \<Rightarrow> store_name api (X509_set_subject_name api (cert_ptr c)) ''addSubjectName'' ''X509_set_subject_name failed'' field val m os)"

definition getIssuerName :: "('x, 'm, 'k, 'o) x509_api \<Rightarrow> 'x X509Certificate \<Rightarrow> 'o \<Rightarrow> string result" where
  "getIssuerName api c os = name_oneline api ''getIssuerName'' ''X509_get_issuer_name failed. Malformed certificate?''
     (X509_get_issuer_name api (cert_ptr c) os) os"

definition setIssuerName :: "('x, 'm, 'k, 'o) x509_api \<Rightarrow> string \<Rightarrow> string \<Rightarrow> 'x X509Certificate \<Rightarrow> 'o \<Rightarrow> unit result \<times> 'o" where
  "setIssuerName api field val c os =
     set_name api (X509_set_issuer_name api (cert_ptr c)) ''setIssuerName'' ''X509_set_issuer_name failed'' field val os"

definition addIssuerName :: "('x, 'm, 'k, 'o) x509_api \<Rightarrow> string \<Rightarrow> string \<Rightarrow> 'x X509Certificate \<Rightarrow> 'o \<Rightarrow> unit result \<times> 'o" where
  "addIssuerName api field val c os = (case X509_get_issuer_name api (cert_ptr c) os of
     None \<Rightarrow> (Inl (RUNTIME_ERROR ''addIssuerName'' ''X509_get_issuer_name failed''), os)
   | Some m \<Rightarrow> store_name api (X509_set_issuer_name api (cert_ptr c)) ''addIssuerName'' ''X509_set_issuer_name failed'' field val m os)"

definition newEmptyX509Certificate :: "('x, 'm, 'k, 'o) x509_api \<Rightarrow> 'o \<Rightarrow> 'x X509Certificate result \<times> 'o" where
  "newEmptyX509Certificate api os = (case X509_new api os of
     (None, os1) \<Rightarrow> (Inl (RUNTIME_ERROR ''newEmptyX509Certificate'' ''X509_new failed''), os1)
   | (Some x, os1) \<Rightarrow> (Inr \<lparr>cert_ptr = x\<rparr>, os1))"

definition fromDer :: "('x, 'm, 'k, 'o) x509_api \<Rightarrow> byte_t list \<Rightarrow> 'o \<Rightarrow> 'x X509Certificate result \<times> 'o" where
  "fromDer api der os =
     (if length der > 2 ^ 63 - 1 then (Inl (RUNTIME_ERROR ''fromDer'' ''derSize too big''), os)
      else case d2i_X509 api der os of
        (None, os1) \<Rightarrow> (Inl (RUNTIME_ERROR ''fromDer'' ''d2i_X509 failed''), os1)
      | (Some x, os1) \<Rightarrow> (Inr \<lparr>cert_ptr = x\<rparr>, os1))"

definition fromPem :: "('x, 'm, 'k, 'o) x509_api \<Rightarrow> byte_t list \<Rightarrow> 'o \<Rightarrow> 'x X509Certificate result \<times> 'o" where
  "fromPem api pem os =
     (if length pem > PEM_MAX_SIZE \<or> length pem = 0 then (Inl (RUNTIME_ERROR ''fromPem'' ''invaldi size''), os)
      else case x509_BIO_new_mem_buf api pem os of (ok, os1) \<Rightarrow>
        if \<not> ok then (Inl (RUNTIME_ERROR ''fromPem'' ''unable to allocate bio''), os1)
        else case PEM_read_X509 api pem os1 of (x, os2) \<Rightarrow>
          (case x of None \<Rightarrow> Inl (RUNTIME_ERROR ''fromPem'' ''unable to generate X509 from bio'') | Some x \<Rightarrow> Inr \<lparr>cert_ptr = x\<rparr>,
           x509_BIO_free api os2))"

definition fromPem_string :: "('x, 'm, 'k, 'o) x509_api \<Rightarrow> byte_t list \<Rightarrow> 'o \<Rightarrow> 'x X509Certificate result \<times> 'o" where
  "fromPem_string api pem = fromPem api (pem @ [0])"

definition fromDerFile :: "('x, 'm, 'k, 'o) x509_api \<Rightarrow> string \<Rightarrow> file_system \<Rightarrow> 'o \<Rightarrow> 'x X509Certificate result \<times> 'o" where
  "fromDerFile api path fs os = (case readFileContent standardIoErrorEventHandler path fs of
     Inl e \<Rightarrow> (Inl e, os) | Inr der \<Rightarrow> fromDer api der os)"

definition fromPemFile :: "('x, 'm, 'k, 'o) x509_api \<Rightarrow> string \<Rightarrow> file_system \<Rightarrow> 'o \<Rightarrow> 'x X509Certificate result \<times> 'o" where
  "fromPemFile api path fs os = (case readFileContent standardIoErrorEventHandler path fs of
     Inl e \<Rightarrow> (Inl e, os) | Inr pem \<Rightarrow> fromPem api pem os)"

section \<open>X509Store\<close>

record ('s, 'x, 'r, 'o) store_api =
  X509_STORE_new :: "'o \<Rightarrow> 's option \<times> 'o"
  X509_STORE_set_flags :: "'s \<Rightarrow> 'o \<Rightarrow> 'o"
  X509_STORE_free :: "'s \<Rightarrow> 'o \<Rightarrow> 'o"
  X509_STORE_add_cert :: "'s \<Rightarrow> 'x \<Rightarrow> 'o \<Rightarrow> bool \<times> 'o"
  PEM_read_X509_CRL :: "byte_t list \<Rightarrow> 'o \<Rightarrow> 'r option \<times> 'o"
  X509_STORE_add_crl :: "'s \<Rightarrow> 'r \<Rightarrow> 'o \<Rightarrow> bool \<times> 'o"
  X509_CRL_free :: "'r \<Rightarrow> 'o \<Rightarrow> 'o"
  X509_STORE_CTX_new :: "'o \<Rightarrow> bool \<times> 'o"
  X509_STORE_CTX_init :: "'s \<Rightarrow> 'x \<Rightarrow> 'o \<Rightarrow> bool"
  X509_verify_cert :: "'s \<Rightarrow> 'x \<Rightarrow> 'o \<Rightarrow> int"
  X509_STORE_CTX_free :: "'o \<Rightarrow> 'o"

record ('s, 'x) X509Store =
  nativeStore :: 's
  certSet :: "'x list"

definition X509Store_new :: "('s, 'x, 'r, 'o) store_api \<Rightarrow> 'o \<Rightarrow> ('s, 'x) X509Store result \<times> 'o" where
  "X509Store_new api os = (case X509_STORE_new api os of
     (None, os1) \<Rightarrow> (Inl (RUNTIME_ERROR ''X509Store'' ''X509_STORE_new failed''), os1)
   | (Some s, os1) \<Rightarrow> (Inr \<lparr>nativeStore = s, certSet = []\<rparr>, X509_STORE_set_flags api s os1))"

definition X509Store_destroy :: "('s, 'x, 'r, 'o) store_api \<Rightarrow> ('s, 'x) X509Store \<Rightarrow> 'o \<Rightarrow> 'o" where
  "X509Store_destroy api st os = X509_STORE_free api (nativeStore st) os"

definition addCertificate :: "('s, 'x, 'r, 'o) store_api \<Rightarrow> 'x X509Certificate \<Rightarrow> ('s, 'x) X509Store \<Rightarrow> 'o
    \<Rightarrow> unit result \<times> ('s, 'x) X509Store \<times> 'o" where
  "addCertificate api certificate st os = (case X509_STORE_add_cert api (nativeStore st) (cert_ptr certificate) os of (ok, os1) \<Rightarrow>
     (if ok then Inr () else Inl (RUNTIME_ERROR ''addCertificate'' ''X509_STORE_add_cert failed''),
      st\<lparr>certSet := List.insert (cert_ptr certificate) (certSet st)\<rparr>, os1))"

definition addCrlFromPemFile :: "('s, 'x, 'r, 'o) store_api \<Rightarrow> string \<Rightarrow> file_system \<Rightarrow> ('s, 'x) X509Store \<Rightarrow> 'o \<Rightarrow> unit result \<times> 'o" where
  "addCrlFromPemFile api path fs st os = (case open_in path fs of
     None \<Rightarrow> (Inl (RUNTIME_ERROR ''addCrlFromPemFile'' ''Invalid filePath''), os)
   | Some bs \<Rightarrow> (case PEM_read_X509_CRL api bs os of
       (None, os1) \<Rightarrow> (Inl (RUNTIME_ERROR ''addCrlFromPemFile'' ''PEM_read_X509_CRL failed''), os1)
     | (Some crl, os1) \<Rightarrow> (case X509_STORE_add_crl api (nativeStore st) crl os1 of (ok, os2) \<Rightarrow>
         if ok then (Inr (), os2)
         else (Inl (RUNTIME_ERROR ''addCrlFromPemFile'' ''X509_STORE_add_crl failed''), X509_CRL_free api crl os2))))"

definition X509Store_verify :: "('s, 'x, 'r, 'o) store_api \<Rightarrow> 'x X509Certificate \<Rightarrow> ('s, 'x) X509Store \<Rightarrow> 'o \<Rightarrow> bool result \<times> 'o" where
  "X509Store_verify api certificate st os = (case X509_STORE_CTX_new api os of (ok, os1) \<Rightarrow>
     if \<not> ok then (Inl (RUNTIME_ERROR ''verify'' ''X509_STORE_CTX_new failed''), os1)
     else if \<not> X509_STORE_CTX_init api (nativeStore st) (cert_ptr certificate) os1
       then (Inl (RUNTIME_ERROR ''verify'' ''X509_STORE_CTX_init failed''), X509_STORE_CTX_free api os1)
     else (Inr (X509_verify_cert api (nativeStore st) (cert_ptr certificate) os1 = 1), X509_STORE_CTX_free api os1))"

section \<open>Contracts\<close>

text \<open>PEM: what was written reads back, a public key from the public part; \<open>bios\<close> counts the
  buffers in use.\<close>

locale pem_library =
  fixes api :: "('k, 'o) pem_api" and bios :: "'o \<Rightarrow> nat" and pub :: "'k \<Rightarrow> 'k"
  assumes bio_new: "BIO_new api os = (ok, os') \<Longrightarrow> bios os' = bios os + of_bool ok"
    and bio_new_buf: "BIO_new_mem_buf api bs os = (ok, os') \<Longrightarrow> bios os' = bios os + of_bool ok"
    and bio_free: "bios (BIO_free api os) = bios os - 1"
    and public_pem: "PEM_write_PUBKEY api k = (True, bs) \<Longrightarrow> bs \<noteq> [] \<and> PEM_read_PUBKEY api bs = Some (pub k)"
    and private_pem: "PEM_write_PrivateKey api k = (True, bs) \<Longrightarrow> bs \<noteq> [] \<and> PEM_read_PrivateKey api bs = Some k"
begin

lemma keyToPem_result:
  assumes "keyToPem api fn write k os = (r, os')"
  shows "bios os' = bios os" "r = Inr bs \<Longrightarrow> write (sp k) = (True, bs)"
  using assms bio_new [of os] by (auto simp: keyToPem_def bio_free bioToByteVector_def split: prod.splits if_splits)

lemma fromKeyPem_result:
  assumes "fromKeyPem api fn read bs os = (r, os')"
  shows "bios os' = bios os" "bs \<noteq> [] \<Longrightarrow> length bs \<le> PEM_MAX_SIZE \<Longrightarrow> read bs = Some k \<Longrightarrow>
    r = Inr \<lparr>sp = k\<rparr> \<or> r = Inl (RUNTIME_ERROR fn ''unable to allocate bio'')"
  using assms bio_new_buf [of bs os]
  by (auto simp: fromKeyPem_def bio_free fromOpenSslEvpKey_def split: prod.splits if_splits option.splits)

end

text \<open>Signatures: \<open>valid k m s\<close> says that \<open>s\<close> is a signature of \<open>m\<close> for the public key \<open>k\<close>.
  Verification tells by 1 that it is, by 0 that it is not and by a negative number that it failed.\<close>

locale signatures =
  fixes api :: "('c, 'k, 'o) sign_api" and live :: "'o \<Rightarrow> nat" and seen :: "'c \<Rightarrow> byte_t list option"
    and pub :: "'k \<Rightarrow> 'k" and valid :: "'k \<Rightarrow> byte_t list \<Rightarrow> byte_t list \<Rightarrow> bool"
  assumes sig_create: "sig_CTX_create api os = (co, os') \<Longrightarrow> live os' = live os + held co"
    and sig_destroy: "live (sig_CTX_destroy api c os) = live os - 1"
    and sign_init: "EVP_SignInit api c a = (True, c') \<Longrightarrow> seen c' = Some []"
    and sign_update: "EVP_SignUpdate api c d = (True, c') \<Longrightarrow> seen c = Some m \<Longrightarrow> seen c' = Some (m @ d)"
    and sign_final: "EVP_SignFinal api c k = (Some w, c') \<Longrightarrow> seen c = Some m \<Longrightarrow>
      valid (pub k) m w \<and> length w \<le> sig_PKEY_size api k"
    and verify_init: "EVP_VerifyInit api c a = (True, c') \<Longrightarrow> seen c' = Some []"
    and verify_update: "EVP_VerifyUpdate api c d = (True, c') \<Longrightarrow> seen c = Some m \<Longrightarrow> seen c' = Some (m @ d)"
    and verify_final: "EVP_VerifyFinal api c w k = (ret, c') \<Longrightarrow> seen c = Some m \<Longrightarrow> ret = 1 \<longleftrightarrow> valid k m w"
begin

lemma sign_result:
  assumes "Signer_sign_vec api k m os = (r, os')"
  shows "live os' = live os" "r = Inr s \<Longrightarrow> sig_PKEY_size api (sp k) < 2 ^ 32 \<Longrightarrow> valid (pub (sp k)) m s"
proof -
  obtain co os1 where new: "sig_CTX_create api os = (co, os1)" by fastforce
  have "live os' = live os \<and> (r = Inr s \<longrightarrow> sig_PKEY_size api (sp k) < 2 ^ 32 \<longrightarrow> valid (pub (sp k)) m s)"
  proof (cases co)
    case None
    then show ?thesis
      using assms new sig_create [OF new] by (auto simp: Signer_sign_vec_def Signer_new_def)
  next
    case (Some c)
    obtain ok1 c1 where i: "EVP_SignInit api c SHA256 = (ok1, c1)" by fastforce
    obtain ok2 c2 where u: "EVP_SignUpdate api c1 m = (ok2, c2)" by fastforce
    obtain wo c3 where f: "EVP_SignFinal api c2 (sp k) = (wo, c3)" by fastforce
    have w: "valid (pub (sp k)) m w \<and> length w \<le> sig_PKEY_size api (sp k)" if "ok1" "ok2" "wo = Some w" for w
      using sign_final [of c2 "sp k" w c3 m] sign_update [of c1 m c2 "[]"] sign_init [of c SHA256 c1] i u f that by simp
    have cast: "safeNumericCast DWORD SIZE_T (int n) = Inr (int n)" if "n < 2 ^ 32" for n
      using that by (simp add: safeNumericCast_def DWORD_def SIZE_T_def UINT64_def max_of_def static_cast_def)
    have res: "resize (unat (of_nat (length w) :: size_t)) (blit (replicate n 0) 0 w) = w" if "length w \<le> n" "n < 2 ^ 32" for w n
      using that resize_blit [of w "replicate n 0"] by (simp add: unat_of_nat_size)
    show ?thesis
      using assms new Some sig_create [OF new] i u f w
      by (cases wo; cases "sig_PKEY_size api (sp k) < 2 ^ 32")
        (auto simp: Signer_sign_vec_def Signer_new_def Signer_update_def Signer_finalize_vec_def Signer_finalize_def Signer_destroy_def
          sig_destroy cast res memcpy_to_def split: if_splits sum.splits)
  qed
  then show "live os' = live os" "r = Inr s \<Longrightarrow> sig_PKEY_size api (sp k) < 2 ^ 32 \<Longrightarrow> valid (pub (sp k)) m s"
    by blast+
qed

lemma verify_result:
  assumes "Verifier_verify api k m s os = (r, os')"
  shows "live os' = live os" "r = Inr b \<Longrightarrow> b \<longleftrightarrow> valid (sp k) m s"
proof -
  obtain co os1 where new: "sig_CTX_create api os = (co, os1)" by fastforce
  have "live os' = live os \<and> (r = Inr b \<longrightarrow> b = valid (sp k) m s)"
  proof (cases co)
    case None
    then show ?thesis
      using assms new sig_create [OF new] by (auto simp: Verifier_verify_def Verifier_new_def)
  next
    case (Some c)
    obtain ok1 c1 where i: "EVP_VerifyInit api c SHA256 = (ok1, c1)" by fastforce
    obtain ok2 c2 where u: "EVP_VerifyUpdate api c1 m = (ok2, c2)" by fastforce
    obtain ret c3 where f: "EVP_VerifyFinal api c2 s (sp k) = (ret, c3)" by fastforce
    have "ret = 1 \<longleftrightarrow> valid (sp k) m s" if "ok1" "ok2"
      using verify_final [OF f, of m] verify_update [of c1 m c2 "[]"] verify_init [of c SHA256 c1] i u that by simp
    then show ?thesis
      using assms new Some sig_create [OF new] i u f
      by (auto simp: Verifier_verify_def Verifier_new_def Verifier_update_def Verifier_finalize_def Verifier_destroy_def
          sig_destroy split: if_splits sum.splits)
  qed
  then show "live os' = live os" "r = Inr b \<Longrightarrow> b \<longleftrightarrow> valid (sp k) m s"
    by blast+
qed

end

text \<open>Names: \<open>entries\<close> of each name, the name each certificate has as its \<open>subj\<close>, and the number
  of names in use, those inside certificates included. Setting a name stores a copy in place of
  the old one.\<close>

locale x509_names =
  fixes api :: "('x, 'm, 'k, 'o) x509_api" and entries :: "'o \<Rightarrow> 'm \<Rightarrow> (string \<times> string) list"
    and subj :: "'o \<Rightarrow> 'x \<Rightarrow> 'm" and names :: "'o \<Rightarrow> nat"
  assumes name_new: "X509_NAME_new api os = (Some m, os') \<Longrightarrow> entries os' m = [] \<and> names os' = names os + 1"
    and name_add: "X509_NAME_add_entry_by_txt api m f v os = (True, os') \<Longrightarrow>
      entries os' m = entries os m @ [(f, v)] \<and> names os' = names os \<and> subj os' = subj os"
    and name_get: "X509_get_subject_name api x os = Some m \<Longrightarrow> m = subj os x"
    and name_set: "X509_set_subject_name api x m os = (True, os') \<Longrightarrow>
      entries os' (subj os' x) = entries os m \<and> names os' = names os"
begin

lemma store_subject:
  assumes "store_name api (X509_set_subject_name api x) fn msg f v m os = (Inr (), os')"
  shows "entries os' (subj os' x) = entries os m @ [(f, v)]" "names os' = names os"
  using assms name_add [of m f v os] name_set [of x m] by (fastforce simp: store_name_def split: prod.splits if_splits)+

end

section \<open>Instances\<close>

text \<open>Keys that are a number, with or without the private part; signatures that are the key
  and the start of the message; one certificate and a table of names.\<close>

definition plain_pem :: "(bool \<times> byte_t, nat) pem_api" where
  "plain_pem =
     \<lparr>BIO_new = (\<lambda>os. (True, os + 1)),
      BIO_new_mem_buf = (\<lambda>bs os. (True, os + 1)),
      BIO_free = (\<lambda>os. os - 1),
      PEM_write_PUBKEY = (\<lambda>(p, i). (True, [0, i])),
      PEM_write_PrivateKey = (\<lambda>(p, i). (p, [1, i])),
      PEM_read_PUBKEY = (\<lambda>bs. case bs of [t, i] \<Rightarrow> if t = 0 then Some (False, i) else None | _ \<Rightarrow> None),
      PEM_read_PrivateKey = (\<lambda>bs. case bs of [t, i] \<Rightarrow> if t = 1 then Some (True, i) else None | _ \<Rightarrow> None),
      EVP_PKEY_size = (\<lambda>k. 4),
      EVP_PKEY_new = None\<rparr>"

interpretation plain_pem: pem_library plain_pem "\<lambda>os. os" "\<lambda>k. (False, snd k)"
  by unfold_locales (auto simp: plain_pem_def split: prod.splits)

definition plain_sig :: "(byte_t list option, byte_t, nat) sign_api" where
  "plain_sig =
     \<lparr>sig_CTX_create = (\<lambda>os. (Some None, os + 1)),
      sig_CTX_destroy = (\<lambda>c os. os - 1),
      EVP_SignInit = (\<lambda>c a. (True, Some [])),
      EVP_SignUpdate = (\<lambda>c d. (True, map_option (\<lambda>m. m @ d) c)),
      EVP_SignFinal = (\<lambda>c k. (map_option (\<lambda>m. k # take 3 m) c, c)),
      EVP_VerifyInit = (\<lambda>c a. (True, Some [])),
      EVP_VerifyUpdate = (\<lambda>c d. (True, map_option (\<lambda>m. m @ d) c)),
      EVP_VerifyFinal = (\<lambda>c w k. (case c of Some m \<Rightarrow> if w = k # take 3 m then 1 else 0 | None \<Rightarrow> - 1, c)),
      sig_PKEY_size = (\<lambda>k. 4)\<rparr>"

interpretation plain_sig: signatures plain_sig "\<lambda>os. os" "\<lambda>c. c" "\<lambda>k. k" "\<lambda>k m w. w = k # take 3 m"
  by unfold_locales (auto simp: plain_sig_def split: if_splits)

type_synonym name_table = "(string \<times> string) list list \<times> nat"

definition table_x509 :: "(unit, nat, unit, name_table) x509_api" where
  "table_x509 =
     \<lparr>X509_new = (\<lambda>os. (Some (), os)),
      i2d_X509 = (\<lambda>x os. None),
      d2i_X509 = (\<lambda>bs os. (None, os)),
      PEM_write_X509 = (\<lambda>x os. None),
      PEM_read_X509 = (\<lambda>bs os. (None, os)),
      x509_BIO_new = (\<lambda>os. (True, os)),
      x509_BIO_new_mem_buf = (\<lambda>bs os. (True, os)),
      x509_BIO_free = (\<lambda>os. os),
      X509_get_pubkey = (\<lambda>x os. None),
      X509_sign = (\<lambda>x k a os. (True, os)),
      X509_NAME_new = (\<lambda>(ns, j). (Some (length ns), ns @ [[]], j)),
      X509_NAME_add_entry_by_txt = (\<lambda>m f v (ns, j). if m < length ns then (True, ns[m := ns ! m @ [(f, v)]], j) else (False, ns, j)),
      X509_NAME_oneline = (\<lambda>m os. None),
      X509_get_subject_name = (\<lambda>x os. Some (snd os)),
      X509_set_subject_name = (\<lambda>x m (ns, j). if m < length ns \<and> j < length ns then (True, ns[j := ns ! m], j) else (False, ns, j)),
      X509_get_issuer_name = (\<lambda>x os. None),
      X509_set_issuer_name = (\<lambda>x m os. (False, os))\<rparr>"

interpretation table: x509_names table_x509 "\<lambda>os m. if m < length (fst os) then fst os ! m else []" "\<lambda>os x. snd os" "\<lambda>os. length (fst os)"
  by unfold_locales (auto simp: table_x509_def fun_eq_iff split: if_splits)

section \<open>Properties\<close>

text \<open>a key that was printed parses back. The PEM text of a public key, in memory or in
  a file, reads back as the public part of the key, unless a buffer cannot be allocated,
  and whatever happens every buffer is freed.\<close>

theorem public_key_pem_roundtrip:
  assumes "pem_library api bios pub" "publicKeyToPem api k os = (Inr pem, os1)" "length pem \<le> PEM_MAX_SIZE"
    "may_write fs path" "may_read fs path"
  shows "case fromPublicKeyPem api pem os1 of (r, os2) \<Rightarrow> bios os1 = bios os \<and> bios os2 = bios os \<and>
      (r = Inr \<lparr>sp = pub (sp k)\<rparr> \<or> r = Inl (RUNTIME_ERROR ''fromPublicKeyPem'' ''unable to allocate bio'')) \<and>
      (\<exists>fs'. publicKeySaveToPemFile api path k fs = (Inr (), fs') \<and> fromPublicKeyPemFile api path fs' os1 = (r, os2))"
proof -
  obtain r os2 where r: "fromPublicKeyPem api pem os1 = (r, os2)" by fastforce
  have w: "bios os1 = bios os" "PEM_write_PUBKEY api (sp k) = (True, pem)"
    using pem_library.keyToPem_result [OF assms(1) assms(2) [unfolded publicKeyToPem_def]] by blast+
  note p = pem_library.public_pem [OF assms(1) w(2)]
  have "length pem < 18446744073709551616"
    using assms(3) by (simp add: PEM_MAX_SIZE_def)
  then have "\<exists>fs'. publicKeySaveToPemFile api path k fs = (Inr (), fs') \<and> fromPublicKeyPemFile api path fs' os1 = (r, os2)"
    using assms(4,5) w(2) r
    by (simp add: publicKeySaveToPemFile_def keySaveToPemFile_def fromPublicKeyPemFile_def readFileContent_def open_in_def
        Let_def unat_of_nat_size)
  moreover have "bios os2 = bios os1"
    "r = Inr \<lparr>sp = pub (sp k)\<rparr> \<or> r = Inl (RUNTIME_ERROR ''fromPublicKeyPem'' ''unable to allocate bio'')"
    using pem_library.fromKeyPem_result [OF assms(1) r [unfolded fromPublicKeyPem_def]] p assms(3) by blast+
  ultimately show ?thesis
    using r w(1) by simp
qed

theorem public_key_pem_roundtrip_witness:
  "case fromPublicKeyPem plain_pem [0, 7] 0 of (r, os2) \<Rightarrow> (0 :: nat) = 0 \<and> os2 = 0 \<and>
      (r = Inr \<lparr>sp = (False, snd (True, 7))\<rparr> \<or> r = Inl (RUNTIME_ERROR ''fromPublicKeyPem'' ''unable to allocate bio'')) \<and>
      (\<exists>fs'. publicKeySaveToPemFile plain_pem ''k'' \<lparr>sp = (True, 7)\<rparr> \<lparr>files = Map.empty, may_read = \<lambda>_. True, may_write = \<lambda>_. True\<rparr> = (Inr (), fs') \<and>
        fromPublicKeyPemFile plain_pem ''k'' fs' 0 = (r, os2))"
  using public_key_pem_roundtrip [OF plain_pem.pem_library_axioms, of "\<lparr>sp = (True, 7)\<rparr>" 0 "[0, 7]" 0
      "\<lparr>files = Map.empty, may_read = \<lambda>_. True, may_write = \<lambda>_. True\<rparr>" "''k''"]
  by (simp add: publicKeyToPem_def keyToPem_def plain_pem_def bioToByteVector_def PEM_MAX_SIZE_def)



text \<open>setting a certificate's subject leaks a name. \<open>setSubjectName\<close> makes the subject the
  one given entry and \<open>addSubjectName\<close> appends an entry to it; but the former never frees the
  name it built, of which the certificate stores a copy, so that every successful call
  leaves one more name allocated.\<close>

theorem setSubjectName_leaks:
  assumes "x509_names api entries subj names"
    "setSubjectName api f v c os = (Inr (), os1)" "addSubjectName api f' v' c os1 = (Inr (), os2)"
  shows "entries os1 (subj os1 (cert_ptr c)) = [(f, v)] \<and> names os1 = names os + 1 \<and>
    entries os2 (subj os2 (cert_ptr c)) = [(f, v), (f', v')] \<and> names os2 = names os1"
proof -
  note store = x509_names.store_subject [OF assms(1)]
  obtain m os0 where m: "X509_NAME_new api os = (Some m, os0)"
    and s: "store_name api (X509_set_subject_name api (cert_ptr c)) ''setSubjectName'' ''X509_set_subject_name failed'' f v m os0 = (Inr (), os1)"
    using assms(2) by (auto simp: setSubjectName_def set_name_def split: prod.splits option.splits)
  obtain m' where m': "X509_get_subject_name api (cert_ptr c) os1 = Some m'"
    and a: "store_name api (X509_set_subject_name api (cert_ptr c)) ''addSubjectName'' ''X509_set_subject_name failed'' f' v' m' os1 = (Inr (), os2)"
    using assms(3) by (auto simp: addSubjectName_def split: option.splits)
  show ?thesis
    using store [OF s] store [OF a] x509_names.name_new [OF assms(1) m] x509_names.name_get [OF assms(1) m'] by simp
qed

theorem setSubjectName_leaks_witness:
  "\<exists>os1 os2. setSubjectName table_x509 ''CN'' ''a'' \<lparr>cert_ptr = ()\<rparr> ([[]], 0) = (Inr (), os1) \<and>
    addSubjectName table_x509 ''O'' ''b'' \<lparr>cert_ptr = ()\<rparr> os1 = (Inr (), os2) \<and> length (fst os1) = 2 \<and> length (fst os2) = 2"
proof -
  let ?c = "\<lparr>cert_ptr = ()\<rparr>" and ?os1 = "([[(''CN'', ''a'')], [(''CN'', ''a'')]], 0) :: name_table"
    and ?os2 = "([[(''CN'', ''a''), (''O'', ''b'')], [(''CN'', ''a'')]], 0) :: name_table"
  have run: "setSubjectName table_x509 ''CN'' ''a'' ?c ([[]], 0) = (Inr (), ?os1)" "addSubjectName table_x509 ''O'' ''b'' ?c ?os1 = (Inr (), ?os2)"
    by (simp_all add: setSubjectName_def set_name_def addSubjectName_def store_name_def table_x509_def)
  then show ?thesis
    using setSubjectName_leaks [OF table.x509_names_axioms run] by auto
qed

end
