(* ===== verification/Console.thy ===== *)
theory Console
  imports OsUtilities
begin

text \<open>
  What the example programs share: a process with its console, the files and the heap of the
  libraries it calls, and programs as functions of it. A program that ends with an exception
  nobody catches leaves the process as it was at the throw.
\<close>

section \<open>Processes\<close>

record 'o process =
  cout :: string
  cin :: string
  fsys :: file_system
  heap :: 'o

type_synonym ('a, 'o) program = "'o process \<Rightarrow> 'a result \<times> 'o process"

definition and_then :: "('a, 'o) program \<Rightarrow> ('a \<Rightarrow> ('b, 'o) program) \<Rightarrow> ('b, 'o) program" where
  "and_then m f p = (case m p of (Inl e, p') \<Rightarrow> (Inl e, p') | (Inr x, p') \<Rightarrow> f x p')"

definition finish :: "'a \<Rightarrow> ('a, 'o) program" where
  "finish x p = (Inr x, p)"

definition print :: "string \<Rightarrow> (unit, 'o) program" where
  "print s p = (Inr (), p\<lparr>cout := cout p @ s\<rparr>)"

text \<open>\<^verbatim>\<open>std::cin >> s\<close>: white space is skipped, then the characters up to the next are
  taken. At the end of the input the string stays empty.\<close>

definition is_space :: "char \<Rightarrow> bool" where
  "is_space c \<longleftrightarrow> c \<in> {CHR '' '', CHR 0x09, CHR 0x0A, CHR 0x0B, CHR 0x0C, CHR 0x0D}"

definition next_word :: "string \<Rightarrow> string" where
  "next_word s = takeWhile (\<lambda>c. \<not> is_space c) (dropWhile is_space s)"

definition read_word :: "(string, 'o) program" where
  "read_word p = (Inr (next_word (cin p)),
     p\<lparr>cin := dropWhile (\<lambda>c. \<not> is_space c) (dropWhile is_space (cin p))\<rparr>)"

text \<open>Calls that may throw, calls into a library's heap and calls that read or write files.\<close>

definition compute :: "'a result \<Rightarrow> ('a, 'o) program" where
  "compute r p = (r, p)"

definition on_heap :: "('o \<Rightarrow> 'a result \<times> 'o) \<Rightarrow> ('a, 'o) program" where
  "on_heap f p = (case f (heap p) of (r, os) \<Rightarrow> (r, p\<lparr>heap := os\<rparr>))"

definition reading :: "(file_system \<Rightarrow> ('a, 'o) program) \<Rightarrow> ('a, 'o) program" where
  "reading f p = f (fsys p) p"

definition on_files :: "(file_system \<Rightarrow> 'a result \<times> file_system) \<Rightarrow> ('a, 'o) program" where
  "on_files f p = (case f (fsys p) of (r, fs) \<Rightarrow> (r, p\<lparr>fsys := fs\<rparr>))"

abbreviation newline :: string where
  "newline \<equiv> [CHR 0x0A]"

section \<open>Running a program\<close>

named_theorems run_simps "what the steps of a program do"

lemma and_then_ok [run_simps]: "m p = (Inr x, p') \<Longrightarrow> and_then m f p = f x p'"
  by (simp add: and_then_def)

lemma and_then_throws [run_simps]: "m p = (Inl e, p') \<Longrightarrow> and_then m f p = (Inl e, p')"
  by (simp add: and_then_def)

lemma on_heap_run [run_simps]: "f (heap p) = (r, os) \<Longrightarrow> on_heap f p = (r, p\<lparr>heap := os\<rparr>)"
  by (simp add: on_heap_def)

lemma on_files_run [run_simps]: "f (fsys p) = (r, fs) \<Longrightarrow> on_files f p = (r, p\<lparr>fsys := fs\<rparr>)"
  by (simp add: on_files_def)

lemmas step_simps [run_simps] = finish_def print_def read_word_def compute_def reading_def

lemma readFileContent_ok:
  "open_in path fs = Some content \<Longrightarrow> length content < 2 ^ 64 \<Longrightarrow> readFileContent eh path fs = Inr content"
  by (simp add: readFileContent_def unat_of_nat_size Let_def)

lemma readFileContent_missing: "open_in path fs = None \<Longrightarrow> readFileContent standardIoErrorEventHandler path fs =
    Inl (RUNTIME_ERROR ''standardIoErrorEventHandler'' (''Gicame::IO IO error on file'' @ path))"
  by (simp add: readFileContent_def standardIoErrorEventHandler_def)

end
