(* ===== verification/Examples_Crypto.thy ===== *)
theory Examples_Crypto
  imports Console Encryption Certificates
begin

text \<open>
  \<^verbatim>\<open>src/examples/EncryptDecryptFile/main.cpp\<close> and \<^verbatim>\<open>src/examples/DigitalSign/main.cpp\<close>: the two
  programs that put the cryptography to work on a file the user names, from the console to the
  ciphers and signatures of OpenSSL, which remains a parameter.
\<close>

section \<open>EncryptDecryptFile\<close>

definition example_iv :: "byte_t list" where
  "example_iv = [0,0,0,0,0,0,0,0,0,0,0,0,0,0,0,0]"

definition example_keyBuffer :: "byte_t list" where
  "example_keyBuffer = [1,2,3,4,5,6,7,8,9,10,11,12,13,14,15,16]"

definition EncryptDecryptFile_main :: "('c, 'o) cipher_api \<Rightarrow> (int, 'o) program" where
  "EncryptDecryptFile_main api =
     and_then (print (''Gicame example: EncryptDecryptFile'' @ newline)) (\<lambda>_.
     and_then (print ''File path: '') (\<lambda>_.
     and_then read_word (\<lambda>filePath.
     let ea = AES_128_CBC in
     and_then (compute (createSymmetricKey example_keyBuffer (enc_keySize ea))) (\<lambda>key.
     and_then (reading (\<lambda>fs. compute (readFileContent standardIoErrorEventHandler filePath fs))) (\<lambda>fileContent.
     and_then (on_heap (Encryptor_encrypt_vec api key ea example_iv fileContent)) (\<lambda>encrypted.
     and_then (on_heap (Decryptor_decrypt_vec api key ea example_iv encrypted)) (\<lambda>decrypted.
     and_then (print (''encrypted and decrypted are '' @ (if encrypted = decrypted then '''' else ''not '') @ ''equal'' @ newline)) (\<lambda>_.
     and_then (print (''fileContent and decrypted are '' @ (if fileContent = decrypted then '''' else ''not '') @ ''equal'' @ newline)) (\<lambda>_.
     and_then (on_files (writeFileContent standardIoErrorEventHandler (filePath @ ''.enc'') encrypted)) (\<lambda>_.
     finish 0))))))))))"

section \<open>DigitalSign\<close>

definition printDigitalSign :: "byte_t list \<Rightarrow> (unit, 'o) program" where
  "printDigitalSign ds =
     and_then (print ''DigitalSign: '') (\<lambda>_.
     and_then (print (concat (map (\<lambda>b. decimal (unat b) @ '' '') ds))) (\<lambda>_.
     print newline))"

definition DigitalSign_main ::
    "('k, 'o) pem_api \<Rightarrow> ('c, 'k, 'o) sign_api \<Rightarrow> ('x, 'm, 'k, 'o) x509_api \<Rightarrow> (int, 'o) program" where
  "DigitalSign_main pem sig x509 =
     and_then (print (''Gicame example: DigitalSign'' @ newline)) (\<lambda>_.
     and_then (print ''File path: '') (\<lambda>_.
     and_then read_word (\<lambda>filePath.
     and_then (reading (\<lambda>fs. compute (readFileContent standardIoErrorEventHandler filePath fs))) (\<lambda>fileContent.
     and_then (reading (\<lambda>fs. on_heap (fromPrivateKeyPemFile pem ''../../../examples-assets/KeyPairExample/privKey.pem'' fs))) (\<lambda>privKey.
     and_then (on_heap (Signer_sign_vec sig privKey fileContent)) (\<lambda>digitalSign.
     and_then (printDigitalSign digitalSign) (\<lambda>_.
     and_then (reading (\<lambda>fs. on_heap (fromPemFile x509 ''../../../examples-assets/KeyPairExample/cert.pem'' fs))) (\<lambda>certificate.
     and_then (on_heap (\<lambda>os. (getPublicKey x509 certificate os, os))) (\<lambda>pubKey.
     and_then (on_heap (Verifier_verify sig pubKey fileContent digitalSign)) (\<lambda>verified.
     and_then (print (''Digital sign is '' @ (if verified then '''' else ''not '') @ ''verified'' @ newline)) (\<lambda>_.
     finish 0)))))))))))"

section \<open>Correctness\<close>

lemma Decryptor_decrypt_vec_live:
  "evp_contexts api live \<Longrightarrow> live (snd (Decryptor_decrypt_vec api key a iv src os)) = live os"
  using evp_contexts.decrypt_live [of api live key a iv src "replicate (length src) 0" os]
  by (simp add: Decryptor_decrypt_vec_def case_prod_beta)

text \<open>The key of the example is accepted whole.\<close>

lemma example_key:
  "createSymmetricKey example_keyBuffer 16 = Inr \<lparr>buffPtr = example_keyBuffer, keySize = 16\<rparr>"
  "length example_keyBuffer = 16" "length example_iv = 16"
  by (simp_all add: createSymmetricKey_def example_keyBuffer_def example_iv_def memcpy_ok blit_def)

text \<open>The two one-shot functions with the example's key, and what they leave of the heap.\<close>

lemma example_encrypt_decrypt:
  assumes "evp_cipher api live fed E R" "length content + 16 \<le> MAX_SHOT_SIZE"
  obtains os1 os2 where
    "Encryptor_encrypt_vec api \<lparr>buffPtr = example_keyBuffer, keySize = 16\<rparr> AES_128_CBC example_iv content os =
      (Inr (E AES_128_CBC example_keyBuffer example_iv content), os1)"
    "Decryptor_decrypt_vec api \<lparr>buffPtr = example_keyBuffer, keySize = 16\<rparr> AES_128_CBC example_iv
      (E AES_128_CBC example_keyBuffer example_iv content) os1 = (Inr content, os2)" "live os2 = live os"
proof -
  let ?k = "\<lparr>buffPtr = example_keyBuffer, keySize = 16\<rparr>"
  have ctx: "evp_contexts api live"
    using assms(1) by (simp add: evp_cipher_def)
  have key: "keySize ?k = enc_keySize AES_128_CBC" "length (buffPtr ?k) = unat (keySize ?k)"
    by (simp_all add: example_key)
  obtain os1 where enc: "Encryptor_encrypt_vec api ?k AES_128_CBC example_iv content os = (Inr (E AES_128_CBC (buffPtr ?k) example_iv content), os1)"
    using evp_cipher.encrypt_vec_ok [OF assms(1) key example_key(3), of content os] assms(2) by fastforce
  obtain os2 where dec: "Decryptor_decrypt_vec api ?k AES_128_CBC example_iv (E AES_128_CBC (buffPtr ?k) example_iv content) os1 = (Inr content, os2)"
    using evp_cipher.decrypt_vec_ok [OF assms(1) key example_key(3) assms(2), of os1] by blast
  have "live os1 = live os" "live os2 = live os1"
    using evp_contexts.encrypt_vec_live [OF ctx, of ?k AES_128_CBC example_iv content os]
      Decryptor_decrypt_vec_live [OF ctx, of ?k AES_128_CBC example_iv "E AES_128_CBC (buffPtr ?k) example_iv content" os1]
    by (simp_all only: enc dec snd_conv)
  then show thesis
    using that [OF enc [simplified] dec [simplified]] by simp
qed

text \<open>C34: the program that encrypts a file. It asks for a path and takes the first word of the
  input. For every file whose content fits one call of the cipher it reports that the ciphertext
  differs from the plaintext and that the decrypted content is the one read, and writes the
  ciphertext, and nothing else, beside the file, or ends with the exception of the file layer when that file cannot
  be written; a file that cannot be read ends it before anything is encrypted. No cipher context stays allocated.\<close>

theorem EncryptDecryptFile_correct:
  assumes "evp_cipher api live fed E R" "path = next_word (cin p)"
    "\<And>content. open_in path (fsys p) = Some content \<Longrightarrow> length content + 16 \<le> MAX_SHOT_SIZE"
  shows "case EncryptDecryptFile_main api p of (r, p') \<Rightarrow> live (heap p') = live (heap p) \<and>
    (case open_in path (fsys p) of
       None \<Rightarrow> r = Inl (RUNTIME_ERROR ''standardIoErrorEventHandler'' (''Gicame::IO IO error on file'' @ path)) \<and>
         fsys p' = fsys p \<and> cout p' = cout p @ ''Gicame example: EncryptDecryptFile'' @ newline @ ''File path: ''
     | Some content \<Rightarrow>
         cout p' = cout p @ ''Gicame example: EncryptDecryptFile'' @ newline @ ''File path: '' @
           ''encrypted and decrypted are not equal'' @ newline @ ''fileContent and decrypted are equal'' @ newline \<and>
         (if may_write (fsys p) (path @ ''.enc'')
          then r = Inr 0 \<and> fsys p' = (fsys p)\<lparr>files := (files (fsys p))(path @ ''.enc'' \<mapsto>
            E AES_128_CBC example_keyBuffer example_iv content)\<rparr>
          else \<not> is_ok r \<and> fsys p' = fsys p))"
proof (cases "open_in path (fsys p)")
  case None
  then show ?thesis
    using assms(2) by (simp add: EncryptDecryptFile_main_def run_simps example_key readFileContent_missing)
next
  case (Some content)
  let ?e = "E AES_128_CBC example_keyBuffer example_iv content"
  have len: "length content + 16 \<le> MAX_SHOT_SIZE"
    using assms(3) Some by blast
  have "length ?e \<noteq> length content"
    using evp_cipher.length_E [OF assms(1)] whole_le(2) [of content] by (metis less_irrefl)
  then have ne: "?e \<noteq> content"
    by (metis (full_types))
  obtain os1 os2 where os: "Encryptor_encrypt_vec api \<lparr>buffPtr = example_keyBuffer, keySize = 16\<rparr> AES_128_CBC example_iv content (heap p) = (Inr ?e, os1)"
    "Decryptor_decrypt_vec api \<lparr>buffPtr = example_keyBuffer, keySize = 16\<rparr> AES_128_CBC example_iv ?e os1 = (Inr content, os2)"
    "live os2 = live (heap p)"
    using example_encrypt_decrypt [OF assms(1) len] .
  have "readFileContent standardIoErrorEventHandler path (fsys p) = Inr content"
    using readFileContent_ok [OF Some] len by (simp add: MAX_SHOT_SIZE_def)
  then show ?thesis
    using Some assms(2) os ne
    by (cases "may_write (fsys p) (path @ ''.enc'')")
      (simp_all add: EncryptDecryptFile_main_def run_simps example_key writeFileContent_def standardIoErrorEventHandler_def)
qed

theorem EncryptDecryptFile_correct_witness:
  "fst (EncryptDecryptFile_main padding_cipher \<lparr>cout = '''', cin = ''a '', fsys = \<lparr>files = [''a'' \<mapsto> [1, 2]], may_read = (\<lambda>_. True), may_write = (\<lambda>_. True)\<rparr>, heap = 0\<rparr>) = Inr 0"
proof -
  let ?fs = "\<lparr>files = [''a'' \<mapsto> [1, 2]], may_read = (\<lambda>_. True), may_write = (\<lambda>_. True)\<rparr>"
  let ?p = "\<lparr>cout = '''', cin = ''a '', fsys = ?fs, heap = 0\<rparr>"
  have "''a'' = next_word (cin ?p)"
    by (simp add: next_word_def is_space_def)
  from EncryptDecryptFile_correct [OF padding.evp_cipher_axioms this] show ?thesis
    by (simp add: open_in_def MAX_SHOT_SIZE_def case_prod_beta)
qed

lemma printDigitalSign_run [run_simps]:
  "printDigitalSign ds p = (Inr (), p\<lparr>cout := cout p @ ''DigitalSign: '' @ concat (map (\<lambda>b. decimal (unat b) @ '' '') ds) @ newline\<rparr>)"
  by (simp add: printDigitalSign_def run_simps)

text \<open>The assets of the signing example: a private key and a certificate of its public part.\<close>

locale key_pair = signatures sig live seen pub valid
  for sig :: "('c, 'k, 'o) sign_api" and live seen pub valid +
  fixes pem :: "('k, 'o) pem_api" and x509 :: "('x, 'm, 'k, 'o) x509_api"
    and keyPem certPem :: "byte_t list" and k :: 'k
  assumes read_key: "PEM_read_PrivateKey pem keyPem = Some k"
    and key_size: "sig_PKEY_size sig k < 2 ^ 32"
    and read_cert: "PEM_read_X509 x509 certPem os = (Some x, os') \<Longrightarrow> X509_get_pubkey x509 x os' = Some (pub k)"
    and free_keeps: "X509_get_pubkey x509 x (x509_BIO_free x509 os) = X509_get_pubkey x509 x os"
begin

lemma private_key: "fromPrivateKeyPem pem keyPem os = (Inr key, os') \<Longrightarrow> key = \<lparr>sp = k\<rparr>"
  by (auto simp: fromPrivateKeyPem_def fromKeyPem_def read_key fromOpenSslEvpKey_def split: if_splits prod.splits)

lemma certified_key: "fromPem x509 certPem os = (Inr cert, os') \<Longrightarrow> getPublicKey x509 cert os' = Inr \<lparr>sp = pub k\<rparr>"
  using read_cert by (auto simp: fromPem_def getPublicKey_def free_keeps fromOpenSslEvpKey_def split: if_splits prod.splits option.splits)

lemma signed: "Signer_sign_vec sig \<lparr>sp = k\<rparr> m os = (Inr s, os') \<Longrightarrow> valid (pub k) m s"
  using sign_result(2) [of "\<lparr>sp = k\<rparr>" m os "Inr s" os' s] key_size by simp

lemma verified: "Verifier_verify sig \<lparr>sp = pub k\<rparr> m s os = (Inr b, os') \<Longrightarrow> b = valid (pub k) m s"
  using verify_result(2) [of "\<lparr>sp = pub k\<rparr>" m s os "Inr b" os' b] by simp

lemma DigitalSign_run:
  assumes
    "open_in (next_word (cin p)) (fsys p) = Some content" "length content < 2 ^ 64"
    "open_in ''../../../examples-assets/KeyPairExample/privKey.pem'' (fsys p) = Some keyPem" "length keyPem < 2 ^ 64"
    "open_in ''../../../examples-assets/KeyPairExample/cert.pem'' (fsys p) = Some certPem" "length certPem < 2 ^ 64"
  shows "case DigitalSign_main pem sig x509 p of (r, p') \<Rightarrow>
    let prompt = cout p @ ''Gicame example: DigitalSign'' @ newline @ ''File path: '';
        signature = (\<lambda>s. ''DigitalSign: '' @ concat (map (\<lambda>b. decimal (unat b) @ '' '') s) @ newline) in
    if is_ok r then r = Inr 0 \<and> (\<exists>s. valid (pub k) content s \<and>
        cout p' = prompt @ signature s @ ''Digital sign is verified'' @ newline)
    else cout p' = prompt \<or> (\<exists>s. valid (pub k) content s \<and> cout p' = prompt @ signature s)"
proof -
  let ?path = "next_word (cin p)"
  have files: "readFileContent standardIoErrorEventHandler ?path (fsys p) = Inr content"
    "fromPrivateKeyPemFile pem ''../../../examples-assets/KeyPairExample/privKey.pem'' (fsys p) = fromPrivateKeyPem pem keyPem"
    "fromPemFile x509 ''../../../examples-assets/KeyPairExample/cert.pem'' (fsys p) = fromPem x509 certPem"
    using assms by (simp_all add: readFileContent_ok fromPrivateKeyPemFile_def fromPemFile_def fun_eq_iff)
  obtain kr os1 where key: "fromPrivateKeyPem pem keyPem (heap p) = (kr, os1)" by fastforce
  obtain sr os2 where sign: "Signer_sign_vec sig \<lparr>sp = k\<rparr> content os1 = (sr, os2)" by fastforce
  obtain cr os3 where cert: "fromPem x509 certPem os2 = (cr, os3)" by fastforce
  note run = DigitalSign_main_def run_simps files key sign cert
  consider e where "kr = Inl e" | e where "kr = Inr \<lparr>sp = k\<rparr>" "sr = Inl e"
    | s where "kr = Inr \<lparr>sp = k\<rparr>" "sr = Inr s" "valid (pub k) content s"
    using private_key key signed sign by (cases kr; cases sr) auto
  then show ?thesis
  proof cases
    case (3 s)
    obtain vr os4 where ver: "Verifier_verify sig \<lparr>sp = pub k\<rparr> content s os3 = (vr, os4)" by fastforce
    consider e where "cr = Inl e" | c e where "cr = Inr c" "getPublicKey x509 c os3 = Inr \<lparr>sp = pub k\<rparr>" "vr = Inl e"
      | c where "cr = Inr c" "getPublicKey x509 c os3 = Inr \<lparr>sp = pub k\<rparr>" "vr = Inr True"
      using certified_key cert verified ver 3(3) by (cases cr; cases vr) auto
    then show ?thesis
      using 3 by cases (auto simp: run ver)
  qed (simp_all add: run Let_def)
qed

end


text \<open>An instance: keys are one byte, the file of a key holds the key and that of the certificate too.\<close>

definition asset_pem :: "(byte_t, nat) pem_api" where
  "asset_pem =
     \<lparr>BIO_new = (\<lambda>os. (True, os + 1)),
      BIO_new_mem_buf = (\<lambda>bs os. (True, os + 1)),
      BIO_free = (\<lambda>os. os - 1),
      PEM_write_PUBKEY = (\<lambda>i. (True, [i])),
      PEM_write_PrivateKey = (\<lambda>i. (True, [i])),
      PEM_read_PUBKEY = (\<lambda>bs. case bs of [i] \<Rightarrow> Some i | _ \<Rightarrow> None),
      PEM_read_PrivateKey = (\<lambda>bs. case bs of [i] \<Rightarrow> Some i | _ \<Rightarrow> None),
      EVP_PKEY_size = (\<lambda>k. 4),
      EVP_PKEY_new = None\<rparr>"

definition asset_x509 :: "(byte_t, unit, byte_t, nat) x509_api" where
  "asset_x509 =
     \<lparr>X509_new = (\<lambda>os. (None, os)),
      i2d_X509 = (\<lambda>x os. None),
      d2i_X509 = (\<lambda>bs os. (None, os)),
      PEM_write_X509 = (\<lambda>x os. Some [x]),
      PEM_read_X509 = (\<lambda>bs os. (case bs of [x] \<Rightarrow> Some x | _ \<Rightarrow> None, os)),
      x509_BIO_new = (\<lambda>os. (True, os + 1)),
      x509_BIO_new_mem_buf = (\<lambda>bs os. (True, os + 1)),
      x509_BIO_free = (\<lambda>os. os - 1),
      X509_get_pubkey = (\<lambda>x os. Some x),
      X509_sign = (\<lambda>x k a os. (False, os)),
      X509_NAME_new = (\<lambda>os. (None, os)),
      X509_NAME_add_entry_by_txt = (\<lambda>m f v os. (False, os)),
      X509_NAME_oneline = (\<lambda>m os. None),
      X509_get_subject_name = (\<lambda>x os. None),
      X509_set_subject_name = (\<lambda>x m os. (False, os)),
      X509_get_issuer_name = (\<lambda>x os. None),
      X509_set_issuer_name = (\<lambda>x m os. (False, os))\<rparr>"

interpretation assets: key_pair plain_sig "\<lambda>os. os" "\<lambda>c. c" "\<lambda>k. k" "\<lambda>k m w. w = k # take 3 m" asset_pem asset_x509 "[9]" "[9]" 9
  by unfold_locales (auto simp: asset_pem_def asset_x509_def plain_sig_def)


end
