(* ===== verification/Examples_Semaphore.thy ===== *)
theory Examples_Semaphore
  imports Semaphore
begin

text \<open>
  \<^verbatim>\<open>src/examples/ThreadSyncWithSemaphore/main.cpp\<close>: two threads of one process and a named semaphore. Each
  thread is a step function that makes one library call or prints one line; a call that blocks is a step
  that is not enabled. The threads interleave arbitrarily.
\<close>

section \<open>The program\<close>

definition SEM_MAX_CONCURRENCY :: size_t where
  "SEM_MAX_CONCURRENCY = 1"

definition SEM_NAME :: string where
  "SEM_NAME = ''HelloSem''"

text \<open>The lines printed.\<close>

definition hello_line :: string where
  "hello_line = ''Gicame example: ThreadSyncWithSemaphore''"

definition waiting_line :: string where
  "waiting_line = ''Main thread is waiting...''"

definition release_line :: string where
  "release_line = ''Main thread release the Semaphore''"

definition main_bye_line :: string where
  "main_bye_line = ''Bye from the main thread!''"

definition critical_line :: string where
  "critical_line = ''I'm the child thread and I'm doing dodgy stuff (DiodeGoneWild's critical section)''"

definition child_bye_line :: string where
  "child_bye_line = ''Bye from the child thread!''"

datatype main_pc = M_begin | M_construct | M_acquire | M_spawn | M_loop nat | M_announce | M_release | M_join | M_bye | M_destroy | M_done

datatype child_pc = C_unborn | C_construct | C_acquire | C_critical | C_bye | C_release | C_destroy | C_done

record ('h, 'o) sync_state =
  main_at :: main_pc
  main_sem :: "'h posix_semaphore option"
  child_at :: child_pc
  child_sem :: "'h posix_semaphore option"
  sync_os :: 'o
  out :: "string list"

definition say :: "string \<Rightarrow> ('h, 'o) sync_state \<Rightarrow> ('h, 'o) sync_state" where
  "say line s = s\<lparr>out := out s @ [line]\<rparr>"

text \<open>An exception nobody catches would end the program; the calls of this one that can
  throw are the constructors, and a step that throws is not enabled. The results of \<open>acquire\<close>
  and \<open>release\<close> are not looked at.\<close>

definition do_construct :: "('h, 'o) sem_api \<Rightarrow> ('h, 'o) sync_state \<Rightarrow> ('h posix_semaphore \<times> 'o) option" where
  "do_construct api s = (case posix_InterprocessSemaphore api SEM_NAME SEM_MAX_CONCURRENCY (sync_os s) of
     Inl e \<Rightarrow> None | Inr r \<Rightarrow> Some r)"

definition do_acquire :: "('h, 'o) sem_api \<Rightarrow> 'h posix_semaphore option \<Rightarrow> ('h, 'o) sync_state \<Rightarrow> ('h, 'o) sync_state option" where
  "do_acquire api sem s = (case sem of None \<Rightarrow> None | Some h \<Rightarrow> map_option (\<lambda>(ok, os). s\<lparr>sync_os := os\<rparr>) (posix_acquire api h (sync_os s)))"

definition do_release :: "('h, 'o) sem_api \<Rightarrow> 'h posix_semaphore option \<Rightarrow> ('h, 'o) sync_state \<Rightarrow> ('h, 'o) sync_state option" where
  "do_release api sem s = (case sem of None \<Rightarrow> None | Some h \<Rightarrow> Some (s\<lparr>sync_os := snd (posix_release api h (sync_os s))\<rparr>))"

definition do_destroy :: "('h, 'o) sem_api \<Rightarrow> 'h posix_semaphore option \<Rightarrow> ('h, 'o) sync_state \<Rightarrow> ('h, 'o) sync_state option" where
  "do_destroy api sem s = (case sem of None \<Rightarrow> None | Some h \<Rightarrow> Some (s\<lparr>sync_os := posix_destroy api h (sync_os s)\<rparr>))"

fun sync_main :: "('h, 'o) sem_api \<Rightarrow> main_pc \<Rightarrow> ('h, 'o) sync_state \<Rightarrow> ('h, 'o) sync_state option" where
  "sync_main api M_begin s = Some (say hello_line s\<lparr>main_at := M_construct\<rparr>)"
| "sync_main api M_construct s = map_option (\<lambda>(h, os). s\<lparr>main_at := M_acquire, main_sem := Some h, sync_os := os\<rparr>) (do_construct api s)"
| "sync_main api M_acquire s = map_option (\<lambda>s. s\<lparr>main_at := M_spawn\<rparr>) (do_acquire api (main_sem s) s)"
| "sync_main api M_spawn s = Some (s\<lparr>main_at := M_loop 0, child_at := C_construct\<rparr>)"
| "sync_main api (M_loop i) s =
     (if i < 5 then Some (say waiting_line s\<lparr>main_at := M_loop (i + 1)\<rparr>) else Some (s\<lparr>main_at := M_announce\<rparr>))"
| "sync_main api M_announce s = Some (say release_line s\<lparr>main_at := M_release\<rparr>)"
| "sync_main api M_release s = map_option (\<lambda>s. s\<lparr>main_at := M_join\<rparr>) (do_release api (main_sem s) s)"
| "sync_main api M_join s = (if child_at s = C_done then Some (s\<lparr>main_at := M_bye\<rparr>) else None)"
| "sync_main api M_bye s = Some (say main_bye_line s\<lparr>main_at := M_destroy\<rparr>)"
| "sync_main api M_destroy s = map_option (\<lambda>s. s\<lparr>main_at := M_done\<rparr>) (do_destroy api (main_sem s) s)"
| "sync_main api M_done s = None"

fun threadBody :: "('h, 'o) sem_api \<Rightarrow> child_pc \<Rightarrow> ('h, 'o) sync_state \<Rightarrow> ('h, 'o) sync_state option" where
  "threadBody api C_unborn s = None"
| "threadBody api C_construct s = map_option (\<lambda>(h, os). s\<lparr>child_at := C_acquire, child_sem := Some h, sync_os := os\<rparr>) (do_construct api s)"
| "threadBody api C_acquire s = map_option (\<lambda>s. s\<lparr>child_at := C_critical\<rparr>) (do_acquire api (child_sem s) s)"
| "threadBody api C_critical s =
     Some (say critical_line s\<lparr>child_at := C_bye\<rparr>)"
| "threadBody api C_bye s = Some (say child_bye_line s\<lparr>child_at := C_release\<rparr>)"
| "threadBody api C_release s = map_option (\<lambda>s. s\<lparr>child_at := C_destroy\<rparr>) (do_release api (child_sem s) s)"
| "threadBody api C_destroy s = map_option (\<lambda>s. s\<lparr>child_at := C_done\<rparr>) (do_destroy api (child_sem s) s)"
| "threadBody api C_done s = None"

definition sync_start :: "'o \<Rightarrow> ('h, 'o) sync_state" where
  "sync_start os = \<lparr>main_at = M_begin, main_sem = None, child_at = C_unborn, child_sem = None, sync_os = os, out = []\<rparr>"

inductive sync_step :: "('h, 'o) sem_api \<Rightarrow> ('h, 'o) sync_state \<Rightarrow> ('h, 'o) sync_state \<Rightarrow> bool" for api where
  main_moves: "sync_main api (main_at s) s = Some s' \<Longrightarrow> sync_step api s s'"
| child_moves: "threadBody api (child_at s) s = Some s' \<Longrightarrow> sync_step api s s'"

inductive sync_run :: "('h, 'o) sem_api \<Rightarrow> 'o \<Rightarrow> nat \<Rightarrow> ('h, 'o) sync_state \<Rightarrow> bool" for api os where
  sync_init: "sync_run api os 0 (sync_start os)"
| sync_next: "sync_run api os n s \<Longrightarrow> sync_step api s s' \<Longrightarrow> sync_run api os (Suc n) s'"

section \<open>The semaphore of the system\<close>

text \<open>
  What POSIX promises of the semaphore with a given name in a process without signal handlers: whether the name is
  \<open>linked\<close>, the \<open>val\<close>ue, and which handles \<open>refer\<close> to it. Creating fails with \<^verbatim>\<open>EEXIST\<close> when it
  exists; opening gives a handle and leaves the others valid; waiting takes a unit or blocks;
  posting gives one.
\<close>

locale named_semaphore =
  fixes api :: "('h, 'o) sem_api" and linked :: "'o \<Rightarrow> bool" and val :: "'o \<Rightarrow> nat" and refers :: "'o \<Rightarrow> 'h \<Rightarrow> bool"
    and n :: string
  assumes open_new: "\<not> linked os \<Longrightarrow> \<exists>h e os'. sem_open_new api n v os = (Some h, e, os') \<and> linked os' \<and> val os' = unat v \<and> refers os' h"
    and open_busy: "linked os \<Longrightarrow> \<exists>os'. sem_open_new api n v os = (None, EEXIST, os') \<and> linked os' \<and> val os' = val os \<and> refers os \<le> refers os'"
    and open_old: "linked os \<Longrightarrow> \<exists>h e os'. sem_open_old api n os = (Some h, e, os') \<and> linked os' \<and> val os' = val os \<and>
      refers os \<le> refers os' \<and> refers os' h"
    and wait_takes: "refers os h \<Longrightarrow> val os = Suc m \<Longrightarrow> \<exists>e os'. sem_wait api (Some h) os = Some (0, e, os') \<and> val os' = m \<and>
      linked os' = linked os \<and> refers os' = refers os"
    and wait_blocks: "refers os h \<Longrightarrow> val os = 0 \<Longrightarrow> sem_wait api (Some h) os = None"
    and post_gives: "refers os h \<Longrightarrow> \<exists>os'. sem_post api (Some h) os = (0, os') \<and> val os' = Suc (val os) \<and>
      linked os' = linked os \<and> refers os' = refers os"
begin

lemma construct_fresh:
  assumes "\<not> linked os" "n = ''/'' @ name" "name \<noteq> []"
  obtains h os' where "posix_InterprocessSemaphore api name 1 os = Inr (\<lparr>handle = Some h, posixName = n, unlinkOnDestruction = True\<rparr>, os')"
    "linked os'" "val os' = 1" "refers os' h"
  using open_new [OF assms(1), of 1] assms(2,3)
  by (auto simp: posix_InterprocessSemaphore_def Let_def safeNumericCast_def UNSIGNED_INT_def SIZE_T_def UINT64_def max_of_def static_cast_def)

lemma construct_again:
  assumes "linked os" "n = ''/'' @ name" "name \<noteq> []"
  obtains h os' where "posix_InterprocessSemaphore api name 1 os = Inr (\<lparr>handle = Some h, posixName = n, unlinkOnDestruction = True\<rparr>, os')"
    "linked os'" "val os' = val os" "refers os' h" "refers os \<le> refers os'"
proof -
  obtain os1 where os1: "sem_open_new api n 1 os = (None, EEXIST, os1)" "linked os1" "val os1 = val os" "refers os \<le> refers os1"
    using open_busy [OF assms(1)] by blast
  obtain h e os2 where "sem_open_old api n os1 = (Some h, e, os2)" "linked os2" "val os2 = val os1" "refers os1 \<le> refers os2" "refers os2 h"
    using open_old [OF os1(2)] by blast
  then show thesis
    using that os1 assms(2,3) order_trans [OF os1(4)]
    by (auto simp: posix_InterprocessSemaphore_def Let_def safeNumericCast_def UNSIGNED_INT_def SIZE_T_def UINT64_def max_of_def static_cast_def)
qed

lemma acquire_takes:
  assumes "handle s = Some h" "refers os h" "val os = Suc m"
  obtains os' where "posix_acquire api s os = Some (True, os')" "val os' = m" "linked os' = linked os" "refers os' = refers os"
  using wait_takes [OF assms(2,3)] assms(1) by (auto simp: posix_acquire_def sem_wait_loop.simps)

lemma acquire_blocks: "handle s = Some h \<Longrightarrow> refers os h \<Longrightarrow> val os = 0 \<Longrightarrow> posix_acquire api s os = None"
  by (simp add: posix_acquire_def sem_wait_loop.simps wait_blocks)

lemma release_gives:
  assumes "handle s = Some h" "refers os h"
  obtains os' where "posix_release api s os = (True, os')" "val os' = Suc (val os)" "linked os' = linked os" "refers os' = refers os"
  using post_gives [OF assms(2)] assms(1) by (auto simp: posix_release_def)

end

text \<open>An instance: one name, the semaphore's value, one handle.\<close>

definition one_name :: "(unit, bool \<times> nat) sem_api" where
  "one_name =
     \<lparr>sem_open_new = (\<lambda>_ v (l, m). if l then (None, EEXIST, l, m) else (Some (), 0, True, unat v)),
      sem_open_old = (\<lambda>_ os. (Some (), 0, os)),
      sem_close = (\<lambda>_ os. os), sem_unlink = (\<lambda>_ (l, m). (False, m)),
      sem_wait = (\<lambda>_ (l, m). if m = 0 then None else Some (0, 0, l, m - 1)),
      sem_timedwait = (\<lambda>_ _ (l, m). Some (if m = 0 then (- 1, ETIMEDOUT_errno, l, m) else (0, 0, l, m - 1))),
      sem_trywait = (\<lambda>_ (l, m). if m = 0 then (- 1, EAGAIN, l, m) else (0, 0, l, m - 1)),
      sem_post = (\<lambda>_ (l, m). (0, l, m + 1)),
      clock_gettime = (\<lambda>_. None)\<rparr>"

interpretation one_name: named_semaphore one_name fst snd "\<lambda>_ _. True" n for n
  by unfold_locales (auto simp: one_name_def)

section \<open>The invariant\<close>

text \<open>What each thread has printed when it is at a given point.\<close>

fun main_lines :: "main_pc \<Rightarrow> string list" where
  "main_lines M_begin = []"
| "main_lines (M_loop i) = hello_line # replicate i waiting_line"
| "main_lines m = hello_line #
     (if m \<in> {M_construct, M_acquire, M_spawn} then []
      else replicate 5 waiting_line @ (if m = M_announce then [] else [release_line]))"

definition child_lines :: "child_pc \<Rightarrow> string list" where
  "child_lines c = (if c \<in> {C_unborn, C_construct, C_acquire, C_critical} then []
     else critical_line #
       (if c = C_bye then [] else [child_bye_line]))"

definition last_lines :: "main_pc \<Rightarrow> string list" where
  "last_lines m = (if m \<in> {M_destroy, M_done} then [main_bye_line] else [])"

definition sync_output :: "string list" where
  "sync_output = main_lines M_done @ child_lines C_done @ last_lines M_done"

fun main_rank :: "main_pc \<Rightarrow> nat" where
  "main_rank M_begin = 0" | "main_rank M_construct = 1" | "main_rank M_acquire = 2" | "main_rank M_spawn = 3"
| "main_rank (M_loop i) = 4 + i" | "main_rank M_announce = 10" | "main_rank M_release = 11" | "main_rank M_join = 12"
| "main_rank M_bye = 13" | "main_rank M_destroy = 14" | "main_rank M_done = 15"

fun child_rank :: "child_pc \<Rightarrow> nat" where
  "child_rank C_unborn = 0" | "child_rank C_construct = 0" | "child_rank C_acquire = 1" | "child_rank C_critical = 2"
| "child_rank C_bye = 3" | "child_rank C_release = 4" | "child_rank C_destroy = 5" | "child_rank C_done = 6"

text \<open>The semaphore at each pair of points: whether it is linked, its value, and whether the main thread's and the
  child's objects hold a handle to it.\<close>

fun sync_ok :: "main_pc \<Rightarrow> child_pc \<Rightarrow> bool \<Rightarrow> nat \<Rightarrow> bool \<Rightarrow> bool \<Rightarrow> bool" where
  "sync_ok M_begin c l v mo co = (c = C_unborn \<and> \<not> l)"
| "sync_ok M_construct c l v mo co = (c = C_unborn \<and> \<not> l)"
| "sync_ok M_acquire c l v mo co = (c = C_unborn \<and> l \<and> v = 1 \<and> mo)"
| "sync_ok M_spawn c l v mo co = (c = C_unborn \<and> l \<and> v = 0 \<and> mo)"
| "sync_ok M_join c l v mo co = ((c = C_construct \<and> l \<or> c = C_acquire \<and> co) \<and> v = 1 \<or>
     c \<in> {C_critical, C_bye, C_release} \<and> co \<or> c \<in> {C_destroy, C_done})"
| "sync_ok M_bye c l v mo co = (c = C_done)"
| "sync_ok M_destroy c l v mo co = (c = C_done)"
| "sync_ok M_done c l v mo co = (c = C_done)"
| "sync_ok m c l v mo co = ((c = C_construct \<and> l \<or> c = C_acquire \<and> co) \<and> v = 0 \<and> mo \<and> (\<forall>i. m = M_loop i \<longrightarrow> i \<le> 5))"

definition opened :: "('o \<Rightarrow> 'h \<Rightarrow> bool) \<Rightarrow> 'o \<Rightarrow> 'h posix_semaphore option \<Rightarrow> bool" where
  "opened refers os sem = (\<exists>s h. sem = Some s \<and> handle s = Some h \<and> refers os h)"

definition sync_inv :: "('o \<Rightarrow> bool) \<Rightarrow> ('o \<Rightarrow> nat) \<Rightarrow> ('o \<Rightarrow> 'h \<Rightarrow> bool) \<Rightarrow> ('h, 'o) sync_state \<Rightarrow> bool" where
  "sync_inv linked val refers s \<longleftrightarrow>
     (main_at s \<in> {M_begin, M_construct} \<or> main_sem s \<noteq> None) \<and>
     (child_at s \<in> {C_unborn, C_construct} \<or> child_sem s \<noteq> None) \<and>
     sync_ok (main_at s) (child_at s) (linked (sync_os s)) (val (sync_os s))
       (opened refers (sync_os s) (main_sem s)) (opened refers (sync_os s) (child_sem s))"

definition sync_printed :: "nat \<Rightarrow> ('h, 'o) sync_state \<Rightarrow> bool" where
  "sync_printed k s \<longleftrightarrow> k = main_rank (main_at s) + child_rank (child_at s) \<and>
     out s = main_lines (main_at s) @ child_lines (child_at s) @ last_lines (main_at s)"

lemma SEM_NAME_simps [simp]: "SEM_MAX_CONCURRENCY = 1" "SEM_NAME \<noteq> []"
  by (simp_all add: SEM_NAME_def SEM_MAX_CONCURRENCY_def)

lemma opened_mono: "opened refers os sem \<Longrightarrow> refers os \<le> refers os' \<Longrightarrow> opened refers os' sem"
  by (auto simp: opened_def le_fun_def)

lemmas sync_defs = sync_inv_def say_def do_construct_def do_acquire_def do_release_def do_destroy_def

text \<open>Output and number of steps do not depend on what the system answers.\<close>

lemma call_keeps:
  "do_acquire api sem s = Some s' \<Longrightarrow> main_at s' = main_at s \<and> child_at s' = child_at s \<and> out s' = out s"
  "do_release api sem s = Some s' \<Longrightarrow> main_at s' = main_at s \<and> child_at s' = child_at s \<and> out s' = out s"
  "do_destroy api sem s = Some s' \<Longrightarrow> main_at s' = main_at s \<and> child_at s' = child_at s \<and> out s' = out s"
  by (auto simp: do_acquire_def do_release_def do_destroy_def split: option.splits)

lemma main_prints:
  assumes "sync_inv linked val refers s" "sync_printed k s" "sync_main api (main_at s) s = Some s'"
  shows "sync_printed (Suc k) s'"
proof -
  have "child_lines (child_at s) = []" if "main_at s = M_loop i" for i
    using assms(1) that by (auto simp: sync_inv_def child_lines_def)
  then show ?thesis
    using assms by (cases "main_at s"; cases "child_at s")
      (auto simp: sync_inv_def sync_printed_def child_lines_def last_lines_def say_def replicate_append_same
        dest!: call_keeps split: if_splits)
qed

lemma child_prints:
  assumes "sync_inv linked val refers s" "sync_printed k s" "threadBody api (child_at s) s = Some s'"
  shows "sync_printed (Suc k) s'"
  using assms by (cases "main_at s"; cases "child_at s")
    (auto simp: sync_inv_def sync_printed_def child_lines_def last_lines_def say_def
      dest!: call_keeps split: if_splits)

context named_semaphore
begin

lemma do_acquire_takes:
  assumes "opened refers (sync_os s) sem" "val (sync_os s) = Suc m"
  obtains os' where "do_acquire api sem s = Some (s\<lparr>sync_os := os'\<rparr>)" "val os' = m" "linked os' = linked (sync_os s)" "opened refers os' = opened refers (sync_os s)"
proof -
  obtain t h where t: "sem = Some t" "handle t = Some h" "refers (sync_os s) h"
    using assms(1) by (auto simp: opened_def)
  show thesis
    by (rule acquire_takes [OF t(2,3) assms(2)]) (simp add: that do_acquire_def t(1) opened_def fun_eq_iff)
qed

lemma do_acquire_blocks: "opened refers (sync_os s) sem \<Longrightarrow> val (sync_os s) = 0 \<Longrightarrow> do_acquire api sem s = None"
  by (auto simp: opened_def do_acquire_def acquire_blocks)

lemma do_release_gives:
  assumes "opened refers (sync_os s) sem"
  obtains os' where "do_release api sem s = Some (s\<lparr>sync_os := os'\<rparr>)" "val os' = Suc (val (sync_os s))" "linked os' = linked (sync_os s)"
    "opened refers os' = opened refers (sync_os s)"
proof -
  obtain t h where t: "sem = Some t" "handle t = Some h" "refers (sync_os s) h"
    using assms(1) by (auto simp: opened_def)
  show thesis
    by (rule release_gives [OF t(2,3)]) (simp add: that do_release_def t(1) opened_def fun_eq_iff)
qed

lemma main_keeps:
  assumes "n = ''/'' @ SEM_NAME" "sync_inv linked val refers s" "sync_main api (main_at s) s = Some s'"
  shows "sync_inv linked val refers s'"
proof (cases "main_at s")
  case M_construct
  then have "\<not> linked (sync_os s)"
    using assms(2) by (simp add: sync_inv_def)
  then obtain h os' where c: "posix_InterprocessSemaphore api SEM_NAME 1 (sync_os s) =
      Inr (\<lparr>handle = Some h, posixName = n, unlinkOnDestruction = True\<rparr>, os')" "linked os'" "val os' = 1" "refers os' h"
    using construct_fresh [OF _ assms(1) SEM_NAME_simps(2)] by metis
  then show ?thesis
    using M_construct assms(2,3) by (auto simp: sync_inv_def do_construct_def opened_def)
next
  case M_acquire
  then have "opened refers (sync_os s) (main_sem s)" "val (sync_os s) = Suc 0"
    using assms(2) by (simp_all add: sync_inv_def)
  then obtain os' where "do_acquire api (main_sem s) s = Some (s\<lparr>sync_os := os'\<rparr>)" "val os' = 0" "linked os' = linked (sync_os s)"
    "opened refers os' = opened refers (sync_os s)"
    by (rule do_acquire_takes)
  then show ?thesis
    using M_acquire assms(2,3) by (auto simp: sync_inv_def)
next
  case M_release
  then have "opened refers (sync_os s) (main_sem s)"
    using assms(2) by (simp add: sync_inv_def)
  then obtain os' where "do_release api (main_sem s) s = Some (s\<lparr>sync_os := os'\<rparr>)" "val os' = Suc (val (sync_os s))"
    "linked os' = linked (sync_os s)" "opened refers os' = opened refers (sync_os s)"
    by (rule do_release_gives)
  then show ?thesis
    using M_release assms(2,3) by (auto simp: sync_inv_def)
qed (use assms(2,3) in \<open>auto simp: sync_defs replicate_append_same split: if_splits option.splits\<close>)

lemma child_keeps:
  assumes "n = ''/'' @ SEM_NAME" "sync_inv linked val refers s" "threadBody api (child_at s) s = Some s'"
  shows "sync_inv linked val refers s'"
proof (cases "child_at s")
  case C_construct
  then have l: "linked (sync_os s)"
    using assms(2) by (cases "main_at s") (simp_all add: sync_inv_def)
  then obtain h os' where c: "posix_InterprocessSemaphore api SEM_NAME 1 (sync_os s) =
      Inr (\<lparr>handle = Some h, posixName = n, unlinkOnDestruction = True\<rparr>, os')" "linked os'" "val os' = val (sync_os s)" "refers os' h"
      "refers (sync_os s) \<le> refers os'"
    using construct_again [OF _ assms(1) SEM_NAME_simps(2)] by metis
  have s': "s' = s\<lparr>child_at := C_acquire, child_sem := Some \<lparr>handle = Some h, posixName = n, unlinkOnDestruction = True\<rparr>, sync_os := os'\<rparr>"
    using C_construct assms(3) c(1) by (simp add: do_construct_def)
  have "opened refers os' (main_sem s)" if "opened refers (sync_os s) (main_sem s)"
    using opened_mono [OF that c(5)] .
  moreover have "opened refers os' (Some \<lparr>handle = Some h, posixName = n, unlinkOnDestruction = True\<rparr>)"
    using c(4) by (simp add: opened_def)
  ultimately show ?thesis
    using C_construct assms(2) c s' by (cases "main_at s") (auto simp: sync_inv_def)
next
  case C_acquire
  then have o: "opened refers (sync_os s) (child_sem s)"
    using assms(2) by (cases "main_at s") (auto simp: sync_inv_def)
  then have "val (sync_os s) = Suc 0"
    using assms(2,3) C_acquire do_acquire_blocks [OF o] by (cases "main_at s") (auto simp: sync_inv_def)
  with o obtain os' where "do_acquire api (child_sem s) s = Some (s\<lparr>sync_os := os'\<rparr>)" "linked os' = linked (sync_os s)"
    "opened refers os' = opened refers (sync_os s)"
    by (rule do_acquire_takes)
  then show ?thesis
    using C_acquire assms(2,3) \<open>val (sync_os s) = Suc 0\<close>
    by (cases "main_at s") (auto simp: sync_inv_def)
next
  case C_release
  then have "opened refers (sync_os s) (child_sem s)"
    using assms(2) by (cases "main_at s") (auto simp: sync_inv_def)
  then obtain os' where "do_release api (child_sem s) s = Some (s\<lparr>sync_os := os'\<rparr>)" "linked os' = linked (sync_os s)"
    "opened refers os' = opened refers (sync_os s)"
    by (rule do_release_gives)
  then show ?thesis
    using C_release assms(2,3) by (cases "main_at s") (auto simp: sync_inv_def)
qed (use assms(2,3) in \<open>cases "main_at s"; auto simp: sync_defs split: if_splits option.splits\<close>)+

lemma sync_run_inv:
  assumes "n = ''/'' @ SEM_NAME" "\<not> linked os" "sync_run api os k s"
  shows "sync_inv linked val refers s \<and> sync_printed k s"
  using assms(3)
proof (induction rule: sync_run.induct)
  case sync_init
  then show ?case
    using assms(2) by (simp add: sync_inv_def sync_printed_def sync_start_def child_lines_def last_lines_def)
next
  case (sync_next k s s')
  from \<open>sync_step api s s'\<close> show ?case
    using sync_next.IH main_keeps [OF assms(1)] child_keeps [OF assms(1)] main_prints child_prints
    by cases blast+
qed

lemma sync_progress:
  assumes "n = ''/'' @ SEM_NAME" "sync_inv linked val refers s" "main_at s \<noteq> M_done"
  obtains s' where "sync_step api s s'"
proof -
  have main: thesis if "sync_main api (main_at s) s \<noteq> None"
    using that main_moves \<open>\<And>s'. sync_step api s s' \<Longrightarrow> thesis\<close> by blast
  have child: thesis if "threadBody api (child_at s) s \<noteq> None"
    using that child_moves \<open>\<And>s'. sync_step api s s' \<Longrightarrow> thesis\<close> by blast
  show thesis
  proof (cases "main_at s")
    case M_construct
    then have "\<not> linked (sync_os s)"
      using assms(2) by (simp add: sync_inv_def)
    then show thesis
      using M_construct by (intro main) (rule construct_fresh [OF _ assms(1)], auto simp: do_construct_def)
  next
    case M_acquire
    then have "opened refers (sync_os s) (main_sem s)" "val (sync_os s) = Suc 0"
      using assms(2) by (simp_all add: sync_inv_def)
    then show thesis
      using M_acquire by (intro main) (rule do_acquire_takes, auto)
  next
    case M_join
    show thesis
    proof (cases "child_at s")
      case C_construct
      then have "linked (sync_os s)"
        using assms(2) M_join by (simp add: sync_inv_def)
      then show thesis
        using C_construct by (intro child) (rule construct_again [OF _ assms(1)], auto simp: do_construct_def)
    next
      case C_acquire
      then have "opened refers (sync_os s) (child_sem s)" "val (sync_os s) = Suc 0"
        using assms(2) M_join by (simp_all add: sync_inv_def)
      then show thesis
        using C_acquire by (intro child) (rule do_acquire_takes, auto)
    next
      case C_done
      then show thesis
        using M_join by (intro main) simp
    qed (use assms(2) M_join in \<open>auto intro!: child simp: sync_inv_def do_release_def do_destroy_def\<close>)
  qed (use assms(2,3) in \<open>auto intro!: main simp: sync_inv_def do_release_def do_destroy_def\<close>)
qed

end

lemma replicate_prefix: "i \<le> j \<Longrightarrow> prefix (replicate i x) (replicate j x @ ys)"
  by (metis append_assoc le_add_diff_inverse prefixI replicate_add)

section \<open>Properties\<close>

text \<open>C30: the two threads are synchronised by the semaphore. When nobody else uses its name, every
  interleaving prints the same lines in the same order: the child's critical section comes after the main thread's
  five waits and its release, and the main thread's farewell comes last. No interleaving gets stuck, and
  every one of them ends, after 21 steps.\<close>

theorem ThreadSync_correct:
  assumes "named_semaphore api linked val refers (''/'' @ SEM_NAME)" "\<not> linked os" "sync_run api os k s"
  shows "prefix (out s) sync_output \<and> k \<le> 21 \<and>
    ((\<exists>s'. sync_step api s s') \<or> main_at s = M_done \<and> child_at s = C_done \<and> out s = sync_output \<and> k = 21)"
proof -
  have inv: "sync_inv linked val refers s" "sync_printed k s"
    using named_semaphore.sync_run_inv [OF assms(1) refl assms(2,3)] by simp_all
  have "prefix (out s) sync_output \<and> k \<le> 21"
    using inv by (cases "main_at s"; cases "child_at s")
      (auto simp: sync_inv_def sync_printed_def sync_output_def child_lines_def last_lines_def intro: replicate_prefix)
  then show ?thesis
    using named_semaphore.sync_progress [OF assms(1) refl inv(1)] inv
    by (cases "main_at s = M_done") (auto simp: sync_inv_def sync_printed_def sync_output_def)
qed

theorem ThreadSync_correct_witness:
  "\<exists>s. sync_run one_name (False, 0) 1 s \<and> prefix (out s) sync_output"
proof -
  have "sync_run one_name (False, 0) 1 (say hello_line (sync_start (False, 0))\<lparr>main_at := M_construct\<rparr>)"
    using sync_next [OF sync_init main_moves, of one_name "(False, 0)"] by (simp add: sync_start_def say_def)
  then show ?thesis
    using ThreadSync_correct [OF one_name.named_semaphore_axioms, of "(False, 0)"] by auto
qed

text \<open>a semaphore left over from a killed run blocks every later one. The constructor opens a
  semaphore that exists without setting its value: when a run was killed between \<open>acquire\<close>
  and \<open>release\<close>, the value is 0, and the program prints its first line and waits in \<open>acquire\<close> forever.\<close>

theorem ThreadSync_stale_semaphore_hangs:
  assumes "named_semaphore api linked val refers (''/'' @ SEM_NAME)" "linked os" "val os = 0" "sync_run api os k s"
  shows "k \<le> 2 \<and> prefix (out s) [hello_line] \<and> (k = 2 \<longrightarrow> (\<forall>s'. \<not> sync_step api s s'))"
proof -
  have "child_at s = C_unborn \<and> (main_at s = M_begin \<and> k = 0 \<and> out s = [] \<or> main_at s = M_construct \<and> k = 1 \<and> out s = [hello_line]) \<and>
        linked (sync_os s) \<and> val (sync_os s) = 0 \<or>
      child_at s = C_unborn \<and> main_at s = M_acquire \<and> k = 2 \<and> out s = [hello_line] \<and> val (sync_os s) = 0 \<and> opened refers (sync_os s) (main_sem s)"
    using assms(4)
  proof (induction rule: sync_run.induct)
    case sync_init
    then show ?case using assms(2,3) by (simp add: sync_start_def)
  next
    case (sync_next k s s')
    note blocks = named_semaphore.do_acquire_blocks [OF assms(1)]
    from sync_next.hyps(2) show ?case
    proof cases
      case main_moves
      have "val (sync_os s') = 0 \<and> opened refers (sync_os s') (main_sem s')" if "main_at s = M_construct" "linked (sync_os s)" "val (sync_os s) = 0"
        by (rule named_semaphore.construct_again [OF assms(1) that(2) refl SEM_NAME_simps(2)])
          (use main_moves that in \<open>auto simp: do_construct_def opened_def\<close>)
      then show ?thesis
        using main_moves sync_next.IH blocks [of s "main_sem s"] by (auto simp: do_construct_def say_def split: sum.splits)
    next
      case child_moves
      then show ?thesis using sync_next.IH by auto
    qed
  qed
  then show ?thesis
    using named_semaphore.do_acquire_blocks [OF assms(1), of s "main_sem s"] by (auto elim!: sync_step.cases)
qed

theorem ThreadSync_stale_semaphore_hangs_witness:
  "\<exists>s. sync_run one_name (True, 0) 2 s \<and> out s = [hello_line] \<and> (\<forall>s'. \<not> sync_step one_name s s')"
proof -
  let ?s0 = "sync_start (True, 0) :: (unit, bool \<times> nat) sync_state"
  let ?s1 = "say hello_line (?s0\<lparr>main_at := M_construct\<rparr>)"
  let ?h = "\<lparr>handle = Some (), posixName = ''/'' @ SEM_NAME, unlinkOnDestruction = True\<rparr>"
  let ?s2 = "?s1\<lparr>main_at := M_acquire, main_sem := Some ?h\<rparr>"
  have "sync_run one_name (True, 0) 1 ?s1"
    using sync_next [OF sync_init main_moves, of one_name "(True, 0)" ?s1] by (simp add: sync_start_def say_def)
  moreover have "do_construct one_name ?s1 = Some (?h, True, 0)"
    by (simp add: do_construct_def posix_InterprocessSemaphore_def one_name_def say_def sync_start_def SEM_NAME_def
        safeNumericCast_def UNSIGNED_INT_def SIZE_T_def UINT64_def max_of_def static_cast_def Let_def)
  ultimately have run: "sync_run one_name (True, 0) 2 ?s2"
    using sync_next [OF _ main_moves, of one_name "(True, 0)" 1 ?s1 ?s2] by (simp add: sync_start_def say_def numeral_2_eq_2)
  have "out ?s2 = [hello_line]"
    by (simp add: say_def sync_start_def)
  then show ?thesis
    using run ThreadSync_stale_semaphore_hangs [OF one_name.named_semaphore_axioms, of "(True, 0)" 2 ?s2] by auto
qed

end
