(* ===== verification/Examples_Pipe.thy ===== *)
theory Examples_Pipe
  imports NamedPipe
begin

text \<open>
  \<^verbatim>\<open>src/examples/NamedPipeServer/main.cpp\<close> and \<^verbatim>\<open>src/examples/NamedPipeClient/main.cpp\<close>, two
  processes that talk over one named pipe on POSIX. Each is a step function over its own pipe object and
  the system, with its own system calls (the two have different descriptor tables); a \<open>receive\<close> on an empty pipe
  blocks, that is, its step is not enabled.
\<close>

section \<open>The processes\<close>

datatype server_pc = S_create | S_open | S_receive_a | S_receive_b | S_print | S_send | S_close | S_reply | S_unlink | S_done | S_crashed

datatype client_pc = L_open | L_send_a | L_send_b | L_print | L_receive | L_close | L_reply | L_done | L_crashed

record 'o pipe_demo =
  server_at :: server_pc
  server_pipe :: NamedPipe
  server_a :: uint32
  server_b :: uint32
  server_out :: "string list"
  client_at :: client_pc
  client_pipe :: NamedPipe
  client_c :: uint32
  client_out :: "string list"
  demo_os :: 'o

definition show32 :: "uint32 \<Rightarrow> string" where
  "show32 x = decimal (unat x)"

text \<open>\<open>receive(&v, sizeof(v))\<close>: the bytes read replace the first bytes of the variable; how many they
  are is not looked at.\<close>

definition receive32 :: "'o pipe_api \<Rightarrow> uint32 \<Rightarrow> NamedPipe \<Rightarrow> 'o \<Rightarrow> uint32 result \<times> NamedPipe \<times> 'o" where
  "receive32 api v p os = (case pipe_receive api 4 p os of (r, p', os') \<Rightarrow>
     (bind_result r (\<lambda>(k, bs). Inr (word4 (bs @ drop (length bs) (bytes4 v)))), p', os'))"

definition send32 :: "'o pipe_api \<Rightarrow> uint32 \<Rightarrow> NamedPipe \<Rightarrow> 'o \<Rightarrow> size_t result \<times> NamedPipe \<times> 'o" where
  "send32 api v p os = pipe_send api (bytes4 v) p os"

fun server_step :: "'o pipe_api \<Rightarrow> ('o \<Rightarrow> bool) \<Rightarrow> server_pc \<Rightarrow> 'o pipe_demo \<Rightarrow> 'o pipe_demo option" where
  "server_step api ready S_create s = (case pipe_create api (4 * 1024) (server_pipe s) (demo_os s) of (ok, p, os) \<Rightarrow>
     Some (s\<lparr>server_at := S_open, server_pipe := p, demo_os := os\<rparr>))"
| "server_step api ready S_open s = (case pipe_open api (server_pipe s) (demo_os s) of (ok, p, os) \<Rightarrow>
     Some (s\<lparr>server_at := S_receive_a, server_pipe := p, demo_os := os\<rparr>))"
| "server_step api ready S_receive_a s = (if \<not> ready (demo_os s) then None else
     case receive32 api (server_a s) (server_pipe s) (demo_os s) of
       (Inl e, p, os) \<Rightarrow> Some (s\<lparr>server_at := S_crashed\<rparr>)
     | (Inr v, p, os) \<Rightarrow> Some (s\<lparr>server_at := S_receive_b, server_a := v, server_pipe := p, demo_os := os\<rparr>))"
| "server_step api ready S_receive_b s = (if \<not> ready (demo_os s) then None else
     case receive32 api (server_b s) (server_pipe s) (demo_os s) of
       (Inl e, p, os) \<Rightarrow> Some (s\<lparr>server_at := S_crashed\<rparr>)
     | (Inr v, p, os) \<Rightarrow> Some (s\<lparr>server_at := S_print, server_b := v, server_pipe := p, demo_os := os\<rparr>))"
| "server_step api ready S_print s =
     Some (s\<lparr>server_at := S_send, server_out := server_out s @ [''Client sent a = '' @ show32 (server_a s) @ '', b = '' @ show32 (server_b s)]\<rparr>)"
| "server_step api ready S_send s = (case send32 api (server_a s + server_b s) (server_pipe s) (demo_os s) of
       (Inl e, p, os) \<Rightarrow> Some (s\<lparr>server_at := S_crashed\<rparr>)
     | (Inr k, p, os) \<Rightarrow> Some (s\<lparr>server_at := S_close, server_pipe := p, demo_os := os\<rparr>))"
| "server_step api ready S_close s = (case pipe_close api (server_pipe s) (demo_os s) of (p, os) \<Rightarrow>
     Some (s\<lparr>server_at := S_reply, server_pipe := p, demo_os := os\<rparr>))"
| "server_step api ready S_reply s =
     Some (s\<lparr>server_at := S_unlink, server_out := server_out s @ [''Reply c = '' @ show32 (server_a s + server_b s)]\<rparr>)"
| "server_step api ready S_unlink s = (case pipe_unlink api (server_pipe s) (demo_os s) of
       (Inl e, p, os) \<Rightarrow> Some (s\<lparr>server_at := S_crashed\<rparr>)
     | (Inr _, p, os) \<Rightarrow> Some (s\<lparr>server_at := S_done, server_pipe := p, demo_os := os\<rparr>))"
| "server_step api ready S_done s = None"
| "server_step api ready S_crashed s = None"

fun client_step :: "'o pipe_api \<Rightarrow> ('o \<Rightarrow> bool) \<Rightarrow> client_pc \<Rightarrow> 'o pipe_demo \<Rightarrow> 'o pipe_demo option" where
  "client_step api ready L_open s = (case pipe_open api (client_pipe s) (demo_os s) of (ok, p, os) \<Rightarrow>
     Some (s\<lparr>client_at := L_send_a, client_pipe := p, demo_os := os\<rparr>))"
| "client_step api ready L_send_a s = (case send32 api 5 (client_pipe s) (demo_os s) of
       (Inl e, p, os) \<Rightarrow> Some (s\<lparr>client_at := L_crashed\<rparr>)
     | (Inr k, p, os) \<Rightarrow> Some (s\<lparr>client_at := L_send_b, client_pipe := p, demo_os := os\<rparr>))"
| "client_step api ready L_send_b s = (case send32 api 10 (client_pipe s) (demo_os s) of
       (Inl e, p, os) \<Rightarrow> Some (s\<lparr>client_at := L_crashed\<rparr>)
     | (Inr k, p, os) \<Rightarrow> Some (s\<lparr>client_at := L_print, client_pipe := p, demo_os := os\<rparr>))"
| "client_step api ready L_print s =
     Some (s\<lparr>client_at := L_receive, client_out := client_out s @ [''I sent a = '' @ show32 5 @ '', b = '' @ show32 10]\<rparr>)"
| "client_step api ready L_receive s = (if \<not> ready (demo_os s) then None else
     case receive32 api (client_c s) (client_pipe s) (demo_os s) of
       (Inl e, p, os) \<Rightarrow> Some (s\<lparr>client_at := L_crashed\<rparr>)
     | (Inr v, p, os) \<Rightarrow> Some (s\<lparr>client_at := L_close, client_c := v, client_pipe := p, demo_os := os\<rparr>))"
| "client_step api ready L_close s = (case pipe_close api (client_pipe s) (demo_os s) of (p, os) \<Rightarrow>
     Some (s\<lparr>client_at := L_reply, client_pipe := p, demo_os := os\<rparr>))"
| "client_step api ready L_reply s =
     Some (s\<lparr>client_at := L_done, client_out := client_out s @ [''Reply c = '' @ show32 (client_c s)]\<rparr>)"
| "client_step api ready L_done s = None"
| "client_step api ready L_crashed s = None"

definition pipe_demo_start :: "'o \<Rightarrow> 'o pipe_demo" where
  "pipe_demo_start os =
     \<lparr>server_at = S_create, server_pipe = NamedPipe_new ''ExamplePipeName'', server_a = 0, server_b = 0,
      server_out = [''Gicame example: NamedPipeServer''],
      client_at = L_open, client_pipe = NamedPipe_new ''ExamplePipeName'', client_c = 0,
      client_out = [''Gicame example: NamedPipeClient''], demo_os = os\<rparr>"

inductive demo_step :: "'o pipe_api \<Rightarrow> 'o pipe_api \<Rightarrow> ('o \<Rightarrow> bool) \<Rightarrow> 'o pipe_demo \<Rightarrow> 'o pipe_demo \<Rightarrow> bool"
  for sapi capi ready where
  server_moves: "server_step sapi ready (server_at s) s = Some s' \<Longrightarrow> demo_step sapi capi ready s s'"
| client_moves: "client_step capi ready (client_at s) s = Some s' \<Longrightarrow> demo_step sapi capi ready s s'"

inductive demo_run :: "'o pipe_api \<Rightarrow> 'o pipe_api \<Rightarrow> ('o \<Rightarrow> bool) \<Rightarrow> 'o \<Rightarrow> 'o pipe_demo \<Rightarrow> bool"
  for sapi capi ready os where
  demo_init: "demo_run sapi capi ready os (pipe_demo_start os)"
| demo_next: "demo_run sapi capi ready os s \<Longrightarrow> demo_step sapi capi ready s s' \<Longrightarrow> demo_run sapi capi ready os s'"

section \<open>The pipe of the system\<close>

lemma cast4: "safeNumericCast SIZE_T INT64 4 = Inr 4"
  by code_simp

text \<open>
  What POSIX promises one process of a FIFO opened for reading and writing: whether it \<open>exists\<close>, the bytes in its \<open>queue\<close>
  and the descriptors that the process and the others (\<open>mine\<close>, \<open>theirs\<close>) have open on it.
  Small writes are atomic; a read takes what is there; what is left is discarded when the last
  descriptor is closed.
\<close>

locale fifo_process =
  fixes api :: "'o pipe_api" and exists :: "'o \<Rightarrow> bool" and queue :: "'o \<Rightarrow> byte_t list" and mine theirs :: "'o \<Rightarrow> int set"
    and path :: string
  assumes mkfifo_makes: "sys_mkfifo api path os = (r, os') \<Longrightarrow>
      exists os' \<and> queue os' = queue os \<and> mine os' = mine os \<and> theirs os' = theirs os"
    and open_gives: "exists os \<Longrightarrow> sys_open api path os = (fd, os') \<Longrightarrow>
      0 \<le> fd \<and> fd \<in> mine os' \<and> exists os' \<and> queue os' = queue os \<and> theirs os' = theirs os"
    and open_missing: "\<not> exists os \<Longrightarrow> sys_open api path os = (fd, os') \<Longrightarrow>
      fd < 0 \<and> \<not> exists os' \<and> queue os' = queue os \<and> mine os' = mine os \<and> theirs os' = theirs os"
    and write_appends: "fd \<in> mine os \<Longrightarrow> length (queue os) + length bs \<le> 4096 \<Longrightarrow> sys_write api fd bs os = (k, os') \<Longrightarrow>
      k = int (length bs) \<and> queue os' = queue os @ bs \<and> exists os' = exists os \<and> mine os' = mine os \<and> theirs os' = theirs os"
    and read_takes: "fd \<in> mine os \<Longrightarrow> queue os \<noteq> [] \<Longrightarrow> sys_read api fd m os = (k, bs, os') \<Longrightarrow>
      bs = take (unat m) (queue os) \<and> k = int (length bs) \<and> queue os' = drop (unat m) (queue os) \<and>
      exists os' = exists os \<and> mine os' = mine os \<and> theirs os' = theirs os"
    and close_drops: "sys_pclose api fd os = os' \<Longrightarrow> exists os' = exists os \<and> mine os' = mine os - {fd} \<and> theirs os' = theirs os \<and>
      queue os' = (if theirs os = {} \<and> mine os \<subseteq> {fd} then [] else queue os)"
    and unlink_removes: "sys_unlink api path os = os' \<Longrightarrow> \<not> exists os' \<and> queue os' = queue os \<and> mine os' = mine os \<and> theirs os' = theirs os"
begin

definition on_fifo :: "NamedPipe \<Rightarrow> 'o \<Rightarrow> bool" where
  "on_fifo p os \<longleftrightarrow> fullName p = path \<and> pstate p = PIPE_CONNECTED \<and> 0 \<le> pipe_fd p \<and> pipe_fd p \<in> mine os"

definition off_fifo :: "NamedPipe \<Rightarrow> bool" where
  "off_fifo p \<longleftrightarrow> fullName p = path \<and> pstate p \<noteq> PIPE_CONNECTED \<and> pipe_fd p < 0"

lemma create_off: "off_fifo p \<Longrightarrow> pipe_create api m p os = (ok, p', os') \<Longrightarrow>
    off_fifo p' \<and> exists os' \<and> queue os' = queue os \<and> theirs os' = theirs os"
  using mkfifo_makes [of os] by (auto simp: off_fifo_def pipe_create_def pipe_close_def split: prod.splits if_splits)

lemma open_on: "off_fifo p \<Longrightarrow> exists os \<Longrightarrow> pipe_open api p os = (ok, p', os') \<Longrightarrow>
    on_fifo p' os' \<and> exists os' \<and> queue os' = queue os \<and> theirs os' = theirs os"
  using open_gives [of os] by (fastforce simp: off_fifo_def on_fifo_def pipe_open_def pipe_close_def split: prod.splits if_splits)

lemma open_off: "off_fifo p \<Longrightarrow> \<not> exists os \<Longrightarrow> pipe_open api p os = (ok, p', os') \<Longrightarrow>
    off_fifo p' \<and> \<not> exists os' \<and> queue os' = queue os \<and> theirs os' = theirs os"
  using open_missing [of os] by (fastforce simp: off_fifo_def pipe_open_def pipe_close_def split: prod.splits if_splits)

lemma send32_on:
  assumes "on_fifo p os" "length (queue os) \<le> 4000" "send32 api v p os = (r, p', os')"
  shows "\<exists>k. r = Inr k" "p' = p" "on_fifo p os'" "queue os' = queue os @ bytes4 v" "exists os' = exists os" "theirs os' = theirs os"
proof -
  obtain k os1 where w: "sys_write api (pipe_fd p) (bytes4 v) os = (k, os1)" by fastforce
  have "k = 4 \<and> queue os1 = queue os @ bytes4 v \<and> exists os1 = exists os \<and> mine os1 = mine os \<and> theirs os1 = theirs os"
    using write_appends [OF _ _ w] assms(1,2) by (simp add: on_fifo_def)
  then show "\<exists>k. r = Inr k" "p' = p" "on_fifo p os'" "queue os' = queue os @ bytes4 v" "exists os' = exists os" "theirs os' = theirs os"
    using assms w by (auto simp: send32_def pipe_send_def on_fifo_def cast4)
qed

lemma send32_off: "off_fifo p \<Longrightarrow> \<exists>e. send32 api v p os = (Inl e, p, os)"
  by (simp add: send32_def pipe_send_def off_fifo_def)

lemma receive32_on:
  assumes "on_fifo p os" "queue os = bytes4 w @ rest" "receive32 api v p os = (r, p', os')"
  shows "r = Inr w" "p' = p" "on_fifo p os'" "queue os' = rest" "exists os' = exists os" "theirs os' = theirs os"
proof -
  obtain k bs os1 where w: "sys_read api (pipe_fd p) 4 os = (k, bs, os1)" by (metis prod_cases3)
  have "queue os \<noteq> []"
    using assms(2) length_bytes(1) [of w] by force
  then have "bs = bytes4 w \<and> k = 4 \<and> queue os1 = rest \<and> exists os1 = exists os \<and> mine os1 = mine os \<and> theirs os1 = theirs os"
    using read_takes [OF _ _ w] assms(1,2) by (simp add: on_fifo_def)
  then show "r = Inr w" "p' = p" "on_fifo p os'" "queue os' = rest" "exists os' = exists os" "theirs os' = theirs os"
    using assms w by (auto simp: receive32_def pipe_receive_def on_fifo_def cast4)
qed

lemma close_on: "on_fifo p os \<Longrightarrow> pipe_close api p os = (p', os') \<Longrightarrow>
    off_fifo p' \<and> exists os' = exists os \<and> theirs os' = theirs os \<and> (queue os' = queue os \<or> queue os' = [] \<and> theirs os = {})"
  using close_drops [of "pipe_fd p" os os'] by (auto simp: on_fifo_def off_fifo_def pipe_close_def)

lemma unlink_off: "off_fifo p \<Longrightarrow> pipe_unlink api p os = (r, p', os') \<Longrightarrow> r = Inr () \<and> queue os' = queue os \<and> theirs os' = theirs os"
  using unlink_removes by (auto simp: off_fifo_def pipe_unlink_def pipe_close_def split: if_splits)

end

section \<open>The invariant\<close>

text \<open>What the client has sent before its \<open>receive\<close>, how many numbers the server has received, and
  the two together: the numbers in the pipe, or what became of them once the client has received one.\<close>

fun sent_by :: "client_pc \<Rightarrow> uint32 list" where
  "sent_by L_send_b = [5]"
| "sent_by L_print = [5, 10]"
| "sent_by L_receive = [5, 10]"
| "sent_by _ = []"

definition received_by :: "server_pc \<Rightarrow> nat" where
  "received_by s = (if s \<in> {S_create, S_open, S_receive_a} then 0 else if s = S_receive_b then 1 else 2)"

definition has_replied :: "server_pc \<Rightarrow> bool" where
  "has_replied s \<longleftrightarrow> s \<in> {S_close, S_reply, S_unlink, S_done}"

definition before_reply :: "client_pc \<Rightarrow> bool" where
  "before_reply c \<longleftrightarrow> c \<in> {L_open, L_send_a, L_send_b, L_print, L_receive}"

definition demo_data :: "server_pc \<Rightarrow> client_pc \<Rightarrow> uint32 \<Rightarrow> uint32 \<Rightarrow> uint32 \<Rightarrow> byte_t list \<Rightarrow> bool" where
  "demo_data sat cat a b c q \<longleftrightarrow>
     (if before_reply cat
      then received_by sat \<le> length (sent_by cat) \<and>
        q = concat (map bytes4 (drop (received_by sat) (sent_by cat) @ (if has_replied sat then [15] else []))) \<and>
        (received_by sat \<ge> 1 \<longrightarrow> a = 5) \<and> (received_by sat = 2 \<longrightarrow> b = 10)
      else if cat = L_crashed then received_by sat = 0 \<and> q = []
      else c = 15 \<and> has_replied sat \<and> a = 5 \<and> b = 10 \<or>
        c = 5 \<and> received_by sat = 0 \<and> (q = bytes4 10 \<or> q = []) \<or>
        c = 5 \<and> sat = S_receive_b \<and> a = 10 \<and> q = [] \<or>
        c = 10 \<and> sat = S_receive_b \<and> a = 5 \<and> q = [])"

lemmas demo_data_defs = demo_data_def received_by_def has_replied_def before_reply_def

text \<open>What each call that moves numbers does to them.\<close>

lemma server_idle:
  "demo_data S_open = demo_data S_create" "demo_data S_receive_a = demo_data S_create" "demo_data S_send = demo_data S_print"
  "demo_data S_unlink = demo_data S_reply" "demo_data S_done = demo_data S_reply"
  by (simp_all add: demo_data_defs fun_eq_iff)

lemma server_receives_a:
  assumes "demo_data S_receive_a cat a b c q" "q \<noteq> []"
  shows "\<exists>v rest. q = bytes4 v @ rest \<and> demo_data S_receive_b cat v b c rest"
  using assms by (cases cat) (auto simp: demo_data_defs)

lemma server_receives_b:
  assumes "demo_data S_receive_b cat a b c q" "q \<noteq> []"
  shows "\<exists>v rest. q = bytes4 v @ rest \<and> demo_data S_print cat a v c rest"
  using assms by (cases cat) (auto simp: demo_data_defs)

lemma server_sends:
  assumes "demo_data S_send cat a b c q"
  shows "length q \<le> 4000 \<and> demo_data S_close cat a b c (q @ bytes4 (a + b))"
  using assms by (cases cat) (auto simp: demo_data_defs)

lemma client_sends:
  "demo_data sat L_send_a a b c q \<Longrightarrow> length q \<le> 4000 \<and> demo_data sat L_send_b a b c (q @ bytes4 5)"
  "demo_data sat L_send_b a b c q \<Longrightarrow> length q \<le> 4000 \<and> demo_data sat L_print a b c (q @ bytes4 10)"
  by (cases sat; auto simp: demo_data_defs)+

lemma client_receives:
  assumes "demo_data sat L_receive a b c q" "q \<noteq> []"
  shows "\<exists>v rest. q = bytes4 v @ rest \<and> demo_data sat L_close a b v rest"
  using assms by (cases sat) (auto simp: demo_data_defs)

lemma client_closes:
  assumes "demo_data sat L_close a b c q" "q' = q \<or> q' = []"
  shows "demo_data sat L_reply a b c q'"
  using assms by (cases sat) (auto simp: demo_data_defs)

lemma client_idle:
  "demo_data sat L_send_a a b c q = demo_data sat L_open a b c q" "demo_data sat L_receive a b c q = demo_data sat L_print a b c q"
  "demo_data sat L_done a b c q = demo_data sat L_reply a b c q" "demo_data sat L_send_a a b c q \<Longrightarrow> demo_data sat L_crashed a b c q"
  by (auto simp: demo_data_defs split: if_splits)

locale fifo_pair = server: fifo_process sapi exists queue sfds cfds path + client: fifo_process capi exists queue cfds sfds path
  for sapi capi :: "'o pipe_api" and exists queue sfds cfds path
begin

definition server_ok :: "server_pc \<Rightarrow> NamedPipe \<Rightarrow> 'o \<Rightarrow> bool" where
  "server_ok sat p os \<longleftrightarrow> sat \<noteq> S_crashed \<and>
     (if sat = S_create then server.off_fifo p
      else if sat = S_open then server.off_fifo p \<and> exists os
      else if sat \<in> {S_reply, S_unlink} then server.off_fifo p
      else if sat = S_done then True else server.on_fifo p os)"

definition client_ok :: "client_pc \<Rightarrow> NamedPipe \<Rightarrow> 'o \<Rightarrow> bool" where
  "client_ok cat p os \<longleftrightarrow>
     (if cat = L_open then client.off_fifo p
      else if cat = L_send_a then client.on_fifo p os \<or> client.off_fifo p
      else if cat \<in> {L_send_b, L_print, L_receive, L_close} then client.on_fifo p os else True)"

definition demo_inv :: "'o pipe_demo \<Rightarrow> bool" where
  "demo_inv s \<longleftrightarrow> server_ok (server_at s) (server_pipe s) (demo_os s) \<and> client_ok (client_at s) (client_pipe s) (demo_os s) \<and>
     demo_data (server_at s) (client_at s) (server_a s) (server_b s) (client_c s) (queue (demo_os s))"

lemma others_ok:
  "client_ok cat p os \<Longrightarrow> cfds os' = cfds os \<Longrightarrow> client_ok cat p os'"
  "server_ok sat p os \<Longrightarrow> sfds os' = sfds os \<Longrightarrow> (exists os \<Longrightarrow> exists os') \<Longrightarrow> server_ok sat p os'"
  by (auto simp: client_ok_def server_ok_def client.on_fifo_def server.on_fifo_def split: if_splits)

lemma server_on: "demo_inv s \<Longrightarrow> server_at s \<in> {S_receive_a, S_receive_b, S_send, S_close} \<Longrightarrow> server.on_fifo (server_pipe s) (demo_os s)"
  by (auto simp: demo_inv_def server_ok_def)

lemma server_received:
  assumes "demo_inv s" "server_at s \<in> {S_receive_a, S_receive_b}" "queue (demo_os s) = bytes4 v @ rest"
    "receive32 sapi x (server_pipe s) (demo_os s) = (r, p', os')"
  shows "r = Inr v \<and> server.on_fifo p' os' \<and> queue os' = rest \<and> client_ok (client_at s) (client_pipe s) os'"
proof -
  have "server.on_fifo (server_pipe s) (demo_os s)"
    using assms(1,2) server_on by blast
  note rc = server.receive32_on [OF this assms(3,4)]
  have "client_ok (client_at s) (client_pipe s) os'"
    using others_ok(1) [OF _ rc(6)] assms(1) by (simp add: demo_inv_def)
  then show ?thesis
    using rc by simp
qed

lemma server_closed:
  assumes "demo_inv s" "server_at s = S_close" "pipe_close sapi (server_pipe s) (demo_os s) = (p', os')"
  shows "server.off_fifo p' \<and> client_ok (client_at s) (client_pipe s) os' \<and>
    demo_data S_reply (client_at s) (server_a s) (server_b s) (client_c s) (queue os')"
proof -
  have "server.on_fifo (server_pipe s) (demo_os s)"
    using assms(1,2) server_on by blast
  then have c: "server.off_fifo p' \<and> cfds os' = cfds (demo_os s) \<and> (queue os' = queue (demo_os s) \<or> queue os' = [] \<and> cfds (demo_os s) = {})"
    using server.close_on assms(3) by blast
  have data: "demo_data S_close (client_at s) (server_a s) (server_b s) (client_c s) (queue (demo_os s))"
    using assms(1,2) by (simp add: demo_inv_def)
  moreover have "cfds (demo_os s) \<noteq> {}" if "before_reply (client_at s)"
    using that data assms(1) by (cases "client_at s") (auto simp: demo_inv_def client_ok_def client.on_fifo_def demo_data_defs)
  ultimately have "demo_data S_reply (client_at s) (server_a s) (server_b s) (client_c s) (queue os')"
    using c by (auto simp: demo_data_defs split: if_splits)
  then show ?thesis
    using c others_ok(1) assms(1) by (auto simp: demo_inv_def)
qed

lemma server_sets_up:
  assumes "demo_inv s" "server_step sapi (\<lambda>os. queue os \<noteq> []) (server_at s) s = Some s'"
    "server_at s \<in> {S_create, S_open, S_unlink}"
  shows "demo_inv s'"
proof -
  note inv = assms(1) [unfolded demo_inv_def]
  consider (S_create) "server_at s = S_create" | (S_open) "server_at s = S_open" | (S_unlink) "server_at s = S_unlink"
    using assms(3) by blast
  then show ?thesis
  proof cases
    case S_create
    obtain ok p' os' where cr: "pipe_create sapi (4 * 1024) (server_pipe s) (demo_os s) = (ok, p', os')" by (metis prod_cases3)
    then have c: "server.off_fifo p'" "exists os'" "queue os' = queue (demo_os s)" "cfds os' = cfds (demo_os s)"
      using server.create_off [OF _ cr] inv S_create by (simp_all add: server_ok_def)
    have "client_ok (client_at s) (client_pipe s) os'"
      using others_ok(1) [OF _ c(4)] inv by blast
    then show ?thesis
      using S_create cr c inv assms(2) by (auto simp: demo_inv_def server_ok_def server_idle)
  next
    case S_open
    obtain ok p' os' where op: "pipe_open sapi (server_pipe s) (demo_os s) = (ok, p', os')" by (metis prod_cases3)
    then have c: "server.on_fifo p' os'" "queue os' = queue (demo_os s)" "cfds os' = cfds (demo_os s)"
      using server.open_on [OF _ _ op] inv S_open by (simp_all add: server_ok_def)
    have "client_ok (client_at s) (client_pipe s) os'"
      using others_ok(1) [OF _ c(3)] inv by blast
    then show ?thesis
      using S_open op c inv assms(2) by (auto simp: demo_inv_def server_ok_def server_idle)
  next
    case S_unlink
    obtain r p' os' where ul: "pipe_unlink sapi (server_pipe s) (demo_os s) = (r, p', os')" by (metis prod_cases3)
    then have c: "r = Inr ()" "queue os' = queue (demo_os s)" "cfds os' = cfds (demo_os s)"
      using server.unlink_off [OF _ ul] inv S_unlink by (simp_all add: server_ok_def)
    have "client_ok (client_at s) (client_pipe s) os'"
      using others_ok(1) [OF _ c(3)] inv by blast
    then show ?thesis
      using S_unlink ul c inv assms(2) by (auto simp: demo_inv_def server_ok_def server_idle)
  qed
qed

lemma server_transfers:
  assumes "demo_inv s" "server_step sapi (\<lambda>os. queue os \<noteq> []) (server_at s) s = Some s'"
    "server_at s \<in> {S_receive_a, S_receive_b, S_send, S_close}"
  shows "demo_inv s'"
proof -
  note inv = assms(1) [unfolded demo_inv_def]
  have data: "demo_data (server_at s) (client_at s) (server_a s) (server_b s) (client_c s) (queue (demo_os s))"
    using inv by blast
  consider (S_receive_a) "server_at s = S_receive_a" | (S_receive_b) "server_at s = S_receive_b" | (S_send) "server_at s = S_send" | (S_close) "server_at s = S_close"
    using assms(3) by blast
  then show ?thesis
  proof cases
    case S_receive_a
    then have ready: "queue (demo_os s) \<noteq> []"
      using assms(2) by (auto split: if_splits)
    then obtain v rest where q: "queue (demo_os s) = bytes4 v @ rest" "demo_data S_receive_b (client_at s) v (server_b s) (client_c s) rest"
      using server_receives_a data S_receive_a by metis
    obtain r p' os' where rc: "receive32 sapi (server_a s) (server_pipe s) (demo_os s) = (r, p', os')"
      by (metis prod_cases3)
    show ?thesis
      using server_received [OF assms(1) _ q(1) rc] S_receive_a assms(2) rc q(2) ready by (auto simp: demo_inv_def server_ok_def)
  next
    case S_receive_b
    then have ready: "queue (demo_os s) \<noteq> []"
      using assms(2) by (auto split: if_splits)
    then obtain v rest where q: "queue (demo_os s) = bytes4 v @ rest" "demo_data S_print (client_at s) (server_a s) v (client_c s) rest"
      using server_receives_b data S_receive_b by metis
    obtain r p' os' where rc: "receive32 sapi (server_b s) (server_pipe s) (demo_os s) = (r, p', os')"
      by (metis prod_cases3)
    show ?thesis
      using server_received [OF assms(1) _ q(1) rc] S_receive_b assms(2) rc q(2) ready by (auto simp: demo_inv_def server_ok_def)
  next
    case S_send
    have q: "length (queue (demo_os s)) \<le> 4000"
      "demo_data S_close (client_at s) (server_a s) (server_b s) (client_c s) (queue (demo_os s) @ bytes4 (server_a s + server_b s))"
      using server_sends data S_send by auto
    obtain r p' os' where sd: "send32 sapi (server_a s + server_b s) (server_pipe s) (demo_os s) = (r, p', os')"
      by (metis prod_cases3)
    show ?thesis
      using server.send32_on [OF server_on [OF assms(1)] q(1) sd] S_send assms(2) sd q(2) inv others_ok(1)
      by (auto simp: demo_inv_def server_ok_def)
  next
    case S_close
    obtain p' os' where cl: "pipe_close sapi (server_pipe s) (demo_os s) = (p', os')" by fastforce
    then show ?thesis
      using server_closed [OF assms(1) S_close cl] S_close assms(2) by (auto simp: demo_inv_def server_ok_def)
  qed
qed

lemma server_keeps:
  assumes "demo_inv s" "server_step sapi (\<lambda>os. queue os \<noteq> []) (server_at s) s = Some s'"
  shows "demo_inv s'"
proof (cases "server_at s \<in> {S_create, S_open, S_unlink} \<or> server_at s \<in> {S_receive_a, S_receive_b, S_send, S_close}")
  case True
  then show ?thesis
    using server_sets_up [OF assms] server_transfers [OF assms] by blast
next
  case False
  then show ?thesis
    using assms by (cases "server_at s") (auto simp: demo_inv_def server_ok_def server_idle)
qed

lemma client_on: "demo_inv s \<Longrightarrow> client_at s \<in> {L_send_b, L_print, L_receive, L_close} \<Longrightarrow> client.on_fifo (client_pipe s) (demo_os s)"
  by (auto simp: demo_inv_def client_ok_def)

lemma client_opened:
  assumes "demo_inv s" "client_at s = L_open" "pipe_open capi (client_pipe s) (demo_os s) = (ok, p', os')"
  shows "client_ok L_send_a p' os' \<and> queue os' = queue (demo_os s) \<and> server_ok (server_at s) (server_pipe s) os'"
proof -
  have off: "client.off_fifo (client_pipe s)" and srv: "server_ok (server_at s) (server_pipe s) (demo_os s)"
    using assms(1,2) by (simp_all add: demo_inv_def client_ok_def)
  show ?thesis
  proof (cases "exists (demo_os s)")
    case True
    then show ?thesis
      using client.open_on [OF off True assms(3)] others_ok(2) [OF srv] by (simp add: client_ok_def)
  next
    case False
    then show ?thesis
      using client.open_off [OF off False assms(3)] others_ok(2) [OF srv] by (simp add: client_ok_def)
  qed
qed

lemma client_sent:
  assumes "demo_inv s" "client.on_fifo (client_pipe s) (demo_os s)" "length (queue (demo_os s)) \<le> 4000"
    "send32 capi v (client_pipe s) (demo_os s) = (r, p', os')"
  shows "(\<exists>k. r = Inr k) \<and> client.on_fifo p' os' \<and> queue os' = queue (demo_os s) @ bytes4 v \<and> server_ok (server_at s) (server_pipe s) os'"
  using client.send32_on [OF assms(2,3,4)] others_ok(2) [of "server_at s" "server_pipe s" "demo_os s" os'] assms(1)
  by (simp add: demo_inv_def)

lemma client_received:
  assumes "demo_inv s" "client_at s = L_receive" "queue (demo_os s) = bytes4 v @ rest"
    "receive32 capi x (client_pipe s) (demo_os s) = (r, p', os')"
  shows "r = Inr v \<and> client.on_fifo p' os' \<and> queue os' = rest \<and> server_ok (server_at s) (server_pipe s) os'"
proof -
  have "client.on_fifo (client_pipe s) (demo_os s)"
    using assms(1,2) client_on by blast
  then show ?thesis
    using client.receive32_on [OF _ assms(3,4)] others_ok(2) [of "server_at s" "server_pipe s" "demo_os s" os'] assms(1)
    by (simp add: demo_inv_def)
qed

lemma client_sends_a:
  assumes "demo_inv s" "client_step capi (\<lambda>os. queue os \<noteq> []) (client_at s) s = Some s'" "client_at s = L_send_a"
  shows "demo_inv s'"
proof -
  have data: "demo_data (server_at s) L_send_a (server_a s) (server_b s) (client_c s) (queue (demo_os s))"
    using assms(1,3) by (simp add: demo_inv_def)
  obtain r p' os' where sd: "send32 capi 5 (client_pipe s) (demo_os s) = (r, p', os')" by (metis prod_cases3)
  consider "client.on_fifo (client_pipe s) (demo_os s)" | "client.off_fifo (client_pipe s)"
    using assms(1,3) by (auto simp: demo_inv_def client_ok_def)
  then show ?thesis
  proof cases
    case 1
    then show ?thesis
      using client_sent [OF assms(1) 1 _ sd] client_sends(1) data sd assms(2,3) by (auto simp: demo_inv_def client_ok_def)
  next
    case 2
    then show ?thesis
      using client.send32_off [OF 2, of 5 "demo_os s"] data assms client_idle(4)
      by (auto simp: demo_inv_def client_ok_def)
  qed
qed

lemma client_keeps:
  assumes "demo_inv s" "client_step capi (\<lambda>os. queue os \<noteq> []) (client_at s) s = Some s'"
  shows "demo_inv s'"
proof -
  have data: "demo_data (server_at s) (client_at s) (server_a s) (server_b s) (client_c s) (queue (demo_os s))"
    using assms(1) by (simp add: demo_inv_def)
  show ?thesis
  proof (cases "client_at s")
    case L_open
    obtain ok p' os' where op: "pipe_open capi (client_pipe s) (demo_os s) = (ok, p', os')" by (metis prod_cases3)
    show ?thesis
      using client_opened [OF assms(1) L_open op] L_open op data assms(2) by (auto simp: demo_inv_def client_idle)
  next
    case L_send_a
    then show ?thesis
      by (rule client_sends_a [OF assms])
  next
    case L_send_b
    obtain r p' os' where sd: "send32 capi 10 (client_pipe s) (demo_os s) = (r, p', os')" by (metis prod_cases3)
    show ?thesis
      using client_sent [OF assms(1) client_on [OF assms(1)] _ sd] client_sends(2) data L_send_b sd assms(2)
      by (auto simp: demo_inv_def client_ok_def)
  next
    case L_receive
    then have ready: "queue (demo_os s) \<noteq> []"
      using assms(2) by (auto split: if_splits)
    then obtain v rest where q: "queue (demo_os s) = bytes4 v @ rest" "demo_data (server_at s) L_close (server_a s) (server_b s) v rest"
      using client_receives data L_receive by metis
    obtain r p' os' where rc: "receive32 capi (client_c s) (client_pipe s) (demo_os s) = (r, p', os')" by (metis prod_cases3)
    show ?thesis
      using client_received [OF assms(1) L_receive q(1) rc] L_receive assms(2) rc q(2) ready by (auto simp: demo_inv_def client_ok_def)
  next
    case L_close
    obtain p' os' where cl: "pipe_close capi (client_pipe s) (demo_os s) = (p', os')" by fastforce
    have c: "exists os' = exists (demo_os s)" "sfds os' = sfds (demo_os s)" "queue os' = queue (demo_os s) \<or> queue os' = []"
      using client.close_on [OF client_on [OF assms(1)] cl] L_close by auto
    have "server_ok (server_at s) (server_pipe s) os'"
      using others_ok(2) [OF _ c(2)] c(1) assms(1) by (simp add: demo_inv_def)
    then show ?thesis
      using client_closes [OF _ c(3)] cl L_close data assms(2) by (auto simp: demo_inv_def client_ok_def)
  qed (use assms data in \<open>auto simp: demo_inv_def client_ok_def client_idle\<close>)
qed

lemma demo_run_inv:
  assumes "path = getFullName ''ExamplePipeName''" "queue os = []" "demo_run sapi capi (\<lambda>os. queue os \<noteq> []) os s"
  shows "demo_inv s"
  using assms(3)
proof (induction rule: demo_run.induct)
  case demo_init
  then show ?case
    by (simp add: demo_inv_def pipe_demo_start_def NamedPipe_new_def server_ok_def client_ok_def server.off_fifo_def
        demo_data_defs assms(2) assms(1) [symmetric])
next
  case (demo_next s s')
  from demo_next.hyps(2) show ?case
    using demo_next.IH server_keeps client_keeps by cases blast+
qed

end

section \<open>A system with one pipe and two processes\<close>

record two_ends =
  there :: bool
  bytes_in :: "byte_t list"
  s_end :: bool
  c_end :: bool

definition end_of :: "bool \<Rightarrow> two_ends \<Rightarrow> bool" where
  "end_of srv os = (if srv then s_end os else c_end os)"

definition set_end :: "bool \<Rightarrow> bool \<Rightarrow> two_ends \<Rightarrow> two_ends" where
  "set_end srv b os = (if srv then os\<lparr>s_end := b\<rparr> else os\<lparr>c_end := b\<rparr>)"

definition drained :: "two_ends \<Rightarrow> two_ends" where
  "drained os = (if s_end os \<or> c_end os then os else os\<lparr>bytes_in := []\<rparr>)"

definition end_api :: "bool \<Rightarrow> two_ends pipe_api" where
  "end_api srv =
     \<lparr>sys_mkfifo = (\<lambda>_ os. (if there os then - 1 else 0, os\<lparr>there := True\<rparr>)),
      sys_open = (\<lambda>_ os. if there os then (3, set_end srv True os) else (- 1, os)),
      sys_write = (\<lambda>fd bs os. (int (length bs), os\<lparr>bytes_in := bytes_in os @ bs\<rparr>)),
      sys_read = (\<lambda>fd n os. (int (length (take (unat n) (bytes_in os))), take (unat n) (bytes_in os),
        os\<lparr>bytes_in := drop (unat n) (bytes_in os)\<rparr>)),
      sys_pclose = (\<lambda>fd os. drained (if fd = 3 then set_end srv False os else os)),
      sys_unlink = (\<lambda>_ os. os\<lparr>there := False\<rparr>)\<rparr>"

definition end_fds :: "bool \<Rightarrow> two_ends \<Rightarrow> int set" where
  "end_fds srv os = (if end_of srv os then {3} else {})"

lemma end_process: "fifo_process (end_api srv) there bytes_in (end_fds srv) (end_fds (\<not> srv)) path"
  by unfold_locales
    (auto simp: end_api_def end_fds_def end_of_def set_end_def drained_def split: if_splits)

interpretation ends: fifo_pair "end_api True" "end_api False" there bytes_in "end_fds True" "end_fds False" path for path
  using end_process [of True path] end_process [of False path] by (simp add: fifo_pair_def)

text \<open>A schedule, who moves next, and the run it makes.\<close>

fun demo_exec :: "'o pipe_api \<Rightarrow> 'o pipe_api \<Rightarrow> ('o \<Rightarrow> bool) \<Rightarrow> bool list \<Rightarrow> 'o pipe_demo \<Rightarrow> 'o pipe_demo option" where
  "demo_exec sapi capi ready [] s = Some s"
| "demo_exec sapi capi ready (srv # sched) s =
     Option.bind (if srv then server_step sapi ready (server_at s) s else client_step capi ready (client_at s) s)
       (demo_exec sapi capi ready sched)"

lemma demo_exec_run:
  "demo_run sapi capi ready os s \<Longrightarrow> demo_exec sapi capi ready sched s = Some s' \<Longrightarrow> demo_run sapi capi ready os s'"
proof (induction sched arbitrary: s)
  case (Cons srv sched)
  then obtain s1 where s1: "(if srv then server_step sapi ready (server_at s) s else client_step capi ready (client_at s) s) = Some s1"
    "demo_exec sapi capi ready sched s1 = Some s'"
    by (auto simp only: demo_exec.simps bind_eq_Some_conv)
  have "demo_step sapi capi ready s s1"
    using s1(1) server_moves [of sapi ready s s1 capi] client_moves [of capi ready s s1 sapi] by (simp split: if_splits)
  then show ?case
    using Cons.IH [OF demo_next [OF Cons.prems(1)] s1(2)] by blast
qed simp

section \<open>Properties\<close>

text \<open>C31: the client can take its own request for the reply. Both programs read and write one FIFO, so
  that whoever reads first gets what is in it: in every interleaving the client ends with 15, and the server has
  replied, or with 5 or 10, one of the numbers it sent itself, and then the server is short of
  an operand forever. The server never throws.\<close>

theorem NamedPipe_demo_outcomes:
  assumes "fifo_pair sapi capi exists queue sfds cfds (getFullName ''ExamplePipeName'')" "queue os = []"
    "demo_run sapi capi (\<lambda>os. queue os \<noteq> []) os s"
  shows "server_at s \<noteq> S_crashed \<and>
    (client_at s = L_done \<longrightarrow>
       client_c s = 15 \<and> has_replied (server_at s) \<and> server_a s = 5 \<and> server_b s = 10 \<or>
       client_c s \<in> {5, 10} \<and> server_at s \<in> {S_create, S_open, S_receive_a, S_receive_b} \<and>
         (server_at s = S_receive_b \<longrightarrow> (\<forall>s'. \<not> demo_step sapi capi (\<lambda>os. queue os \<noteq> []) s s')))"
proof -
  have inv: "fifo_pair.demo_inv exists queue sfds cfds (getFullName ''ExamplePipeName'') s"
    by (rule fifo_pair.demo_run_inv [OF assms(1) refl assms(2,3)])
  note i = inv [unfolded fifo_pair.demo_inv_def [OF assms(1)]]
  have "server_at s \<noteq> S_crashed"
    using i by (simp add: fifo_pair.server_ok_def [OF assms(1)])
  moreover have data: "demo_data (server_at s) (client_at s) (server_a s) (server_b s) (client_c s) (queue (demo_os s))"
    using i by blast
  have "client_c s = 15 \<and> has_replied (server_at s) \<and> server_a s = 5 \<and> server_b s = 10 \<or>
      client_c s \<in> {5, 10} \<and> server_at s \<in> {S_create, S_open, S_receive_a, S_receive_b}" if "client_at s = L_done"
    using data that by (cases "server_at s") (simp_all add: demo_data_defs, blast+)
  moreover have "\<not> demo_step sapi capi (\<lambda>os. queue os \<noteq> []) s s'" if "client_at s = L_done" "server_at s = S_receive_b" for s'
  proof -
    have "queue (demo_os s) = []"
      using data that by (auto simp: demo_data_defs)
    then show ?thesis
      using that by (auto elim!: demo_step.cases)
  qed
  ultimately show ?thesis
    by blast
qed

theorem NamedPipe_demo_outcomes_witness:
  "\<exists>s. demo_run (end_api True) (end_api False) (\<lambda>os. bytes_in os \<noteq> []) \<lparr>there = False, bytes_in = [], s_end = False, c_end = False\<rparr> s \<and>
     client_at s = L_done \<and> client_c s = 5 \<and> (\<forall>s'. \<not> demo_step (end_api True) (end_api False) (\<lambda>os. bytes_in os \<noteq> []) s s')"
proof -
  let ?os = "\<lparr>there = False, bytes_in = [], s_end = False, c_end = False\<rparr>"
  let ?run = "demo_exec (end_api True) (end_api False) (\<lambda>os. bytes_in os \<noteq> [])
    [True, True, False, False, False, False, False, True, False, False] (pipe_demo_start ?os)"
  have "map_option (\<lambda>s. (client_at s, client_c s, server_at s)) ?run = Some (L_done, 5, S_receive_b)"
    by code_simp
  then obtain s where s: "?run = Some s" "client_at s = L_done" "client_c s = 5" "server_at s = S_receive_b"
    by auto
  have "demo_run (end_api True) (end_api False) (\<lambda>os. bytes_in os \<noteq> []) ?os s"
    by (rule demo_exec_run [OF demo_init s(1)])
  then show ?thesis
    using NamedPipe_demo_outcomes [OF ends.fifo_pair_axioms, of ?os s] s by (auto simp: has_replied_def)
qed

end
