(* ===== verification/Examples_Rpc.thy ===== *)
theory Examples_Rpc
  imports Rpc Sockets
begin

text \<open>
  \<^verbatim>\<open>src/examples/RpcServerOverTcp/\<close> and \<^verbatim>\<open>src/examples/RpcClientOverTcp/main.cpp\<close>: a server with two
  functions and its client, remote procedure calls over TCP sockets. The network is a parameter;
  the state of the server's application is what it has printed.
\<close>

section \<open>The server\<close>

definition RPC_ID_SAY_HELLO :: FunctionId where "RPC_ID_SAY_HELLO = 0"

definition RPC_ID_SUM :: FunctionId where "RPC_ID_SUM = 1"

definition sayHello :: "nat list \<Rightarrow> string list \<Rightarrow> (nat \<times> string list) result" where
  "sayHello vs out = Inr (0, out @ [''Hello!!''])"

definition sum_line :: "nat \<Rightarrow> nat \<Rightarrow> string" where
  "sum_line a b = ''function sum(...) invoked. a = '' @ decimal a @ '', b = '' @ decimal b"

text \<open>The sum of two \<^verbatim>\<open>uint32_t\<close> is a \<^verbatim>\<open>uint32_t\<close>; only the result is widened.\<close>

definition sum32 :: "uint32 \<Rightarrow> uint32 \<Rightarrow> uint64" where
  "sum32 a b = ucast (a + b)"

definition sum_function :: "nat list \<Rightarrow> string list \<Rightarrow> (nat \<times> string list) result" where
  "sum_function vs out = Inr (unat (sum32 (of_nat (vs ! 0)) (of_nat (vs ! 1))), out @ [sum_line (vs ! 0) (vs ! 1)])"

text \<open>The order in which the compiler evaluates the arguments of \<open>sum\<close> is a parameter.\<close>

definition example_server :: "nat list \<Rightarrow> 'd IDataExchanger \<Rightarrow> ('d, string list) RpcServer" where
  "example_server order ex =
     registerFunction order (Fundamental 8) [Fundamental 4, Fundamental 4] sum_function RPC_ID_SUM
       (registerFunction [] Void [] sayHello RPC_ID_SAY_HELLO (RpcServer_new ex))"

text \<open>\<open>main\<close>: its exit code with what it printed and the system, or the exception that ends it, or
  \<open>None\<close> when \<open>run\<close> does not return. The sockets are destroyed at the end.\<close>

definition RpcServerOverTcp_main :: "'o net_api \<Rightarrow> nat list \<Rightarrow> 'o \<Rightarrow> (int \<times> string list \<times> 'o) result option" where
  "RpcServerOverTcp_main api order os =
     (case listenTo api 9898 DEFAULT_BACKLOG (TcpListeningSocket_new IPv4_version) os of
        (Inl e, l, os1) \<Rightarrow> Some (Inl e)
      | (Inr _, l, os1) \<Rightarrow> (case acceptRequest api l os1 of
          (Inl e, os2) \<Rightarrow> Some (Inl e)
        | (Inr socket, os2) \<Rightarrow>
            map_option (\<lambda>r. bind_result r (\<lambda>((socket', os3), out).
                Inr (0, out, TcpListeningSocket_destroy api l (TcpSocket_destroy api socket' os3))))
              (run (example_server order (tcp_exchanger api)) (socket, os2) [''Gicame example: RpcServerOverTcp''])))"

section \<open>The client\<close>

text \<open>The exit code, the output (with the error stream's), the system, and the result of the remote
  \<open>sum\<close>, which the program does not look at.\<close>

definition RpcClientOverTcp_main ::
    "'o net_api \<Rightarrow> inet_api \<Rightarrow> uint32 \<Rightarrow> 'o \<Rightarrow> (int \<times> nat option \<times> string list \<times> 'o) result" where
  "RpcClientOverTcp_main api inet garbage os =
     (let out = [''Gicame example: RpcClientOverTcp''] in
      case TcpSocket_new api IPv4_version os of
        (Inl e, os1) \<Rightarrow> Inl e
      | (Inr s, os1) \<Rightarrow> (case connectTo_IPv4 api (IPv4_of_string inet garbage ''127.0.0.1'') 9898 s os1 of
          (Inl e, s1, os2) \<Rightarrow> Inl e
        | (Inr connectedToServer, s1, os2) \<Rightarrow>
            if \<not> connectedToServer
            then Inr (- 1, None, out @ [''Unable to connect to the server''], TcpSocket_destroy api s1 os2)
            else
              bind_result (RpcClient_get (tcp_exchanger api) Void RPC_ID_SAY_HELLO [] (s1, os2)) (\<lambda>(_, d3).
              bind_result (RpcClient_get (tcp_exchanger api) (Fundamental 8) RPC_ID_SUM [(Fundamental 4, 4), (Fundamental 4, 50)] d3)
                (\<lambda>(res, s4, os4). case TcpSocket_close api s4 os4 of (s5, os5) \<Rightarrow>
                  Inr (0, res, out, TcpSocket_destroy api s5 os5)))))"

section \<open>A TCP connection\<close>

text \<open>
  One end of a TCP connection on the descriptor \<open>fd\<close>, as long as it is open: what was \<open>sent\<close> and what is \<open>pending\<close>, all that the peer sends until it closes
  its side. \<^verbatim>\<open>SO_ERROR\<close> is not negative. \<^verbatim>\<open>recv\<close> fails or delivers some bytes, at most as many as asked for, and none only at the end
  of the stream; \<^verbatim>\<open>send\<close> fails or takes some of the bytes. What has been transferred is not undone when descriptors are closed.
\<close>

locale tcp_connection = descriptors api open_fds bad_closes
  for api :: "'o net_api" and open_fds :: "'o \<Rightarrow> int set" and bad_closes :: "'o \<Rightarrow> nat" +
  fixes fd :: int and sent pending :: "'o \<Rightarrow> byte_t list"
  assumes no_error: "fd \<in> open_fds os \<Longrightarrow> \<exists>e\<ge>0. sys_getsockopt api fd SOL_SOCKET SO_ERROR os = (0, Some e)"
    and send_tcp: "fd \<in> open_fds os \<Longrightarrow> sys_send api fd bs os = (r, os') \<Longrightarrow> pending os' = pending os \<and>
      (r < 0 \<and> sent os' = sent os \<or> 0 \<le> r \<and> nat r \<le> length bs \<and> sent os' = sent os @ take (nat r) bs)"
    and recv_tcp: "fd \<in> open_fds os \<Longrightarrow> sys_recv api fd n b os = (r, bs, os') \<Longrightarrow> sent os' = sent os \<and>
      (r < 0 \<and> bs = [] \<and> pending os' = pending os \<or>
       0 \<le> r \<and> length bs = nat r \<and> nat r \<le> unat n \<and> pending os = bs @ pending os' \<and> (bs = [] \<longrightarrow> n = 0 \<or> pending os = []))"
    and close_tcp: "sent (sys_close api fd' os) = sent os" "pending (sys_close api fd' os) = pending os"

definition tcp_up :: "('o \<Rightarrow> int set) \<Rightarrow> int \<Rightarrow> TcpSocket \<times> 'o \<Rightarrow> bool" where
  "tcp_up open_fds fd d \<longleftrightarrow> sockfd (fst d) = fd \<and> socketStatus (fst d) = CONNECTED \<and> fd \<in> open_fds (snd d)"

text \<open>States from which the connection goes on to transfer whole messages: not every connection has them, and none promises to be in one.\<close>

locale tcp_whole = tcp_connection api open_fds bad_closes fd sent pending
  for api :: "'o net_api" and open_fds :: "'o \<Rightarrow> int set" and bad_closes :: "'o \<Rightarrow> nat" and fd :: int and sent pending :: "'o \<Rightarrow> byte_t list" +
  fixes smooth :: "'o \<Rightarrow> bool"
  assumes send_smooth: "fd \<in> open_fds os \<Longrightarrow> smooth os \<Longrightarrow> length bs \<le> INT_MAX \<Longrightarrow> sys_send api fd bs os = (r, os') \<Longrightarrow>
      r = int (length bs) \<and> smooth os'"
    and recv_smooth: "fd \<in> open_fds os \<Longrightarrow> smooth os \<Longrightarrow> sys_recv api fd n b os = (r, bs, os') \<Longrightarrow>
      r = int (min (unat n) (length (pending os))) \<and> smooth os'"

context tcp_connection
begin

lemma up_connected: "tcp_up open_fds fd (s, os) \<Longrightarrow> TcpSocket_isConnected api s os"
  using no_error [of os] by (auto simp: tcp_up_def TcpSocket_isConnected_def getSockOptions_def)

lemma exchanger_connected: "tcp_up open_fds fd d \<Longrightarrow> isConnected (tcp_exchanger api) d"
  using up_connected [of "fst d" "snd d"] by (simp add: isConnected_def tcp_exchanger_def case_prod_beta)

text \<open>A call on the connected socket throws, or leaves the socket as it is.\<close>

lemma receive_vector_tcp:
  assumes "tcp_up open_fds fd (s, os)" "unat n \<le> INT_MAX"
  shows "(\<exists>e. receive_vector (tcp_exchanger api) n (s, os) = Inl e) \<or>
    (\<exists>bs os'. receive_vector (tcp_exchanger api) n (s, os) = Inr (bs, (s, os')) \<and> length bs \<le> unat n \<and> pending os = bs @ pending os' \<and>
       sent os' = sent os \<and> open_fds os' = open_fds os \<and> bad_closes os' = bad_closes os)"
proof -
  obtain r bs os' where rc: "sys_recv api fd n (flagReceptionBlocking s) os = (r, bs, os')"
    by (metis surj_pair)
  have fd: "sockfd s = fd" "fd \<in> open_fds os"
    using assms(1) by (simp_all add: tcp_up_def)
  note up = up_connected [OF assms(1)]
  show ?thesis
  proof (cases "r < 0")
    case True
    then show ?thesis
      using up fd rc assms(2) by (simp add: receive_vector_def tcp_exchanger_def TcpSocket_receive_def INT_MAX_def MAX_VECTOR_def)
  next
    case False
    then have k: "length bs = nat r" "nat r \<le> unat n" "pending os = bs @ pending os'" "sent os' = sent os"
      using recv_tcp [OF fd(2) rc] by auto
    have "r = int (length bs)" "length bs < 2 ^ 64"
      using k(1,2) False le_less_trans [OF _ unat_lt_size [of n]] by simp_all
    then have "unat (of_int r :: size_t) = length bs"
      by (simp add: unat_of_nat_size)
    then show ?thesis
      using k False up fd rc assms(2) recv_fds [of fd n "flagReceptionBlocking s" os]
      by (simp add: receive_vector_def tcp_exchanger_def TcpSocket_receive_def INT_MAX_def MAX_VECTOR_def memcpy_to_def blit_def)
  qed
qed

lemma send_vector_tcp:
  assumes "tcp_up open_fds fd (s, os)" "length bs \<le> INT_MAX"
  shows "(\<exists>e. send_vector (tcp_exchanger api) bs (s, os) = Inl e) \<or>
    (\<exists>k os'. send_vector (tcp_exchanger api) bs (s, os) = Inr (k, (s, os')) \<and> pending os' = pending os \<and>
       open_fds os' = open_fds os \<and> bad_closes os' = bad_closes os)"
proof -
  obtain r os' where sd: "sys_send api fd bs os = (r, os')" by fastforce
  have fd: "sockfd s = fd" "fd \<in> open_fds os"
    using assms(1) by (simp_all add: tcp_up_def)
  show ?thesis
    using up_connected [OF assms(1)] fd sd assms(2) send_tcp [OF fd(2) sd] send_fds [of fd bs os]
    by (cases "r < 0") (auto simp: send_vector_def tcp_exchanger_def TcpSocket_send_def)
qed

end

sublocale tcp_whole \<subseteq> tcp: bounded_peer "tcp_exchanger api" "\<lambda>d. sent (snd d)" "\<lambda>d. pending (snd d)"
  "\<lambda>d. tcp_up open_fds fd d \<and> smooth (snd d)" INT_MAX
proof (unfold_locales, goal_cases)
  case (1 d bs)
  obtain s os where d: "d = (s, os)" by fastforce
  obtain r os' where sd: "sys_send api fd bs os = (r, os')" by fastforce
  have fd: "sockfd s = fd" "fd \<in> open_fds os" "smooth os" "socketStatus s = CONNECTED"
    using 1(1) d by (simp_all add: tcp_up_def)
  have "TcpSocket_isConnected api s os"
    using 1(1) d up_connected by simp
  moreover have "r = int (length bs)" "smooth os'" "sent os' = sent os @ bs" "pending os' = pending os" "open_fds os' = open_fds os"
    using send_tcp [OF fd(2) sd] send_smooth [OF fd(2,3) 1(2) sd] send_fds [of fd bs os] sd by auto
  ultimately show ?case
    using 1(2) d fd sd by (simp add: tcp_exchanger_def TcpSocket_send_def tcp_up_def)
next
  case (2 d n)
  obtain s os where d: "d = (s, os)" by fastforce
  obtain r bs os' where rc: "sys_recv api fd n (flagReceptionBlocking s) os = (r, bs, os')"
    by (metis surj_pair)
  have fd: "sockfd s = fd" "fd \<in> open_fds os" "smooth os" "socketStatus s = CONNECTED"
    using 2(1) d by (simp_all add: tcp_up_def)
  have "TcpSocket_isConnected api s os"
    using 2(1) d up_connected by simp
  moreover have r: "r = int (unat n)" "smooth os'"
    using recv_smooth [OF fd(2,3) rc] 2(3) d by (simp_all add: min_def)
  moreover have "length bs = unat n" "pending os = bs @ pending os'" "sent os' = sent os" "open_fds os' = open_fds os"
    using recv_tcp [OF fd(2) rc] r(1) recv_fds [of fd n "flagReceptionBlocking s" os] rc by auto
  ultimately show ?case
    using 2(2) d fd rc by (simp add: tcp_exchanger_def TcpSocket_receive_def tcp_up_def)
qed (simp add: INT_MAX_def MAX_VECTOR_def)

section \<open>Sessions\<close>

text \<open>A call of one of the two functions, the bytes of its request and of its reply, and the line
  that the server prints.\<close>

datatype demo_call = Hello_call | Sum_call uint32 uint32

fun sum_args :: "demo_call \<Rightarrow> (nat \<times> nat) list" where
  "sum_args Hello_call = []"
| "sum_args (Sum_call a b) = [(4, unat a), (4, unat b)]"

fun call_id :: "demo_call \<Rightarrow> FunctionId" where
  "call_id Hello_call = RPC_ID_SAY_HELLO"
| "call_id (Sum_call a b) = RPC_ID_SUM"

definition call_request :: "demo_call \<Rightarrow> byte_t list" where
  "call_request c = RER_bytes (request (call_id c) (sum_args c)) @ encoded (sum_args c)"

fun call_reply :: "demo_call \<Rightarrow> byte_t list" where
  "call_reply Hello_call = [0]"
| "call_reply (Sum_call a b) = le_encode 8 (unat (sum32 a b))"

fun call_line :: "demo_call \<Rightarrow> string" where
  "call_line Hello_call = ''Hello!!''"
| "call_line (Sum_call a b) = sum_line (unat a) (unat b)"

lemma sum_args_bounds: "length (sum_args c) < MAX_PARAM_COUNT" "sum_list (map fst (sum_args c)) \<le> 8" "values_ok (sum_args c)"
  by (cases c; simp add: MAX_PARAM_COUNT_def values_ok_def)+

text \<open>The functions as registered, with the arguments evaluated from left to right.\<close>

lemma example_server_function:
  obtains fd where "funStore (example_server [0, 1] ex) (call_id c) = Some fd"
    "rpcFunction fd rer (encoded (sum_args c)) out = Inr (call_reply c, out @ [call_line c])"
proof (cases c)
  case Hello_call
  then show thesis
    using that by (simp add: example_server_def registerFunction_def registerFunctionInternal_def registerRpcFunction_def
        RPC_ID_SAY_HELLO_def RPC_ID_SUM_def typed_function_def sayHello_def)
next
  case (Sum_call a b)
  have "typed_function [0..<length (sum_args c)] (Fundamental 8) (map Fundamental (map fst (sum_args c))) sum_function rer (encoded (sum_args c)) out =
      Inr (le_encode 8 (unat (sum32 a b)), out @ [call_line c])"
    using sum_args_bounds(3) [of c] Sum_call by (intro typed_function_left_to_right) (simp_all add: sum_function_def)
  then show thesis
    using that Sum_call by (simp add: example_server_def registerFunction_def registerFunctionInternal_def registerRpcFunction_def upt_rec)
qed

lemma example_server_exchanger [simp]: "dataExchanger (example_server order ex) = ex"
  by (simp add: example_server_def registerFunction_def registerFunctionInternal_def registerRpcFunction_def RpcServer_new_def)

context tcp_connection
begin

text \<open>What \<open>oneShot\<close> does with the next call, or with the end of the stream, however much the transfers deliver.\<close>

lemma oneShot_parameters:
  fixes c and out :: "string list"
  defines "sv \<equiv> example_server [0, 1] (tcp_exchanger api)"
  assumes "tcp_up open_fds fd (s, os)" "pending os = encoded (sum_args c) @ rest"
  shows "(\<exists>e. receive_parameters sv (of_nat (length (encoded (sum_args c)))) (s, os) = Inl e) \<or>
    (\<exists>d'. receive_parameters sv (of_nat (length (encoded (sum_args c)))) (s, os) = Inr (None, d')) \<or>
    (\<exists>os'. receive_parameters sv (of_nat (length (encoded (sum_args c)))) (s, os) = Inr (Some (encoded (sum_args c)), (s, os')) \<and>
      pending os' = rest \<and> open_fds os' = open_fds os \<and> bad_closes os' = bad_closes os)"
proof (cases "encoded (sum_args c) = []")
  case True
  then show ?thesis
    using assms(3) by (simp add: receive_parameters_def)
next
  case False
  let ?n = "of_nat (length (encoded (sum_args c))) :: size_t"
  have "length (encoded (sum_args c)) \<le> 8"
    using sum_args_bounds(2) [of c] by simp
  then have n: "unat ?n = length (encoded (sum_args c))" "unat ?n \<le> INT_MAX"
    by (simp_all add: unat_of_nat_size INT_MAX_def)
  then have "0 < ?n"
    using False by (metis length_greater_0_conv unat_gt_0 word_neq_0_conv)
  have ex: "dataExchanger sv = tcp_exchanger api"
    by (simp add: sv_def)
  show ?thesis
    using receive_vector_tcp [OF assms(2) n(2)]
  proof (elim disjE exE conjE)
    fix e
    assume "receive_vector (tcp_exchanger api) ?n (s, os) = Inl e"
    then show ?thesis
      using \<open>0 < ?n\<close> by (simp add: receive_parameters_def ex)
  next
    fix bs os'
    assume *: "receive_vector (tcp_exchanger api) ?n (s, os) = Inr (bs, (s, os'))" "length bs \<le> unat ?n" "pending os = bs @ pending os'"
      "open_fds os' = open_fds os" "bad_closes os' = bad_closes os"
    show ?thesis
    proof (cases "length bs = length (encoded (sum_args c))")
      case True
      then have "bs = encoded (sum_args c)" "pending os' = rest"
        using *(3) assms(3) by simp_all
      then show ?thesis
        using * \<open>0 < ?n\<close> by (simp add: receive_parameters_def ex)
    next
      case False
      moreover have "unat (of_nat (length bs) :: size_t) = length bs"
        using le_less_trans [OF *(2) unat_lt_size [of ?n]] by (rule unat_of_nat_size)
      ultimately have "of_nat (length bs) \<noteq> ?n"
        using n(1) by auto
      then show ?thesis
        using * \<open>0 < ?n\<close> by (simp add: receive_parameters_def ex)
    qed
  qed
qed

text \<open>A request that has been read whole.\<close>

lemma oneShot_request:
  fixes c and out :: "string list"
  defines "sv \<equiv> example_server [0, 1] (tcp_exchanger api)"
  assumes hdr: "receive_vector (tcp_exchanger api) (of_nat sizeof_RER) d = Inr (RER_bytes (request (call_id c) (sum_args c)), (s, os))"
    and "tcp_up open_fds fd (s, os)" "pending os = encoded (sum_args c) @ rest"
  shows "(\<exists>e. oneShot sv d out = Inl e) \<or>
    (\<exists>os'. oneShot sv d out = Inr (True, (s, os'), out @ [call_line c]) \<and> pending os' = rest \<and>
       open_fds os' = open_fds os \<and> bad_closes os' = bad_closes os)"
proof -
  let ?rer = "request (call_id c) (sum_args c)"
  have sv: "dataExchanger sv = tcp_exchanger api" "invalidRequestEventHandler sv = default_handler"
    by (simp_all add: sv_def example_server_def registerFunction_def registerFunctionInternal_def registerRpcFunction_def RpcServer_new_def)
  obtain f where f: "funStore sv (call_id c) = Some f"
    "rpcFunction f ?rer (encoded (sum_args c)) out = Inr (call_reply c, out @ [call_line c])"
    unfolding sv_def by (rule example_server_function)
  have "RER_wf ?rer"
    using sum_args_bounds(1) [of c] by (simp add: request_wf)
  then have rer: "RER_deserialize (RER_bytes ?rer) = Inr ?rer" "length (RER_bytes ?rer) = sizeof_RER"
    using RER_deserialize_serialize [of ?rer "[]"] by simp_all
  have pc: "unat (paramCount ?rer) = length (sum_args c)"
    using sum_args_bounds(1) [of c] by (simp add: unat_of_nat MAX_PARAM_COUNT_def)
  then have "checkIntegrity ?rer"
    using sum_args_bounds(1) [of c] by (simp only: checkIntegrity_def request_fields)
  then have one: "oneShot sv d out = bind_result (receive_parameters sv (of_nat (length (encoded (sum_args c)))) (s, os)) (\<lambda>(buf, d2).
      case buf of None \<Rightarrow> invalid_request sv ?rer BAD_PARAMETERS d2 out
      | Some ps \<Rightarrow> bind_result (rpcFunction f ?rer ps out) (\<lambda>(result, a').
          bind_result (send_vector (dataExchanger sv) result d2) (\<lambda>(_, d3). Inr (True, d3, a'))))"
    using sum_sizes_request [of "sum_args c" "call_id c"] sum_args_bounds(1) [of c] pc
    by (simp add: oneShot_def sv hdr rer f(1))
  have "length (call_reply c) \<le> INT_MAX"
    by (cases c) (simp_all add: INT_MAX_def)
  then have send: "(\<exists>e. send_vector (tcp_exchanger api) (call_reply c) (s, os2) = Inl e) \<or>
      (\<exists>k os3. send_vector (tcp_exchanger api) (call_reply c) (s, os2) = Inr (k, (s, os3)) \<and> pending os3 = pending os2 \<and>
        open_fds os3 = open_fds os2 \<and> bad_closes os3 = bad_closes os2)" if "open_fds os2 = open_fds os" for os2
    using send_vector_tcp [of s os2 "call_reply c"] assms(3) that by (simp add: tcp_up_def)
  from oneShot_parameters [OF assms(3,4), folded sv_def] show ?thesis
  proof (elim disjE exE conjE)
    fix os2
    assume *: "receive_parameters sv (of_nat (length (encoded (sum_args c)))) (s, os) = Inr (Some (encoded (sum_args c)), (s, os2))"
      "pending os2 = rest" "open_fds os2 = open_fds os" "bad_closes os2 = bad_closes os"
    then have one2: "oneShot sv d out = bind_result (send_vector (tcp_exchanger api) (call_reply c) (s, os2))
        (\<lambda>(_, d3). Inr (True, d3, out @ [call_line c]))"
      using f(2) by (simp add: one sv)
    show ?thesis
      using send [OF *(3)] *(2-4) by (elim disjE exE conjE) (simp_all add: one2)
  qed (simp_all add: one invalid_request_def sv default_handler_def)
qed

lemma oneShot_tcp:
  fixes out :: "string list"
  assumes "tcp_up open_fds fd (s, os)" "pending os = concat (map call_request calls)"
  shows "(\<exists>e. oneShot (example_server [0, 1] (tcp_exchanger api)) (s, os) out = Inl e) \<or>
    (\<exists>os'. oneShot (example_server [0, 1] (tcp_exchanger api)) (s, os) out = Inr (False, (s, os'), out) \<and>
       open_fds os' = open_fds os \<and> bad_closes os' = bad_closes os) \<or>
    (\<exists>c cs os'. calls = c # cs \<and>
       oneShot (example_server [0, 1] (tcp_exchanger api)) (s, os) out = Inr (True, (s, os'), out @ [call_line c]) \<and>
       pending os' = concat (map call_request cs) \<and> open_fds os' = open_fds os \<and> bad_closes os' = bad_closes os)"
proof -
  have n: "unat (of_nat sizeof_RER :: size_t) = sizeof_RER" "sizeof_RER \<le> INT_MAX" "0 < sizeof_RER"
    by (simp_all add: sizeof_RER_def MAX_PARAM_COUNT_def INT_MAX_def)
  then consider (threw) e where "receive_vector (tcp_exchanger api) (of_nat sizeof_RER) (s, os) = Inl e"
    | (got) bs os1 where "receive_vector (tcp_exchanger api) (of_nat sizeof_RER) (s, os) = Inr (bs, (s, os1))" "pending os = bs @ pending os1"
      "open_fds os1 = open_fds os" "bad_closes os1 = bad_closes os"
    using receive_vector_tcp [OF assms(1), of "of_nat sizeof_RER"] by auto
  then show ?thesis
  proof cases
    case threw
    then show ?thesis
      by (simp add: oneShot_def)
  next
    case (got bs os1)
    show ?thesis
    proof (cases "length bs = sizeof_RER")
      case False
      then show ?thesis
        using got by (simp add: oneShot_def)
    next
      case True
      then obtain c cs where c: "calls = c # cs"
        using got(2) assms(2) n(3) by (cases calls) auto
      have "length (RER_bytes (request (call_id c) (sum_args c))) = sizeof_RER"
        using sum_args_bounds(1) [of c] by (simp add: request_wf)
      then have "bs = RER_bytes (request (call_id c) (sum_args c))" "pending os1 = encoded (sum_args c) @ concat (map call_request cs)"
        using got(2) assms(2) True by (simp_all add: c call_request_def)
      then show ?thesis
        using oneShot_request [of "(s, os)" c s os1 "concat (map call_request cs)" out] got assms(1) by (auto simp: c tcp_up_def)
    qed
  qed
qed

lemma run_tcp:
  assumes "tcp_up open_fds fd (s, os)" "pending os = concat (map call_request calls)"
  shows "(\<exists>e. run (example_server [0, 1] (tcp_exchanger api)) (s, os) out = Some (Inl e)) \<or>
    (\<exists>j os'. run (example_server [0, 1] (tcp_exchanger api)) (s, os) out = Some (Inr ((s, os'), out @ map call_line (take j calls))) \<and>
       open_fds os' = open_fds os \<and> bad_closes os' = bad_closes os)"
  using assms
proof (induction calls arbitrary: os out)
  case Nil
  then show ?case
    using oneShot_tcp [OF Nil.prems, of out] exchanger_connected [OF Nil.prems(1)] by (auto simp: run.simps)
next
  case (Cons c cs)
  let ?sv = "example_server [0, 1] (tcp_exchanger api)"
  consider (threw) e where "oneShot ?sv (s, os) out = Inl e"
    | (ended) os1 where "oneShot ?sv (s, os) out = Inr (False, (s, os1), out)" "open_fds os1 = open_fds os" "bad_closes os1 = bad_closes os"
    | (served) os1 where "oneShot ?sv (s, os) out = Inr (True, (s, os1), out @ [call_line c])" "pending os1 = concat (map call_request cs)"
      "open_fds os1 = open_fds os" "bad_closes os1 = bad_closes os"
    using oneShot_tcp [OF Cons.prems, of out] by auto
  then show ?case
  proof cases
    case threw
    then show ?thesis
      using exchanger_connected [OF Cons.prems(1)] by (simp add: run.simps)
  next
    case ended
    then have "run ?sv (s, os) out = Some (Inr ((s, os1), out @ map call_line (take 0 (c # cs))))"
      using exchanger_connected [OF Cons.prems(1)] by (simp add: run.simps)
    then show ?thesis
      using ended by blast
  next
    case served
    then have "run ?sv (s, os) out = run ?sv (s, os1) (out @ [call_line c])"
      using exchanger_connected [OF Cons.prems(1)] by (subst run.simps) simp
    moreover have "(\<exists>e. run ?sv (s, os1) (out @ [call_line c]) = Some (Inl e)) \<or>
        (\<exists>j os'. run ?sv (s, os1) (out @ [call_line c]) = Some (Inr ((s, os'), (out @ [call_line c]) @ map call_line (take j cs))) \<and>
          open_fds os' = open_fds os1 \<and> bad_closes os' = bad_closes os1)"
      using served Cons.prems(1) by (intro Cons.IH) (simp_all add: tcp_up_def)
    ultimately show ?thesis
      using served(3,4) by (metis append_Cons append_Nil append_assoc list.simps(9) take_Suc_Cons)
  qed
qed

lemma client_keeps:
  assumes "tcp_up open_fds fd (s, os)" "RpcClient_get (tcp_exchanger api) R fid args (s, os) = Inr (v, d')"
    and "sizeof_RER + length ps \<le> INT_MAX" "build fid args = Inr (rer, ps)" "RER_wf rer" "reply_size R = Inr n" "unat n \<le> INT_MAX"
  shows "fst d' = s" "open_fds (snd d') = open_fds os" "bad_closes (snd d') = bad_closes os"
proof -
  obtain k d1 reply where send: "send_vector (tcp_exchanger api) (RER_bytes rer @ ps) (s, os) = Inr (k, d1)"
    and recv: "receive_vector (tcp_exchanger api) n d1 = Inr (reply, d')"
    using assms(2,4,5,6) by (auto simp: RpcClient_get_def sendExeRequest_sends bind_result_Inr split: if_splits)
  obtain os1 where os1: "d1 = (s, os1)" "open_fds os1 = open_fds os" "bad_closes os1 = bad_closes os"
    using send_vector_tcp [OF assms(1), of "RER_bytes rer @ ps"] send assms(3,5) by auto
  have "tcp_up open_fds fd (s, os1)"
    using assms(1) os1(2) by (simp add: tcp_up_def)
  then show "fst d' = s" "open_fds (snd d') = open_fds os" "bad_closes (snd d') = bad_closes os"
    using receive_vector_tcp [of s os1 n] recv assms(7) os1 by auto
qed

end

context tcp_whole
begin

lemma oneShot_call:
  assumes "tcp_up open_fds fd d" "smooth (snd d)" "pending (snd d) = call_request c @ rest"
  shows "\<exists>d'. oneShot (example_server [0, 1] (tcp_exchanger api)) d out = Inr (True, d', out @ [call_line c]) \<and>
    pending (snd d') = rest \<and> sent (snd d') = sent (snd d) @ call_reply c \<and> tcp_up open_fds fd d' \<and> smooth (snd d')"
proof -
  let ?sv = "example_server [0, 1] (tcp_exchanger api)"
  obtain f where f: "funStore ?sv (call_id c) = Some f"
    "rpcFunction f (request (call_id c) (sum_args c)) (encoded (sum_args c)) out = Inr (call_reply c, out @ [call_line c])"
    by (rule example_server_function)
  have "sum_list (map fst (sum_args c)) \<le> INT_MAX" "sizeof_RER \<le> INT_MAX"
    using sum_args_bounds(2) [of c] by (auto simp: INT_MAX_def sizeof_RER_def MAX_PARAM_COUNT_def)
  moreover have "length (call_reply c) \<le> INT_MAX"
    by (cases c) (simp_all add: INT_MAX_def)
  ultimately show ?thesis
    using tcp.oneShot_serves [OF _ f(1) conjI [OF assms(1,2)] sum_args_bounds(1) _ _ _ f(2), of rest] assms(3) by (simp add: call_request_def)
qed

text \<open>A receive that gets less than a request ends the loop.\<close>

lemma oneShot_end:
  assumes "tcp_up open_fds fd d" "smooth (snd d)" "pending (snd d) = []" "dataExchanger sv = tcp_exchanger api"
  shows "\<exists>d'. oneShot sv d a = Inr (False, d', a) \<and> sent (snd d') = sent (snd d) \<and> pending (snd d') = []"
proof -
  obtain s os where d: "d = (s, os)" by fastforce
  obtain r bs os' where rc: "sys_recv api fd (of_nat sizeof_RER) (flagReceptionBlocking s) os = (r, bs, os')"
    by (metis surj_pair)
  have fd: "sockfd s = fd" "fd \<in> open_fds os" "smooth os"
    using assms(1,2) d by (simp_all add: tcp_up_def)
  have r: "r = 0" "bs = []" "pending os' = []" "sent os' = sent os"
    using recv_smooth [OF fd(2,3) rc] recv_tcp [OF fd(2) rc] assms(3) d by auto
  have "TcpSocket_isConnected api s os"
    using assms(1) d up_connected by simp
  moreover have "unat (of_nat sizeof_RER :: size_t) \<le> INT_MAX" "unat (of_nat sizeof_RER :: size_t) \<le> MAX_VECTOR"
    by (simp_all add: sizeof_RER_def MAX_PARAM_COUNT_def INT_MAX_def MAX_VECTOR_def)
  ultimately show ?thesis
    using r rc fd(1) assms(4) d
    by (simp add: oneShot_def receive_vector_def tcp_exchanger_def TcpSocket_receive_def memcpy_to_def blit_def sizeof_RER_def MAX_PARAM_COUNT_def)
qed

lemma run_calls:
  assumes "tcp_up open_fds fd d" "smooth (snd d)" "pending (snd d) = concat (map call_request calls)"
  shows "\<exists>d'. run (example_server [0, 1] (tcp_exchanger api)) d out = Some (Inr (d', out @ map call_line calls)) \<and>
    sent (snd d') = sent (snd d) @ concat (map call_reply calls)"
  using assms
proof (induction calls arbitrary: d out)
  case Nil
  obtain d' where "oneShot (example_server [0, 1] (tcp_exchanger api)) d out = Inr (False, d', out)" "sent (snd d') = sent (snd d)"
    using oneShot_end [OF Nil.prems(1,2), of "example_server [0, 1] (tcp_exchanger api)" out] Nil.prems(3) by auto
  then show ?case
    using exchanger_connected [OF Nil.prems(1)] by (subst run.simps) simp
next
  case (Cons c calls)
  let ?sv = "example_server [0, 1] (tcp_exchanger api)"
  obtain d1 where d1: "oneShot ?sv d out = Inr (True, d1, out @ [call_line c])" "pending (snd d1) = concat (map call_request calls)"
    "sent (snd d1) = sent (snd d) @ call_reply c" "tcp_up open_fds fd d1" "smooth (snd d1)"
    using oneShot_call [OF Cons.prems(1,2), of c "concat (map call_request calls)" out] Cons.prems(3) by auto
  have "run ?sv d out = run ?sv d1 (out @ [call_line c])"
    using exchanger_connected [OF Cons.prems(1)] d1(1) by (subst run.simps) simp
  then show ?case
    using Cons.IH [OF d1(4,5,2), of "out @ [call_line c]"] d1(3) by auto
qed

lemma client_session:
  assumes "tcp_up open_fds fd (s, os)" "smooth os" "pending os = call_reply Hello_call @ call_reply (Sum_call a b)"
  shows "\<exists>d3 os4. RpcClient_get (tcp_exchanger api) Void RPC_ID_SAY_HELLO [] (s, os) = Inr (None, d3) \<and>
    RpcClient_get (tcp_exchanger api) (Fundamental 8) RPC_ID_SUM [(Fundamental 4, unat a), (Fundamental 4, unat b)] d3 =
      Inr (Some (unat (sum32 a b)), (s, os4)) \<and>
    sent os4 = sent os @ call_request Hello_call @ call_request (Sum_call a b) \<and> open_fds os4 = open_fds os \<and> bad_closes os4 = bad_closes os"
proof -
  have lim: "sizeof_RER + 8 \<le> INT_MAX" "sizeof_RER + 8 \<le> MAX_VECTOR"
    by (simp_all add: sizeof_RER_def MAX_PARAM_COUNT_def INT_MAX_def MAX_VECTOR_def)
  obtain d3 where d3: "RpcClient_get (tcp_exchanger api) Void RPC_ID_SAY_HELLO (typed []) (s, os) = Inr (None, d3)"
    "sent (snd d3) = sent os @ call_request Hello_call" "pending (snd d3) = call_reply (Sum_call a b)" "tcp_up open_fds fd d3" "smooth (snd d3)"
    using tcp.client_gets [of "(s, os)" "[]" Void 1 "[0]" "call_reply (Sum_call a b)" None RPC_ID_SAY_HELLO] assms lim
    by (auto simp: reply_size_def call_request_def)
  have keep: "fst d' = s'" "open_fds (snd d') = open_fds os'" "bad_closes (snd d') = bad_closes os'"
    if "tcp_up open_fds fd (s', os')" "RpcClient_get (tcp_exchanger api) R (call_id c) (typed (sum_args c)) (s', os') = Inr (v, d')"
      "reply_size R = Inr n" "unat n \<le> INT_MAX" for c R v d' n s' os'
    using client_keeps [OF that(1,2), of "encoded (sum_args c)" "request (call_id c) (sum_args c)" n] that(3,4) lim sum_args_bounds [of c]
    by (simp_all add: build_typed request_wf)
  obtain os3 where os3: "d3 = (s, os3)" "open_fds os3 = open_fds os" "bad_closes os3 = bad_closes os"
    using keep [OF assms(1), of Void Hello_call None d3 1] d3(1) by (cases d3) (auto simp: reply_size_def INT_MAX_def)
  have "unat (sum32 a b) < 256 ^ 8"
    using unsigned_less [of "sum32 a b"] by simp
  then have "deserialize_buffer (Fundamental 8) (call_reply (Sum_call a b)) (of_nat (length (call_reply (Sum_call a b)))) = Inr (Some (unat (sum32 a b)))"
    by (simp add: deserialize_buffer_def memcpy_from_def le_roundtrip)
  then obtain d4 where d4: "RpcClient_get (tcp_exchanger api) (Fundamental 8) RPC_ID_SUM (typed (sum_args (Sum_call a b))) d3 = Inr (Some (unat (sum32 a b)), d4)"
    "sent (snd d4) = sent (snd d3) @ call_request (Sum_call a b)"
    using tcp.client_gets [OF conjI [OF d3(4,5)], of "sum_args (Sum_call a b)" "Fundamental 8" 8 "call_reply (Sum_call a b)" "[]" "Some (unat (sum32 a b))" RPC_ID_SUM]
      d3(3) lim sum_args_bounds(1) [of "Sum_call a b"]
    by (auto simp: reply_size_def serializedSize_def call_request_def)
  have "fst d4 = s" "open_fds (snd d4) = open_fds os" "bad_closes (snd d4) = bad_closes os"
    using keep [of s os3 "Fundamental 8" "Sum_call a b" "Some (unat (sum32 a b))" d4 8] d3(4) d4(1) os3
    by (simp_all add: reply_size_def serializedSize_def INT_MAX_def)
  then show ?thesis
    using d3 d4 by (cases d4) auto
qed

end

text \<open>The network of \<open>Sockets\<close> is such a connection, whose calls transfer everything once the limited ones have been used up.\<close>

interpretation plain: tcp_whole plain_net "\<lambda>os. set (fd_table os)" ebadf fd outgoing incoming "\<lambda>os. chunks os = []" for fd
proof (unfold_locales, goal_cases)
  case (3 os n b r bs os')
  then show ?case
    by (auto simp: plain_net_def Let_def transfer_def min_def max_def unat_eq_zero split: list.splits if_splits)
qed (auto simp: plain_net_def Let_def transfer_def split: list.splits)

section \<open>Properties\<close>



text \<open>the RPC client over TCP. When it can connect and the replies that the server gives to a greeting and to the sum
  of 4 and 50 arrive whole, it sends exactly these two calls, the
  second one returns 54, its descriptor is closed (unless it is 0), once, and it returns 0; when it cannot connect it says so, closes its descriptor as well and returns -1.\<close>

theorem RpcClientOverTcp_calls:
  assumes "tcp_whole api open_fds bad_closes fd sent pending smooth" "sys_socket api AF_INET os = (fd, os1)" "0 \<le> fd"
    and "sys_connect api fd (Sockaddr_in AF_INET (htons 9898) (toInAddr (IPv4_of_string inet garbage ''127.0.0.1''))) os1 = (status, os2)"
    and "pending os2 = call_reply Hello_call @ call_reply (Sum_call 4 50)" "smooth os2"
  shows "\<exists>os'. RpcClientOverTcp_main api inet garbage os =
      Inr (if status = 0 then (0, Some 54, [''Gicame example: RpcClientOverTcp''], os')
        else (- 1, None, [''Gicame example: RpcClientOverTcp'', ''Unable to connect to the server''], os')) \<and>
    (status = 0 \<longrightarrow> sent os' = sent os2 @ call_request Hello_call @ call_request (Sum_call 4 50)) \<and>
    open_fds os' = open_fds os \<union> never_closed fd \<and> bad_closes os' = bad_closes os"
proof -
  let ?s = "\<lparr>sockfd = fd, socketStatus = CLOSED, sin_family = AF_INET, flagReceptionBlocking = False\<rparr>"
  let ?ip = "IPv4_of_string inet garbage ''127.0.0.1''"
  let ?s1 = "?s\<lparr>socketStatus := if status = 0 then CONNECTED else SS_ERROR\<rparr>"
  have con: "tcp_connection api open_fds bad_closes fd sent pending" and desc: "descriptors api open_fds bad_closes"
    using assms(1) by (simp_all add: tcp_whole_def tcp_connection_def)
  let ?addr = "Sockaddr_in AF_INET (htons 9898) (toInAddr ?ip)"
  have fds: "fd \<notin> open_fds os" "open_fds os2 = insert fd (open_fds os)" "bad_closes os2 = bad_closes os"
    using descriptors.socket_fds [OF desc assms(2)] assms(3) descriptors.connect_fds [OF desc, of fd ?addr os1] by (simp_all add: assms(4))
  have new: "TcpSocket_new api IPv4_version os = (Inr ?s, os1)"
    using assms(2,3) by (simp add: TcpSocket_new_def family_of_def)
  have up: "tcp_up open_fds fd (?s1, os2)" if "status = 0"
    using that fds(2) by (simp add: tcp_up_def)
  have "TcpSocket_isConnected api ?s1 os2 \<longleftrightarrow> status = 0"
    using tcp_connection.up_connected [OF con up] by (auto simp: TcpSocket_isConnected_def)
  then have cn: "connectTo_IPv4 api ?ip 9898 ?s os1 = (Inr (status = 0), ?s1, os2)"
    using assms(4) by (simp add: connectTo_IPv4_def TcpSocket_isConnected_def connect_addr_def)
  have closed: "open_fds (TcpSocket_destroy api s3 os3) = open_fds os \<union> never_closed fd \<and> bad_closes (TcpSocket_destroy api s3 os3) = bad_closes os \<and>
      TcpSocket_destroy api (fst (TcpSocket_close api s3 os3)) (snd (TcpSocket_close api s3 os3)) = TcpSocket_destroy api s3 os3 \<and>
      sent (TcpSocket_destroy api s3 os3) = sent os3"
    if "sockfd s3 = fd" "open_fds os3 = open_fds os2" "bad_closes os3 = bad_closes os2" for s3 os3
    using that fds assms(3) descriptors.close_fds [OF desc] tcp_connection.close_tcp [OF con]
    by (auto simp: TcpSocket_destroy_def TcpSocket_close_def never_closed_def)
  show ?thesis
  proof (cases "status = 0")
    case False
    then show ?thesis
      using new cn closed [of ?s1 os2] by (simp add: RpcClientOverTcp_main_def)
  next
    case True
    from tcp_whole.client_session [OF assms(1) up [OF True], of 4 50] obtain d3 os4 where
      "RpcClient_get (tcp_exchanger api) Void RPC_ID_SAY_HELLO [] (?s1, os2) = Inr (None, d3)"
      "RpcClient_get (tcp_exchanger api) (Fundamental 8) RPC_ID_SUM [(Fundamental 4, 4), (Fundamental 4, 50)] d3 = Inr (Some 54, ?s1, os4)"
      "sent os4 = sent os2 @ call_request Hello_call @ call_request (Sum_call 4 50)" "open_fds os4 = open_fds os2" "bad_closes os4 = bad_closes os2"
      using assms(5,6) by (auto simp: sum32_def)
    then show ?thesis
      using True new cn closed [of ?s1 os4] by (simp add: RpcClientOverTcp_main_def case_prod_beta)
  qed
qed

theorem RpcClientOverTcp_calls_witness:
  "\<exists>os'. RpcClientOverTcp_main plain_net \<lparr>inet_pton4 = (\<lambda>_. Some 0x0100007F), inet_pton6 = (\<lambda>_. None), inet_ntop4 = (\<lambda>_. ''''), inet_ntop6 = (\<lambda>_. '''')\<rparr> 0
      (plain_process [0, 1, 2] (call_reply Hello_call @ call_reply (Sum_call 4 50))) = Inr (0, Some 54, [''Gicame example: RpcClientOverTcp''], os') \<and>
    set (fd_table os') = {0, 1, 2} \<and> ebadf os' = 0"
proof -
  let ?p = "\<lambda>fds. plain_process fds (call_reply Hello_call @ call_reply (Sum_call 4 50))"
  have "sys_socket plain_net AF_INET (?p [0, 1, 2]) = (3, ?p [3, 0, 1, 2])" "sys_connect plain_net 3 addr os = (0, os)" for addr os
    by (simp_all add: plain_net_def plain_process_def lowest_fd_def upt_rec)
  then show ?thesis
    using RpcClientOverTcp_calls [OF plain.tcp_whole_axioms, of "?p [0, 1, 2]" 3 "?p [3, 0, 1, 2]"
        "\<lparr>inet_pton4 = (\<lambda>_. Some 0x0100007F), inet_pton6 = (\<lambda>_. None), inet_ntop4 = (\<lambda>_. ''''), inet_ntop6 = (\<lambda>_. '''')\<rparr>" 0 0 "?p [3, 0, 1, 2]"]
    by (auto simp: plain_process_def never_closed_def)
qed

text \<open>C33: a request that arrives in pieces ends the server. A socket made by \<open>acceptRequest\<close> does not
  ask for whole messages; when \<^verbatim>\<open>recv\<close> delivers fewer bytes than a request has, as TCP may, the
  server takes the connection for closed: \<open>run\<close> returns normally, with nothing called and nothing
  answered, although the client waits for its reply and the rest of the request is still to come.\<close>

theorem RpcServer_short_read_ends:
  assumes "dataExchanger sv = tcp_exchanger api" "socketStatus s = CONNECTED"
    and "\<exists>e\<ge>0. sys_getsockopt api (sockfd s) SOL_SOCKET SO_ERROR os = (0, Some e)"
    and "sys_recv api (sockfd s) (of_nat sizeof_RER) (flagReceptionBlocking s) os = (int (length bs), bs, os')" "length bs < sizeof_RER"
  shows "run sv (s, os) a = Some (Inr ((s, os'), a))"
proof -
  have con: "TcpSocket_isConnected api s os"
    using assms(2,3) by (auto simp: TcpSocket_isConnected_def getSockOptions_def)
  have sz: "unat (of_nat sizeof_RER :: size_t) = sizeof_RER" "sizeof_RER \<le> INT_MAX" "sizeof_RER \<le> MAX_VECTOR"
    by (simp_all add: sizeof_RER_def MAX_PARAM_COUNT_def INT_MAX_def MAX_VECTOR_def)
  have "unat (of_nat (length bs) :: size_t) = length bs"
    using assms(5) sz(3) by (simp add: unat_of_nat_size MAX_VECTOR_def)
  then have "oneShot sv (s, os) a = Inr (False, (s, os'), a)"
    using assms(1,4,5) con sz
    by (simp add: oneShot_def receive_vector_def tcp_exchanger_def TcpSocket_receive_def memcpy_to_def blit_def)
  moreover have "isConnected (tcp_exchanger api) (s, os)"
    using con by (simp add: isConnected_def tcp_exchanger_def)
  ultimately show ?thesis
    using assms(1) by (subst run.simps) simp
qed

theorem RpcServer_short_read_ends_witness:
  "\<exists>s os'. run (example_server [0, 1] (tcp_exchanger plain_net))
      (\<lparr>sockfd = 4, socketStatus = CONNECTED, sin_family = AF_INET, flagReceptionBlocking = False\<rparr>,
       (plain_process [0, 1, 2, 3, 4] (call_request Hello_call))\<lparr>chunks := [2]\<rparr>) [] = Some (Inr ((s, os'), [])) \<and>
    incoming os' = drop 2 (call_request Hello_call)"
proof -
  let ?os = "(plain_process [0, 1, 2, 3, 4] (call_request Hello_call))\<lparr>chunks := [2]\<rparr>"
  let ?os' = "plain_process [0, 1, 2, 3, 4] (drop 2 (call_request Hello_call))"
  have "length (call_request Hello_call) = sizeof_RER"
    by (simp add: call_request_def request_wf)
  then have "sys_recv plain_net 4 (of_nat sizeof_RER) False ?os = (int (length (take 2 (call_request Hello_call))), take 2 (call_request Hello_call), ?os')"
    by (simp add: plain_net_def plain_process_def transfer_def Let_def sizeof_RER_def MAX_PARAM_COUNT_def) (simp add: numeral_2_eq_2)
  then show ?thesis
    using RpcServer_short_read_ends [of "example_server [0, 1] (tcp_exchanger plain_net)" plain_net
        "\<lparr>sockfd = 4, socketStatus = CONNECTED, sin_family = AF_INET, flagReceptionBlocking = False\<rparr>" ?os "take 2 (call_request Hello_call)" ?os' "[]"]
    by (simp add: sizeof_RER_def MAX_PARAM_COUNT_def) (simp add: plain_net_def plain_process_def)
qed

end
