(* ===== verification/Examples_Serialization.thy ===== *)
theory Examples_Serialization
  imports Console Reflection
begin

text \<open>
  \<^verbatim>\<open>src/examples/Serialization/main.cpp\<close>: classes with reflected properties, the text of their tree, and
  binary round trips through a buffer and through a file. Values of fundamental types are their
  bit patterns; the strings are custom types.
\<close>

section \<open>The classes\<close>

datatype text_value = Text string | Texts "string list"

definition Dog :: otype where
  "Dog = TObj [makeProperty 0 ''barkType'', makeProperty 1 ''color'', makeProperty 2 ''weight'', makeProperty 3 ''awesome'', makeProperty 4 ''owners'']
     [TOther, TOther, TFund (Integral 4), TFund Boolean, TOther]"

definition Family :: otype where
  "Family = TObj [makeProperty 0 ''name'', makeProperty 1 ''dog''] [TOther, Dog]"

definition Pack2 :: otype where
  "Pack2 = TObj [makeProperty 0 ''pack1'', makeProperty 1 ''a''] [Pack1, TFund Double_t]"

section \<open>Printing a tree\<close>

definition buildSpacer :: "nat \<Rightarrow> string" where
  "buildSpacer spaceCount = replicate spaceCount (CHR '' '')"

definition printTreeLeaf :: "string \<Rightarrow> nat \<Rightarrow> string" where
  "printTreeLeaf leaf_name spaceCount = buildSpacer spaceCount @ leaf_name @ '' = '' @ ''??'' @ newline"

fun printTreeNode :: "'o tree_node \<Rightarrow> nat \<Rightarrow> string" where
  "printTreeNode (Leaf nm v) spaceCount = printTreeLeaf nm spaceCount"
| "printTreeNode (Node nm children) spaceCount =
     (let spacer = buildSpacer spaceCount in
      spacer @ ''Name: '' @ nm @ newline @
      spacer @ ''Children ('' @ decimal (length children) @ ''):'' @ newline @
      concat (map (\<lambda>child. printTreeNode child (spaceCount + 2)) children))"

section \<open>The program\<close>

text \<open>
  A file stream of bytes, once open, is a stream over the room left for it. The standard library converts
  the characters of a file stream with a facet that it has to provide only for \<^verbatim>\<open>char\<close> and \<^verbatim>\<open>wchar_t\<close>:
  where there is none for \<^verbatim>\<open>byte_t\<close> (\<open>facet\<close> is false), the first transfer fails, as on a stream without room.
\<close>

definition byte_ofstream :: "bool \<Rightarrow> nat \<Rightarrow> string \<Rightarrow> file_system \<Rightarrow> mstream" where
  "byte_ofstream facet space path fs =
     (let n = if facet \<and> may_write fs path then space else 0 in MemoryOStream (replicate n 0) n)"

definition close_ofstream :: "string \<Rightarrow> mstream \<Rightarrow> file_system \<Rightarrow> file_system" where
  "close_ofstream path s fs = (if may_write fs path then fs\<lparr>files := (files fs)(path \<mapsto> written_bytes s)\<rparr> else fs)"

definition byte_ifstream :: "bool \<Rightarrow> string \<Rightarrow> file_system \<Rightarrow> mstream" where
  "byte_ifstream facet path fs = (case open_in path fs of
     Some bs \<Rightarrow> if facet then MemoryIStream bs (length bs) else MemoryIStream [] 0
   | None \<Rightarrow> MemoryIStream [] 0)"

definition example_family :: "text_value oval" where
  "example_family = VObj [VOther (Text ''test''), VObj [VOther (Text ''loud''), VOther (Text ''brown''), VFund 0, VFund 1, VOther (Texts [])]]"

definition example_pack2 :: "'o oval" where
  "example_pack2 = VObj [VObj [VFund 0x3FF0000000000000, VFund 0, VFund 3], VFund 0x4010000000000000]"

text \<open>What \<open>main\<close> leaves: its output, the buffer, the files and the two results, which start as what
  their memory held.\<close>

record 'o serialization_demo =
  demo_out :: string
  demo_buff :: "byte_t list"
  demo_files :: file_system
  result1 :: "'o oval"
  result2 :: "'o oval"

definition Serialization_main ::
    "'o custom \<Rightarrow> bool \<Rightarrow> nat \<Rightarrow> 'o oval \<Rightarrow> 'o oval \<Rightarrow> file_system \<Rightarrow> 'o serialization_demo result" where
  "Serialization_main c facet space garbage1 garbage2 fs =
     (let out = ''Gicame example: Serialization'' @ newline @ printTreeNode (root (buildTree ''Family'' Family example_family)) 0;
          buff = replicate 1024 0xFF in
      bind_result (binarySerialize_buffer c Pack2 example_pack2 buff (length buff)) (\<lambda>(_, buff1).
      bind_result (binarySerialize c Pack2 example_pack2 (byte_ofstream facet space ''out.bin'' fs)) (\<lambda>outFile.
      let fs1 = close_ofstream ''out.bin'' outFile fs in
      bind_result (binaryDeserialize_buffer c Pack2 garbage1 buff1 (length buff1)) (\<lambda>(r1, _).
      bind_result (binaryDeserialize c Pack2 garbage2 (byte_ifstream facet ''out.bin'' fs1)) (\<lambda>(r2, _).
        Inr \<lparr>demo_out = out, demo_buff = buff1, demo_files = fs1, result1 = r1, result2 = r2\<rparr>)))))"

section \<open>Correctness\<close>

lemma Family_text:
  "printTreeNode (root (buildTree ''Family'' Family example_family)) 0 =
    ''Name: Family'' @ newline @ ''Children (2):'' @ newline @ ''  name = ??'' @ newline @
    ''  Name: dog'' @ newline @ ''  Children (5):'' @ newline @ ''    barkType = ??'' @ newline @ ''    color = ??'' @ newline @
    ''    weight = ??'' @ newline @ ''    awesome = ??'' @ newline @ ''    owners = ??'' @ newline"
  by (simp add: buildTree_def Family_def Dog_def example_family_def makeProperty_def HasProperies_def printTreeLeaf_def buildSpacer_def
      decimal.simps numeral_eq_Suc)

definition pack2_bytes :: "byte_t list" where
  "pack2_bytes = le_encode 4 0 @ le_encode 8 0x3FF0000000000000 @ le_encode 4 3 @ le_encode 8 0x4010000000000000"

lemma pack2_form: "binary_form cb Pack2 example_pack2 = pack2_bytes" "length pack2_bytes = 24" "stored Pack2 example_pack2"
  by (simp_all add: Pack2_def Pack1_def example_pack2_def pack2_bytes_def makeProperty_def del: le_encode.simps)

text \<open>All members are fundamental properties: objects of the same properties are the same.\<close>

lemma pack2_values:
  assumes "stored Pack2 w"
  obtains x y z t where "w = VObj [VObj [VFund x, VFund y, VFund z], VFund t]" "x < 256 ^ 8" "y < 256 ^ 4" "z < 256 ^ 4" "t < 256 ^ 8"
proof -
  obtain u t where w: "w = VObj [u, t]" "stored Pack1 u" "stored (TFund Double_t) t"
    using assms by (cases w) (auto simp: Pack2_def list_all2_Cons1)
  obtain x y z where u: "u = VObj [x, y, z]" "stored (TFund Double_t) x" "stored (TFund (Integral 4)) y" "stored (TFund (Integral 4)) z"
    using w(2) by (cases u) (auto simp: Pack1_def list_all2_Cons1)
  show thesis
    using that w u by (cases x; cases y; cases z; cases t) auto
qed

lemma pack2_same:
  assumes "stored Pack2 w" "same c Pack2 w example_pack2"
  shows "w = example_pack2"
  by (rule pack2_values [OF assms(1)])
    (use assms(2) in \<open>simp add: Pack2_def Pack1_def example_pack2_def makeProperty_def\<close>)

lemma pack2_read:
  assumes "custom_codec c cb" "stored Pack2 g" "offers N s (pack2_bytes @ rest)"
  obtains s' where "binaryDeserialize c Pack2 g s = Inr (example_pack2, s')"
proof -
  have "offers N s (binary_form cb Pack2 example_pack2 @ rest)"
    using assms(3) by (simp only: pack2_form(1))
  from custom_codec.binaryDeserialize_same [OF assms(1) pack2_form(3) assms(2) this]
  obtain w' s' where "binaryDeserialize c Pack2 g s = Inr (w', s')" "stored Pack2 w'" "same c Pack2 w' example_pack2"
    by blast
  then show thesis
    using that pack2_same by blast
qed

lemma pack2_write:
  assumes "custom_codec c cb" "24 \<le> n" "n \<le> length buf"
  obtains s where "binarySerialize c Pack2 example_pack2 (MemoryOStream buf n) = Inr s" "written_bytes s = pack2_bytes"
    "length (mem_buffer (memBuff s)) = length buf" "mem_buffer (memBuff s) = pack2_bytes @ drop 24 buf"
proof -
  have "room (MemoryOStream buf n) (length (binary_form cb Pack2 example_pack2))"
    using assms(2,3) by (simp add: pack2_form room_def stream_wf_def MemoryOStream_def MemoryStreamBuf_new_def del: binary_form.simps)
  from custom_codec.binarySerialize_wrote [OF assms(1) pack2_form(3) this]
  obtain s where s: "binarySerialize c Pack2 example_pack2 (MemoryOStream buf n) = Inr s" "wrote (MemoryOStream buf n) pack2_bytes s"
    by (auto simp only: pack2_form(1))
  have w: "written_bytes s = pack2_bytes" "length (mem_buffer (memBuff s)) = length buf" "pos (memBuff s) = 24"
    "drop 24 (mem_buffer (memBuff s)) = drop 24 buf"
    using s(2) by (auto simp: wrote_def MemoryOStream_def MemoryStreamBuf_new_def written_bytes_def pack2_form(2))
  then have "mem_buffer (memBuff s) = pack2_bytes @ drop 24 buf"
    by (metis append_take_drop_id written_bytes_def)
  then show thesis
    using that s(1) w by blast
qed

text \<open>A stream without room takes nothing and gives nothing.\<close>

lemma pack2_no_room:
  "\<exists>s. binarySerialize c Pack2 example_pack2 (MemoryOStream [] 0) = Inr s \<and> written_bytes s = []"
  "stored Pack2 g \<Longrightarrow> \<exists>s. binaryDeserialize c Pack2 g (MemoryIStream [] 0) = Inr (g, s)"
proof -
  show "\<exists>s. binarySerialize c Pack2 example_pack2 (MemoryOStream [] 0) = Inr s \<and> written_bytes s = []"
    by (simp add: Pack2_def Pack1_def example_pack2_def makeProperty_def fundamentalToBinary_def ostream_write_def xsputn_def
        MemoryOStream_def MemoryStreamBuf_new_def written_bytes_def Let_def)
  show "\<exists>s. binaryDeserialize c Pack2 g (MemoryIStream [] 0) = Inr (g, s)" if "stored Pack2 g"
    using that by (rule pack2_values) (simp add: Pack2_def Pack1_def makeProperty_def binaryToFundamental_def istream_read_def xsgetn_def
        MemoryIStream_def MemoryStreamBuf_new_def Let_def le_decode_encode del: le_encode.simps)
qed

section \<open>Properties\<close>

text \<open>C36: the serialization example. It prints the tree of a family with its dog, node by node and with the values hidden; the
  two packs of numbers, 24 bytes without padding, go into the start of the buffer, the rest of which keeps its
  bytes, and come back equal, whatever the result held before. The round trip through the file
  works only where the standard library converts bytes: elsewhere the file stays empty and the
  second result keeps what its memory held, without any error being reported.\<close>

theorem Serialization_example_correct:
  assumes "custom_codec c cb" "stored Pack2 garbage1" "stored Pack2 garbage2"
    and "may_write fs ''out.bin''" "may_read fs ''out.bin''" "24 \<le> space"
  shows "\<exists>d. Serialization_main c facet space garbage1 garbage2 fs = Inr d \<and>
    demo_out d = ''Gicame example: Serialization'' @ newline @
      ''Name: Family'' @ newline @ ''Children (2):'' @ newline @ ''  name = ??'' @ newline @
      ''  Name: dog'' @ newline @ ''  Children (5):'' @ newline @ ''    barkType = ??'' @ newline @ ''    color = ??'' @ newline @
      ''    weight = ??'' @ newline @ ''    awesome = ??'' @ newline @ ''    owners = ??'' @ newline \<and>
    demo_buff d = pack2_bytes @ replicate 1000 0xFF \<and> result1 d = example_pack2 \<and>
    files (demo_files d) = (files fs)(''out.bin'' \<mapsto> if facet then pack2_bytes else []) \<and>
    result2 d = (if facet then example_pack2 else garbage2)"
proof -
  obtain s1 where s1: "binarySerialize c Pack2 example_pack2 (MemoryOStream (replicate 1024 0xFF) 1024) = Inr s1"
    "mem_buffer (memBuff s1) = pack2_bytes @ replicate 1000 0xFF"
    using pack2_write [OF assms(1), where n = 1024 and buf = "replicate 1024 0xFF"] by (auto simp: drop_replicate)
  let ?buff = "pack2_bytes @ replicate 1000 0xFF"
  have ser: "binarySerialize_buffer c Pack2 example_pack2 (replicate 1024 0xFF) 1024 = Inr (stream_tell s1, ?buff)"
    using s1 by (simp add: binarySerialize_buffer_def)
  have "offers 1024 (MemoryIStream ?buff 1024) (pack2_bytes @ replicate 1000 0xFF)"
    using pack2_form(2) by (simp add: offers_def MemoryIStream_def MemoryStreamBuf_new_def stream_wf_def unread_def)
  then obtain s2 where "binaryDeserialize c Pack2 garbage1 (MemoryIStream ?buff 1024) = Inr (example_pack2, s2)"
    by (rule pack2_read [OF assms(1,2)])
  then have des: "binaryDeserialize_buffer c Pack2 garbage1 ?buff (length ?buff) = Inr (example_pack2, stream_tell s2)"
    by (simp add: binaryDeserialize_buffer_def pack2_form(2))
  obtain s3 where wr: "binarySerialize c Pack2 example_pack2 (byte_ofstream facet space ''out.bin'' fs) = Inr s3"
    "written_bytes s3 = (if facet then pack2_bytes else [])"
  proof (cases facet)
    case True
    then show thesis
      using that assms(4) by (auto simp: byte_ofstream_def intro: pack2_write [OF assms(1,6), where buf = "replicate space 0"])
  next
    case False
    then show thesis
      using that assms(4) pack2_no_room(1) [where c = c] by (auto simp: byte_ofstream_def)
  qed
  have "offers 24 (MemoryIStream pack2_bytes 24) (pack2_bytes @ [])"
    using pack2_form(2) by (simp add: offers_def MemoryIStream_def MemoryStreamBuf_new_def stream_wf_def unread_def)
  then obtain s4 where "binaryDeserialize c Pack2 garbage2 (MemoryIStream pack2_bytes 24) = Inr (example_pack2, s4)"
    by (rule pack2_read [OF assms(1,3)])
  then obtain s5 where rd: "binaryDeserialize c Pack2 garbage2 (byte_ifstream facet ''out.bin'' (close_ofstream ''out.bin'' s3 fs)) =
      Inr (if facet then example_pack2 else garbage2, s5)"
    using pack2_no_room(2) [OF assms(3), of c] wr(2) assms(4,5)
    by (cases facet) (auto simp: byte_ifstream_def close_ofstream_def open_in_def pack2_form(2))
  have "Serialization_main c facet space garbage1 garbage2 fs =
      Inr \<lparr>demo_out = ''Gicame example: Serialization'' @ newline @ printTreeNode (root (buildTree ''Family'' Family example_family)) 0,
        demo_buff = ?buff, demo_files = close_ofstream ''out.bin'' s3 fs, result1 = example_pack2,
        result2 = if facet then example_pack2 else garbage2\<rparr>"
    unfolding Serialization_main_def Let_def length_replicate ser wr(1) bind_result_simps prod.case des rd ..
  then show ?thesis
    unfolding Family_text using wr(2) assms(4) by (simp add: close_ofstream_def)
qed

theorem Serialization_example_correct_witness:
  "\<exists>d. Serialization_main (enum_custom 1) False 100 (VObj [VObj [VFund 7, VFund 7, VFund 7], VFund 7]) (VObj [VObj [VFund 1, VFund 2, VFund 3], VFund 4])
      \<lparr>files = Map.empty, may_read = (\<lambda>_. True), may_write = (\<lambda>_. True)\<rparr> = Inr d \<and>
    result1 d = example_pack2 \<and> result2 d = VObj [VObj [VFund 1, VFund 2, VFund 3], VFund 4]"
proof -
  have "stored Pack2 (VObj [VObj [VFund 7, VFund 7, VFund 7], VFund 7])" "stored Pack2 (VObj [VObj [VFund 1, VFund 2, VFund 3], VFund 4])"
    by (simp_all add: Pack2_def Pack1_def makeProperty_def)
  from Serialization_example_correct [OF enum.custom_codec_axioms [of 1] this, of "\<lparr>files = Map.empty, may_read = (\<lambda>_. True), may_write = (\<lambda>_. True)\<rparr>" 100 False]
  show ?thesis
    by auto
qed

end
