(* ===== verification/Examples_Queue.thy ===== *)
theory Examples_Queue
  imports ByteRing_Theorems SPSCQueue_Threads DataTransfer
begin

text \<open>
  \<^verbatim>\<open>src/examples/SPSCQueue/main.cpp\<close>: a thread that produces numbers and a thread that counts those
  that arrive wrong, over the interprocess queue, over the in-process queue, and as texts, and
  \<^verbatim>\<open>main\<close>, which starts and joins them. The number of
  elements is a parameter of the bodies, so that they can be run on a few; the program's is \<open>ELEM_COUNT\<close>.
\<close>

section \<open>The program\<close>

definition QUEUE_SIZE :: size_t where
  "QUEUE_SIZE = 8 * 1024 * 1024"

definition ELEM_COUNT :: nat where
  "ELEM_COUNT = 64 * 1024 * 1024"

text \<open>What the producers push, and what the consumers make of the popped objects: the loop over
  them from \<open>i\<close> on.\<close>

definition numbers :: "nat \<Rightarrow> byte_t list list" where
  "numbers count = map (\<lambda>i. bytes8 (of_nat i)) [0..<count]"

fun count_errors :: "size_t \<Rightarrow> byte_t list list \<Rightarrow> size_t \<Rightarrow> size_t" where
  "count_errors i [] errorCount = errorCount"
| "count_errors i (elem # elems) errorCount =
     count_errors (i + 1) elems (if word8 elem \<noteq> i then errorCount + 1 else errorCount)"

text \<open>The interprocess queue: both threads use the one object, of which the producer's side keeps
  its snapshot in \<open>cachedTail\<close> and the consumer's in \<open>cachedHead\<close>.\<close>

definition ipc_pops :: "nat \<Rightarrow> size_t list" where
  "ipc_pops count = replicate count 8"

definition ipc_threads :: "nat \<Rightarrow> 'w \<Rightarrow> 'w sys" where
  "ipc_threads count w = start_sys QUEUE_SIZE (numbers count) (ipc_pops count) w"

text \<open>What the two bodies print when all their calls have returned.\<close>

definition producerBodyIpc :: "'w sys \<Rightarrow> string option" where
  "producerBodyIpc s = (if p_pc (prodr s) = Idle \<and> p_todo (prodr s) = [] then Some ''producerBodyIpc -> done'' else None)"

definition consumerBodyIpc :: "'w sys \<Rightarrow> string option" where
  "consumerBodyIpc s = (if c_pc (consr s) = Idle \<and> c_todo (consr s) = []
     then Some (''consumerBodyIpc -> errorCount: '' @ decimal (unat (count_errors 0 (c_done (consr s)) 0))) else None)"

text \<open>The in-process queue, as its functions are seen by the thread that calls them.\<close>

fun push_all :: "byte_t list list \<Rightarrow> SPSCQueue \<Rightarrow> SPSCQueue result option" where
  "push_all [] q = Some (Inr q)"
| "push_all (elem # elems) q = Option.bind (SPSC_push q elem (of_nat (length elem))) (\<lambda>r. case r of
     Inl e \<Rightarrow> Some (Inl e)
   | Inr q' \<Rightarrow> push_all elems q')"

fun pop_all :: "nat \<Rightarrow> SPSCQueue \<Rightarrow> (byte_t list list \<times> SPSCQueue) result option" where
  "pop_all 0 q = Some (Inr ([], q))"
| "pop_all (Suc n) q = Option.bind (SPSC_pop q [] 8) (\<lambda>r. case r of
     Inl e \<Rightarrow> Some (Inl e)
   | Inr (elem, q') \<Rightarrow> map_option (map_sum id (\<lambda>(elems, q''). (elem # elems, q''))) (pop_all n q'))"

definition producerBody :: "nat \<Rightarrow> SPSCQueue \<Rightarrow> (string \<times> SPSCQueue) result option" where
  "producerBody count q = map_option (map_sum id (\<lambda>q'. (''producerBody -> done'', q'))) (push_all (numbers count) q)"

definition consumerBody :: "nat \<Rightarrow> SPSCQueue \<Rightarrow> (string \<times> SPSCQueue) result option" where
  "consumerBody count q = map_option (map_sum id (\<lambda>(elems, q').
     (''consumerBody -> errorCount: '' @ decimal (unat (count_errors 0 elems 0)), q'))) (pop_all count q)"

text \<open>Texts, over any connection: the elements from \<open>i\<close> on, \<open>n\<close> of them.\<close>

definition to_string :: "nat \<Rightarrow> byte_t list" where
  "to_string n = map of_char (decimal n)"

fun send_texts :: "'d IDataExchanger \<Rightarrow> nat \<Rightarrow> nat \<Rightarrow> 'd \<Rightarrow> 'd result option" where
  "send_texts ex i 0 d = Some (Inr d)"
| "send_texts ex i (Suc n) d = Option.bind (sendText ex (to_string i) d) (\<lambda>r. case r of
     Inl e \<Rightarrow> Some (Inl e)
   | Inr (_, d') \<Rightarrow> send_texts ex (Suc i) n d')"

fun receive_texts :: "'d IDataExchanger \<Rightarrow> byte_t list \<Rightarrow> nat \<Rightarrow> nat \<Rightarrow> size_t \<Rightarrow> 'd \<Rightarrow> (size_t \<times> 'd) result option" where
  "receive_texts ex garbage i 0 errorCount d = Some (Inr (errorCount, d))"
| "receive_texts ex garbage i (Suc n) errorCount d = Option.bind (receiveText ex garbage (- 1) d) (\<lambda>r. case r of
     Inl e \<Rightarrow> Some (Inl e)
   | Inr (elem, d') \<Rightarrow>
       receive_texts ex garbage (Suc i) n (if elem \<noteq> to_string i then errorCount + 1 else errorCount) d')"

definition textProducerBody :: "'d IDataExchanger \<Rightarrow> nat \<Rightarrow> 'd \<Rightarrow> (string \<times> 'd) result option" where
  "textProducerBody ex count d = map_option (map_sum id (\<lambda>d'. (''textProducerBody -> done'', d'))) (send_texts ex 0 count d)"

definition textConsumerBody :: "'d IDataExchanger \<Rightarrow> byte_t list \<Rightarrow> nat \<Rightarrow> 'd \<Rightarrow> (string \<times> 'd) result option" where
  "textConsumerBody ex garbage count d = map_option (map_sum id (\<lambda>(errorCount, d').
     (''textConsumerBody -> errorCount: '' @ decimal (unat errorCount), d'))) (receive_texts ex garbage 0 count 0 d)"

section \<open>Lemmas\<close>

lemma count_errors_from: "count_errors (of_nat i) (map (\<lambda>j. bytes8 (of_nat j)) [i..<j]) e = e"
proof (induction "j - i" arbitrary: i)
  case (Suc k)
  then have "i < j" "k = j - Suc i" by simp_all
  then show ?case
    using Suc.hyps(1) [of "Suc i"] by (simp add: upt_conv_Cons add.commute)
qed simp

lemma take_numbers: "take k (numbers n) = map (\<lambda>j. bytes8 (of_nat j)) [0..<min k n]"
  by (simp add: numbers_def take_map take_upt min_def)

lemma count_errors_numbers: "count_errors 0 (take k (numbers n)) e = e"
  using count_errors_from [of 0 "min k n" e] by (simp add: take_numbers)

lemma numbers_lengths: "map length (numbers n) = replicate n 8" "d \<in> set (numbers n) \<Longrightarrow> length d = 8"
  by (auto simp: numbers_def comp_def map_replicate_trivial)

lemma numbers_short: "\<forall>d \<in> set (numbers count). length d < 2 ^ 64"
  using numbers_lengths(2) by fastforce

lemma QUEUE_SIZE_ok: "2 \<le> QUEUE_SIZE" "unat QUEUE_SIZE \<le> 2 ^ 63"
  by (simp_all add: QUEUE_SIZE_def)

lemma ipc_threads_wf:
  "ring_inv (concat (numbers n)) (ipc_threads n w)" "wanted (ipc_threads n w) = map length (numbers n)"
proof -
  show "ring_inv (concat (numbers n)) (ipc_threads n w)"
    unfolding ipc_threads_def by (rule start_inv [OF QUEUE_SIZE_ok numbers_short])
  show "wanted (ipc_threads n w) = map length (numbers n)"
    by (simp add: wanted_def ipc_threads_def start_sys_def Let_def ipc_pops_def numbers_lengths(1))
qed

lemma ipc_popped:
  assumes "reach pol (ipc_threads n w) s"
  shows "c_done (consr s) = take (length (c_done (consr s))) (numbers n)"
  by (rule popped_are_pushed [OF reach_inv [OF assms ipc_threads_wf(1)]])
    (simp only: reach_wanted [OF assms ipc_threads_wf(1)] ipc_threads_wf(2))

lemma push_all_fits:
  assumes "spsc_wf q" "length (concat ds) + length (spsc_contents q) < unat (q_capacity q)"
  shows "\<exists>q'. push_all ds q = Some (Inr q') \<and> spsc_wf q' \<and> spsc_contents q' = spsc_contents q @ concat ds"
  using assms
proof (induction ds arbitrary: q)
  case (Cons d ds)
  obtain q1 where q1: "SPSC_push q d (of_nat (length d)) = Some (Inr q1)" "spsc_wf q1"
    "spsc_contents q1 = spsc_contents q @ d" "q_capacity q1 = q_capacity q"
    using SPSC_push_fits [OF Cons.prems(1), of d] Cons.prems(2) by auto
  then show ?case
    using Cons.IH [of q1] Cons.prems(2) by auto
qed simp

lemma pop_all_there:
  assumes "spsc_wf q" "spsc_contents q = concat ds @ rest" "\<And>d. d \<in> set ds \<Longrightarrow> length d = 8"
  shows "\<exists>q'. pop_all (length ds) q = Some (Inr (ds, q')) \<and> spsc_wf q' \<and> spsc_contents q' = rest"
  using assms
proof (induction ds arbitrary: q)
  case (Cons d ds)
  have d: "length d = 8" by (rule Cons.prems(3)) simp
  obtain q1 where q1: "SPSC_pop q [] 8 = Some (Inr (d, q1))" "spsc_wf q1" "spsc_contents q1 = concat ds @ rest"
    using SPSC_pop_there [OF Cons.prems(1), of 8] Cons.prems(2) d by auto
  then show ?case
    using Cons.IH [of q1] Cons.prems(3) by auto
qed simp

section \<open>Properties\<close>

lemma decimal_0: "decimal 0 = ''0''"
  by (simp add: decimal.simps)

text \<open>the queue example between threads over \<^verbatim>\<open>InterprocessQueue\<close>. However the two threads
  interleave, the consumer never counts an error; and where signals are kept until a wait consumes them, from every state
  the threads can get into they can go on until all elements have arrived and both have printed that they are done.\<close>

theorem SPSCQueue_example_ipc:
  assumes "sticky_policy pol present free" "reach pol (ipc_threads count w) s"
  shows "count_errors 0 (c_done (consr s)) 0 = 0 \<and> consumerBodyIpc s \<in> {None, Some ''consumerBodyIpc -> errorCount: 0''} \<and>
    (\<exists>sched s'. run pol sched s = Some s' \<and> length (c_done (consr s')) = count \<and>
      producerBodyIpc s' = Some ''producerBodyIpc -> done'' \<and> consumerBodyIpc s' = Some ''consumerBodyIpc -> errorCount: 0'')"
proof -
  have ok: "count_errors 0 (c_done (consr s)) 0 = 0" if "reach pol (ipc_threads count w) s" for s
    by (subst ipc_popped [OF that]) (rule count_errors_numbers)
  obtain sched s' where s': "run pol sched s = Some s'" "finished s'" "c_done (consr s') = numbers count"
    using sticky_policy.matched_calls_complete [OF assms(1) QUEUE_SIZE_ok numbers_short, of "ipc_pops count" count w s] assms(2)
    by (auto simp: ipc_threads_def ipc_pops_def numbers_lengths(1))
  have "length (numbers count) = count"
    by (simp add: numbers_def)
  moreover have "producerBodyIpc s' = Some ''producerBodyIpc -> done''"
    using s'(2) by (simp add: finished_def producerBodyIpc_def)
  moreover have "consumerBodyIpc s' = Some ''consumerBodyIpc -> errorCount: 0''"
    using s'(2) ok [OF run_reach [OF s'(1) assms(2)]] by (simp add: finished_def consumerBodyIpc_def decimal_0)
  ultimately show ?thesis
    using ok [OF assms(2)] s' by (intro conjI exI [of _ sched] exI [of _ s']) (simp_all add: consumerBodyIpc_def decimal_0)
qed

theorem SPSCQueue_example_ipc_witness:
  "\<exists>sched s'. run (IntPrQueueLockPolicy (win_ipsignal flag_event)) sched (ipc_threads ELEM_COUNT (False, False)) = Some s' \<and>
     length (c_done (consr s')) = ELEM_COUNT \<and> consumerBodyIpc s' = Some ''consumerBodyIpc -> errorCount: 0''"
proof -
  have "auto_reset_event flag_event (\<lambda>k. k)"
    by unfold_locales (auto simp: flag_event_def)
  then have "sticky_policy (IntPrQueueLockPolicy (win_ipsignal flag_event)) (\<lambda>(p, f). p) (\<lambda>(p, f). f)"
    by (intro sticky_signal.policy_is_sticky auto_reset_event.event_is_sticky)
  from SPSCQueue_example_ipc [OF this reach.start, of ELEM_COUNT "(False, False)"] show ?thesis
    by blast
qed

text \<open>the queue example over \<^verbatim>\<open>SPSCQueue\<close>. On the queue as the program constructs it the first \<open>push\<close>
  writes outside the buffer, which is undefined behaviour; over a queue whose buffer had the size of its
  capacity, the elements that fit would be pushed and popped again without error.\<close>

theorem SPSCQueue_example_in_process:
  assumes "0 < count"
  shows "producerBody count (SPSCQueue_new QUEUE_SIZE) = Some (Inl (Undefined_behaviour ''operator[]: index out of bounds'')) \<and>
    (8 * count < unat QUEUE_SIZE \<longrightarrow> (\<exists>q q'.
      producerBody count ((SPSCQueue_new QUEUE_SIZE)\<lparr>q_buffer := replicate (unat QUEUE_SIZE) 0\<rparr>) = Some (Inr (''producerBody -> done'', q)) \<and>
      consumerBody count q = Some (Inr (''consumerBody -> errorCount: 0'', q')) \<and> spsc_contents q' = []))"
proof (intro conjI impI)
  have "numbers count = bytes8 0 # map (\<lambda>i. bytes8 (of_nat i)) [1..<count]"
    using upt_conv_Cons [OF assms] by (simp add: numbers_def)
  moreover obtain x xs where "bytes8 0 = x # xs"
    using length_bytes(2) [of 0] by (cases "bytes8 0") auto
  ultimately show "producerBody count (SPSCQueue_new QUEUE_SIZE) = Some (Inl (Undefined_behaviour ''operator[]: index out of bounds''))"
    using push_as_constructed [OF QUEUE_SIZE_ok(1), of 8 x xs] length_bytes(2) [of 0] by (simp add: producerBody_def)
next
  let ?q0 = "(SPSCQueue_new QUEUE_SIZE)\<lparr>q_buffer := replicate (unat QUEUE_SIZE) 0\<rparr>"
  assume fit: "8 * count < unat QUEUE_SIZE"
  have q0: "spsc_wf ?q0" "spsc_contents ?q0 = []" "q_capacity ?q0 = QUEUE_SIZE"
    by (simp_all add: spsc_wf_def spsc_contents_def SPSCQueue_new_def ring_contents_def ring_dist_def QUEUE_SIZE_def)
  have "length (concat (numbers count)) = 8 * count"
    by (simp add: length_concat numbers_lengths(1) sum_list_replicate)
  then obtain q where q: "push_all (numbers count) ?q0 = Some (Inr q)" "spsc_wf q" "spsc_contents q = concat (numbers count)"
    using push_all_fits [OF q0(1), of "numbers count"] fit q0(2,3) by auto
  then obtain q' where "pop_all count q = Some (Inr (numbers count, q'))" "spsc_contents q' = []"
    using pop_all_there [OF q(2), of "numbers count" "[]"] numbers_lengths(2) by (auto simp: numbers_def)
  moreover have "count_errors 0 (numbers count) 0 = 0"
    using count_errors_numbers [of count count 0] by (simp add: numbers_def)
  ultimately show "\<exists>q q'. producerBody count ?q0 = Some (Inr (''producerBody -> done'', q)) \<and>
      consumerBody count q = Some (Inr (''consumerBody -> errorCount: 0'', q')) \<and> spsc_contents q' = []"
    using q(1) by (intro exI [of _ q] exI [of _ q']) (simp add: producerBody_def consumerBody_def decimal_0)
qed

theorem SPSCQueue_example_in_process_witness:
  "producerBody ELEM_COUNT (SPSCQueue_new QUEUE_SIZE) = Some (Inl (Undefined_behaviour ''operator[]: index out of bounds'')) \<and>
   (\<exists>q q'. producerBody 1000 ((SPSCQueue_new QUEUE_SIZE)\<lparr>q_buffer := replicate (unat QUEUE_SIZE) 0\<rparr>) = Some (Inr (''producerBody -> done'', q)) \<and>
      consumerBody 1000 q = Some (Inr (''consumerBody -> errorCount: 0'', q')))"
proof -
  have "0 < ELEM_COUNT" "8 * 1000 < unat QUEUE_SIZE"
    by (simp_all add: ELEM_COUNT_def QUEUE_SIZE_def)
  then show ?thesis
    using SPSCQueue_example_in_process [of ELEM_COUNT] SPSCQueue_example_in_process [of 1000] by auto
qed

text \<open>Texts: what the producer sends is the concatenation of the sized texts.\<close>

definition sized_text :: "nat \<Rightarrow> byte_t list" where
  "sized_text i = bytes8 (of_nat (length (to_string i))) @ to_string i"

lemma length_decimal: "length (decimal n) \<le> n + 1"
proof (induction n rule: decimal.induct)
  case (1 n)
  show ?case
  proof (cases "n < 10")
    case True
    then show ?thesis by (simp add: decimal.simps)
  next
    case False
    then have "length (decimal n) \<le> n div 10 + 2"
      using 1 by (simp add: decimal.simps [of n])
    then show ?thesis using False by linarith
  qed
qed

lemma to_string_length:
  assumes "i < 2 ^ 62"
  shows "length (to_string i) \<le> MAX_VECTOR" "unat (of_nat (length (to_string i)) :: size_t) = length (to_string i)"
proof -
  have "length (to_string i) \<le> 2 ^ 62"
    using length_decimal [of i] assms by (simp add: to_string_def)
  then show "length (to_string i) \<le> MAX_VECTOR" "unat (of_nat (length (to_string i)) :: size_t) = length (to_string i)"
    by (simp_all add: MAX_VECTOR_def unat_of_nat_size)
qed

context peer
begin

lemma send_texts_ok:
  assumes "i + n \<le> 2 ^ 62"
  shows "\<exists>d'. send_texts ex i n d = Some (Inr d') \<and> out d' = out d @ concat (map sized_text [i..<i + n])"
  using assms
proof (induction n arbitrary: i d)
  case (Suc n)
  then have "i < 2 ^ 62" by simp
  then obtain d1 where "sendText ex (to_string i) d = Some (Inr (of_nat (length (to_string i)), d1))"
    "out d1 = out d @ sized_text i"
    using send_sized_ok [OF to_string_length(2), of i d] by (auto simp: sendText_def sized_text_def)
  moreover obtain d' where "send_texts ex (Suc i) n d1 = Some (Inr d')"
    "out d' = out d1 @ concat (map sized_text [Suc i..<Suc i + n])"
    using Suc.IH [of "Suc i" d1] Suc.prems by auto
  ultimately show ?case
    by (simp add: upt_conv_Cons del: upt_Suc)
qed simp

lemma receiveText_ok:
  assumes "length garbage = 8" "inc d = sized_text i @ rest" "i < 2 ^ 62"
  shows "\<exists>d'. receiveText ex garbage (- 1) d = Some (Inr (to_string i, d')) \<and> inc d' = rest"
  using receive_sized_ok [OF assms(1), of d "of_nat (length (to_string i))" "to_string i" rest "- 1"
      "\<lambda>n. if unat n > MAX_VECTOR then Inl Length_error else Inr (replicate (unat n) 0)" "replicate (length (to_string i)) 0"]
    assms(2) to_string_length [OF assms(3)]
  by (auto simp: receiveText_def sized_text_def blit_def)

lemma receive_texts_ok:
  assumes "length garbage = 8" "inc d = concat (map sized_text [i..<i + n]) @ rest" "i + n \<le> 2 ^ 62"
  shows "\<exists>d'. receive_texts ex garbage i n e d = Some (Inr (e, d')) \<and> inc d' = rest"
  using assms(2,3)
proof (induction n arbitrary: i d)
  case (Suc n)
  have "inc d = sized_text i @ concat (map sized_text [Suc i..<Suc i + n]) @ rest"
    using Suc.prems(1) by (simp add: upt_conv_Cons del: upt_Suc)
  from receiveText_ok [OF assms(1) this] Suc.prems(2)
  obtain d1 where "receiveText ex garbage (- 1) d = Some (Inr (to_string i, d1))"
    "inc d1 = concat (map sized_text [Suc i..<Suc i + n]) @ rest"
    by auto
  then show ?case
    using Suc.IH [of d1 "Suc i"] Suc.prems(2) by auto
qed simp

end

text \<open>the texts of the queue example. Over any connection that keeps the contract of a peer, whatever its fragmentation,
  the text producer's sends all return, and the text consumer, receiving what was sent, gets every text and counts no error.\<close>

theorem SPSCQueue_example_texts:
  assumes "peer ex1 out1 inc1" "peer ex2 out2 inc2" "count \<le> 2 ^ 62" "length garbage = 8"
    and "out1 d1 = []" "\<And>d1'. inc2 (link d1') = out1 d1'"
  shows "\<exists>d1' d2'. textProducerBody ex1 count d1 = Some (Inr (''textProducerBody -> done'', d1')) \<and>
    textConsumerBody ex2 garbage count (link d1') = Some (Inr (''textConsumerBody -> errorCount: 0'', d2')) \<and> inc2 d2' = []"
proof -
  obtain d1' where d1': "send_texts ex1 0 count d1 = Some (Inr d1')" "out1 d1' = concat (map sized_text [0..<0 + count])"
    using peer.send_texts_ok [OF assms(1), of 0 count d1] assms(3,5) by auto
  moreover obtain d2' where "receive_texts ex2 garbage 0 count 0 (link d1') = Some (Inr (0, d2'))" "inc2 d2' = []"
    using peer.receive_texts_ok [OF assms(2,4), of "link d1'" 0 count "[]" 0] assms(3,6) d1'(2) by auto
  ultimately show ?thesis
    by (intro exI [of _ d1'] exI [of _ d2']) (simp add: textProducerBody_def textConsumerBody_def decimal_0)
qed

theorem SPSCQueue_example_texts_witness:
  "\<exists>d1' d2'. textProducerBody fragmenting ELEM_COUNT ([], [], [3, 0, 9, 2]) = Some (Inr (''textProducerBody -> done'', d1')) \<and>
     textConsumerBody fragmenting (replicate 8 255) ELEM_COUNT ([], fst d1', [1, 2]) = Some (Inr (''textConsumerBody -> errorCount: 0'', d2'))"
proof -
  have "ELEM_COUNT \<le> 2 ^ 62"
    by (simp add: ELEM_COUNT_def)
  from SPSCQueue_example_texts [OF frag.peer_axioms frag.peer_axioms this, of "replicate 8 255" "([], [], [3, 0, 9, 2])"
      "\<lambda>d. ([], fst d, [1, 2])"]
  show ?thesis by simp blast
qed

section \<open>The whole program\<close>

text \<open>
  \<^verbatim>\<open>main\<close>: the threads over \<^verbatim>\<open>SPSCQueue\<close>, and when both are joined those over \<^verbatim>\<open>InterprocessQueue\<close>, and
  when those are joined the text threads, whose bodies are above. The policies stand for the signals of the two queues.
\<close>

datatype ('w, 'v) main_state = In_process "'w spsc_sys" | Interprocess "'v sys" | Texts

definition in_process_threads :: "SPSCQueue \<Rightarrow> nat \<Rightarrow> 'w \<Rightarrow> 'w spsc_sys" where
  "in_process_threads q count w = spsc_start q (numbers count) (replicate count 8) w"

definition producer_line :: "'w spsc_sys \<Rightarrow> string option" where
  "producer_line s = (if pu_pc (pusher s) = At_idle \<and> pu_todo (pusher s) = [] then Some ''producerBody -> done'' else None)"

definition consumer_line :: "'w spsc_sys \<Rightarrow> string option" where
  "consumer_line s = (if po_pc (popper s) = At_idle \<and> po_todo (popper s) = []
     then Some (''consumerBody -> errorCount: '' @ decimal (unat (count_errors 0 (po_done (popper s)) 0))) else None)"

definition main_join :: "nat \<Rightarrow> 'v \<Rightarrow> ('w, 'v) main_state \<Rightarrow> ('w, 'v) main_state option" where
  "main_join count v m = (case m of
     In_process s \<Rightarrow> if producer_line s \<noteq> None \<and> consumer_line s \<noteq> None then Some (Interprocess (ipc_threads count v)) else None
   | Interprocess s \<Rightarrow> if producerBodyIpc s \<noteq> None \<and> consumerBodyIpc s \<noteq> None then Some Texts else None
   | Texts \<Rightarrow> None)"

inductive main_reach ::
    "'w wait_policy \<Rightarrow> 'v wait_policy \<Rightarrow> nat \<Rightarrow> 'v \<Rightarrow> ('w, 'v) main_state \<Rightarrow> ('w, 'v) main_state \<Rightarrow> bool"
  for pol ipc count v m0 where
  main_start: "main_reach pol ipc count v m0 m0"
| main_in_process: "main_reach pol ipc count v m0 (In_process s) \<Longrightarrow> spsc_step pol i s = Some s' \<Longrightarrow>
    main_reach pol ipc count v m0 (In_process s')"
| main_interprocess: "main_reach pol ipc count v m0 (Interprocess r) \<Longrightarrow> side_step ipc i r = Some r' \<Longrightarrow>
    main_reach pol ipc count v m0 (Interprocess r')"
| main_joins: "main_reach pol ipc count v m0 m \<Longrightarrow> main_join count v m = Some m' \<Longrightarrow> main_reach pol ipc count v m0 m'"

text \<open>What each phase can be in, given what the first starts with.\<close>

definition main_phase :: "'w wait_policy \<Rightarrow> 'v wait_policy \<Rightarrow> nat \<Rightarrow> 'v \<Rightarrow> 'w spsc_sys \<Rightarrow> ('w, 'v) main_state \<Rightarrow> bool" where
  "main_phase pol ipc count v s0 m = (case m of
     In_process s \<Rightarrow> spsc_reach pol s0 s
   | Interprocess r \<Rightarrow> reach ipc (ipc_threads count v) r
   | Texts \<Rightarrow> True)"

lemma main_phases:
  assumes "main_reach pol ipc count v (In_process s0) m"
  shows "main_phase pol ipc count v s0 m"
  using assms
proof (induction rule: main_reach.induct)
  case (main_joins m m')
  then show ?case
    by (auto simp: main_phase_def main_join_def split: main_state.splits if_splits intro: reach.start)
qed (auto simp: main_phase_def intro: spsc_reach.intros reach.step)

lemma main_runs_threads:
  "spsc_reach pol s s' \<Longrightarrow> main_reach pol ipc count v m0 (In_process s) \<Longrightarrow> main_reach pol ipc count v m0 (In_process s')"
  by (induction rule: spsc_reach.induct) (auto intro: main_reach.intros)

lemma main_runs_sides:
  "reach ipc r r' \<Longrightarrow> main_reach pol ipc count v m0 (Interprocess r) \<Longrightarrow> main_reach pol ipc count v m0 (Interprocess r')"
  by (induction rule: reach.induct) (auto intro: main_reach.intros)

lemma finished_lines: "spsc_finished s \<longleftrightarrow> producer_line s \<noteq> None \<and> consumer_line s \<noteq> None"
  by (auto simp: spsc_finished_def producer_line_def consumer_line_def)

text \<open>As the program is, it stays in its first phase.\<close>

lemma main_stays:
  assumes "0 < count" "main_reach pol ipc count v (In_process (in_process_threads (SPSCQueue_new QUEUE_SIZE) count w)) m"
  shows "\<exists>s. m = In_process s \<and> spsc_stuck QUEUE_SIZE (numbers count) (replicate count 8) s"
  using assms(2)
proof (induction rule: main_reach.induct)
  case main_start
  then show ?case
    using constructed_stuck [OF numbers_short] by (simp add: in_process_threads_def)
next
  case (main_in_process s i s')
  then show ?case
    using spsc_stuck_reach [OF spsc_reach.spsc_next [OF spsc_reach.spsc_init] QUEUE_SIZE_ok(1)] by blast
next
  case (main_joins m m')
  then obtain s where s: "m = In_process s" "spsc_stuck QUEUE_SIZE (numbers count) (replicate count 8) s"
    by blast
  then have "consumer_line s = None"
    using assms(1) by (auto simp: spsc_stuck_def pop_stuck_def consumer_line_def)
  then show ?case
    using main_joins.hyps s(1) by (simp add: main_join_def)
qed simp

text \<open>C39: the queue example as it is. Whatever its threads do, \<^verbatim>\<open>main\<close> never gets past the two joins of its first phase: neither of its two
  threads ever prints its line, and the producer can always go on to the write outside the queue's vector.\<close>

theorem SPSCQueue_example_main:
  assumes "0 < count" "main_reach pol ipc count v (In_process (in_process_threads (SPSCQueue_new QUEUE_SIZE) count w)) m"
  shows "\<exists>s. m = In_process s \<and> producer_line s = None \<and> consumer_line s = None \<and>
    (\<exists>s'. main_reach pol ipc count v m (In_process s') \<and> pu_pc (pusher s') = At_fault)"
proof -
  obtain s where s: "m = In_process s" "spsc_stuck QUEUE_SIZE (numbers count) (replicate count 8) s"
    using main_stays [OF assms] by blast
  have d: "bytes8 0 \<in> set (numbers count)" "bytes8 0 \<noteq> []"
    using assms(1) length_bytes(2) [of 0] by (force simp: numbers_def)+
  then have "producer_line s = None" "consumer_line s = None"
    using s(2) assms(1) by (auto simp: spsc_stuck_def push_stuck_def pop_stuck_def producer_line_def consumer_line_def)
  moreover obtain s' where "spsc_reach pol s s'" "pu_pc (pusher s') = At_fault"
    using push_stuck_faults [OF QUEUE_SIZE_ok(1) s(2) d] by blast
  ultimately show ?thesis
    using main_runs_threads [OF _ main_reach.main_start, of pol s s'] s(1) by (intro exI [of _ s] conjI exI [of _ s']) simp_all
qed

theorem SPSCQueue_example_main_witness:
  "\<exists>s'. main_reach SPSC_signals SLIntPrQueueLockPolicy ELEM_COUNT ()
     (In_process (in_process_threads (SPSCQueue_new QUEUE_SIZE) ELEM_COUNT SPSC_signals_new)) (In_process s') \<and> pu_pc (pusher s') = At_fault"
proof -
  have "0 < ELEM_COUNT"
    by (simp add: ELEM_COUNT_def)
  from SPSCQueue_example_main [OF this main_reach.main_start, where pol = SPSC_signals and ipc = SLIntPrQueueLockPolicy and v = "()"
      and w = SPSC_signals_new]
  show ?thesis by blast
qed

text \<open>With a vector of the capacity's size, each phase can be brought to its end.\<close>

lemma in_process_ends:
  assumes "spsc_reach SPSC_signals (in_process_threads (sized_queue QUEUE_SIZE) count w) s"
  shows "count_errors 0 (po_done (popper s)) 0 = 0" "\<exists>s'. spsc_reach SPSC_signals s s' \<and> spsc_finished s'"
proof -
  let ?r0 = "start_sys QUEUE_SIZE (numbers count) (replicate count 8) w"
  note ok = QUEUE_SIZE_ok numbers_short
  have want: "map unat (replicate count (8 :: size_t)) = map length (numbers count)"
    by (simp add: numbers_lengths(1))
  obtain r where r: "reach SPSC_signals ?r0 r" "matches r s"
    by (rule threads_of_ring [OF ok assms [unfolded in_process_threads_def]])
  have "po_done (popper s) = take (length (po_done (popper s))) (numbers count)"
    by (rule matches_popped(1) [OF r(1) start_inv [OF ok] r(2) want])
  then show "count_errors 0 (po_done (popper s)) 0 = 0"
    using count_errors_numbers [of "length (po_done (popper s))" count 0] by simp
  show "\<exists>s'. spsc_reach SPSC_signals s s' \<and> spsc_finished s'"
    using spsc.threads_can_finish [OF spsc.reach_live [OF r(1) spsc.start_live [OF ok want]] r(2)] by blast
qed

lemma interprocess_ends:
  assumes "sticky_policy ipc present free" "reach ipc (ipc_threads count v) r"
  shows "\<exists>r'. reach ipc r r' \<and> finished r'"
proof -
  have "reach ipc (start_sys QUEUE_SIZE (numbers count) (ipc_pops count) v) r"
    using assms(2) by (simp add: ipc_threads_def)
  moreover have "map unat (ipc_pops count) = map length (numbers count)"
    by (simp add: ipc_pops_def numbers_lengths(1))
  ultimately obtain sched r' where "run ipc sched r = Some r'" "finished r'"
    using sticky_policy.matched_calls_complete [OF assms(1) QUEUE_SIZE_ok numbers_short] by blast
  then show ?thesis
    using run_reach [OF _ reach.start] by blast
qed

lemma main_gets_to_texts:
  fixes m :: "(uint32 \<times> uint32, 'v) main_state"
  assumes ipc: "sticky_policy ipc present free"
    and m: "main_reach SPSC_signals ipc count v (In_process (in_process_threads (sized_queue QUEUE_SIZE) count w)) m"
  shows "main_reach SPSC_signals ipc count v m Texts"
proof -
  have second: "main_reach SPSC_signals ipc count v m1 Texts"
    if r: "reach ipc (ipc_threads count v) r" "main_reach SPSC_signals ipc count v m1 (Interprocess r)"
    for r and m1 :: "(uint32 \<times> uint32, 'v) main_state"
  proof -
    obtain r' where "reach ipc r r'" "finished r'"
      using interprocess_ends [OF ipc r(1)] by blast
    then show ?thesis
      using main_reach.main_joins [OF main_runs_sides [OF _ r(2)]]
      by (simp add: main_join_def finished_def producerBodyIpc_def consumerBodyIpc_def)
  qed
  show ?thesis
  proof (cases m)
    case (In_process s)
    then obtain s' where s': "spsc_reach SPSC_signals s s'" "spsc_finished s'"
      using in_process_ends(2) [of count w s] main_phases [OF m] by (auto simp: main_phase_def)
    have "main_reach SPSC_signals ipc count v m (In_process s')"
      using main_runs_threads [OF s'(1) main_reach.main_start] In_process by simp
    then have "main_reach SPSC_signals ipc count v m (Interprocess (ipc_threads count v))"
      by (rule main_reach.main_joins) (use s'(2) in \<open>simp add: main_join_def finished_lines\<close>)
    then show ?thesis
      using second [OF reach.start] by blast
  next
    case (Interprocess r)
    then show ?thesis
      using second [of r m] main_phases [OF m] by (auto simp: main_phase_def intro: main_reach.main_start)
  next
    case Texts
    then show ?thesis by (simp add: main_reach.main_start)
  qed
qed



end
