(* ===== verification/Examples_SharedMemory.thy ===== *)
theory Examples_SharedMemory
  imports SharedMemory
begin

text \<open>
  \<^verbatim>\<open>src/examples/SharedMemory/main.cpp\<close>: two processes that share one object. Each takes one step per
  access to the object, so that they interleave in every way. Memory is what the system maps: an access through
  an address where nothing is mapped, NULL among them, ends the process.
\<close>

section \<open>The program\<close>

text \<open>The object in shared memory, 268 bytes aligned to 4; the float is its bit pattern.\<close>

record MyData =
  md_a :: uint32
  md_b :: uint32
  md_message :: "byte_t list"
  md_readDone :: bool

definition sizeof_MyData :: size_t where
  "sizeof_MyData = 268"

definition alignof_MyData :: addr where
  "alignof_MyData = 4"

text \<open>What is inserted into \<^verbatim>\<open>std::cout\<close>, before it is formatted.\<close>

datatype inserted = Chars string | Number uint32 | Float uint32

record 'o pages =
  load_data :: "addr \<Rightarrow> 'o \<Rightarrow> MyData option"
  store_data :: "addr \<Rightarrow> (MyData \<Rightarrow> MyData) \<Rightarrow> 'o \<Rightarrow> 'o option"

datatype peer0_pc = Z_open | Z_get | Z_a | Z_b | Z_flag | Z_copy nat | Z_announce | Z_wait | Z_bye | Z_close | Z_done | Z_crashed

datatype peer1_pc = W_open | W_get | W_a | W_b | W_message nat | W_flag | W_close | W_done | W_crashed

record 'o shm_demo =
  peer0_at :: peer0_pc
  peer1_at :: peer1_pc
  sm0 :: SharedMemory
  sm1 :: SharedMemory
  ptr0 :: "addr option"
  ptr1 :: "addr option"
  out0 :: "inserted list"
  out1 :: "inserted list"
  demo_os :: 'o

definition hello_text :: "byte_t list" where
  "hello_text = map (\<lambda>c. of_nat (of_char c)) ''Hello SharedMemory!'' @ [0]"

definition waiting_text :: string where
  "waiting_text = ''Waiting the other peer'' @ [CHR 0x0A]"

definition done_text :: string where
  "done_text = [CHR 0x0A] @ ''Done'' @ [CHR 0x0A]"

definition a_label :: string where
  "a_label = ''MyData:'' @ [CHR 0x0A] @ ''  a: ''"

definition b_label :: string where
  "b_label = [CHR 0x0A] @ ''  b: ''"

definition message_label :: string where
  "message_label = [CHR 0x0A] @ ''  message: ''"

text \<open>\<open>myStrCpy\<close> on POSIX, one character per step.\<close>

definition myStrCpy :: "nat \<Rightarrow> MyData \<Rightarrow> MyData" where
  "myStrCpy i d = d\<lparr>md_message := (md_message d)[i := hello_text ! i]\<rparr>"

definition open_demo :: "'o shm_api \<Rightarrow> bool \<Rightarrow> SharedMemory \<Rightarrow> 'o \<Rightarrow> (SharedMemory \<times> 'o) result" where
  "open_demo api create sm os = map_sum id snd (sm_open api create sm os)"

definition write0 :: "'o pages \<Rightarrow> (MyData \<Rightarrow> MyData) \<Rightarrow> peer0_pc \<Rightarrow> 'o shm_demo \<Rightarrow> 'o shm_demo" where
  "write0 pg f next s = (case Option.bind (ptr0 s) (\<lambda>p. store_data pg p f (demo_os s)) of
     None \<Rightarrow> s\<lparr>peer0_at := Z_crashed\<rparr>
   | Some os \<Rightarrow> s\<lparr>demo_os := os, peer0_at := next\<rparr>)"

fun peer0 :: "'o shm_api \<Rightarrow> 'o pages \<Rightarrow> peer0_pc \<Rightarrow> 'o shm_demo \<Rightarrow> 'o shm_demo option" where
  "peer0 api pg Z_open s = Some (case open_demo api True (SharedMemory_new ''MyMemory'' sizeof_MyData) (demo_os s) of
     Inl e \<Rightarrow> s\<lparr>peer0_at := Z_crashed\<rparr>
   | Inr (sm, os) \<Rightarrow> s\<lparr>sm0 := sm, demo_os := os, peer0_at := Z_get\<rparr>)"
| "peer0 api pg Z_get s = Some (s\<lparr>ptr0 := getAs alignof_MyData sizeof_MyData (sm0 s), peer0_at := Z_a\<rparr>)"
| "peer0 api pg Z_a s = Some (write0 pg (md_a_update (\<lambda>_. 5)) Z_b s)"
| "peer0 api pg Z_b s = Some (write0 pg (md_b_update (\<lambda>_. 0x41400000)) Z_flag s)"
| "peer0 api pg Z_flag s = Some (write0 pg (md_readDone_update (\<lambda>_. False)) (Z_copy 0) s)"
| "peer0 api pg (Z_copy i) s =
     Some (write0 pg (myStrCpy i) (if hello_text ! i = 0 then Z_announce else Z_copy (Suc i)) s)"
| "peer0 api pg Z_announce s = Some (s\<lparr>out0 := out0 s @ [Chars waiting_text], peer0_at := Z_wait\<rparr>)"
| "peer0 api pg Z_wait s = Some (case Option.bind (ptr0 s) (\<lambda>p. load_data pg p (demo_os s)) of
     None \<Rightarrow> s\<lparr>peer0_at := Z_crashed\<rparr>
   | Some d \<Rightarrow> if md_readDone d then s\<lparr>peer0_at := Z_bye\<rparr> else s\<lparr>out0 := out0 s @ [Chars ''.'']\<rparr>)"
| "peer0 api pg Z_bye s = Some (s\<lparr>out0 := out0 s @ [Chars done_text], peer0_at := Z_close\<rparr>)"
| "peer0 api pg Z_close s = Some (case bind_result (sm_close api (sm0 s) (demo_os s)) (\<lambda>(sm, os). SharedMemory_destroy api sm os) of
     Inl e \<Rightarrow> s\<lparr>peer0_at := Z_crashed\<rparr>
   | Inr os \<Rightarrow> s\<lparr>demo_os := os, peer0_at := Z_done\<rparr>)"
| "peer0 api pg Z_done s = None"
| "peer0 api pg Z_crashed s = None"

definition read1 :: "'o pages \<Rightarrow> (MyData \<Rightarrow> 'o shm_demo) \<Rightarrow> 'o shm_demo \<Rightarrow> 'o shm_demo" where
  "read1 pg f s = (case Option.bind (ptr1 s) (\<lambda>p. load_data pg p (demo_os s)) of
     None \<Rightarrow> s\<lparr>peer1_at := W_crashed\<rparr>
   | Some d \<Rightarrow> f d)"

text \<open>\<open>printMyData\<close> reads its members one after the other, and the message one character at a time up to the
  NUL; past the array it is undefined.\<close>

definition print_char :: "nat \<Rightarrow> 'o shm_demo \<Rightarrow> MyData \<Rightarrow> 'o shm_demo" where
  "print_char i s d =
     (if length (md_message d) \<le> i then s\<lparr>peer1_at := W_crashed\<rparr>
      else if md_message d ! i = 0 then s\<lparr>out1 := out1 s @ [Chars [CHR 0x0A]], peer1_at := W_flag\<rparr>
      else s\<lparr>out1 := out1 s @ [Chars [char_of (unat (md_message d ! i))]], peer1_at := W_message (Suc i)\<rparr>)"

fun peer1 :: "'o shm_api \<Rightarrow> 'o pages \<Rightarrow> peer1_pc \<Rightarrow> 'o shm_demo \<Rightarrow> 'o shm_demo option" where
  "peer1 api pg W_open s = Some (case open_demo api False (SharedMemory_new ''MyMemory'' sizeof_MyData) (demo_os s) of
     Inl e \<Rightarrow> s\<lparr>peer1_at := W_crashed\<rparr>
   | Inr (sm, os) \<Rightarrow> s\<lparr>sm1 := sm, demo_os := os, peer1_at := W_get\<rparr>)"
| "peer1 api pg W_get s = Some (s\<lparr>ptr1 := getAs alignof_MyData sizeof_MyData (sm1 s), peer1_at := W_a\<rparr>)"
| "peer1 api pg W_a s = Some (read1 pg (\<lambda>d. s\<lparr>out1 := out1 s @ [Chars a_label, Number (md_a d)], peer1_at := W_b\<rparr>) s)"
| "peer1 api pg W_b s = Some (read1 pg (\<lambda>d. s\<lparr>out1 := out1 s @ [Chars b_label, Float (md_b d), Chars message_label], peer1_at := W_message 0\<rparr>) s)"
| "peer1 api pg (W_message i) s = Some (read1 pg (print_char i s) s)"
| "peer1 api pg W_flag s = Some (case Option.bind (ptr1 s) (\<lambda>p. store_data pg p (md_readDone_update (\<lambda>_. True)) (demo_os s)) of
     None \<Rightarrow> s\<lparr>peer1_at := W_crashed\<rparr>
   | Some os \<Rightarrow> s\<lparr>demo_os := os, peer1_at := W_close\<rparr>)"
| "peer1 api pg W_close s = Some (case bind_result (sm_close api (sm1 s) (demo_os s)) (\<lambda>(sm, os). SharedMemory_destroy api sm os) of
     Inl e \<Rightarrow> s\<lparr>peer1_at := W_crashed\<rparr>
   | Inr os \<Rightarrow> s\<lparr>demo_os := os, peer1_at := W_done\<rparr>)"
| "peer1 api pg W_done s = None"
| "peer1 api pg W_crashed s = None"

text \<open>\<open>main\<close> prints its name and calls the function of its role, after which it returns 0, or
  prints how it is used and returns 1.\<close>

datatype role = Peer0 | Peer1

definition SharedMemory_main :: "string list \<Rightarrow> string \<times> (role + int)" where
  "SharedMemory_main argv =
     (let hello = ''Gicame example: SharedMemory'' @ [CHR 0x0A] in
      if length argv < 2 then
        (hello @ ''Usage:'' @ [CHR 0x0A] @ ''  Example-SharedMemory -peer0'' @ [CHR 0x0A] @ ''  Example-SharedMemory -peer1'' @ [CHR 0x0A], Inr 1)
      else if argv ! 1 = ''-peer0'' then (hello, Inl Peer0)
      else if argv ! 1 = ''-peer1'' then (hello, Inl Peer1)
      else (hello @ ''Usage:'' @ [CHR 0x0A] @ ''  Example-SharedMemory -peer0'' @ [CHR 0x0A] @ ''  ExampleSharedMemory -peer1'' @ [CHR 0x0A], Inr 1))"

definition shm_demo_start :: "'o \<Rightarrow> 'o shm_demo" where
  "shm_demo_start os = \<lparr>peer0_at = Z_open, peer1_at = W_open, sm0 = SharedMemory_new ''MyMemory'' sizeof_MyData,
     sm1 = SharedMemory_new ''MyMemory'' sizeof_MyData, ptr0 = None, ptr1 = None, out0 = [], out1 = [], demo_os = os\<rparr>"

inductive shm_step :: "'o shm_api \<Rightarrow> 'o shm_api \<Rightarrow> 'o pages \<Rightarrow> 'o pages \<Rightarrow> 'o shm_demo \<Rightarrow> 'o shm_demo \<Rightarrow> bool"
  for api0 api1 pg0 pg1 where
  peer0_moves: "peer0 api0 pg0 (peer0_at s) s = Some s' \<Longrightarrow> shm_step api0 api1 pg0 pg1 s s'"
| peer1_moves: "peer1 api1 pg1 (peer1_at s) s = Some s' \<Longrightarrow> shm_step api0 api1 pg0 pg1 s s'"

inductive shm_run :: "'o shm_api \<Rightarrow> 'o shm_api \<Rightarrow> 'o pages \<Rightarrow> 'o pages \<Rightarrow> 'o shm_demo \<Rightarrow> 'o shm_demo \<Rightarrow> bool"
  for api0 api1 pg0 pg1 s0 where
  shm_init: "shm_run api0 api1 pg0 pg1 s0 s0"
| shm_next: "shm_run api0 api1 pg0 pg1 s0 s \<Longrightarrow> shm_step api0 api1 pg0 pg1 s s' \<Longrightarrow> shm_run api0 api1 pg0 pg1 s0 s'"

lemma shm_run_step:
  assumes "shm_step api0 api1 pg0 pg1 s s1" "shm_run api0 api1 pg0 pg1 s1 s2"
  shows "shm_run api0 api1 pg0 pg1 s s2"
  using assms(2,1) by (induction rule: shm_run.induct) (auto intro: shm_run.intros)

lemma shm_run_trans:
  assumes "shm_run api0 api1 pg0 pg1 s1 s2" "shm_run api0 api1 pg0 pg1 s s1"
  shows "shm_run api0 api1 pg0 pg1 s s2"
  using assms by (induction rule: shm_run.induct) (auto intro: shm_run.intros)

section \<open>What the system promises\<close>

text \<open>
  The object of a name, as one of two processes sees it: \<open>content\<close> is its value while it exists, \<open>mine\<close> the
  address where this process has it mapped, \<open>other\<close> where the other process has; \<open>refers\<close>
  says that a descriptor of this process refers to it. A new object is all zeros. A mapping starts on a page.
\<close>

definition zero_data :: MyData where
  "zero_data = \<lparr>md_a = 0, md_b = 0, md_message = replicate 256 0, md_readDone = False\<rparr>"

locale shared_object =
  fixes api :: "'o shm_api" and pg :: "'o pages"
    and content :: "'o \<Rightarrow> MyData option" and mine :: "'o \<Rightarrow> addr option" and other :: "'o \<Rightarrow> addr option"
    and refers :: "'o \<Rightarrow> int \<Rightarrow> bool" and name :: string
  assumes open_there: "content os \<noteq> None \<or> create \<Longrightarrow> shm_open api name create os = (fd, os') \<Longrightarrow>
      0 \<le> fd \<and> refers os' fd \<and> content os' = Some (case content os of None \<Rightarrow> zero_data | Some d \<Rightarrow> d) \<and>
      mine os' = mine os \<and> other os' = other os"
    and open_missing: "content os = None \<Longrightarrow> shm_open api name False os = (fd, os') \<Longrightarrow>
      fd < 0 \<and> content os' = None \<and> mine os' = mine os \<and> other os' = other os"
    and truncate_ok: "refers os fd \<Longrightarrow> ftruncate api fd sizeof_MyData os = (r, os') \<Longrightarrow>
      0 \<le> r \<and> refers os' fd \<and> content os' = content os \<and> mine os' = mine os \<and> other os' = other os"
    and map_ok: "refers os fd \<Longrightarrow> mmap api sizeof_MyData fd os = (p, os') \<Longrightarrow>
      p \<noteq> 0 \<and> unat p mod 4096 = 0 \<and> mine os' = Some p \<and> content os' = content os \<and> other os' = other os"
    and unmap_ok: "mine os = Some p \<Longrightarrow> munmap api p sizeof_MyData os = os' \<Longrightarrow>
      content os' = content os \<and> other os' = other os"
    and load_ok: "mine os = Some p \<Longrightarrow> load_data pg p os = content os"
    and store_ok: "mine os = Some p \<Longrightarrow> content os = Some d \<Longrightarrow>
      \<exists>os'. store_data pg p f os = Some os' \<and> content os' = Some (f d) \<and> mine os' = mine os \<and> other os' = other os"
begin

lemma open_ok:
  assumes "content os \<noteq> None \<or> create" "sm_name sm = name" "sm_size sm = sizeof_MyData" "sm_ptr sm = 0"
  shows "\<exists>p os' sm'. open_demo api create sm os = Inr (sm', os') \<and> sm_ptr sm' = p \<and> sm_size sm' = sizeof_MyData \<and>
    p \<noteq> 0 \<and> unat p mod 4096 = 0 \<and> mine os' = Some p \<and> other os' = other os \<and>
    content os' = Some (case content os of None \<Rightarrow> zero_data | Some d \<Rightarrow> d)"
proof -
  obtain fd os1 where 1: "shm_open api name create os = (fd, os1)" by (meson surj_pair)
  note o = open_there [OF assms(1) 1]
  obtain r os2 where 2: "ftruncate api fd sizeof_MyData os1 = (r, os2)" by (meson surj_pair)
  have t: "0 \<le> r" "refers os2 fd" "content os2 = content os1" "mine os2 = mine os1" "other os2 = other os1"
    using truncate_ok [OF _ 2] o by auto
  obtain p os3 where 3: "mmap api sizeof_MyData fd os2 = (p, os3)" by (meson surj_pair)
  note m = map_ok [OF t(2) 3]
  show ?thesis
    using assms(2-4) 1 2 3 o t m by (auto simp: open_demo_def sm_open_def)
qed

lemma open_fails:
  assumes "content os = None" "sm_name sm = name" "sm_ptr sm = 0"
  shows "\<exists>os' fd. open_demo api False sm os = Inr (sm\<lparr>sm_fd := fd\<rparr>, os') \<and> content os' = None \<and> mine os' = mine os \<and> other os' = other os"
proof -
  obtain fd os1 where 1: "shm_open api name False os = (fd, os1)" by (meson surj_pair)
  then show ?thesis
    using open_missing [OF assms(1) 1] assms by (auto simp: open_demo_def sm_open_def)
qed

lemma close_ok:
  assumes "sm_ptr sm = p" "p \<noteq> 0" "sm_size sm = sizeof_MyData" "mine os = Some p"
  shows "\<exists>os'. bind_result (sm_close api sm os) (\<lambda>(sm, os). SharedMemory_destroy api sm os) = Inr os' \<and>
    content os' = content os \<and> other os' = other os"
  using assms unmap_ok [OF assms(4) refl] by (simp add: sm_close_def SharedMemory_destroy_def)

end

text \<open>A mapping is aligned for the object, so that \<open>getAs\<close> answers its start.\<close>

lemma getAs_page:
  assumes "unat p mod 4096 = 0" "p \<noteq> 0" "sm_ptr sm = p" "sm_size sm = sizeof_MyData"
  shows "getAs alignof_MyData sizeof_MyData sm = Some p"
proof -
  obtain k where k: "unat p = 4096 * k"
    using assms(1) by (auto elim: dvdE)
  then have "k < 2 ^ 52"
    using unat_lt_size [of p] by simp
  with k have plus: "unat (p + 3) = unat p + 3"
    by (intro unat_plus_lt [where y = 3, simplified]) simp
  have neg: "(- 4 :: addr) = NOT (mask 2)"
    by (simp add: mask_eq_exp_minus_1)
  have "unat (align_up 4 p) = unat p + 3 - (unat p + 3) mod 4"
    using unat_and_not_mask [of "p + 3" 2] plus by (simp add: align_up_def neg)
  also have "(unat p + 3) mod 4 = 3"
    unfolding k by presburger
  finally have "align_up 4 p = p"
    by (simp add: word_unat_eq_iff)
  then show ?thesis
    using assms(2-4) by (simp add: getAs_def align_def std_align_def alignof_MyData_def sizeof_MyData_def)
qed

lemma getAs_null: "sm_ptr sm = 0 \<Longrightarrow> sm_size sm = sizeof_MyData \<Longrightarrow> getAs alignof_MyData sizeof_MyData sm = None"
  by (simp add: getAs_def align_def std_align_def align_up_def alignof_MyData_def sizeof_MyData_def)

section \<open>Invariants\<close>

lemma hello_text_simps: "length hello_text = 20" "i < 20 \<Longrightarrow> hello_text ! i = 0 \<longleftrightarrow> i = 19"
proof -
  show "length hello_text = 20"
    by (simp add: hello_text_def)
  have "list_all (\<lambda>i. hello_text ! i = 0 \<longleftrightarrow> i = 19) [0..<20]"
    by code_simp
  then show "i < 20 \<Longrightarrow> hello_text ! i = 0 \<longleftrightarrow> i = 19"
    by (simp add: list_all_iff)
qed

text \<open>What the first process has written when it is at \<open>pc\<close>, as long as nobody else wrote.\<close>

fun prepared :: "peer0_pc \<Rightarrow> MyData \<Rightarrow> bool" where
  "prepared Z_open d \<longleftrightarrow> True"
| "prepared Z_get d \<longleftrightarrow> True"
| "prepared Z_a d \<longleftrightarrow> True"
| "prepared Z_b d \<longleftrightarrow> md_a d = 5"
| "prepared Z_flag d \<longleftrightarrow> md_a d = 5 \<and> md_b d = 0x41400000"
| "prepared (Z_copy i) d \<longleftrightarrow> md_a d = 5 \<and> md_b d = 0x41400000 \<and> \<not> md_readDone d \<and> i < 20 \<and> take i (md_message d) = take i hello_text"
| "prepared Z_announce d \<longleftrightarrow> md_a d = 5 \<and> md_b d = 0x41400000 \<and> \<not> md_readDone d \<and> take 20 (md_message d) = hello_text"
| "prepared Z_wait d \<longleftrightarrow> md_a d = 5 \<and> md_b d = 0x41400000 \<and> \<not> md_readDone d \<and> take 20 (md_message d) = hello_text"
| "prepared _ d \<longleftrightarrow> False"

lemma prepared_copy:
  assumes "prepared (Z_copy i) d" "length (md_message d) = 256"
  shows "prepared (if hello_text ! i = 0 then Z_announce else Z_copy (Suc i)) (myStrCpy i d)"
proof -
  have i: "i < 20" "take i (md_message d) = take i hello_text"
    using assms(1) by simp_all
  then have "take (Suc i) ((md_message d)[i := hello_text ! i]) = take (Suc i) hello_text"
    using assms(2) hello_text_simps(1) by (simp add: take_Suc_conv_app_nth)
  then show ?thesis
    using assms i hello_text_simps by (cases "i = 19") (auto simp: myStrCpy_def)
qed

text \<open>What the second process has printed when it is at \<open>pc\<close>.\<close>

definition shown_message :: "nat \<Rightarrow> inserted list" where
  "shown_message i = [Chars a_label, Number 5, Chars b_label, Float 0x41400000, Chars message_label] @
     map (\<lambda>b. Chars [char_of (unat b)]) (take i hello_text)"

fun shown :: "peer1_pc \<Rightarrow> inserted list" where
  "shown W_open = []"
| "shown W_get = []"
| "shown W_a = []"
| "shown W_b = [Chars a_label, Number 5]"
| "shown (W_message i) = shown_message i"
| "shown _ = shown_message 19 @ [Chars [CHR 0x0A]]"

definition mapped_at :: "addr option \<Rightarrow> SharedMemory \<Rightarrow> bool" where
  "mapped_at m sm \<longleftrightarrow> m = Some (sm_ptr sm) \<and> sm_ptr sm \<noteq> 0 \<and> unat (sm_ptr sm) mod 4096 = 0 \<and> sm_size sm = sizeof_MyData"

fun uses0 :: "peer0_pc \<Rightarrow> addr option \<Rightarrow> SharedMemory \<Rightarrow> addr option \<Rightarrow> bool" where
  "uses0 Z_open m sm p \<longleftrightarrow> True"
| "uses0 Z_get m sm p \<longleftrightarrow> mapped_at m sm"
| "uses0 Z_done m sm p \<longleftrightarrow> True"
| "uses0 Z_crashed m sm p \<longleftrightarrow> False"
| "uses0 _ m sm p \<longleftrightarrow> mapped_at m sm \<and> p = Some (sm_ptr sm)"

fun uses1 :: "peer1_pc \<Rightarrow> addr option \<Rightarrow> SharedMemory \<Rightarrow> addr option \<Rightarrow> bool" where
  "uses1 W_open m sm p \<longleftrightarrow> True"
| "uses1 W_get m sm p \<longleftrightarrow> mapped_at m sm"
| "uses1 W_done m sm p \<longleftrightarrow> True"
| "uses1 W_crashed m sm p \<longleftrightarrow> False"
| "uses1 (W_message i) m sm p \<longleftrightarrow> i < 20 \<and> mapped_at m sm \<and> p = Some (sm_ptr sm)"
| "uses1 _ m sm p \<longleftrightarrow> mapped_at m sm \<and> p = Some (sm_ptr sm)"

fun left0 :: "peer0_pc \<Rightarrow> nat" where
  "left0 Z_wait = 3" | "left0 Z_bye = 2" | "left0 Z_close = 1" | "left0 _ = 0"

fun left1 :: "peer1_pc \<Rightarrow> nat" where
  "left1 W_open = 30" | "left1 W_get = 29" | "left1 W_a = 28" | "left1 W_b = 27" | "left1 (W_message i) = 26 - i"
| "left1 W_flag = 2" | "left1 W_close = 1" | "left1 _ = 0"

locale shared_pair = p0: shared_object api0 pg0 content map0 map1 refers0 "''/MyMemory''" +
    p1: shared_object api1 pg1 content map1 map0 refers1 "''/MyMemory''"
  for api0 :: "'o shm_api" and pg0 content map0 map1 refers0 api1 pg1 refers1
begin

abbreviation step :: "'o shm_demo \<Rightarrow> 'o shm_demo \<Rightarrow> bool" where
  "step \<equiv> shm_step api0 api1 pg0 pg1"

definition before_open :: "'o shm_demo \<Rightarrow> bool" where
  "before_open s \<longleftrightarrow> uses0 (peer0_at s) (map0 (demo_os s)) (sm0 s) (ptr0 s) \<and>
     (case content (demo_os s) of
        None \<Rightarrow> peer0_at s = Z_open
      | Some d \<Rightarrow> prepared (peer0_at s) d \<and> length (md_message d) = 256)"

definition after_announce :: "'o shm_demo \<Rightarrow> bool" where
  "after_announce s \<longleftrightarrow> uses0 (peer0_at s) (map0 (demo_os s)) (sm0 s) (ptr0 s) \<and>
     uses1 (peer1_at s) (map1 (demo_os s)) (sm1 s) (ptr1 s) \<and> out1 s = shown (peer1_at s) \<and>
     peer0_at s \<in> {Z_wait, Z_bye, Z_close, Z_done} \<and>
     (\<exists>d. content (demo_os s) = Some d \<and> md_a d = 5 \<and> md_b d = 0x41400000 \<and> take 20 (md_message d) = hello_text \<and>
        (md_readDone d \<longleftrightarrow> peer1_at s \<in> {W_close, W_done}) \<and> (peer0_at s \<noteq> Z_wait \<longrightarrow> md_readDone d))"

lemma before_after: "before_open s \<Longrightarrow> out1 s = [] \<Longrightarrow> peer0_at s = Z_wait \<Longrightarrow> peer1_at s = W_open \<Longrightarrow> after_announce s"
  by (auto simp: before_open_def after_announce_def split: option.splits)

end

lemma peer0_frame:
  "peer0 api pg pc s = Some s' \<Longrightarrow> peer1_at s' = peer1_at s \<and> sm1 s' = sm1 s \<and> ptr1 s' = ptr1 s \<and> out1 s' = out1 s"
  by (cases pc) (auto simp: write0_def split: option.splits sum.splits)

lemma peer1_frame:
  "peer1 api pg pc s = Some s' \<Longrightarrow> peer0_at s' = peer0_at s \<and> sm0 s' = sm0 s \<and> ptr0 s' = ptr0 s \<and> out0 s' = out0 s"
  "peer1 api pg (peer1_at s) s = Some s' \<Longrightarrow> peer1_at s' \<noteq> W_open"
proof -
  show "peer1 api pg pc s = Some s' \<Longrightarrow> peer0_at s' = peer0_at s \<and> sm0 s' = sm0 s \<and> ptr0 s' = ptr0 s \<and> out0 s' = out0 s"
    by (cases pc) (auto simp: read1_def print_char_def split: option.splits sum.splits)
  show "peer1 api pg (peer1_at s) s = Some s' \<Longrightarrow> peer1_at s' \<noteq> W_open"
    by (cases "peer1_at s") (auto simp: read1_def print_char_def split: option.splits sum.splits if_splits)
qed

context shared_pair
begin

lemma write0_ok:
  assumes "mapped_at (map0 (demo_os s)) (sm0 s)" "ptr0 s = Some (sm_ptr (sm0 s))" "content (demo_os s) = Some d"
  obtains os where "write0 pg0 f pc s = s\<lparr>demo_os := os, peer0_at := pc\<rparr>" "content os = Some (f d)"
    "map0 os = map0 (demo_os s)" "map1 os = map1 (demo_os s)"
  using p0.store_ok [of "demo_os s" "sm_ptr (sm0 s)" d f] assms by (auto simp: write0_def mapped_at_def)

lemma before_open_stored:
  assumes inv: "before_open s"
    and h: "peer0_at s \<noteq> Z_open" "mapped_at (map0 (demo_os s)) (sm0 s)" "ptr0 s = Some (sm_ptr (sm0 s))"
    "s' = write0 pg0 f pc s" "\<And>d. prepared (peer0_at s) d \<Longrightarrow> length (md_message d) = 256 \<Longrightarrow> prepared pc (f d)"
    "\<And>d. length (md_message (f d)) = length (md_message d)" "pc \<notin> {Z_open, Z_get, Z_crashed, Z_done}"
  shows "before_open s'"
proof -
  obtain d where d: "content (demo_os s) = Some d" "prepared (peer0_at s) d" "length (md_message d) = 256"
    using inv h(1) by (auto simp: before_open_def split: option.splits)
  obtain os where "s' = s\<lparr>demo_os := os, peer0_at := pc\<rparr>" "content os = Some (f d)" "map0 os = map0 (demo_os s)"
    using write0_ok [OF h(2,3) d(1)] h(4) by metis
  then show ?thesis
    using inv d h(2,3,5-7) by (cases pc) (auto simp: before_open_def)
qed

lemma before_open_step:
  assumes inv: "before_open s" and st: "peer0 api0 pg0 (peer0_at s) s = Some s'"
  shows "before_open s'"
proof (cases "peer0_at s")
  case Z_open
  obtain sm os where "open_demo api0 True (SharedMemory_new ''MyMemory'' sizeof_MyData) (demo_os s) = Inr (sm, os)"
    "mapped_at (map0 os) sm" "content os = Some (case content (demo_os s) of None \<Rightarrow> zero_data | Some d \<Rightarrow> d)"
    using p0.open_ok [of "demo_os s" True "SharedMemory_new ''MyMemory'' sizeof_MyData"]
    by (auto simp: SharedMemory_new_def mapped_at_def)
  then show ?thesis
    using inv st Z_open by (auto simp: before_open_def zero_data_def split: option.splits)
next
  case Z_get
  then show ?thesis
    using inv st getAs_page [of "sm_ptr (sm0 s)" "sm0 s"] by (auto simp: before_open_def mapped_at_def split: option.splits)
next
  case Z_a
  then show ?thesis
    using inv st by (intro before_open_stored [OF inv, where f = "md_a_update (\<lambda>_. 5)" and pc = Z_b]) (simp_all add: before_open_def)
next
  case Z_b
  then show ?thesis
    using inv st by (intro before_open_stored [OF inv, where f = "md_b_update (\<lambda>_. 0x41400000)" and pc = Z_flag]) (simp_all add: before_open_def)
next
  case Z_flag
  then show ?thesis
    using inv st by (intro before_open_stored [OF inv, where f = "md_readDone_update (\<lambda>_. False)" and pc = "Z_copy 0"]) (simp_all add: before_open_def)
next
  case (Z_copy i)
  then show ?thesis
    using inv st prepared_copy
    by (intro before_open_stored [OF inv, where f = "myStrCpy i" and pc = "if hello_text ! i = 0 then Z_announce else Z_copy (Suc i)"]) (simp_all add: before_open_def myStrCpy_def)
next
  case Z_wait
  then show ?thesis
    using inv st p0.load_ok [of "demo_os s" "sm_ptr (sm0 s)"] by (auto simp: before_open_def mapped_at_def split: option.splits)
qed (use inv st in \<open>auto simp: before_open_def split: option.splits\<close>)
lemma run_before_open:
  assumes "shm_run api0 api1 pg0 pg1 (shm_demo_start os) s" "peer1_at s = W_open"
    and "\<And>d. content os = Some d \<Longrightarrow> length (md_message d) = 256"
  shows "before_open s \<and> out1 s = []"
  using assms(1,2)
proof (induction rule: shm_run.induct)
  case shm_init
  then show ?case
    using assms(3) by (auto simp: before_open_def shm_demo_start_def split: option.splits)
next
  case (shm_next s s')
  from shm_next.hyps(2) show ?case
  proof cases
    case peer0_moves
    then have "peer1_at s = W_open"
      using shm_next.prems peer0_frame by metis
    then show ?thesis
      using before_open_step shm_next.IH peer0_moves peer0_frame by metis
  next
    case peer1_moves
    then show ?thesis
      using shm_next.prems peer1_frame(2) by metis
  qed
qed

end

context shared_pair
begin

lemma after_peer0:
  assumes inv: "after_announce s" and st: "peer0 api0 pg0 (peer0_at s) s = Some s'"
  shows "after_announce s' \<and> (peer1_at s = W_done \<longrightarrow> left0 (peer0_at s') < left0 (peer0_at s))"
proof -
  obtain d where d: "content (demo_os s) = Some d" "md_readDone d \<longleftrightarrow> peer1_at s \<in> {W_close, W_done}"
    using inv by (auto simp: after_announce_def)
  consider "peer0_at s = Z_wait" | "peer0_at s = Z_bye" | "peer0_at s = Z_close" | "peer0_at s = Z_done"
    using inv by (auto simp: after_announce_def)
  then show ?thesis
  proof cases
    case 1
    then have "load_data pg0 (sm_ptr (sm0 s)) (demo_os s) = Some d" "ptr0 s = Some (sm_ptr (sm0 s))"
      using inv p0.load_ok d(1) by (auto simp: after_announce_def mapped_at_def)
    then show ?thesis
      using inv st 1 d by (cases "md_readDone d") (auto simp: after_announce_def)
  next
    case 2
    then show ?thesis
      using inv st by (auto simp: after_announce_def)
  next
    case 3
    then have "mapped_at (map0 (demo_os s)) (sm0 s)"
      using inv by (simp add: after_announce_def)
    then obtain os where "bind_result (sm_close api0 (sm0 s) (demo_os s)) (\<lambda>(sm, os). SharedMemory_destroy api0 sm os) = Inr os"
      "content os = content (demo_os s)" "map1 os = map1 (demo_os s)"
      using p0.close_ok [OF refl, of "sm0 s" "demo_os s"] by (auto simp: mapped_at_def)
    then show ?thesis
      using inv st 3 by (auto simp: after_announce_def)
  next
    case 4
    then show ?thesis using st by simp
  qed
qed

lemma hello_char:
  assumes "take 20 m = hello_text" "i < 20"
  shows "i < length m" "m ! i = hello_text ! i"
  using assms hello_text_simps(1) by (metis length_take min_less_iff_conj, metis nth_take)

lemma after_message:
  assumes inv: "after_announce s" and pc: "peer1_at s = W_message i"
  shows "after_announce (read1 pg1 (print_char i s) s) \<and> left1 (peer1_at (read1 pg1 (print_char i s) s)) < left1 (W_message i)"
proof -
  obtain d where d: "content (demo_os s) = Some d" "take 20 (md_message d) = hello_text" "\<not> md_readDone d"
    using inv pc by (auto simp: after_announce_def)
  have i: "i < 20" "read1 pg1 (print_char i s) s = print_char i s d"
    using inv pc p1.load_ok d(1) by (auto simp: after_announce_def read1_def mapped_at_def)
  note c = hello_char [OF d(2) i(1)]
  show ?thesis
    using inv pc d i hello_text_simps c
    by (cases "i = 19") (auto simp: after_announce_def print_char_def shown_message_def take_Suc_conv_app_nth)
qed

lemma after_flag:
  assumes inv: "after_announce s" and pc: "peer1_at s = W_flag" and st: "peer1 api1 pg1 W_flag s = Some s'"
  shows "after_announce s' \<and> peer1_at s' = W_close"
proof -
  obtain d where d: "content (demo_os s) = Some d"
    using inv by (auto simp: after_announce_def)
  have "map1 (demo_os s) = Some (sm_ptr (sm1 s))" "ptr1 s = Some (sm_ptr (sm1 s))"
    using inv pc by (simp_all add: after_announce_def mapped_at_def)
  then obtain os where "Option.bind (ptr1 s) (\<lambda>p. store_data pg1 p (md_readDone_update (\<lambda>_. True)) (demo_os s)) = Some os"
    "content os = Some (d\<lparr>md_readDone := True\<rparr>)" "map1 os = map1 (demo_os s)" "map0 os = map0 (demo_os s)"
    using p1.store_ok [of "demo_os s" "sm_ptr (sm1 s)" d "md_readDone_update (\<lambda>_. True)"] d by auto
  then show ?thesis
    using inv st pc d by (auto simp: after_announce_def)
qed

lemma after_peer1:
  assumes inv: "after_announce s" and st: "peer1 api1 pg1 (peer1_at s) s = Some s'"
  shows "after_announce s' \<and> left1 (peer1_at s') < left1 (peer1_at s)"
proof -
  obtain d where d: "content (demo_os s) = Some d" "md_a d = 5" "md_b d = 0x41400000" "take 20 (md_message d) = hello_text"
    using inv by (auto simp: after_announce_def)
  have load: "read1 pg1 f s = f d" if "mapped_at (map1 (demo_os s)) (sm1 s)" "ptr1 s = Some (sm_ptr (sm1 s))" for f
    using that p1.load_ok d(1) by (simp add: read1_def mapped_at_def)
  show ?thesis
  proof (cases "peer1_at s")
    case W_open
    obtain sm os where "open_demo api1 False (SharedMemory_new ''MyMemory'' sizeof_MyData) (demo_os s) = Inr (sm, os)"
      "mapped_at (map1 os) sm" "content os = Some d" "map0 os = map0 (demo_os s)"
      using p1.open_ok [of "demo_os s" False "SharedMemory_new ''MyMemory'' sizeof_MyData"] d(1)
      by (auto simp: SharedMemory_new_def mapped_at_def)
    then show ?thesis
      using inv st W_open d by (auto simp: after_announce_def)
  next
    case W_get
    then show ?thesis
      using inv st getAs_page [of "sm_ptr (sm1 s)" "sm1 s"] by (auto simp: after_announce_def mapped_at_def)
  next
    case W_a
    then show ?thesis
      using inv st load d by (auto simp: after_announce_def)
  next
    case W_b
    then show ?thesis
      using inv st load d by (auto simp: after_announce_def shown_message_def)
  next
    case (W_message i)
    then show ?thesis
      using after_message [OF inv W_message] st by simp
  next
    case W_flag
    then show ?thesis
      using after_flag [OF inv W_flag] st by simp
  next
    case W_close
    then have "mapped_at (map1 (demo_os s)) (sm1 s)"
      using inv by (simp add: after_announce_def)
    then obtain os where "bind_result (sm_close api1 (sm1 s) (demo_os s)) (\<lambda>(sm, os). SharedMemory_destroy api1 sm os) = Inr os"
      "content os = content (demo_os s)" "map0 os = map0 (demo_os s)"
      using p1.close_ok [OF refl, of "sm1 s" "demo_os s"] by (auto simp: mapped_at_def)
    then show ?thesis
      using inv st W_close by (auto simp: after_announce_def)
  qed (use st in simp_all)
qed

lemma run_after: "shm_run api0 api1 pg0 pg1 s0 s \<Longrightarrow> after_announce s0 \<Longrightarrow> after_announce s"
  by (induction rule: shm_run.induct) (auto elim!: shm_step.cases dest: after_peer0 after_peer1)

lemma peer0_goes_on: "pc \<notin> {Z_done, Z_crashed} \<Longrightarrow> \<exists>s'. peer0 api pg pc s = Some s'"
  by (cases pc) simp_all

lemma peer1_goes_on: "pc \<notin> {W_done, W_crashed} \<Longrightarrow> \<exists>s'. peer1 api pg pc s = Some s'"
  by (cases pc) simp_all

lemma can_end:
  assumes "after_announce s"
  shows "\<exists>s'. shm_run api0 api1 pg0 pg1 s s' \<and> peer0_at s' = Z_done \<and> peer1_at s' = W_done"
  using assms
proof (induction "left1 (peer1_at s) + left0 (peer0_at s)" arbitrary: s rule: less_induct)
  case less
  have further: ?case if "shm_step api0 api1 pg0 pg1 s s1" "after_announce s1"
    "left1 (peer1_at s1) + left0 (peer0_at s1) < left1 (peer1_at s) + left0 (peer0_at s)" for s1
    using less.hyps [OF that(3,2)] that(1) shm_run_step by blast
  have nc: "peer1_at s \<noteq> W_crashed"
    using less.prems by (auto simp: after_announce_def)
  consider "peer1_at s = W_done" "peer0_at s = Z_done" | "peer1_at s = W_done" "peer0_at s \<notin> {Z_done, Z_crashed}" | "peer1_at s \<notin> {W_done, W_crashed}"
    using less.prems nc by (auto simp: after_announce_def)
  then show ?case
  proof cases
    case 1
    then show ?thesis using shm_init by blast
  next
    case 2
    then obtain s1 where s1: "peer0 api0 pg0 (peer0_at s) s = Some s1"
      using peer0_goes_on by metis
    then show ?thesis
      using further [OF peer0_moves] after_peer0 [OF less.prems s1] peer0_frame [OF s1] 2(1) by simp
  next
    case 3
    then obtain s1 where s1: "peer1 api1 pg1 (peer1_at s) s = Some s1"
      using peer1_goes_on by metis
    then show ?thesis
      using further [OF peer1_moves] after_peer1 [OF less.prems s1] peer1_frame(1) [OF s1] by simp
  qed
qed

end

text \<open>Without the handshake: the second process alone, when the object is missing and when it is new.\<close>

fun peer1_alone :: "'o shm_api \<Rightarrow> 'o pages \<Rightarrow> nat \<Rightarrow> 'o shm_demo \<Rightarrow> 'o shm_demo option" where
  "peer1_alone api pg 0 s = Some s"
| "peer1_alone api pg (Suc n) s = Option.bind (peer1 api pg (peer1_at s) s) (peer1_alone api pg n)"

lemma peer1_alone_run: "peer1_alone api1 pg1 n s = Some s' \<Longrightarrow> shm_run api0 api1 pg0 pg1 s s'"
proof (induction n arbitrary: s)
  case (Suc n)
  then obtain s1 where "peer1 api1 pg1 (peer1_at s) s = Some s1" "peer1_alone api1 pg1 n s1 = Some s'"
    by (auto simp: bind_eq_Some_conv)
  then show ?case
    using shm_run_step [OF peer1_moves] Suc.IH by blast
qed (simp add: shm_init)

context shared_pair
begin

lemma peer1_too_early:
  assumes "content (demo_os s) = None" "peer1_at s = W_open"
  shows "\<exists>s'. shm_run api0 api1 pg0 pg1 s s' \<and> peer1_at s' = W_crashed"
proof -
  let ?sm = "SharedMemory_new ''MyMemory'' sizeof_MyData"
  obtain os fd where op: "open_demo api1 False ?sm (demo_os s) = Inr (?sm\<lparr>sm_fd := fd\<rparr>, os)"
    using p1.open_fails [OF assms(1), of ?sm] by (auto simp: SharedMemory_new_def)
  have "getAs alignof_MyData sizeof_MyData (?sm\<lparr>sm_fd := fd\<rparr>) = None"
    by (rule getAs_null) (simp_all add: SharedMemory_new_def)
  then have "\<exists>s'. peer1_alone api1 pg1 3 s = Some s' \<and> peer1_at s' = W_crashed"
    using op assms(2) by (simp add: numeral_eq_Suc read1_def)
  then show ?thesis
    using peer1_alone_run by blast
qed

lemma peer1_in_time:
  assumes c: "content (demo_os s) = Some d" and d: "md_message d \<noteq> []" "md_message d ! 0 = 0" and pc: "peer1_at s = W_open"
  obtains s' where "shm_run api0 api1 pg0 pg1 s s'" "peer1_at s' = W_done" "peer0_at s' = peer0_at s" "sm0 s' = sm0 s"
    "ptr0 s' = ptr0 s" "map0 (demo_os s') = map0 (demo_os s)" "content (demo_os s') = Some (d\<lparr>md_readDone := True\<rparr>)"
proof -
  let ?sm = "SharedMemory_new ''MyMemory'' sizeof_MyData"
  obtain sm os where op: "open_demo api1 False ?sm (demo_os s) = Inr (sm, os)" "mapped_at (map1 os) sm"
    "content os = Some d" "map0 os = map0 (demo_os s)"
    using p1.open_ok [of "demo_os s" False ?sm] c by (auto simp: SharedMemory_new_def mapped_at_def)
  have m: "map1 os = Some (sm_ptr sm)" "getAs alignof_MyData sizeof_MyData sm = Some (sm_ptr sm)"
    using op(2) getAs_page [of "sm_ptr sm" sm] by (simp_all add: mapped_at_def)
  obtain os1 where st: "store_data pg1 (sm_ptr sm) (md_readDone_update (\<lambda>_. True)) os = Some os1"
    "content os1 = Some (d\<lparr>md_readDone := True\<rparr>)" "map1 os1 = map1 os" "map0 os1 = map0 os"
    using p1.store_ok [OF m(1) op(3)] by blast
  obtain os2 where cl: "bind_result (sm_close api1 sm os1) (\<lambda>(sm, os). SharedMemory_destroy api1 sm os) = Inr os2"
    "content os2 = content os1" "map0 os2 = map0 os1"
    using p1.close_ok [of sm "sm_ptr sm" os1] op(2) st(3) by (auto simp: mapped_at_def)
  have "\<exists>s'. peer1_alone api1 pg1 7 s = Some s' \<and> peer1_at s' = W_done \<and> peer0_at s' = peer0_at s \<and> sm0 s' = sm0 s \<and>
      ptr0 s' = ptr0 s \<and> demo_os s' = os2"
    using op(1,3) m(2) p1.load_ok [OF m(1)] st(1) cl(1) d pc by (simp add: numeral_eq_Suc read1_def print_char_def)
  then obtain s' where "peer1_alone api1 pg1 7 s = Some s'" "peer1_at s' = W_done" "peer0_at s' = peer0_at s" "sm0 s' = sm0 s"
    "ptr0 s' = ptr0 s" "demo_os s' = os2"
    by blast
  then show thesis
    using that [OF peer1_alone_run] cl(2,3) st(2,4) op(4) by simp
qed

lemma waits_forever:
  assumes "shm_run api0 api1 pg0 pg1 s s'" "before_open s" "peer1_at s = W_done"
  shows "before_open s' \<and> peer1_at s' = W_done"
  using assms
proof (induction rule: shm_run.induct)
  case (shm_next s1 s2)
  from shm_next.hyps(2) show ?case
    by cases (use shm_next peer0_frame before_open_step in \<open>metis\<close>, use shm_next in simp)
qed simp

lemma hangs:
  assumes "content os = None"
  shows "\<exists>s. shm_run api0 api1 pg0 pg1 (shm_demo_start os) s \<and> peer1_at s = W_done \<and>
    (\<forall>s'. shm_run api0 api1 pg0 pg1 s s' \<longrightarrow> before_open s')"
proof -
  let ?s0 = "shm_demo_start os" and ?sm = "SharedMemory_new ''MyMemory'' sizeof_MyData"
  obtain sm os1 where op: "open_demo api0 True ?sm os = Inr (sm, os1)" "mapped_at (map0 os1) sm" "content os1 = Some zero_data"
    using p0.open_ok [of os True ?sm] assms by (auto simp: SharedMemory_new_def mapped_at_def)
  define s1 where "s1 = ?s0\<lparr>sm0 := sm, demo_os := os1, peer0_at := Z_get\<rparr>"
  have "peer0 api0 pg0 (peer0_at ?s0) ?s0 = Some s1"
    using op(1) by (simp add: shm_demo_start_def s1_def)
  then have run1: "shm_run api0 api1 pg0 pg1 ?s0 s1"
    by (intro shm_next [OF shm_init] peer0_moves)
  obtain s2 where s2: "shm_run api0 api1 pg0 pg1 s1 s2" "peer1_at s2 = W_done" "peer0_at s2 = peer0_at s1" "sm0 s2 = sm0 s1"
    "ptr0 s2 = ptr0 s1" "map0 (demo_os s2) = map0 (demo_os s1)" "content (demo_os s2) = Some (zero_data\<lparr>md_readDone := True\<rparr>)"
    by (rule peer1_in_time [of s1 zero_data]) (use op in \<open>auto simp: s1_def shm_demo_start_def zero_data_def\<close>)
  have "before_open s2"
    using s2(3-7) op(2) by (simp add: before_open_def s1_def zero_data_def)
  then show ?thesis
    using shm_run_trans [OF s2(1) run1] s2(2) waits_forever by blast
qed

end

section \<open>An instance\<close>

text \<open>One object, mapped by the two processes at different pages.\<close>

record one_object =
  the_object :: "MyData option"
  view0 :: "addr option"
  view1 :: "addr option"

definition set_view :: "bool \<Rightarrow> addr option \<Rightarrow> one_object \<Rightarrow> one_object" where
  "set_view first v w = (if first then w\<lparr>view0 := v\<rparr> else w\<lparr>view1 := v\<rparr>)"

definition object_api :: "bool \<Rightarrow> one_object shm_api" where
  "object_api first = \<lparr>shm_open = (\<lambda>n create w. case the_object w of
        None \<Rightarrow> if create then (3, w\<lparr>the_object := Some zero_data\<rparr>) else (- 1, w)
      | Some _ \<Rightarrow> (3, w)),
     ftruncate = (\<lambda>_ _ w. (0, w)),
     mmap = (\<lambda>_ _ w. let p = if first then 0x10000 else 0x20000 in (p, set_view first (Some p) w)),
     munmap = (\<lambda>_ _ w. set_view first None w), shm_unlink = (\<lambda>_ w. w\<lparr>the_object := None\<rparr>)\<rparr>"

definition object_pages :: "bool \<Rightarrow> one_object pages" where
  "object_pages first = \<lparr>load_data = (\<lambda>p w. if (if first then view0 w else view1 w) = Some p then the_object w else None),
     store_data = (\<lambda>p f w. if (if first then view0 w else view1 w) = Some p
       then Some (w\<lparr>the_object := map_option f (the_object w)\<rparr>) else None)\<rparr>"

interpretation objects: shared_pair "object_api True" "object_pages True" the_object view0 view1 "\<lambda>w fd. fd = 3 \<and> the_object w \<noteq> None"
    "object_api False" "object_pages False" "\<lambda>w fd. fd = 3 \<and> the_object w \<noteq> None"
  by unfold_locales
    (auto simp: object_api_def object_pages_def set_view_def Let_def split: option.splits if_splits)

fun shm_exec :: "'o shm_api \<Rightarrow> 'o shm_api \<Rightarrow> 'o pages \<Rightarrow> 'o pages \<Rightarrow> bool list \<Rightarrow> 'o shm_demo \<Rightarrow> 'o shm_demo option" where
  "shm_exec api0 api1 pg0 pg1 [] s = Some s"
| "shm_exec api0 api1 pg0 pg1 (first # sched) s =
     Option.bind (if first then peer0 api0 pg0 (peer0_at s) s else peer1 api1 pg1 (peer1_at s) s)
       (shm_exec api0 api1 pg0 pg1 sched)"

lemma shm_exec_run: "shm_exec api0 api1 pg0 pg1 sched s = Some s' \<Longrightarrow> shm_run api0 api1 pg0 pg1 s s'"
proof (induction sched arbitrary: s)
  case (Cons first sched)
  then obtain s1 where s1: "(if first then peer0 api0 pg0 (peer0_at s) s else peer1 api1 pg1 (peer1_at s) s) = Some s1"
    "shm_exec api0 api1 pg0 pg1 sched s1 = Some s'"
    by (auto simp: bind_eq_Some_conv)
  have "shm_step api0 api1 pg0 pg1 s s1"
    using s1(1) by (cases first) (auto intro: shm_step.intros)
  then show ?case
    using shm_run_step Cons.IH [OF s1(2)] by blast
qed (simp add: shm_init)

section \<open>Properties\<close>

text \<open>C37: the shared memory example works when the second process starts after the first has announced that it waits.
  Then, in every interleaving, neither process ends with an error, the second one prints exactly the members that the first
  has written, the first one stops waiting only after the second has printed them, and both
  can always go on to the end. The object outlives them both: its name is never unlinked.\<close>

theorem SharedMemory_example_orderly:
  assumes "shared_pair api0 pg0 content map0 map1 refers0 api1 pg1 refers1"
    and "\<And>d. content os = Some d \<Longrightarrow> length (md_message d) = 256"
    and "shm_run api0 api1 pg0 pg1 (shm_demo_start os) s0" "peer0_at s0 = Z_wait" "peer1_at s0 = W_open"
    and "shm_run api0 api1 pg0 pg1 s0 s"
  shows "peer0_at s \<noteq> Z_crashed \<and> peer1_at s \<noteq> W_crashed \<and> out1 s = shown (peer1_at s) \<and>
    (peer0_at s \<noteq> Z_wait \<longrightarrow> peer1_at s \<in> {W_close, W_done}) \<and> content (demo_os s) \<noteq> None \<and>
    (\<exists>s'. shm_run api0 api1 pg0 pg1 s s' \<and> peer0_at s' = Z_done \<and> peer1_at s' = W_done)"
proof -
  have "shared_pair.after_announce content map0 map1 s0"
    using shared_pair.run_before_open [OF assms(1,3,5,2)] shared_pair.before_after [OF assms(1) _ _ assms(4,5)] by blast
  then have inv: "shared_pair.after_announce content map0 map1 s"
    using shared_pair.run_after [OF assms(1,6)] by blast
  have "peer1_at s \<noteq> W_crashed"
    using inv unfolding shared_pair.after_announce_def [OF assms(1)] by auto
  then show ?thesis
    using inv shared_pair.can_end [OF assms(1) inv] unfolding shared_pair.after_announce_def [OF assms(1)] by auto
qed

theorem SharedMemory_example_orderly_witness:
  "\<exists>s0 s. shm_run (object_api True) (object_api False) (object_pages True) (object_pages False)
      (shm_demo_start \<lparr>the_object = None, view0 = None, view1 = None\<rparr>) s0 \<and> peer0_at s0 = Z_wait \<and>
     shm_run (object_api True) (object_api False) (object_pages True) (object_pages False) s0 s \<and>
     peer1_at s = W_done \<and> out1 s = shown W_done"
proof -
  let ?os = "\<lparr>the_object = None, view0 = None, view1 = None\<rparr>"
  let ?run = "shm_exec (object_api True) (object_api False) (object_pages True) (object_pages False) (replicate 26 True) (shm_demo_start ?os)"
  have "map_option (\<lambda>s. (peer0_at s, peer1_at s)) ?run = Some (Z_wait, W_open)"
    by code_simp
  then obtain s0 where s0: "?run = Some s0" "peer0_at s0 = Z_wait" "peer1_at s0 = W_open"
    by auto
  have run0: "shm_run (object_api True) (object_api False) (object_pages True) (object_pages False) (shm_demo_start ?os) s0"
    by (rule shm_exec_run [OF s0(1)])
  note ok = SharedMemory_example_orderly [OF objects.shared_pair_axioms _ run0 s0(2,3)]
  obtain s where s: "shm_run (object_api True) (object_api False) (object_pages True) (object_pages False) s0 s" "peer1_at s = W_done"
    using ok [OF _ shm_init] by auto
  then show ?thesis
    using run0 s0(2) ok [OF _ s(1)] by auto
qed

text \<open>C38: the shared memory example relies on its user for the order. When the object does not exist yet, there is an
  interleaving in which the second process reads through NULL, since the result of \<open>open\<close> is not looked at; and one in which the second process
  reads the object before it is written, sets \<open>readDone\<close> and ends, after which the first process resets it
  and waits for ever.\<close>

theorem SharedMemory_example_races:
  assumes "shared_pair api0 pg0 content map0 map1 refers0 api1 pg1 refers1" "content os = None"
  shows "(\<exists>s. shm_run api0 api1 pg0 pg1 (shm_demo_start os) s \<and> peer1_at s = W_crashed) \<and>
    (\<exists>s. shm_run api0 api1 pg0 pg1 (shm_demo_start os) s \<and> peer1_at s = W_done \<and>
      (\<forall>s'. shm_run api0 api1 pg0 pg1 s s' \<longrightarrow> peer0_at s' \<notin> {Z_bye, Z_close, Z_done, Z_crashed}))"
proof
  show "\<exists>s. shm_run api0 api1 pg0 pg1 (shm_demo_start os) s \<and> peer1_at s = W_crashed"
    by (rule shared_pair.peer1_too_early [OF assms(1)]) (simp_all add: shm_demo_start_def assms(2))
  have "peer0_at s \<notin> {Z_bye, Z_close, Z_done, Z_crashed}" if "shared_pair.before_open content map0 s" for s
    using that unfolding shared_pair.before_open_def [OF assms(1)] by (auto split: option.splits)
  then show "\<exists>s. shm_run api0 api1 pg0 pg1 (shm_demo_start os) s \<and> peer1_at s = W_done \<and>
      (\<forall>s'. shm_run api0 api1 pg0 pg1 s s' \<longrightarrow> peer0_at s' \<notin> {Z_bye, Z_close, Z_done, Z_crashed})"
    using shared_pair.hangs [OF assms] by blast
qed

theorem SharedMemory_example_races_witness:
  "\<exists>s. shm_run (object_api True) (object_api False) (object_pages True) (object_pages False)
      (shm_demo_start \<lparr>the_object = None, view0 = None, view1 = None\<rparr>) s \<and> peer1_at s = W_crashed"
  using SharedMemory_example_races [OF objects.shared_pair_axioms, of "\<lparr>the_object = None, view0 = None, view1 = None\<rparr>"] by auto

end
