(* ===== verification/Spec2Isabelle.thy ===== *)
theory Spec2Isabelle
  imports ByteRing_Theorems Signal Semaphore SPSCQueue_Threads Rpc Reflection TaskFuture
    Sockets NamedPipe Serial OsUtilities DiffieHellman Certificates
    Examples_Crypto Examples_Semaphore Examples_Pipe Examples_Rpc Examples_Serialization
    Examples_Queue Examples_SharedMemory
begin

text \<open>
  Verification of the Gicame library, a C++17 library of building blocks for programs that
  exchange data: queues and signals between threads and processes, shared memory, streams,
  serialization, remote procedure calls, sockets, pipes and serial ports, and a layer of
  cryptography over OpenSSL. The theories model its sources under \<^verbatim>\<open>src/src\<close> and
  \<^verbatim>\<open>src/headers\<close> (the target is 64-bit; \<open>size_t\<close> is a 64-bit word everywhere).

  \<^bold>\<open>How code is modelled.\<close> A class is a record of its data members; a member function is a
  definition from the object, and the state of the system it calls, to its return value and the
  new object and system. An exception is the left side of the sum type \<open>result\<close>
  (\<open>Gicame_Prelude\<close>); undefined behaviour is such a value too, so that its absence can be
  proved and its presence exhibited. Loops are recursive functions, with a measure where the
  recursion is not structural; a loop that may run forever is a partial function
  into \<open>option\<close>, whose \<open>None\<close> means that it does not return, and that it returns is then a
  theorem. No model uses fuel. Threads and processes are step functions of their program
  counters, interleaved arbitrarily by an inductive reachability relation. The operating system
  and OpenSSL are parameters: a record of functions for the calls made, and a locale for
  what their documentation promises, proved consistent by an interpretation on a concrete
  instance, on which the witnesses run.

  \<^bold>\<open>Queues between processes.\<close> \<open>CircularBuffer\<close>: the index arithmetic of
  \<^verbatim>\<open>implementation_details/CircularBuffer.h\<close>. \<open>ByteRing\<close>: \<^verbatim>\<open>concurrency/ByteRing.h\<close>, where
  \<open>push\<close> and \<open>pop\<close> are the step functions of a producer and a consumer over shared memory,
  for an arbitrary policy of waiting; \<open>ByteRing_Fifo\<close> shows that the bytes arrive in
  order and that no copy leaves its buffers, by an invariant of all interleavings, and \<open>ByteRing_Progress\<close>
  that from every reachable state all calls can complete. \<open>SharedMemory\<close>
  (\<^verbatim>\<open>sm/SharedMemory.cpp\<close>, \<^verbatim>\<open>utils/Memory.h\<close>), \<open>InterprocessSignal\<close> (\<^verbatim>\<open>InterprocessSignal.cpp\<close>,
  \<^verbatim>\<open>futex/Futex.h\<close>) and \<open>InterprocessQueue\<close> (\<^verbatim>\<open>InterprocessQueue.cpp\<close>) are the mapping, the signals and
  the queue built from them; \<open>ByteRing_Theorems\<close> has the properties of the whole: layout
  of the mapping, delivery, completion, and the wake-up that the POSIX signal can lose.

  \<^bold>\<open>Threads.\<close> \<open>Signal\<close> (\<^verbatim>\<open>concurrency/Signal.h\<close>): signals, groups and waiting with timeouts; no
  signal is lost or consumed twice. \<open>MultiLock\<close> and \<open>Semaphore\<close> (\<^verbatim>\<open>MultiLock.h\<close>,
  \<^verbatim>\<open>Semaphore.cpp\<close>): the recursive lock refines holding one unit of the semaphore, \<open>acquire\<close>
  returns despite interruptions, deadlines are computed without error. \<open>SPSCQueue\<close>
  (\<^verbatim>\<open>SPSCQueue.cpp\<close>): its loop is equivalent to the block copies of the ring. \<open>SPSCQueue_Threads\<close> has its two threads step by step over the
  two signals: with a buffer of the capacity's size they refine the ring between processes, deliver everything in
  order and always can complete; as constructed no byte is ever delivered and \<open>push\<close> writes outside the buffer. \<open>TaskExecutor\<close> and \<open>TaskFuture\<close> (\<^verbatim>\<open>TaskExecutor.cpp\<close>, \<^verbatim>\<open>TaskExecutor.hpp\<close>):
  tasks are run once and in order, a caller that waits for each of them always gets through,
  and the ways in which submissions hang, report the wrong task or dangle.

  \<^bold>\<open>Data.\<close> \<open>Numbers\<close> (\<^verbatim>\<open>utils/Numbers.h\<close>): the checked conversion is exact. \<open>LittleEndian\<close>: the
  bytes of a value. \<open>MemoryStream\<close>, \<open>BinarySerializer\<close>, \<open>Reflection\<close> (\<^verbatim>\<open>stream/\<close>,
  \<^verbatim>\<open>dataSerialization/\<close>, \<^verbatim>\<open>reflection/\<close>, \<^verbatim>\<open>serialization/\<close>): what is serialized is deserialized to
  an equal object, and too small a buffer is reported. \<open>DataTransfer\<close> (\<^verbatim>\<open>interfaces/\<close>,
  \<^verbatim>\<open>dataTransfer/\<close>): objects and texts over any connection, whatever its fragmentation. \<open>Rpc\<close>
  (\<^verbatim>\<open>rpc/\<close>): a remote call gives what the local one would; no bytes from the peer make the
  server leave its buffers.

  \<^bold>\<open>Connections.\<close> \<open>Addresses\<close> and \<open>Sockets\<close> (\<^verbatim>\<open>network/\<close>), \<open>NamedPipe\<close> (\<^verbatim>\<open>os/NamedPipe.cpp\<close>),
  \<open>Serial\<close> (\<^verbatim>\<open>device/Serial.cpp\<close>): no descriptor is leaked by any sequence of calls, what arrives is
  delivered, and the failures that leave an object with a descriptor it does not own.
  \<open>OsUtilities\<close>: dynamic libraries, the last error and whole files (\<^verbatim>\<open>os/\<close>, \<^verbatim>\<open>io/Io.h\<close>).

  \<^bold>\<open>Cryptography.\<close> \<open>Encryption\<close> (\<^verbatim>\<open>crypto/encryption/\<close>, \<^verbatim>\<open>SymmetricKey.cpp\<close>): round trip of the
  one-shot functions, the exact conditions under which the others overflow their buffers, contexts given
  back on every path. \<open>Digests\<close> (\<^verbatim>\<open>crypto/hash/\<close>, \<^verbatim>\<open>crypto/random/\<close>): digests of whole messages,
  keyed digests independent of how the message is cut, termination of the random generator's
  loop. \<open>DiffieHellman\<close> (\<^verbatim>\<open>crypto/dh/\<close>): both sides agree; refused parameters are freed twice.
  \<open>Certificates\<close> (\<^verbatim>\<open>crypto/key/EvpKey.cpp\<close>, \<^verbatim>\<open>crypto/ds/\<close>, \<^verbatim>\<open>crypto/certificate/\<close>): keys read back,
  signatures verify, names are leaked.

  \<^bold>\<open>Examples.\<close> The programs under \<^verbatim>\<open>src/examples\<close> compose the components, and their theorems are those of whole
  programs. \<open>Console\<close> has what they share. \<open>Examples_Crypto\<close>: a file is encrypted and recovered, a signature is verified.
  \<open>Examples_Semaphore\<close>: two threads synchronised by a named semaphore print one order of lines, unless the
  semaphore is left over from a killed run. \<open>Examples_Pipe\<close>: client and server over one FIFO, where the client can take its own
  request for the reply. \<open>Examples_Rpc\<close>: server and client over TCP, and what a request in pieces does. \<open>Examples_Serialization\<close>: the
  tree and the two round trips. \<open>Examples_Queue\<close>: producers and consumers that count errors, and \<^verbatim>\<open>main\<close>, which as
  it is never gets past its first two threads. \<open>Examples_SharedMemory\<close>: two
  processes and the order they rely on.

  \<^bold>\<open>Not modelled.\<close> The security of the cryptographic primitives, which are OpenSSL's; weak
  memory ordering: steps interleave as if every atomic access were sequentially consistent, where the
  code asks for acquire and release on the indices of its queues; spurious wake-ups and the passing of time, except as choices of the scheduler; the life of shared
  pointers to keys and certificates. The text formatting of floating point numbers and the sleeping of the examples. The macros of \<^verbatim>\<open>common.h\<close> have no behaviour of their own, the
  tests only call the library, and \<^verbatim>\<open>vs/\<close> is generated.
\<close>

end
